(* ===== verification/Rust_Prelude.thy ===== *)
theory Rust_Prelude
  imports Main "HOL-Library.Word" "HOL-Library.Char_ord" "HOL-Library.List_Lexorder"
    "HOL-Library.Sublist"
begin

text \<open>
  What the components share: the machine integers of the source, Rust's fallible results as
  sums, the operations of \<open>str\<close> and of slices that the code calls, and the lemmas about
  them.  A Rust \<open>str\<close> whose code looks at ASCII characters only (paths, targets, hashes,
  time stamps) is a \<open>string\<close>, that is its UTF-8 bytes as characters; a text whose Unicode
  scalar values matter (comment bodies, author names, titles) is a list of code points.
\<close>

named_theorems result_simps "equations of the fallible operations"
named_theorems wf_intros "introduction rules of the well-formedness predicates"

type_synonym u8 = "8 word"
type_synonym u16 = "16 word"
type_synonym u32 = "32 word"
type_synonym u64 = "64 word"
type_synonym bytes = "u8 list"
type_synonym ustr = "nat list"

section \<open>Fallible results\<close>

text \<open>\<open>Result\<close> is a sum with the error on the left; \<open>?\<close> is \<open>and_then\<close>.\<close>

fun and_then :: "'e + 'a \<Rightarrow> ('a \<Rightarrow> 'e + 'b) \<Rightarrow> 'e + 'b" where
  "and_then (Inl e) f = Inl e"
| "and_then (Inr x) f = f x"

lemma and_then_Inr [result_simps]:
  "and_then r f = Inr y \<longleftrightarrow> (\<exists>x. r = Inr x \<and> f x = Inr y)"
  by (cases r) auto

lemma and_then_Inl [result_simps]:
  "and_then r f = Inl e \<longleftrightarrow> r = Inl e \<or> (\<exists>x. r = Inr x \<and> f x = Inl e)"
  by (cases r) auto

lemma and_then_cong [fundef_cong]:
  "r = r' \<Longrightarrow> (\<And>x. r' = Inr x \<Longrightarrow> f x = g x) \<Longrightarrow> and_then r f = and_then r' g"
  by (cases r') auto

text \<open>\<open>if cond { bail!(e) }\<close>: the guard that lets the code go on when it holds.\<close>

definition ensure :: "bool \<Rightarrow> 'e \<Rightarrow> 'e + unit" where
  "ensure b e = (if b then Inr () else Inl e)"

lemma ensure_Inr [simp]: "ensure b e = Inr u \<longleftrightarrow> b"
  by (simp add: ensure_def)

lemma ensure_Inl [simp]: "ensure b e = Inl e' \<longleftrightarrow> \<not> b \<and> e' = e"
  by (auto simp: ensure_def)

lemma ensure_simps [simp]: "ensure True e = Inr ()" "ensure False e = Inl e"
  by (simp_all add: ensure_def)

text \<open>A loop that runs a check on every element and stops at the first error.\<close>

fun try_each :: "('a \<Rightarrow> 'e + unit) \<Rightarrow> 'a list \<Rightarrow> 'e + unit" where
  "try_each f [] = Inr ()"
| "try_each f (x # xs) = and_then (f x) (\<lambda>_. try_each f xs)"

lemma try_each_Inr [simp]: "try_each f xs = Inr u \<longleftrightarrow> (\<forall>x \<in> set xs. f x = Inr ())"
  by (induction xs) (auto simp: result_simps)

text \<open>\<open>map(..).collect::<Result<Vec<_>>>()\<close>.\<close>

fun try_map :: "('a \<Rightarrow> 'e + 'b) \<Rightarrow> 'a list \<Rightarrow> 'e + 'b list" where
  "try_map f [] = Inr []"
| "try_map f (x # xs) =
     and_then (f x) (\<lambda>y. and_then (try_map f xs) (\<lambda>ys. Inr (y # ys)))"

lemma try_map_Inr: "try_map f xs = Inr ys \<longleftrightarrow> list_all2 (\<lambda>x y. f x = Inr y) xs ys"
  by (induction xs arbitrary: ys) (auto simp: result_simps list_all2_Cons1)

lemma try_map_length: "try_map f xs = Inr ys \<Longrightarrow> length ys = length xs"
  by (auto simp: try_map_Inr dest: list_all2_lengthD)

lemma try_map_all_Inr: "(\<And>x. x \<in> set xs \<Longrightarrow> f x = Inr (g x)) \<Longrightarrow> try_map f xs = Inr (map g xs)"
  by (induction xs) auto

section \<open>Machine integers\<close>

text \<open>\<open>checked_add\<close> of an unsigned width.\<close>

definition checked_add :: "'w::len word \<Rightarrow> 'w word \<Rightarrow> 'w word option" where
  "checked_add a b = (if unat a + unat b < 2 ^ LENGTH('w) then Some (a + b) else None)"

lemma checked_add_Some:
  "checked_add a (b :: 'w::len word) = Some c \<Longrightarrow> unat c = unat a + unat b"
  by (auto simp: checked_add_def unat_word_ariths split: if_splits)

lemma checked_add_less:
  assumes "checked_add a 1 = Some (c :: 'w::len word)"
  shows "a < c" and "0 < c"
proof -
  have "unat c = unat a + 1"
    using checked_add_Some [OF assms] by simp
  then show "a < c" "0 < c"
    by (simp_all add: word_less_nat_alt)
qed

lemma checked_add_of_nat:
  assumes "Suc n < 2 ^ LENGTH('w)"
  shows "checked_add (of_nat n :: 'w::len word) 1 = Some (of_nat (Suc n))"
proof -
  have "unat (of_nat n :: 'w word) = n"
    using assms by (simp add: unat_of_nat take_bit_nat_eq_self)
  moreover have "n + unat (1 :: 'w word) < 2 ^ LENGTH('w)"
    using assms by simp
  ultimately show ?thesis
    by (simp add: checked_add_def add.commute)
qed

section \<open>Operations of \<open>str\<close>\<close>

definition strip_prefix :: "'a list \<Rightarrow> 'a list \<Rightarrow> 'a list option" where
  "strip_prefix p s = (if take (length p) s = p then Some (drop (length p) s) else None)"

definition strip_suffix :: "'a list \<Rightarrow> 'a list \<Rightarrow> 'a list option" where
  "strip_suffix p s =
     (if length p \<le> length s \<and> drop (length s - length p) s = p
      then Some (take (length s - length p) s) else None)"

lemma strip_prefix_Some [simp]: "strip_prefix p s = Some t \<longleftrightarrow> s = p @ t"
  by (auto simp: strip_prefix_def) (metis append_take_drop_id)

lemma strip_suffix_Some [simp]: "strip_suffix p s = Some t \<longleftrightarrow> s = t @ p"
  by (auto simp: strip_suffix_def) (metis append_take_drop_id)

lemma strip_prefix_None: "strip_prefix p s = None \<longleftrightarrow> (\<forall>t. s \<noteq> p @ t)"
  using strip_prefix_Some [of p s] by (cases "strip_prefix p s") auto

lemma strip_suffix_None: "strip_suffix p s = None \<longleftrightarrow> (\<forall>t. s \<noteq> t @ p)"
  using strip_suffix_Some [of p s] by (cases "strip_suffix p s") auto

lemma strip_suffix_append [simp]: "strip_suffix p (t @ p) = Some t"
  by simp

text \<open>\<open>str::split(char)\<close>: always at least one piece.\<close>

fun split_on :: "'a \<Rightarrow> 'a list \<Rightarrow> 'a list list" where
  "split_on c [] = [[]]"
| "split_on c (x # xs) =
     (if x = c then [] # split_on c xs
      else (case split_on c xs of [] \<Rightarrow> [[x]] | w # ws \<Rightarrow> (x # w) # ws))"

fun join_with :: "'a \<Rightarrow> 'a list list \<Rightarrow> 'a list" where
  "join_with c [] = []"
| "join_with c [w] = w"
| "join_with c (w # v # ws) = w @ c # join_with c (v # ws)"

lemma split_on_not_Nil [simp]: "split_on c s \<noteq> []"
  by (induction s) (auto split: list.splits)

lemma split_on_no_sep: "w \<in> set (split_on c s) \<Longrightarrow> c \<notin> set w"
  by (induction s arbitrary: w) (auto split: list.splits if_splits)

lemma join_with_Cons: "ws \<noteq> [] \<Longrightarrow> join_with c (w # ws) = w @ c # join_with c ws"
  by (cases ws) auto

lemma join_with_Cons_Cons: "join_with c ((x # w) # ws) = x # join_with c (w # ws)"
  by (cases ws) auto

lemma join_split [simp]: "join_with c (split_on c s) = s"
proof (induction s)
  case (Cons x xs)
  then show ?case
    by (cases "split_on c xs") (auto simp: join_with_Cons join_with_Cons_Cons)
qed simp

lemma split_on_single: "c \<notin> set w \<Longrightarrow> split_on c w = [w]"
  by (induction w) auto

lemma split_on_append: "c \<notin> set w \<Longrightarrow> split_on c (w @ c # s) = w # split_on c s"
  by (induction w) auto

lemma split_on_append_sep: "split_on c (s @ c # t) = split_on c s @ split_on c t"
proof (induction s)
  case (Cons x xs)
  then show ?case by (cases "split_on c xs") auto
qed simp

lemma split_join:
  "ws \<noteq> [] \<Longrightarrow> (\<forall>w \<in> set ws. c \<notin> set w) \<Longrightarrow> split_on c (join_with c ws) = ws"
  by (induction c ws rule: join_with.induct) (auto simp: split_on_single split_on_append)

lemma split_on_append_no_sep:
  "c \<notin> set t \<Longrightarrow> split_on c (s @ t) = butlast (split_on c s) @ [last (split_on c s) @ t]"
proof (induction s)
  case Nil
  then show ?case by (simp add: split_on_single)
next
  case (Cons x xs)
  then show ?case by (cases "split_on c xs") auto
qed

lemma set_join_with: "set (join_with c ws) \<subseteq> insert c (\<Union> (set ` set ws))"
  by (induction c ws rule: join_with.induct) auto

text \<open>\<open>split_once\<close> and \<open>rsplit_once\<close>: the text around the first, the last separator.\<close>

fun split_once :: "'a \<Rightarrow> 'a list \<Rightarrow> ('a list \<times> 'a list) option" where
  "split_once c [] = None"
| "split_once c (x # xs) =
     (if x = c then Some ([], xs)
      else map_option (\<lambda>(a, b). (x # a, b)) (split_once c xs))"

definition rsplit_once :: "'a \<Rightarrow> 'a list \<Rightarrow> ('a list \<times> 'a list) option" where
  "rsplit_once c s = map_option (\<lambda>(a, b). (rev b, rev a)) (split_once c (rev s))"

lemma split_once_Some: "split_once c s = Some (a, b) \<longleftrightarrow> s = a @ c # b \<and> c \<notin> set a"
proof (induction s arbitrary: a)
  case (Cons x xs)
  then show ?case by (cases a) auto
qed simp

lemma split_once_None: "split_once c s = None \<longleftrightarrow> c \<notin> set s"
  by (induction s) auto

lemma rsplit_once_Some: "rsplit_once c s = Some (a, b) \<longleftrightarrow> s = a @ c # b \<and> c \<notin> set b"
  by (auto simp: rsplit_once_def split_once_Some) (metis rev_append rev_rev_ident rev.simps(2) append.assoc append_Cons append_Nil set_rev)+

lemma rsplit_once_None: "rsplit_once c s = None \<longleftrightarrow> c \<notin> set s"
  by (simp add: rsplit_once_def split_once_None)

text \<open>\<open>str::lines\<close>: pieces up to a line feed, a carriage return before it dropped; the empty
  piece after a final line feed is no line.\<close>

definition chomp_cr :: "'a \<Rightarrow> 'a list \<Rightarrow> 'a list" where
  "chomp_cr cr l = (case strip_suffix [cr] l of None \<Rightarrow> l | Some t \<Rightarrow> t)"

fun lines_of :: "'a \<Rightarrow> 'a \<Rightarrow> 'a list \<Rightarrow> 'a list list" where
  "lines_of nl cr s =
     (let ps = split_on nl s
      in map (chomp_cr cr) (butlast ps) @ (if last ps = [] then [] else [last ps]))"

lemma lines_of_terminated:
  assumes "\<forall>l \<in> set ls. nl \<notin> set l \<and> strip_suffix [cr] l = None"
  shows "lines_of nl cr (concat (map (\<lambda>l. l @ [nl]) ls)) = ls"
proof -
  have "split_on nl (concat (map (\<lambda>l. l @ [nl]) ls)) = ls @ [[]]"
    using assms by (induction ls) (auto simp: split_on_append)
  then show ?thesis
    using assms by (auto simp: chomp_cr_def intro!: map_idI)
qed

text \<open>\<open>trim\<close> of the code points in a class of white space.\<close>

definition trim_by :: "('a \<Rightarrow> bool) \<Rightarrow> 'a list \<Rightarrow> 'a list" where
  "trim_by ws s = rev (dropWhile ws (rev (dropWhile ws s)))"

lemma trim_by_infix: "\<exists>a b. s = a @ trim_by ws s @ b"
proof -
  let ?m = "dropWhile ws s"
  have "s = takeWhile ws s @ ?m" by simp
  moreover have "?m = rev (dropWhile ws (rev ?m)) @ rev (takeWhile ws (rev ?m))"
    by (metis rev_append rev_rev_ident takeWhile_dropWhile_id)
  ultimately show ?thesis
    unfolding trim_by_def by metis
qed

lemma set_trim_by: "set (trim_by ws s) \<subseteq> set s"
  using trim_by_infix [of s ws] by (metis Un_iff set_append subsetI)

section \<open>UTF-8 lengths of code point lists\<close>

text \<open>\<open>char::len_utf8\<close>, and \<open>str::len\<close> as the sum over the characters.\<close>

definition len_utf8 :: "nat \<Rightarrow> nat" where
  "len_utf8 c = (if c < 128 then 1 else if c < 2048 then 2 else if c < 65536 then 3 else 4)"

definition ulen :: "ustr \<Rightarrow> nat" where
  "ulen s = (\<Sum>c \<leftarrow> s. len_utf8 c)"

lemma ulen_simps [simp]:
  "ulen [] = 0" "ulen (c # s) = len_utf8 c + ulen s" "ulen (s @ t) = ulen s + ulen t"
  by (simp_all add: ulen_def)

lemma len_utf8_pos: "0 < len_utf8 c"
  by (simp add: len_utf8_def)

lemma ulen_filter_le: "ulen (filter P s) \<le> ulen s"
  by (induction s) auto

lemma ulen_trim_le: "ulen (trim_by ws s) \<le> ulen s"
  using trim_by_infix [of s ws] by (metis add.left_commute le_add1 ulen_simps(3))

text \<open>ASCII literals as code points.\<close>

definition u_of :: "string \<Rightarrow> ustr" where
  "u_of s = map of_char s"

section \<open>ASCII classes\<close>

definition is_ascii_lowercase :: "char \<Rightarrow> bool" where
  "is_ascii_lowercase c \<longleftrightarrow> CHR ''a'' \<le> c \<and> c \<le> CHR ''z''"

definition is_ascii_digit :: "char \<Rightarrow> bool" where
  "is_ascii_digit c \<longleftrightarrow> CHR ''0'' \<le> c \<and> c \<le> CHR ''9''"

definition is_ascii_hexdigit :: "char \<Rightarrow> bool" where
  "is_ascii_hexdigit c \<longleftrightarrow> is_ascii_digit c \<or> (CHR ''a'' \<le> c \<and> c \<le> CHR ''f'')
     \<or> (CHR ''A'' \<le> c \<and> c \<le> CHR ''F'')"

lemmas ascii_defs = is_ascii_lowercase_def is_ascii_digit_def is_ascii_hexdigit_def

text \<open>\<open>char::is_control\<close>: the code points of category Cc.\<close>

definition is_control :: "nat \<Rightarrow> bool" where
  "is_control c \<longleftrightarrow> c \<le> 31 \<or> 127 \<le> c \<and> c \<le> 159"

section \<open>Pieces of lists\<close>

text \<open>\<open>slice::chunks(n)\<close>.\<close>

function chunks :: "nat \<Rightarrow> 'a list \<Rightarrow> 'a list list" where
  "chunks n xs = (if n = 0 \<or> xs = [] then [] else take n xs # chunks n (drop n xs))"
  by pat_completeness auto
termination
  by (relation "measure (\<lambda>(n, xs). length xs)") auto

declare chunks.simps [simp del]

lemma concat_chunks: "0 < n \<Longrightarrow> concat (chunks n xs) = xs"
proof (induction n xs rule: chunks.induct)
  case (1 n xs)
  then show ?case by (subst chunks.simps) auto
qed

lemma length_chunks: "0 < n \<Longrightarrow> length xs \<le> k * n \<Longrightarrow> length (chunks n xs) \<le> k"
proof (induction n xs arbitrary: k rule: chunks.induct)
  case (1 n xs)
  show ?case
  proof (cases "xs = []")
    case True
    then show ?thesis by (subst chunks.simps) simp
  next
    case False
    with "1.prems" obtain m where k: "k = Suc m"
      by (cases k) auto
    from "1.prems" k have "length (drop n xs) \<le> m * n" by simp
    with "1.IH" "1.prems" False have "length (chunks n (drop n xs)) \<le> m" by simp
    with k False "1.prems" show ?thesis by (subst chunks.simps) simp
  qed
qed

lemma chunk_length: "c \<in> set (chunks n xs) \<Longrightarrow> length c \<le> n \<and> c \<noteq> []"
proof (induction n xs rule: chunks.induct)
  case (1 n xs)
  then show ?case
    by (subst (asm) (2) chunks.simps) (auto split: if_splits)
qed

lemma filter_distinct_map: "distinct (map f xs) \<Longrightarrow> distinct (map f (filter P xs))"
  by (induction xs) auto

end
