(* ===== verification/Content_Model.thy ===== *)
theory Content_Model
  imports Rust_Prelude
begin

text \<open>
  The path model of \<^verbatim>\<open>crates/content-model/src/lib.rs\<close>: article paths, comment
  attachments, content scopes, the scope manifest and the article index.  Every path is the
  UTF-8 text of the source's \<open>str\<close>; the characters the validators accept are ASCII, so a
  byte that is part of a longer sequence is refused exactly where the code refuses the
  character.  An error carries what its message shows, except for the offending character.
\<close>

section \<open>Data\<close>

datatype path_error =
    Path_empty string | Path_slashes string | Path_backslash string
  | Path_empty_segment string | Path_dot_segment string string
  | Path_hidden_segment string string
  | Segment_empty | Bad_article_char | Bad_resource_char
  | Ext_not_md | File_name_empty
  | Target_too_long | Target_slashes
  | Manifest_missing_tab nat | Manifest_extra_fields nat
  | Manifest_inconsistent nat | Manifest_duplicate nat
  | Index_version u32 | Index_inconsistent string | Index_bad_date string
  | Index_title_control string | Index_duplicate string
  | Panic_validated_target

record article_path =
  ap_source_rel :: string
  ap_key :: string
  ap_route :: string
  ap_directory_rel :: string

record comment_attachment =
  ca_directory_rel :: string
  ca_fifo_rel :: string
  ca_target :: string

record content_scope =
  cs_directory_rel :: string
  cs_target :: string
  cs_comment_rel :: string
  cs_proc_rel :: string
  cs_stat_rel :: string

record article_index_entry =
  ae_date10 :: string
  ae_source_rel :: string
  ae_key :: string
  ae_route :: string
  ae_title :: ustr

record article_index =
  ai_version :: u32
  ai_articles :: "article_index_entry list"

definition MAX_TARGET_LEN :: nat where
  "MAX_TARGET_LEN = 200"

section \<open>Validators\<close>

definition article_char :: "char \<Rightarrow> bool" where
  "article_char c \<longleftrightarrow> is_ascii_lowercase c \<or> is_ascii_digit c \<or> c = CHR ''-''"

definition resource_char :: "char \<Rightarrow> bool" where
  "resource_char c \<longleftrightarrow> is_ascii_lowercase c \<or> is_ascii_digit c \<or> c \<in> {CHR ''.'', CHR ''_'', CHR ''-''}"

definition validate_article_segment :: "string \<Rightarrow> path_error + unit" where
  "validate_article_segment segment =
     and_then (ensure (segment \<noteq> []) Segment_empty) (\<lambda>_.
       ensure (list_all article_char segment) Bad_article_char)"

definition validate_article_source_segment :: "string \<Rightarrow> path_error + unit" where
  "validate_article_source_segment segment =
     (case strip_suffix ''.md'' segment of
        Some stem \<Rightarrow> validate_article_segment stem
      | None \<Rightarrow> validate_article_segment segment)"

definition validate_resource_segment :: "string \<Rightarrow> path_error + unit" where
  "validate_resource_segment segment = ensure (list_all resource_char segment) Bad_resource_char"

text \<open>The body of the loop of \<open>validate_relative\<close>.\<close>

definition validate_segment ::
  "(string \<Rightarrow> path_error + unit) \<Rightarrow> string \<Rightarrow> string \<Rightarrow> path_error + unit" where
  "validate_segment segment_validator kind segment =
     and_then (ensure (segment \<noteq> []) (Path_empty_segment kind)) (\<lambda>_.
     and_then (ensure (segment \<notin> {''.'', ''..''}) (Path_dot_segment kind segment)) (\<lambda>_.
     and_then (ensure (\<not> prefix ''.'' segment) (Path_hidden_segment kind segment)) (\<lambda>_.
       segment_validator segment)))"

definition validate_relative ::
  "string \<Rightarrow> bool \<Rightarrow> (string \<Rightarrow> path_error + unit) \<Rightarrow> string \<Rightarrow> path_error + unit" where
  "validate_relative path allow_empty segment_validator kind =
     (if path = [] then (if allow_empty then Inr () else Inl (Path_empty kind))
      else if prefix ''/'' path \<or> suffix ''/'' path then Inl (Path_slashes kind)
      else if CHR 92 \<in> set path then Inl (Path_backslash kind)
      else try_each (validate_segment segment_validator kind) (split_on (CHR ''/'') path))"

definition validate_target :: "string \<Rightarrow> path_error + unit" where
  "validate_target target =
     (if target = ''/'' then Inr ()
      else if MAX_TARGET_LEN < length target then Inl Target_too_long
      else case Option.bind (strip_prefix ''/'' target) (strip_suffix ''/'') of
          None \<Rightarrow> Inl Target_slashes
        | Some inner \<Rightarrow>
            validate_relative inner False validate_article_segment ''comment target'')"

definition validate_resource_rel :: "string \<Rightarrow> path_error + unit" where
  "validate_resource_rel path = validate_relative path False validate_resource_segment ''resource path''"

definition has_hidden_component :: "string \<Rightarrow> bool" where
  "has_hidden_component path \<longleftrightarrow> list_ex (prefix ''.'') (split_on (CHR ''/'') path)"

section \<open>Article paths, attachments and scopes\<close>

definition article_parse :: "string \<Rightarrow> path_error + article_path" where
  "article_parse source =
     and_then (validate_relative source False validate_article_source_segment ''article path'') (\<lambda>_.
     case strip_suffix ''.md'' source of
       None \<Rightarrow> Inl Ext_not_md
     | Some key \<Rightarrow>
         if key = [] \<or> suffix ''/'' key then Inl File_name_empty
         else and_then (try_each validate_article_segment (split_on (CHR ''/'') key)) (\<lambda>_.
           Inr \<lparr>ap_source_rel = source, ap_key = key, ap_route = ''/'' @ key @ ''/'',
                ap_directory_rel =
                  (case rsplit_once (CHR ''/'') key of None \<Rightarrow> [] | Some (parent, _) \<Rightarrow> parent)\<rparr>))"

definition attachment_from_directory_rel :: "string \<Rightarrow> path_error + comment_attachment" where
  "attachment_from_directory_rel directory =
     and_then (if directory \<noteq> []
               then validate_relative directory False validate_article_segment ''comment directory''
               else Inr ()) (\<lambda>_.
     let target = (if directory = [] then ''/'' else ''/'' @ directory @ ''/'')
     in and_then (validate_target target) (\<lambda>_.
       Inr \<lparr>ca_directory_rel = directory,
            ca_fifo_rel = (if directory = [] then ''comment'' else directory @ ''/comment''),
            ca_target = target\<rparr>))"

definition scope_from_directory_rel :: "string \<Rightarrow> path_error + content_scope" where
  "scope_from_directory_rel directory =
     and_then (attachment_from_directory_rel directory) (\<lambda>comment.
     let proc_rel = (if directory = [] then ''proc'' else ''proc/'' @ directory)
     in Inr \<lparr>cs_directory_rel = ca_directory_rel comment, cs_target = ca_target comment,
             cs_comment_rel = ca_fifo_rel comment, cs_proc_rel = proc_rel,
             cs_stat_rel = proc_rel @ ''/stat''\<rparr>)"

definition comment_attachment_of :: "content_scope \<Rightarrow> comment_attachment" where
  "comment_attachment_of s =
     \<lparr>ca_directory_rel = cs_directory_rel s, ca_fifo_rel = cs_comment_rel s, ca_target = cs_target s\<rparr>"

text \<open>\<open>expect("validated target")\<close> panics where the strips fail, here the error
  \<open>Panic_validated_target\<close>; \<open>scope_from_target_cases\<close> below shows that a validated
  target never reaches it.\<close>

definition target_directory :: "string \<Rightarrow> path_error + string" where
  "target_directory target =
     (if target = ''/'' then Inr []
      else case Option.bind (strip_prefix ''/'' target) (strip_suffix ''/'') of
          None \<Rightarrow> Inl Panic_validated_target | Some d \<Rightarrow> Inr d)"

definition scope_from_target :: "string \<Rightarrow> path_error + content_scope" where
  "scope_from_target target =
     and_then (validate_target target) (\<lambda>_.
     and_then (target_directory target) scope_from_directory_rel)"

definition contains_article :: "content_scope \<Rightarrow> article_path \<Rightarrow> bool" where
  "contains_article s a \<longleftrightarrow> ap_directory_rel a = cs_directory_rel s"

section \<open>What the validators accept\<close>

definition article_segment :: "string \<Rightarrow> bool" where
  "article_segment s \<longleftrightarrow> s \<noteq> [] \<and> (\<forall>c \<in> set s. article_char c)"

definition article_segments :: "string list \<Rightarrow> bool" where
  "article_segments ss \<longleftrightarrow> ss \<noteq> [] \<and> (\<forall>s \<in> set ss. article_segment s)"

abbreviation path_of :: "string list \<Rightarrow> string" where
  "path_of ss \<equiv> join_with (CHR ''/'') ss"

lemma article_char_not_special [simp]:
  "\<not> article_char (CHR ''/'')" "\<not> article_char (CHR ''.'')" "\<not> article_char (CHR 92)"
  "\<not> article_char (CHR 0x09)" "\<not> article_char (CHR 0x0A)" "\<not> article_char (CHR 0x0D)"
  by (simp_all add: article_char_def ascii_defs)

lemma validate_article_segment_Inr [simp]:
  "validate_article_segment s = Inr u \<longleftrightarrow> article_segment s"
  by (auto simp: validate_article_segment_def article_segment_def result_simps list_all_iff)

lemma article_segment_chars:
  assumes "article_segment s"
  shows "CHR ''/'' \<notin> set s" "CHR ''.'' \<notin> set s" "CHR 92 \<notin> set s" "s \<noteq> []"
    "CHR 0x09 \<notin> set s" "CHR 0x0A \<notin> set s" "CHR 0x0D \<notin> set s"
  using assms by (auto simp: article_segment_def)

lemma article_segment_validate:
  assumes "article_segment s"
  shows "validate_segment validate_article_segment kind s = Inr ()"
proof -
  have "\<not> prefix ''.'' s" "s \<notin> {''.'', ''..''}" "s \<noteq> []"
    using article_segment_chars(2,4) [OF assms] by (auto simp: prefix_def)
  with assms show ?thesis
    by (simp add: validate_segment_def result_simps)
qed

lemma validate_segment_Inr:
  "validate_segment validate_article_segment kind s = Inr u \<longleftrightarrow> article_segment s"
  using article_segment_validate [of s kind]
  by (auto simp: validate_segment_def result_simps)

lemma path_of_chars:
  assumes "article_segments ss"
  shows "CHR 92 \<notin> set (path_of ss)" "CHR ''.'' \<notin> set (path_of ss)"
    "CHR 0x09 \<notin> set (path_of ss)" "CHR 0x0A \<notin> set (path_of ss)" "CHR 0x0D \<notin> set (path_of ss)"
proof -
  have "article_char c \<or> c = CHR ''/''" if "c \<in> set (path_of ss)" for c
    using that set_join_with [of "CHR ''/''" ss] assms
    by (auto simp: article_segments_def article_segment_def)
  then show "CHR 92 \<notin> set (path_of ss)" "CHR ''.'' \<notin> set (path_of ss)"
    "CHR 0x09 \<notin> set (path_of ss)" "CHR 0x0A \<notin> set (path_of ss)" "CHR 0x0D \<notin> set (path_of ss)"
    by force+
qed

lemma split_path_of: "article_segments ss \<Longrightarrow> split_on (CHR ''/'') (path_of ss) = ss"
  by (rule split_join) (auto simp: article_segments_def dest: article_segment_chars)

lemma path_of_not_Nil:
  assumes "article_segments ss"
  shows "path_of ss \<noteq> []" "[] \<noteq> path_of ss"
  using split_path_of [OF assms] assms by (auto simp: article_segments_def article_segment_def)

lemma path_of_head: "article_segments ss \<Longrightarrow> \<not> prefix ''/'' (path_of ss)"
  using split_path_of [of ss]
  by (auto simp: prefix_def article_segments_def article_segment_def)

lemma path_of_last:
  assumes "article_segments ss"
  shows "\<not> suffix ''/'' (path_of ss)"
proof
  assume "suffix ''/'' (path_of ss)"
  then obtain t where "path_of ss = t @ [CHR ''/'']"
    by (auto simp: suffix_def)
  then have "[] \<in> set ss"
    using split_path_of [OF assms] by (auto simp: split_on_append_sep)
  with assms show False
    by (auto simp: article_segments_def article_segment_def)
qed

text \<open>The slash and backslash checks of \<open>validate_relative\<close> are implied by the segments.\<close>

lemma validate_relative_article:
  "validate_relative path False validate_article_segment kind = Inr u
     \<longleftrightarrow> (\<exists>ss. article_segments ss \<and> path = path_of ss)"
  (is "?L \<longleftrightarrow> ?R")
proof
  assume ?L
  then have "\<forall>s \<in> set (split_on (CHR ''/'') path). article_segment s"
    by (auto simp: validate_relative_def validate_segment_Inr split: if_splits)
  then have "article_segments (split_on (CHR ''/'') path)"
    by (simp add: article_segments_def)
  then show ?R
    by (metis join_split)
next
  assume ?R
  then obtain ss where ss: "article_segments ss" "path = path_of ss" by blast
  then have "\<forall>s \<in> set ss. validate_segment validate_article_segment kind s = Inr ()"
    by (simp add: article_segments_def validate_segment_Inr)
  with ss show ?L
    using path_of_not_Nil path_of_head path_of_last path_of_chars(1) split_path_of
    by (simp add: validate_relative_def)
qed

section \<open>Targets\<close>

lemma validate_target_Inr:
  "validate_target t = Inr u \<longleftrightarrow>
     t = ''/'' \<or> length t \<le> MAX_TARGET_LEN \<and> (\<exists>ss. article_segments ss \<and> t = ''/'' @ path_of ss @ ''/'')"
  (is "?L \<longleftrightarrow> ?R")
proof
  assume ?L
  then show ?R
    by (auto simp: validate_target_def validate_relative_article bind_eq_Some_conv
        split: if_splits option.splits)
next
  assume ?R
  then show ?L
  proof (elim disjE conjE exE)
    fix ss
    assume *: "length t \<le> MAX_TARGET_LEN" "article_segments ss" "t = ''/'' @ path_of ss @ ''/''"
    then have "Option.bind (strip_prefix ''/'' t) (strip_suffix ''/'') = Some (path_of ss)"
      by (simp add: bind_eq_Some_conv)
    with * show ?thesis
      by (auto simp: validate_target_def validate_relative_article)
  qed (simp add: validate_target_def)
qed

definition valid_target :: "string \<Rightarrow> bool" where
  "valid_target target = (case validate_target target of Inr _ \<Rightarrow> True | Inl _ \<Rightarrow> False)"

lemma valid_target_iff:
  "valid_target t \<longleftrightarrow>
     t = ''/'' \<or> length t \<le> MAX_TARGET_LEN \<and> (\<exists>ss. article_segments ss \<and> t = ''/'' @ path_of ss @ ''/'')"
  unfolding validate_target_Inr [of t "()", symmetric]
  by (auto simp: valid_target_def split: sum.splits)

lemma attachment_Inr:
  "attachment_from_directory_rel d = Inr a \<longleftrightarrow>
     (d = [] \<and> a = \<lparr>ca_directory_rel = [], ca_fifo_rel = ''comment'', ca_target = ''/''\<rparr>) \<or>
     (\<exists>ss. article_segments ss \<and> d = path_of ss \<and> length d + 2 \<le> MAX_TARGET_LEN
        \<and> a = \<lparr>ca_directory_rel = d, ca_fifo_rel = d @ ''/comment'', ca_target = ''/'' @ d @ ''/''\<rparr>)"
proof (cases "d = []")
  case True
  then show ?thesis
    by (auto simp: attachment_from_directory_rel_def validate_target_def dest: path_of_not_Nil)
next
  case False
  have "validate_target (''/'' @ path_of ss @ ''/'') = Inr () \<longleftrightarrow> length (path_of ss) + 2 \<le> MAX_TARGET_LEN"
    if "article_segments ss" for ss
    using that path_of_not_Nil [OF that] by (auto simp: validate_target_Inr)
  with False show ?thesis
    by (auto simp: attachment_from_directory_rel_def result_simps validate_relative_article Let_def)
qed

lemma target_directory_simps [simp]:
  "target_directory ''/'' = Inr []"
  "d \<noteq> [] \<Longrightarrow> target_directory (CHR ''/'' # d @ ''/'') = Inr d"
proof -
  show "target_directory ''/'' = Inr []"
    by (simp add: target_directory_def)
  assume "d \<noteq> []"
  moreover have "Option.bind (strip_prefix ''/'' (CHR ''/'' # d @ ''/'')) (strip_suffix ''/'') = Some d"
    by (simp add: bind_eq_Some_conv)
  ultimately show "target_directory (CHR ''/'' # d @ ''/'') = Inr d"
    by (simp add: target_directory_def)
qed

text \<open>A scope's directory: HOME itself or a path of article segments short enough for a target.\<close>

definition scope_directory :: "string \<Rightarrow> bool" where
  "scope_directory d \<longleftrightarrow>
     d = [] \<or> length d + 2 \<le> MAX_TARGET_LEN \<and> (\<exists>ss. article_segments ss \<and> d = path_of ss)"

definition scope_at :: "string \<Rightarrow> content_scope" where
  "scope_at d =
     (if d = []
      then \<lparr>cs_directory_rel = [], cs_target = ''/'', cs_comment_rel = ''comment'',
            cs_proc_rel = ''proc'', cs_stat_rel = ''proc/stat''\<rparr>
      else \<lparr>cs_directory_rel = d, cs_target = ''/'' @ d @ ''/'', cs_comment_rel = d @ ''/comment'',
            cs_proc_rel = ''proc/'' @ d, cs_stat_rel = ''proc/'' @ d @ ''/stat''\<rparr>)"

lemma scope_from_directory_Inr:
  "scope_from_directory_rel d = Inr s \<longleftrightarrow> scope_directory d \<and> s = scope_at d"
  by (auto simp: scope_from_directory_rel_def result_simps attachment_Inr Let_def scope_directory_def
      scope_at_def dest: path_of_not_Nil)

lemma scope_from_directory_total:
  "scope_directory d \<Longrightarrow> scope_from_directory_rel d = Inr (scope_at d)"
  by (simp add: scope_from_directory_Inr)

lemma valid_target_directory:
  "valid_target t \<longleftrightarrow> (\<exists>d. scope_directory d \<and> t = cs_target (scope_at d))"
proof
  assume "valid_target t"
  then consider "t = ''/''"
    | ss where "length t \<le> MAX_TARGET_LEN" "article_segments ss" "t = ''/'' @ path_of ss @ ''/''"
    by (auto simp: valid_target_iff)
  then show "\<exists>d. scope_directory d \<and> t = cs_target (scope_at d)"
  proof cases
    case 1
    then show ?thesis
      by (intro exI [of _ "[]"]) (simp add: scope_directory_def scope_at_def)
  next
    case 2
    then show ?thesis
      using path_of_not_Nil(1) [of ss]
      by (intro exI [of _ "path_of ss"]) (auto simp: scope_directory_def scope_at_def)
  qed
next
  assume "\<exists>d. scope_directory d \<and> t = cs_target (scope_at d)"
  then show "valid_target t"
    by (auto simp: valid_target_iff scope_directory_def scope_at_def split: if_splits)
qed

lemma cs_target_inj [simp]: "cs_target (scope_at d) = cs_target (scope_at e) \<longleftrightarrow> d = e"
  by (auto simp: scope_at_def split: if_splits)

lemma cs_comment_rel_inj [simp]: "cs_comment_rel (scope_at d) = cs_comment_rel (scope_at e) \<longleftrightarrow> d = e"
  by (auto simp: scope_at_def split: if_splits)

lemma cs_directory_rel_at [simp]: "cs_directory_rel (scope_at d) = d"
  by (simp add: scope_at_def)

lemma scope_at_inj [simp]: "scope_at d = scope_at e \<longleftrightarrow> d = e"
  using cs_directory_rel_at by metis

lemma scope_from_target_at:
  assumes "scope_directory d"
  shows "scope_from_target (cs_target (scope_at d)) = Inr (scope_at d)"
proof -
  have "validate_target (cs_target (scope_at d)) = Inr ()"
    using assms valid_target_directory [of "cs_target (scope_at d)"]
    by (auto simp: valid_target_def split: sum.splits)
  moreover have "target_directory (cs_target (scope_at d)) = Inr d"
    by (simp add: scope_at_def)
  ultimately show ?thesis
    using assms by (simp add: scope_from_target_def scope_from_directory_total)
qed

lemma validate_target_no_panic: "validate_target t \<noteq> Inl Panic_validated_target"
proof -
  have "try_each (validate_segment validate_article_segment k) ss \<noteq> Inl Panic_validated_target" for k ss
    by (induction ss) (auto simp: validate_segment_def validate_article_segment_def result_simps)
  then show ?thesis
    by (auto simp: validate_target_def validate_relative_def split: option.splits)
qed

lemma scope_from_target_invalid:
  assumes "\<not> valid_target t"
  obtains e where "scope_from_target t = Inl e" "e \<noteq> Panic_validated_target"
  using assms validate_target_no_panic [of t]
  by (cases "validate_target t") (auto simp: valid_target_def scope_from_target_def)

lemma scope_from_target_cases:
  obtains (valid) d where "scope_directory d" "t = cs_target (scope_at d)"
      "scope_from_target t = Inr (scope_at d)"
  | (invalid) e where "\<not> valid_target t" "scope_from_target t = Inl e" "e \<noteq> Panic_validated_target"
proof (cases "valid_target t")
  case True
  then obtain d where "scope_directory d" "t = cs_target (scope_at d)"
    unfolding valid_target_directory by blast
  with scope_from_target_at show ?thesis by (metis valid)
next
  case False
  with scope_from_target_invalid show ?thesis by (metis invalid)
qed

lemma scope_from_target_Inr:
  "scope_from_target t = Inr s \<longleftrightarrow> (\<exists>d. scope_directory d \<and> t = cs_target (scope_at d) \<and> s = scope_at d)"
proof
  assume "scope_from_target t = Inr s"
  then show "\<exists>d. scope_directory d \<and> t = cs_target (scope_at d) \<and> s = scope_at d"
    by (cases rule: scope_from_target_cases [of t]) auto
next
  assume "\<exists>d. scope_directory d \<and> t = cs_target (scope_at d) \<and> s = scope_at d"
  then show "scope_from_target t = Inr s"
    using scope_from_target_at by blast
qed

section \<open>Articles\<close>

definition article_at :: "string list \<Rightarrow> article_path" where
  "article_at ss = \<lparr>ap_source_rel = path_of ss @ ''.md'', ap_key = path_of ss,
     ap_route = ''/'' @ path_of ss @ ''/'', ap_directory_rel = path_of (butlast ss)\<rparr>"

lemma rsplit_path_of:
  assumes "article_segments ss"
  shows "(case rsplit_once (CHR ''/'') (path_of ss) of None \<Rightarrow> [] | Some (p, _) \<Rightarrow> p)
    = path_of (butlast ss)"
proof (cases "butlast ss = []")
  case True
  then obtain s where "ss = [s]"
    using assms by (cases ss rule: rev_cases) (auto simp: article_segments_def)
  then have "rsplit_once (CHR ''/'') (path_of ss) = None"
    using assms by (auto simp: rsplit_once_None article_segments_def dest: article_segment_chars)
  with True show ?thesis by simp
next
  case False
  have app: "path_of (xs @ [x]) = path_of xs @ CHR ''/'' # x" if "xs \<noteq> []" for xs x
    using that by (induction xs rule: join_with.induct [of _ "CHR ''/''" for P]) auto
  have "path_of ss = path_of (butlast ss) @ CHR ''/'' # last ss"
    using app [OF False, of "last ss"] assms by (simp add: article_segments_def)
  moreover have "CHR ''/'' \<notin> set (last ss)"
    using assms by (auto simp: article_segments_def dest: article_segment_chars last_in_set)
  ultimately have "rsplit_once (CHR ''/'') (path_of ss) = Some (path_of (butlast ss), last ss)"
    by (simp add: rsplit_once_Some)
  then show ?thesis by simp
qed

lemma source_segment_of_segment:
  "article_segment s \<Longrightarrow> validate_article_source_segment s = Inr ()"
  using article_segment_chars(2) [of s]
  by (cases "strip_suffix ''.md'' s") (auto simp: validate_article_source_segment_def)

lemma source_segment_of_stem:
  "article_segment s \<Longrightarrow> validate_article_source_segment (s @ ''.md'') = Inr ()"
  by (simp add: validate_article_source_segment_def)

lemma article_source_valid:
  assumes "article_segments ss"
  shows "validate_relative (path_of ss @ ''.md'') False validate_article_source_segment kind = Inr ()"
proof -
  let ?p = "path_of ss @ ''.md''"
  have split: "split_on (CHR ''/'') ?p = butlast ss @ [last ss @ ''.md'']"
    using split_on_append_no_sep [of "CHR ''/''" "''.md''" "path_of ss"] split_path_of [OF assms] by simp
  have "validate_segment validate_article_source_segment kind s = Inr ()"
    if s: "s \<in> set (butlast ss)" for s
  proof -
    have "article_segment s"
      using s assms by (auto simp: article_segments_def dest: in_set_butlastD)
    then show ?thesis
      using article_segment_chars(2,4) [of s] source_segment_of_segment
      by (auto simp: validate_segment_def result_simps prefix_def)
  qed
  moreover have "validate_segment validate_article_source_segment kind (last ss @ ''.md'') = Inr ()"
  proof -
    have l: "article_segment (last ss)"
      using assms by (simp add: article_segments_def)
    then obtain c t where "last ss = c # t" "c \<noteq> CHR ''.''"
      using article_segment_chars(2,4) [of "last ss"] by (cases "last ss") auto
    with source_segment_of_stem [OF l] show ?thesis
      by (simp add: validate_segment_def)
  qed
  moreover have "\<not> prefix ''/'' ?p" "\<not> suffix ''/'' ?p" "CHR 92 \<notin> set ?p"
    using path_of_head [OF assms] path_of_not_Nil [OF assms] path_of_chars(1) [OF assms]
    by (cases "path_of ss"; auto simp: suffix_def append_eq_Cons_conv)+
  ultimately show ?thesis
    by (auto simp: validate_relative_def split)
qed

lemma article_parse_Inr:
  "article_parse source = Inr a \<longleftrightarrow>
     (\<exists>ss. article_segments ss \<and> source = path_of ss @ ''.md'' \<and> a = article_at ss)"
  (is "?L \<longleftrightarrow> ?R")
proof
  assume ?L
  then obtain key where key: "source = key @ ''.md''" "key \<noteq> []"
    "\<forall>s \<in> set (split_on (CHR ''/'') key). article_segment s"
    and a: "a = \<lparr>ap_source_rel = source, ap_key = key, ap_route = ''/'' @ key @ ''/'',
      ap_directory_rel = (case rsplit_once (CHR ''/'') key of None \<Rightarrow> [] | Some (parent, _) \<Rightarrow> parent)\<rparr>"
    by (auto simp: article_parse_def result_simps split: option.splits if_splits)
  then have "article_segments (split_on (CHR ''/'') key)"
    by (simp add: article_segments_def)
  with key(1) a rsplit_path_of [of "split_on (CHR ''/'') key"] show ?R
    by (auto simp: article_at_def intro!: exI [of _ "split_on (CHR ''/'') key"])
next
  assume ?R
  then obtain ss where ss: "article_segments ss" and source: "source = path_of ss @ ''.md''"
    and a: "a = article_at ss" by blast
  have "try_each validate_article_segment (split_on (CHR ''/'') (path_of ss)) = Inr ()"
    using ss by (simp add: split_path_of article_segments_def)
  then have "and_then (try_each validate_article_segment (split_on (CHR ''/'') (path_of ss))) f = f ()"
    for f :: "unit \<Rightarrow> path_error + article_path"
    by (simp only: and_then.simps)
  then show ?L
    using source a article_source_valid [OF ss, of "''article path''"] rsplit_path_of [OF ss]
      path_of_not_Nil [OF ss] path_of_last [OF ss]
    by (simp add: article_parse_def article_at_def)
qed

end
