(* ===== verification/Content_Manifest.thy ===== *)
theory Content_Manifest
  imports Content_Model
begin

text \<open>
  The two files content-build leaves for the servers, read back by
  \<^verbatim>\<open>crates/content-model/src/lib.rs\<close>: the scope manifest (\<open>parse_scope_manifest\<close>) and
  the machine-readable article index (\<open>ArticleIndex::validate\<close>).
\<close>

section \<open>The scope manifest\<close>

text \<open>The loop keeps the two \<open>BTreeSet\<close>s of the source as sets; \<open>index\<close> is the
  \<open>enumerate\<close> counter, and the messages count lines from one.\<close>

fun manifest_loop ::
  "nat \<Rightarrow> string set \<Rightarrow> string set \<Rightarrow> content_scope list \<Rightarrow> string list \<Rightarrow> path_error + content_scope list"
where
  "manifest_loop index paths targets scopes [] = Inr scopes"
| "manifest_loop index paths targets scopes (line # rest) =
     (case split_once (CHR 0x09) line of
        None \<Rightarrow> Inl (Manifest_missing_tab (index + 1))
      | Some (comment_rel, target) \<Rightarrow>
          if CHR 0x09 \<in> set target then Inl (Manifest_extra_fields (index + 1))
          else and_then (scope_from_target target) (\<lambda>scope.
            if cs_comment_rel scope \<noteq> comment_rel then Inl (Manifest_inconsistent (index + 1))
            else if comment_rel \<in> paths \<or> target \<in> targets then Inl (Manifest_duplicate (index + 1))
            else manifest_loop (index + 1) (insert comment_rel paths) (insert target targets)
                   (scopes @ [scope]) rest))"

definition parse_scope_manifest :: "string \<Rightarrow> path_error + content_scope list" where
  "parse_scope_manifest text =
     and_then (manifest_loop 0 {} {} [] (lines_of (CHR 0x0A) (CHR 0x0D) text)) (\<lambda>scopes.
       Inr (sort_key cs_comment_rel scopes))"

definition manifest_line :: "string \<Rightarrow> string" where
  "manifest_line d = cs_comment_rel (scope_at d) @ [CHR 0x09] @ cs_target (scope_at d)"

lemma scope_directory_chars:
  assumes "scope_directory d"
  shows "CHR 0x09 \<notin> set d" "CHR 0x0A \<notin> set d" "CHR 0x0D \<notin> set d"
  using assms path_of_chars by (auto simp: scope_directory_def)

lemma scope_at_no_tab:
  assumes "scope_directory d"
  shows "CHR 0x09 \<notin> set (cs_comment_rel (scope_at d))" "CHR 0x09 \<notin> set (cs_target (scope_at d))"
  using scope_directory_chars(1) [OF assms] by (simp_all add: scope_at_def)

lemma manifest_line_no_break:
  assumes "scope_directory d"
  shows "CHR 0x0A \<notin> set (manifest_line d)" "CHR 0x0D \<notin> set (manifest_line d)"
  using scope_directory_chars(2,3) [OF assms] by (simp_all add: scope_at_def manifest_line_def)

lemma split_manifest_line:
  "scope_directory d \<Longrightarrow> split_once (CHR 0x09) (manifest_line d)
     = Some (cs_comment_rel (scope_at d), cs_target (scope_at d))"
  using scope_at_no_tab(1) by (simp add: split_once_Some manifest_line_def)

lemma manifest_line_inj:
  assumes "scope_directory d" "scope_directory e" "manifest_line d = manifest_line e"
  shows "d = e"
proof -
  have "Some (cs_comment_rel (scope_at d), cs_target (scope_at d))
      = Some (cs_comment_rel (scope_at e), cs_target (scope_at e))"
    unfolding split_manifest_line [OF assms(1), symmetric] split_manifest_line [OF assms(2), symmetric]
    by (simp only: assms(3))
  then show ?thesis by simp
qed

text \<open>One accepted line, and the rest of the file.\<close>

lemma manifest_loop_Cons:
  "manifest_loop index paths targets scopes (l # ls) = Inr scs \<longleftrightarrow>
    (\<exists>d. scope_directory d \<and> l = manifest_line d
       \<and> cs_comment_rel (scope_at d) \<notin> paths \<and> cs_target (scope_at d) \<notin> targets
       \<and> manifest_loop (index + 1) (insert (cs_comment_rel (scope_at d)) paths)
            (insert (cs_target (scope_at d)) targets) (scopes @ [scope_at d]) ls = Inr scs)"
    (is "?L \<longleftrightarrow> (\<exists>d. ?Q d)")
proof
  assume ?L
  then show "\<exists>d. ?Q d"
    by (auto simp: result_simps scope_from_target_Inr split_once_Some manifest_line_def
        split: option.splits if_splits)
next
  assume "\<exists>d. ?Q d"
  then obtain d where d: "?Q d" ..
  then have "split_once (CHR 0x09) l = Some (cs_comment_rel (scope_at d), cs_target (scope_at d))"
    using split_manifest_line by simp
  with d scope_at_no_tab(2) [of d] scope_from_target_at [of d] show ?L
    by simp
qed

lemma manifest_loop_Inr:
  "manifest_loop index paths targets scopes ls = Inr scs \<longleftrightarrow>
     (\<exists>ds. (\<forall>d \<in> set ds. scope_directory d) \<and> distinct ds \<and> ls = map manifest_line ds
       \<and> (\<forall>d \<in> set ds. cs_comment_rel (scope_at d) \<notin> paths \<and> cs_target (scope_at d) \<notin> targets)
       \<and> scs = scopes @ map scope_at ds)"
  (is "_ \<longleftrightarrow> (\<exists>ds. ?P paths targets scopes ls ds)")
proof (induction ls arbitrary: index paths targets scopes)
  case Nil
  then show ?case by auto
next
  case (Cons l ls)
  show ?case
    unfolding manifest_loop_Cons Cons.IH
  proof
    assume "\<exists>d. scope_directory d \<and> l = manifest_line d
       \<and> cs_comment_rel (scope_at d) \<notin> paths \<and> cs_target (scope_at d) \<notin> targets
       \<and> (\<exists>ds. ?P (insert (cs_comment_rel (scope_at d)) paths) (insert (cs_target (scope_at d)) targets)
                (scopes @ [scope_at d]) ls ds)"
    then obtain d ds where "scope_directory d" "l = manifest_line d"
      "cs_comment_rel (scope_at d) \<notin> paths" "cs_target (scope_at d) \<notin> targets"
      "?P (insert (cs_comment_rel (scope_at d)) paths) (insert (cs_target (scope_at d)) targets)
                (scopes @ [scope_at d]) ls ds"
      by blast
    then have "?P paths targets scopes (l # ls) (d # ds)" by auto
    then show "\<exists>ds. ?P paths targets scopes (l # ls) ds" ..
  next
    assume "\<exists>ds. ?P paths targets scopes (l # ls) ds"
    then obtain d ds where "?P paths targets scopes (l # ls) (d # ds)"
      by (auto simp: Cons_eq_map_conv)
    then show "\<exists>d. scope_directory d \<and> l = manifest_line d
       \<and> cs_comment_rel (scope_at d) \<notin> paths \<and> cs_target (scope_at d) \<notin> targets
       \<and> (\<exists>ds. ?P (insert (cs_comment_rel (scope_at d)) paths) (insert (cs_target (scope_at d)) targets)
                (scopes @ [scope_at d]) ls ds)"
      by (intro exI [of _ d] conjI exI [of _ ds]) auto
  qed
qed

text \<open>The file as the code reads it: exactly the lines of distinct scopes, sorted on the way out.\<close>

lemma parse_scope_manifest_Inr:
  "parse_scope_manifest text = Inr scs \<longleftrightarrow>
     (\<exists>ds. (\<forall>d \<in> set ds. scope_directory d) \<and> distinct ds
       \<and> lines_of (CHR 0x0A) (CHR 0x0D) text = map manifest_line ds
       \<and> scs = sort_key cs_comment_rel (map scope_at ds))"
  by (auto simp: parse_scope_manifest_def result_simps manifest_loop_Inr)

lemma manifest_scopes_distinct:
  assumes "parse_scope_manifest text = Inr scs"
  shows "sorted (map cs_comment_rel scs)" "distinct (map cs_comment_rel scs)"
    "distinct (map cs_target scs)" "distinct (map cs_directory_rel scs)"
    "\<forall>s \<in> set scs. \<exists>d. scope_directory d \<and> s = scope_at d"
proof -
  obtain ds where ds: "\<forall>d \<in> set ds. scope_directory d" "distinct ds"
    and scs: "scs = sort_key cs_comment_rel (map scope_at ds)"
    using assms by (auto simp: parse_scope_manifest_Inr)
  have *: "distinct (map f scs) \<longleftrightarrow> distinct (map f (map scope_at ds))" for f :: "content_scope \<Rightarrow> string"
    unfolding scs by (simp add: distinct_map [of f] del: map_map)
  show "sorted (map cs_comment_rel scs)"
    by (simp add: scs)
  show "distinct (map cs_comment_rel scs)" "distinct (map cs_target scs)" "distinct (map cs_directory_rel scs)"
    unfolding * using ds(2) by (auto simp: distinct_map comp_def intro!: inj_onI)
  show "\<forall>s \<in> set scs. \<exists>d. scope_directory d \<and> s = scope_at d"
    using ds(1) by (auto simp: scs)
qed

section \<open>The article index\<close>

definition date10_ok :: "string \<Rightarrow> bool" where
  "date10_ok s \<longleftrightarrow> length s = 10 \<and>
     list_all (\<lambda>(i, b). if i \<in> {4, 7} then b = CHR ''-'' else is_ascii_digit b) (enumerate 0 s)"

fun index_loop ::
  "string set \<Rightarrow> string set \<Rightarrow> string set \<Rightarrow> article_index_entry list \<Rightarrow> path_error + unit"
where
  "index_loop sources keys routes [] = Inr ()"
| "index_loop sources keys routes (entry # rest) =
     and_then (article_parse (ae_source_rel entry)) (\<lambda>path.
       if ap_key path \<noteq> ae_key entry \<or> ap_route path \<noteq> ae_route entry
       then Inl (Index_inconsistent (ae_source_rel entry))
       else if \<not> date10_ok (ae_date10 entry) then Inl (Index_bad_date (ae_date10 entry))
       else if list_ex is_control (ae_title entry) then Inl (Index_title_control (ae_source_rel entry))
       else if ae_source_rel entry \<in> sources \<or> ae_key entry \<in> keys \<or> ae_route entry \<in> routes
       then Inl (Index_duplicate (ae_source_rel entry))
       else index_loop (insert (ae_source_rel entry) sources) (insert (ae_key entry) keys)
              (insert (ae_route entry) routes) rest)"

definition index_validate :: "article_index \<Rightarrow> path_error + unit" where
  "index_validate idx =
     (if ai_version idx \<noteq> 1 then Inl (Index_version (ai_version idx))
      else index_loop {} {} {} (ai_articles idx))"

definition entry_ok :: "article_index_entry \<Rightarrow> bool" where
  "entry_ok e \<longleftrightarrow> (\<exists>ss. article_segments ss \<and> ae_source_rel e = path_of ss @ ''.md''
      \<and> ae_key e = path_of ss \<and> ae_route e = ''/'' @ path_of ss @ ''/'')
    \<and> date10_ok (ae_date10 e) \<and> (\<forall>c \<in> set (ae_title e). \<not> is_control c)"

lemma entry_ok_projections:
  "entry_ok e \<Longrightarrow> ae_source_rel e = ae_key e @ ''.md'' \<and> ae_route e = ''/'' @ ae_key e @ ''/''"
  by (auto simp: entry_ok_def)

lemma entry_ok_eq:
  assumes "entry_ok e" "entry_ok f"
  shows "ae_source_rel e = ae_source_rel f \<longleftrightarrow> ae_key e = ae_key f"
    "ae_route e = ae_route f \<longleftrightarrow> ae_key e = ae_key f"
  using assms [THEN entry_ok_projections] by simp_all

lemma index_loop_Inr:
  "index_loop sources keys routes es = Inr u \<longleftrightarrow>
     (\<forall>e \<in> set es. entry_ok e \<and> ae_source_rel e \<notin> sources \<and> ae_key e \<notin> keys \<and> ae_route e \<notin> routes)
     \<and> distinct (map ae_key es)"
proof (induction es arbitrary: sources keys routes)
  case (Cons e es)
  have entry: "entry_ok e \<longleftrightarrow> (\<exists>p. article_parse (ae_source_rel e) = Inr p \<and> ap_key p = ae_key e
      \<and> ap_route p = ae_route e) \<and> date10_ok (ae_date10 e) \<and> \<not> list_ex is_control (ae_title e)"
    by (auto simp: entry_ok_def article_parse_Inr article_at_def list_ex_iff)
  have step: "index_loop sources keys routes (e # es) = Inr u \<longleftrightarrow>
    entry_ok e \<and> ae_source_rel e \<notin> sources \<and> ae_key e \<notin> keys \<and> ae_route e \<notin> routes
    \<and> index_loop (insert (ae_source_rel e) sources) (insert (ae_key e) keys)
              (insert (ae_route e) routes) es = Inr u"
    unfolding entry by (cases "article_parse (ae_source_rel e)") (auto split: if_splits)
  have "entry_ok e \<and> ae_source_rel e \<notin> sources \<and> ae_key e \<notin> keys \<and> ae_route e \<notin> routes
      \<and> entry_ok x \<and> ae_source_rel x \<notin> insert (ae_source_rel e) sources
      \<and> ae_key x \<notin> insert (ae_key e) keys \<and> ae_route x \<notin> insert (ae_route e) routes \<longleftrightarrow>
      entry_ok e \<and> ae_source_rel e \<notin> sources \<and> ae_key e \<notin> keys \<and> ae_route e \<notin> routes
      \<and> entry_ok x \<and> ae_source_rel x \<notin> sources \<and> ae_key x \<notin> keys \<and> ae_route x \<notin> routes
      \<and> ae_key e \<noteq> ae_key x" for x
    using entry_ok_eq [of x e] by auto
  then show ?case
    unfolding step Cons.IH by auto
qed simp

text \<open>The three duplicate checks are one: the key determines the other two.\<close>

lemma index_validate_Inr:
  "index_validate idx = Inr u \<longleftrightarrow>
     ai_version idx = 1 \<and> (\<forall>e \<in> set (ai_articles idx). entry_ok e) \<and> distinct (map ae_key (ai_articles idx))"
  by (auto simp: index_validate_def index_loop_Inr)

end
