(* ===== verification/Content_Properties.thy ===== *)
theory Content_Properties
  imports Content_Manifest
begin

text \<open>
  The properties of the path model: what its parsers accept, and that the names derived from a
  directory or an article determine it.
\<close>

text \<open>A comment target is accepted exactly when it is the target of a directory of article
  segments (within 200 bytes), and the scope it yields is the one of that directory: the target, the
  FIFO, the proc directory and the stat file are those of the layout, and no other error than a
  refusal occurs: the panic after the validation is unreachable.\<close>

theorem scope_from_target_exact:
  "(scope_from_target t = Inr s \<longleftrightarrow> (\<exists>d. scope_directory d \<and> t = cs_target (scope_at d) \<and> s = scope_at d))
   \<and> scope_from_target t \<noteq> Inl Panic_validated_target"
proof -
  have "scope_from_target t \<noteq> Inl Panic_validated_target"
    by (cases rule: scope_from_target_cases [of t]) auto
  with scope_from_target_Inr show ?thesis by blast
qed

text \<open>An article path is accepted exactly when it is non-empty segments of lower-case letters,
  digits and dashes under \<^verbatim>\<open>.md\<close>; then its key, its route and its directory are the
  ones of these segments.\<close>

theorem article_parse_exact:
  "article_parse source = Inr a \<longleftrightarrow>
     (\<exists>ss. article_segments ss \<and> source = path_of ss @ ''.md''
        \<and> a = \<lparr>ap_source_rel = source, ap_key = path_of ss, ap_route = ''/'' @ path_of ss @ ''/'',
               ap_directory_rel = path_of (butlast ss)\<rparr>)"
  unfolding article_parse_Inr by (auto simp: article_at_def)

text \<open>An article belongs to the scope of the directory it lies in and to no other: two scopes
  that the parser yields and that contain the article are the same scope.\<close>

theorem article_has_one_scope:
  assumes "scope_from_target t = Inr s" "scope_from_target u = Inr s'" "contains_article s a" "contains_article s' a"
  shows "t = u \<and> s = s'"
proof -
  obtain d e where "t = cs_target (scope_at d)" "s = scope_at d" "u = cs_target (scope_at e)" "s' = scope_at e"
    using assms(1,2) by (auto simp: scope_from_target_Inr)
  with assms(3,4) show ?thesis by (simp add: contains_article_def)
qed

theorem article_has_one_scope_witness:
  "\<exists>s a. scope_from_target ''/notes/'' = Inr s \<and> article_parse ''notes/a.md'' = Inr a \<and> contains_article s a
     \<and> (\<forall>u s'. scope_from_target u = Inr s' \<longrightarrow> contains_article s' a \<longrightarrow> u = ''/notes/'')"
proof -
  let ?s = "\<lparr>cs_directory_rel = ''notes'', cs_target = ''/notes/'', cs_comment_rel = ''notes/comment'',
    cs_proc_rel = ''proc/notes'', cs_stat_rel = ''proc/notes/stat''\<rparr>"
  let ?a = "\<lparr>ap_source_rel = ''notes/a.md'', ap_key = ''notes/a'', ap_route = ''/notes/a/'', ap_directory_rel = ''notes''\<rparr>"
  have s: "scope_from_target ''/notes/'' = Inr ?s" and a: "article_parse ''notes/a.md'' = Inr ?a" by code_simp+
  have c: "contains_article ?s ?a" by (simp add: contains_article_def)
  have "u = ''/notes/''" if "scope_from_target u = Inr s'" "contains_article s' ?a" for u s'
    using article_has_one_scope [OF s that(1) c that(2)] by simp
  with s a c show ?thesis by blast
qed

text \<open>A scope manifest is accepted exactly when its lines are those of distinct directories, in
  any order; the scopes come out sorted by the path of their FIFO.\<close>

theorem parse_scope_manifest_exact:
  "parse_scope_manifest text = Inr scs \<longleftrightarrow>
     (\<exists>ds. (\<forall>d \<in> set ds. scope_directory d) \<and> distinct ds
       \<and> lines_of (CHR 0x0A) (CHR 0x0D) text
           = map (\<lambda>d. cs_comment_rel (scope_at d) @ [CHR 0x09] @ cs_target (scope_at d)) ds
       \<and> scs = sort_key cs_comment_rel (map scope_at ds))"
  unfolding parse_scope_manifest_Inr manifest_line_def by blast

theorem parse_scope_manifest_exact_witness:
  "\<exists>ds. distinct ds \<and> [scope_at ''notes''] = sort_key cs_comment_rel (map scope_at ds)"
proof -
  have "parse_scope_manifest (''notes/comment'' @ [CHR 0x09] @ ''/notes/'') = Inr [scope_at ''notes'']" by code_simp
  from parse_scope_manifest_exact [THEN iffD1, OF this] show ?thesis by blast
qed

text \<open>Writing the manifest of any set of scopes and reading it back gives the scopes.\<close>

theorem scope_manifest_roundtrip:
  assumes "\<forall>d \<in> set ds. scope_directory d" "distinct ds"
  shows "parse_scope_manifest (concat (map (\<lambda>d. manifest_line d @ [CHR 0x0A]) ds))
    = Inr (sort_key cs_comment_rel (map scope_at ds))"
proof -
  have "\<forall>l \<in> set (map manifest_line ds). CHR 0x0A \<notin> set l \<and> strip_suffix [CHR 0x0D] l = None"
    using manifest_line_no_break assms(1) by (force simp: strip_suffix_None)
  from lines_of_terminated [OF this]
  have "lines_of (CHR 0x0A) (CHR 0x0D) (concat (map (\<lambda>d. manifest_line d @ [CHR 0x0A]) ds)) = map manifest_line ds"
    by (simp add: comp_def)
  with assms show ?thesis unfolding parse_scope_manifest_Inr by blast
qed

theorem scope_manifest_roundtrip_witness:
  "parse_scope_manifest (concat (map (\<lambda>d. manifest_line d @ [CHR 0x0A]) [''notes'', []]))
    = Inr (sort_key cs_comment_rel (map scope_at [''notes'', []]))"
proof -
  have "scope_directory ''notes''" "scope_directory []"
    by (auto simp: scope_directory_def MAX_TARGET_LEN_def article_segments_def article_segment_def article_char_def
        is_ascii_lowercase_def less_eq_char_def intro!: exI [of _ "[''notes'']"])
  then show ?thesis using scope_manifest_roundtrip [of "[''notes'', []]"] by simp
qed

text \<open>An article index passes the validation exactly when its version is 1, every entry spells
  the path, key and route of one article with a date and a title without control characters, and no
  two entries have the same key.\<close>

theorem index_validate_exact:
  "index_validate idx = Inr u \<longleftrightarrow>
     ai_version idx = 1 \<and> distinct (map ae_key (ai_articles idx))
     \<and> (\<forall>e \<in> set (ai_articles idx). article_parse (ae_source_rel e)
            = Inr \<lparr>ap_source_rel = ae_key e @ ''.md'', ap_key = ae_key e, ap_route = ae_route e,
                   ap_directory_rel = (case rsplit_once (CHR ''/'') (ae_key e) of None \<Rightarrow> [] | Some (p, _) \<Rightarrow> p)\<rparr>
          \<and> date10_ok (ae_date10 e) \<and> (\<forall>c \<in> set (ae_title e). \<not> is_control c))"
proof -
  have "entry_ok e \<longleftrightarrow> article_parse (ae_source_rel e)
            = Inr \<lparr>ap_source_rel = ae_key e @ ''.md'', ap_key = ae_key e, ap_route = ae_route e,
                   ap_directory_rel = (case rsplit_once (CHR ''/'') (ae_key e) of None \<Rightarrow> [] | Some (p, _) \<Rightarrow> p)\<rparr>
          \<and> date10_ok (ae_date10 e) \<and> (\<forall>c \<in> set (ae_title e). \<not> is_control c)" for e
    unfolding entry_ok_def article_parse_Inr using rsplit_path_of by (auto simp: article_at_def)
  then show ?thesis by (auto simp: index_validate_Inr)
qed

theorem index_validate_exact_witness:
  "distinct (map ae_key [\<lparr>ae_date10 = ''2026-01-31'', ae_source_rel = ''a.md'', ae_key = ''a'', ae_route = ''/a/'', ae_title = [65]\<rparr>])"
proof -
  let ?e = "\<lparr>ae_date10 = ''2026-01-31'', ae_source_rel = ''a.md'', ae_key = ''a'', ae_route = ''/a/'', ae_title = [65]\<rparr>"
  have "index_validate \<lparr>ai_version = 1, ai_articles = [?e]\<rparr> = Inr ()" by code_simp
  from index_validate_exact [THEN iffD1, OF this] show ?thesis by simp
qed

end
