(* ===== verification/Proto.thy ===== *)
theory Proto
  imports Rust_Prelude
begin

text \<open>
  The wire frame of \<^verbatim>\<open>crates/servers/proto/src/lib.rs\<close>:
  \<open>u8 kind | u32 len (big endian) | payload\<close>.  Control payloads are JSON; the JSON
  library is not part of the repository, so its two functions are parameters of
  \<open>frame_json\<close> and \<open>frame_parse\<close>.
\<close>

unbundle bit_operations_syntax

section \<open>Framing in general\<close>

text \<open>What a user of a frame format relies on: decoding is the exact inverse of encoding on
  the frames that fit, and accepts nothing else.\<close>

locale framing =
  fixes enc :: "'f \<Rightarrow> 'b list"
    and dec :: "'b list \<Rightarrow> 'f option"
    and fits :: "'f \<Rightarrow> bool"
  assumes dec_enc: "fits f \<Longrightarrow> dec (enc f) = Some f"
    and dec_sound: "dec b = Some f \<Longrightarrow> fits f \<and> enc f = b"
begin

lemma dec_Some_iff: "dec b = Some f \<longleftrightarrow> fits f \<and> enc f = b"
  using dec_enc dec_sound by metis

lemma dec_enc_iff: "inj enc \<Longrightarrow> dec (enc f) = Some f \<longleftrightarrow> fits f"
  by (simp add: dec_Some_iff)

lemma enc_inj: "fits f \<Longrightarrow> fits g \<Longrightarrow> enc f = enc g \<Longrightarrow> f = g"
  using dec_enc by (metis option.inject)

lemma dec_None_iff: "dec b = None \<longleftrightarrow> (\<forall>f. fits f \<longrightarrow> enc f \<noteq> b)"
  using dec_Some_iff by (metis not_None_eq)

end

section \<open>Frames\<close>

record frame =
  fr_kind :: u8
  fr_payload :: bytes

definition OPEN :: u8 where "OPEN = 0x01"
definition DATA :: u8 where "DATA = 0x02"
definition RESIZE :: u8 where "RESIZE = 0x03"
definition OPENED :: u8 where "OPENED = 0x04"
definition CLOSED :: u8 where "CLOSED = 0x05"
definition REPLAY_END :: u8 where "REPLAY_END = 0x06"

lemmas kind_defs = OPEN_def DATA_def RESIZE_def OPENED_def CLOSED_def REPLAY_END_def

definition MAX_FRAME :: nat where
  "MAX_FRAME = 2 ^ 20"

text \<open>\<open>put_u32\<close> and \<open>u32::from_be_bytes\<close>.\<close>

definition put_u32 :: "u32 \<Rightarrow> bytes" where
  "put_u32 n = [ucast (drop_bit 24 n), ucast (drop_bit 16 n), ucast (drop_bit 8 n), ucast n]"

definition from_be_bytes :: "u8 \<Rightarrow> u8 \<Rightarrow> u8 \<Rightarrow> u8 \<Rightarrow> u32" where
  "from_be_bytes a b c d =
     push_bit 24 (ucast a) OR push_bit 16 (ucast b) OR push_bit 8 (ucast c) OR ucast d"

definition frame_data :: "bytes \<Rightarrow> frame" where
  "frame_data b = \<lparr>fr_kind = DATA, fr_payload = b\<rparr>"

definition frame_replay_end :: frame where
  "frame_replay_end = \<lparr>fr_kind = REPLAY_END, fr_payload = []\<rparr>"

definition frame_json :: "('v \<Rightarrow> bytes) \<Rightarrow> u8 \<Rightarrow> 'v \<Rightarrow> frame" where
  "frame_json to_vec kind v = \<lparr>fr_kind = kind, fr_payload = to_vec v\<rparr>"

definition frame_parse :: "(bytes \<Rightarrow> 'e + 'v) \<Rightarrow> frame \<Rightarrow> 'e + 'v" where
  "frame_parse from_slice f = from_slice (fr_payload f)"

text \<open>\<open>payload.len() as u32\<close> keeps the low 32 bits of the length.\<close>

definition encode :: "frame \<Rightarrow> bytes" where
  "encode f = fr_kind f # put_u32 (of_nat (length (fr_payload f))) @ fr_payload f"

definition declared_len :: "bytes \<Rightarrow> nat" where
  "declared_len b = unat (from_be_bytes (b ! 1) (b ! 2) (b ! 3) (b ! 4))"

definition decode_one :: "bytes \<Rightarrow> frame option" where
  "decode_one b =
     (if length b < 5 then None
      else let len = declared_len b
        in if MAX_FRAME < len \<or> length b \<noteq> 5 + len then None
           else Some \<lparr>fr_kind = b ! 0, fr_payload = drop 5 b\<rparr>)"

section \<open>Big-endian words\<close>

lemma from_be_put:
  "from_be_bytes (ucast (drop_bit 24 n)) (ucast (drop_bit 16 n)) (ucast (drop_bit 8 n)) (ucast n) = n"
proof (rule bit_word_eqI)
  fix i assume "i < LENGTH(32)"
  then consider "i < 8" | "8 \<le> i" "i < 16" | "16 \<le> i" "i < 24" | "24 \<le> i" "i < 32"
    by fastforce
  then show "bit (from_be_bytes (ucast (drop_bit 24 n)) (ucast (drop_bit 16 n)) (ucast (drop_bit 8 n)) (ucast n)) i
      \<longleftrightarrow> bit n i"
    by cases (auto simp: from_be_bytes_def bit_simps)
qed

lemma u8_bit_high [simp]: "8 \<le> k \<Longrightarrow> \<not> bit (w :: u8) (k + n)"
  using bit_imp_le_length [of w "k + n"] by auto

lemma put_from_be: "put_u32 (from_be_bytes a b c d) = [a, b, c, d]"
  by (auto simp: put_u32_def from_be_bytes_def bit_simps intro!: bit_word_eqI)

lemma length_put_u32 [simp]: "length (put_u32 n) = 4"
  by (simp add: put_u32_def)

lemma length_encode [simp]: "length (encode f) = 5 + length (fr_payload f)"
  by (simp add: encode_def)

lemma encode_not_Nil [simp]: "encode f \<noteq> []"
  by (simp add: encode_def)

lemma declared_len_append: "5 \<le> length b \<Longrightarrow> declared_len (b @ c) = declared_len b"
  by (simp add: declared_len_def nth_append)

lemma declared_len_take: "5 \<le> n \<Longrightarrow> 5 \<le> length b \<Longrightarrow> declared_len (take n b) = declared_len b"
  by (simp add: declared_len_def)

lemma declared_len_encode:
  "declared_len (encode f) = length (fr_payload f) mod 2 ^ 32"
proof -
  have "declared_len (encode f) = unat (of_nat (length (fr_payload f)) :: u32)"
    by (simp add: declared_len_def encode_def put_u32_def from_be_put)
  then show ?thesis by (simp add: unat_of_nat)
qed

section \<open>Decoding is the inverse of encoding\<close>

definition frame_fits :: "frame \<Rightarrow> bool" where
  "frame_fits f \<longleftrightarrow> length (fr_payload f) \<le> MAX_FRAME"

lemma declared_len_fits: "frame_fits f \<Longrightarrow> declared_len (encode f) = length (fr_payload f)"
  by (simp add: declared_len_encode frame_fits_def MAX_FRAME_def)

lemma decode_encode:
  assumes "frame_fits f"
  shows "decode_one (encode f) = Some f"
  using assms declared_len_fits [OF assms]
  by (simp add: decode_one_def frame_fits_def encode_def put_u32_def)

lemma list_5: "5 \<le> length b \<Longrightarrow> b = b ! 0 # b ! 1 # b ! 2 # b ! 3 # b ! 4 # drop 5 b"
  by (simp add: Cons_nth_drop_Suc numeral_eq_Suc) (cases b; simp)

lemma decode_sound:
  assumes "decode_one b = Some f"
  shows "frame_fits f \<and> encode f = b"
proof -
  from assms have len: "5 \<le> length b" "declared_len b \<le> MAX_FRAME" "length b = 5 + declared_len b"
    and f: "f = \<lparr>fr_kind = b ! 0, fr_payload = drop 5 b\<rparr>"
    by (auto simp: decode_one_def Let_def split: if_splits)
  have "of_nat (declared_len b) = from_be_bytes (b ! 1) (b ! 2) (b ! 3) (b ! 4)"
    by (simp add: declared_len_def)
  then have "encode f = b ! 0 # put_u32 (from_be_bytes (b ! 1) (b ! 2) (b ! 3) (b ! 4)) @ drop 5 b"
    using len f by (simp add: encode_def)
  then have "encode f = b"
    using list_5 [OF len(1)] by (simp add: put_from_be)
  moreover have "frame_fits f"
    using len f by (simp add: frame_fits_def)
  ultimately show ?thesis by simp
qed

interpretation wire: framing encode decode_one frame_fits
  by unfold_locales (auto simp: decode_encode dest: decode_sound)

lemma encode_inj: "encode f = encode g \<Longrightarrow> f = g"
proof -
  assume eq: "encode f = encode g"
  then have "length (fr_payload f) = length (fr_payload g)"
    using length_encode by (metis add_left_cancel)
  with eq show "f = g"
    by (cases f; cases g) (simp add: encode_def put_u32_def)
qed

end
