(* ===== verification/Link.thy ===== *)
theory Link
  imports Proto
begin

text \<open>
  The SEQPACKET link of \<^verbatim>\<open>crates/servers/core/src/link.rs\<close> and the session client's pump
  of \<^verbatim>\<open>crates/servers/core/src/client.rs\<close>.  The socket is not modelled as a device: each
  \<open>await\<close> on it consumes the next entry of a schedule, the list of answers the kernel
  gives.  A schedule that runs out is a call still waiting, so \<open>Pending\<close> carries the state
  the suspended future holds.
\<close>

datatype io_error = Write_zero | Unexpected_eof | Truncated | Too_long | Two_records
  | Invalid_frame | Io_failed nat

datatype ('s, 'a) poll = Pending 's | Ready 'a

section \<open>Sending\<close>

datatype send_answer = Sent nat | Send_failed nat

text \<open>\<open>sent\<close> counts the bytes of \<open>wire\<close> the kernel has taken; the second component of
  the answer is what it has taken in this call.\<close>

fun send_loop :: "bytes \<Rightarrow> nat \<Rightarrow> send_answer list \<Rightarrow> (nat, io_error + unit) poll \<times> bytes" where
  "send_loop wire sent answers =
     (if length wire \<le> sent then (Ready (Inr ()), [])
      else case answers of
          [] \<Rightarrow> (Pending sent, [])
        | Send_failed e # _ \<Rightarrow> (Ready (Inl (Io_failed e)), [])
        | Sent n # rest \<Rightarrow>
            if n = 0 then (Ready (Inl Write_zero), [])
            else let (r, out) = send_loop wire (sent + n) rest
              in (r, take n (drop sent wire) @ out))"

declare send_loop.simps [simp del]

definition link_send :: "frame \<Rightarrow> send_answer list \<Rightarrow> (nat, io_error + unit) poll \<times> bytes" where
  "link_send f answers = send_loop (encode f) 0 answers"

text \<open>What has reached the socket is at every moment a prefix of the record, and the whole
  record when the call returns without an error.\<close>

lemma send_loop_prefix:
  assumes "send_loop wire sent answers = (r, out)"
  shows "prefix out (drop sent wire) \<and> (r = Ready (Inr ()) \<longrightarrow> out = drop sent wire)"
  using assms
proof (induction wire sent answers arbitrary: r out rule: send_loop.induct)
  case (1 wire sent answers)
  show ?case
  proof (cases "\<exists>n rest. \<not> length wire \<le> sent \<and> answers = Sent n # rest \<and> n \<noteq> 0")
    case True
    then obtain n rest where a: "\<not> length wire \<le> sent" "answers = Sent n # rest" "n \<noteq> 0" by blast
    obtain r' out' where rec: "send_loop wire (sent + n) rest = (r', out')"
      by fastforce
    with "1.prems" a have eqs: "r = r'" "out = take n (drop sent wire) @ out'"
      by (simp_all add: send_loop.simps [of wire sent])
    let ?d = "drop sent wire"
    have "prefix out' (drop n ?d) \<and> (r' = Ready (Inr ()) \<longrightarrow> out' = drop n ?d)"
      using "1.IH" [OF a(1) a(2) refl a(3) rec] by (simp add: add.commute)
    then have "prefix out (take n ?d @ drop n ?d) \<and> (r = Ready (Inr ()) \<longrightarrow> out = take n ?d @ drop n ?d)"
      unfolding eqs by simp
    then show ?thesis unfolding append_take_drop_id .
  next
    case False
    with "1.prems" show ?thesis
      by (auto simp: send_loop.simps [of wire sent] split: if_splits list.splits send_answer.splits)
  qed
qed

lemma link_send_writes:
  assumes "link_send f answers = (r, out)"
  shows "prefix out (encode f)" "r = Ready (Inr ()) \<Longrightarrow> out = encode f"
  using send_loop_prefix [of "encode f" 0 answers r out] assms by (auto simp: link_send_def)

text \<open>Progress: answers that take at least one byte each end the call once there are as many
  of them as bytes left.\<close>

lemma send_loop_returns:
  assumes "\<forall>a \<in> set answers. \<exists>n > 0. a = Sent n" "length wire \<le> sent + length answers"
  shows "fst (send_loop wire sent answers) = Ready (Inr ())"
  using assms
proof (induction wire sent answers rule: send_loop.induct)
  case (1 wire sent answers)
  show ?case
  proof (cases "length wire \<le> sent")
    case False
    with "1.prems" obtain n rest where a: "answers = Sent n # rest" "0 < n"
      by (cases answers) auto
    with "1.IH" [OF False a(1) refl] "1.prems"
    have "fst (send_loop wire (sent + n) rest) = Ready (Inr ())" by simp
    with False a show ?thesis
      by (simp add: send_loop.simps [of wire sent] split_def)
  qed (simp add: send_loop.simps)
qed

section \<open>Receiving\<close>

text \<open>What one \<open>recv\<close> of the socket answers: a message (with the kernel's \<open>MSG_TRUNC\<close>
  flag), or an error.\<close>

datatype recv_answer = Msg bytes bool | Interrupted | Recv_failed nat

fun recv_loop :: "bytes \<Rightarrow> recv_answer list \<Rightarrow> (bytes, io_error + frame) poll \<times> recv_answer list" where
  "recv_loop acc [] = (Pending acc, [])"
| "recv_loop acc (Interrupted # rest) = recv_loop acc rest"
| "recv_loop acc (Recv_failed e # rest) = (Ready (Inl (Io_failed e)), rest)"
| "recv_loop acc (Msg b trunc # rest) =
     (if b = [] then (Ready (Inl Unexpected_eof), rest)
      else if trunc then (Ready (Inl Truncated), rest)
      else let acc = acc @ b
        in if 5 \<le> length acc
           then let len = declared_len acc
             in if MAX_FRAME < len then (Ready (Inl Too_long), rest)
                else if 5 + len \<le> length acc
                then (if 5 + len < length acc then (Ready (Inl Two_records), rest)
                      else (Ready (case decode_one acc of None \<Rightarrow> Inl Invalid_frame
                                   | Some f \<Rightarrow> Inr f), rest))
                else recv_loop acc rest
           else recv_loop acc rest)"

definition link_recv :: "recv_answer list \<Rightarrow> (bytes, io_error + frame) poll \<times> recv_answer list" where
  "link_recv answers = recv_loop [] answers"

text \<open>The bytes an answer carries.\<close>

fun answer_bytes :: "recv_answer \<Rightarrow> bytes" where
  "answer_bytes (Msg b _) = b"
| "answer_bytes Interrupted = []"
| "answer_bytes (Recv_failed _) = []"

fun fragment :: "recv_answer \<Rightarrow> bool" where
  "fragment (Msg b trunc) \<longleftrightarrow> b \<noteq> [] \<and> \<not> trunc"
| "fragment Interrupted = True"
| "fragment (Recv_failed _) = False"

abbreviation fragments_bytes :: "recv_answer list \<Rightarrow> bytes" where
  "fragments_bytes as \<equiv> concat (map answer_bytes as)"

text \<open>A record that arrives in pieces, whatever the cut and however often the call is
  interrupted, is the frame that was sent; what follows it stays in the socket.\<close>

lemma recv_loop_fragments:
  assumes "\<forall>a \<in> set as. fragment a" "as \<noteq> []" "last as \<noteq> Interrupted"
    "acc @ fragments_bytes as = encode f" "frame_fits f"
  shows "recv_loop acc (as @ rest) = (Ready (Inr f), rest)"
  using assms
proof (induction as arbitrary: acc)
  case (Cons a as)
  show ?case
  proof (cases a)
    case (Msg b trunc)
    with Cons.prems have b: "b \<noteq> []" "\<not> trunc" by auto
    have whole: "(acc @ b) @ fragments_bytes as = encode f"
      using Cons.prems(4) Msg by simp
    have dl: "declared_len (acc @ b) = length (fr_payload f)" if "5 \<le> length (acc @ b)"
      using that declared_len_append [of "acc @ b" "fragments_bytes as"] declared_len_fits [OF Cons.prems(5)]
      unfolding whole by simp
    have len: "length (acc @ b) + length (fragments_bytes as) = 5 + length (fr_payload f)"
      using whole length_encode [of f] by (metis length_append)
    show ?thesis
    proof (cases "as = []")
      case True
      then have "acc @ b = encode f" using whole by simp
      with Cons.prems(5) dl len b Msg True show ?thesis
        by (simp add: Let_def decode_encode frame_fits_def del: length_append)
    next
      case False
      with Cons.prems have "fragments_bytes as \<noteq> []"
        by (cases as rule: rev_cases; cases "last as") auto
      then have short: "length (acc @ b) < 5 + length (fr_payload f)"
        using len by (cases "fragments_bytes as") auto
      have "recv_loop (acc @ b) (as @ rest) = (Ready (Inr f), rest)"
        using Cons.IH [of "acc @ b"] Cons.prems False whole by simp
      with short dl b Msg Cons.prems(5) show ?thesis
        by (auto simp: Let_def frame_fits_def)
    qed
  next
    case Interrupted
    with Cons.prems have "as \<noteq> []" by auto
    with Interrupted Cons show ?thesis by simp
  next
    case (Recv_failed e)
    with Cons.prems show ?thesis by simp
  qed
qed simp

text \<open>Nothing else is ever delivered: a frame handed out is the bytes received, no more, no less.\<close>

lemma recv_loop_sound:
  assumes "recv_loop acc answers = (Ready (Inr f), rest)"
  obtains used where "answers = used @ rest" "acc @ fragments_bytes used = encode f" "frame_fits f"
  using assms
proof (induction acc answers arbitrary: thesis rule: recv_loop.induct)
  case (2 acc rest')
  from "2.IH" "2.prems" obtain used where "rest' = used @ rest"
    "acc @ fragments_bytes used = encode f" "frame_fits f"
    by (metis recv_loop.simps(2))
  then show ?case
    by (intro "2.prems"(1) [of "Interrupted # used"]) simp_all
next
  case (4 acc b trunc rest')
  show ?case
  proof (cases "recv_loop (acc @ b) rest' = (Ready (Inr f), rest)")
    case True
    from "4.prems"(2) have "b \<noteq> []" "\<not> trunc" by (auto split: if_splits)
    show ?thesis
    proof (cases "5 \<le> length (acc @ b) \<and> 5 + declared_len (acc @ b) \<le> length (acc @ b)")
      case True
      with "4.prems"(2) have "decode_one (acc @ b) = Some f" "rest' = rest"
        by (auto simp: Let_def split: if_splits option.splits)
      with decode_sound [of "acc @ b" f] show ?thesis
        by (intro "4.prems"(1) [of "[Msg b trunc]"]) simp_all
    next
      case step: False
      have "\<exists>used. rest' = used @ rest \<and> (acc @ b) @ fragments_bytes used = encode f \<and> frame_fits f"
      proof (cases "5 \<le> length (acc @ b)")
        case True
        with "4.IH"(1) [OF _ _ refl True refl] "4.prems"(2) step \<open>b \<noteq> []\<close> \<open>\<not> trunc\<close> show ?thesis
          by (auto simp: Let_def split: if_splits)
      next
        case False
        with "4.IH"(2) [OF _ _ refl False] "4.prems"(2) \<open>b \<noteq> []\<close> \<open>\<not> trunc\<close> show ?thesis
          by (auto simp: Let_def split: if_splits)
      qed
      then show ?thesis
        by (auto intro!: "4.prems"(1) [of "Msg b trunc # _"])
    qed
  next
    case False
    with "4.prems"(2) have "decode_one (acc @ b) = Some f" "rest' = rest"
      by (auto simp: Let_def split: if_splits option.splits)
    with decode_sound [of "acc @ b" f] show ?thesis
      by (intro "4.prems"(1) [of "[Msg b trunc]"]) simp_all
  qed
qed auto

section \<open>The client's pump\<close>

text \<open>
  \<open>pump\<close> of \<^verbatim>\<open>client.rs\<close> waits on three branches at once.  An event is what makes a
  branch progress: an item of the input or control channel (or its closing), or an answer of
  the socket to the pending \<open>recv\<close>.  The booleans say whether the \<open>send\<close> the branch
  performs succeeds.  \<open>pm_acc\<close> is the local buffer of the pending \<open>recv\<close> future: it
  lives as long as that future, and \<open>select!\<close> drops the future whenever another branch
  completes.
\<close>

datatype why = Send_input | Input_closed | Send_resize | Ctrl_closed | Output_closed
  | Jaild_closed | Link_eof io_error

datatype pump_event =
    Input bytes bool | Input_end | Resize u16 u16 bool | Ctrl_end | Answer recv_answer bool

record pump =
  pm_acc :: bytes
  pm_out :: "bytes list"
  pm_sent :: "frame list"
  pm_why :: "why option"

definition pump_frame :: "pump \<Rightarrow> frame \<Rightarrow> bool \<Rightarrow> pump" where
  "pump_frame s f out_ok =
     (if fr_kind f = DATA
      then if out_ok then s\<lparr>pm_out := pm_out s @ [fr_payload f]\<rparr> else s\<lparr>pm_why := Some Output_closed\<rparr>
      else if fr_kind f = CLOSED then s\<lparr>pm_why := Some Jaild_closed\<rparr>
      else s)"

fun pump_step :: "(u16 \<Rightarrow> u16 \<Rightarrow> bytes) \<Rightarrow> pump \<Rightarrow> pump_event \<Rightarrow> pump" where
  "pump_step resize_json s e =
     (if pm_why s \<noteq> None then s
      else case e of
          Input b ok \<Rightarrow>
            if ok then s\<lparr>pm_acc := [], pm_sent := pm_sent s @ [frame_data b]\<rparr>
            else s\<lparr>pm_acc := [], pm_why := Some Send_input\<rparr>
        | Input_end \<Rightarrow> s\<lparr>pm_acc := [], pm_why := Some Input_closed\<rparr>
        | Resize cols rows ok \<Rightarrow>
            if ok then s\<lparr>pm_acc := [],
                pm_sent := pm_sent s @ [\<lparr>fr_kind = RESIZE, fr_payload = resize_json cols rows\<rparr>]\<rparr>
            else s\<lparr>pm_acc := [], pm_why := Some Send_resize\<rparr>
        | Ctrl_end \<Rightarrow> s\<lparr>pm_acc := [], pm_why := Some Ctrl_closed\<rparr>
        | Answer a out_ok \<Rightarrow>
            (case fst (recv_loop (pm_acc s) [a]) of
               Pending acc \<Rightarrow> s\<lparr>pm_acc := acc\<rparr>
             | Ready (Inr f) \<Rightarrow> pump_frame (s\<lparr>pm_acc := []\<rparr>) f out_ok
             | Ready (Inl err) \<Rightarrow> s\<lparr>pm_acc := [], pm_why := Some (Link_eof err)\<rparr>))"

definition pump_run :: "(u16 \<Rightarrow> u16 \<Rightarrow> bytes) \<Rightarrow> pump \<Rightarrow> pump_event list \<Rightarrow> pump" where
  "pump_run resize_json = foldl (pump_step resize_json)"

definition pump_init :: pump where
  "pump_init = \<lparr>pm_acc = [], pm_out = [], pm_sent = [], pm_why = None\<rparr>"

lemma pump_run_simps [simp]:
  "pump_run rj s [] = s"
  "pump_run rj s (e # es) = pump_run rj (pump_step rj s e) es"
  "pump_run rj s (es @ es') = pump_run rj (pump_run rj s es) es'"
  by (simp_all add: pump_run_def)

text \<open>The answers of one record, one event each.\<close>

definition record_events :: "recv_answer list \<Rightarrow> pump_event list" where
  "record_events as = map (\<lambda>a. Answer a True) as"

text \<open>Feeding the answers one by one is the loop of \<open>recv\<close>, suspended in between.\<close>

lemma recv_loop_feed:
  "recv_loop acc (a # as) =
     (case fst (recv_loop acc [a]) of
        Pending acc' \<Rightarrow> recv_loop acc' as
      | Ready r \<Rightarrow> (Ready r, as))"
  by (cases a) (auto simp: Let_def)

lemma pump_run_record:
  assumes "recv_loop (pm_acc s) as = (Ready (Inr f), [])" "pm_why s = None"
  shows "pump_run rj s (record_events as) = pump_frame (s\<lparr>pm_acc := []\<rparr>) f True"
  using assms
proof (induction as arbitrary: s)
  case (Cons a as)
  note step = recv_loop_feed [of "pm_acc s" a as]
  show ?case
  proof (cases "fst (recv_loop (pm_acc s) [a])")
    case (Pending acc')
    with Cons.prems step have "recv_loop acc' as = (Ready (Inr f), [])" by simp
    with Cons.IH [of "s\<lparr>pm_acc := acc'\<rparr>"] Pending Cons.prems show ?thesis
      by (simp add: record_events_def)
  next
    case (Ready r)
    with Cons.prems step have "r = Inr f" "as = []" by auto
    with Ready Cons.prems show ?thesis
      by (simp add: record_events_def)
  qed
qed simp

text \<open>A schedule in which no other branch completes while a record is partly received:
  whole records, and items of the two channels.\<close>

datatype packet = Record frame "recv_answer list" | Typed bytes | Resized u16 u16

fun packet_ok :: "packet \<Rightarrow> bool" where
  "packet_ok (Record f as) \<longleftrightarrow> (\<forall>a \<in> set as. fragment a) \<and> as \<noteq> [] \<and> last as \<noteq> Interrupted
     \<and> fragments_bytes as = encode f \<and> frame_fits f \<and> fr_kind f \<noteq> CLOSED"
| "packet_ok (Typed b) = True"
| "packet_ok (Resized c r) = True"

fun packet_events :: "packet \<Rightarrow> pump_event list" where
  "packet_events (Record f as) = record_events as"
| "packet_events (Typed b) = [Input b True]"
| "packet_events (Resized c r) = [Resize c r True]"

fun packet_output :: "packet \<Rightarrow> bytes list" where
  "packet_output (Record f as) = (if fr_kind f = DATA then [fr_payload f] else [])"
| "packet_output _ = []"

fun packet_sent :: "(u16 \<Rightarrow> u16 \<Rightarrow> bytes) \<Rightarrow> packet \<Rightarrow> frame list" where
  "packet_sent rj (Record f as) = []"
| "packet_sent rj (Typed b) = [frame_data b]"
| "packet_sent rj (Resized c r) = [\<lparr>fr_kind = RESIZE, fr_payload = rj c r\<rparr>]"

lemma pump_run_packet:
  assumes "packet_ok p" "pm_acc s = []" "pm_why s = None"
  shows "pump_run rj s (packet_events p) =
    s\<lparr>pm_out := pm_out s @ packet_output p, pm_sent := pm_sent s @ packet_sent rj p\<rparr>"
proof (cases p)
  case (Record f as)
  with assms recv_loop_fragments [of as "[]" f "[]"]
  have "recv_loop (pm_acc s) as = (Ready (Inr f), [])" by simp
  from pump_run_record [OF this assms(3)] Record assms show ?thesis
    by (auto simp: pump_frame_def)
qed (use assms in simp_all)

lemma pump_run_packets:
  assumes "\<forall>p \<in> set ps. packet_ok p" "pm_acc s = []" "pm_why s = None"
  shows "pump_run rj s (concat (map packet_events ps)) =
    s\<lparr>pm_out := pm_out s @ concat (map packet_output ps),
      pm_sent := pm_sent s @ concat (map (packet_sent rj) ps)\<rparr>"
  using assms
proof (induction ps arbitrary: s)
  case (Cons p ps)
  then have "pump_run rj s (packet_events p) =
    s\<lparr>pm_out := pm_out s @ packet_output p, pm_sent := pm_sent s @ packet_sent rj p\<rparr>"
    by (simp add: pump_run_packet)
  with Cons show ?case by simp
qed simp

text \<open>A record cut in two by a keystroke: its head is dropped with the future that held it.\<close>

lemma recv_one_message:
  assumes "fst (recv_loop [] [Msg b trunc]) = Ready (Inr g)"
  shows "encode g = b"
proof -
  obtain rest where "recv_loop [] [Msg b trunc] = (Ready (Inr g), rest)"
    using assms by (cases "recv_loop [] [Msg b trunc]") simp
  then obtain used where "[Msg b trunc] = used @ rest" "fragments_bytes used = encode g"
    by (rule recv_loop_sound) simp
  then show ?thesis
    using encode_not_Nil [of g] by (cases used) (auto simp: append_eq_Cons_conv)
qed

lemma pump_drops_head:
  assumes "encode f = a @ b" "a \<noteq> []" "b \<noteq> []" "frame_fits f"
    "pm_acc s = []" "pm_why s = None"
  shows "pm_out (pump_run rj s [Answer (Msg a False) True, Input x True, Answer (Msg b False) True])
    \<noteq> pm_out s @ [fr_payload f]"
proof -
  define s1 where "s1 = s\<lparr>pm_acc := [], pm_sent := pm_sent s @ [frame_data x]\<rparr>"
  have "declared_len a = length (fr_payload f)" if "5 \<le> length a"
    using that declared_len_append [of a b] declared_len_fits [OF assms(4)] assms(1) by simp
  moreover have "length a < 5 + length (fr_payload f)"
    using assms(1,3) length_encode [of f] by (cases b) auto
  ultimately have "fst (recv_loop [] [Msg a False]) = Pending a"
    using assms(2,4) by (auto simp: Let_def frame_fits_def)
  then have run: "pump_run rj s [Answer (Msg a False) True, Input x True, Answer (Msg b False) True]
      = pump_step rj s1 (Answer (Msg b False) True)"
    using assms by (simp add: s1_def del: recv_loop.simps)
  have "pm_out (pump_step rj s1 (Answer (Msg b False) True)) \<noteq> pm_out s @ [fr_payload f]"
  proof (cases "fst (recv_loop [] [Msg b False])")
    case (Ready r)
    show ?thesis
    proof (cases r)
      case (Inr g)
      with Ready recv_one_message have "encode g = b" by simp
      with assms(1,2) length_encode [of f] length_encode [of g]
      have "fr_payload g \<noteq> fr_payload f" by (cases a) auto
      with Ready Inr assms(5,6) show ?thesis
        by (simp add: s1_def pump_frame_def del: recv_loop.simps)
    qed (use Ready assms(5,6) in \<open>simp add: s1_def del: recv_loop.simps\<close>)
  qed (use assms(5,6) in \<open>simp add: s1_def del: recv_loop.simps\<close>)
  then show ?thesis unfolding run .
qed

end
