(* ===== verification/Wire_Properties.thy ===== *)
theory Wire_Properties
  imports Link "HOL-Library.Code_Target_Nat"
begin

text \<open>
  The properties of the frame format, of the link and of the session client's pump.
\<close>

section \<open>Frames\<close>

text \<open>The decoder accepts exactly the encodings of the frames whose payload fits, so that a
  frame and its bytes determine each other; nothing after the payload and nothing short of it is
  accepted.\<close>

theorem decode_exact:
  "decode_one b = Some f \<longleftrightarrow> length (fr_payload f) \<le> MAX_FRAME \<and> encode f = b"
  using wire.dec_Some_iff [of b f] by (simp add: frame_fits_def)

section \<open>The link\<close>

text \<open>C7: a frame that one side has sent without an error arrives at the other side as it was,
  however the kernel took it in pieces, however it cuts the record for the receiver and however
  often the receiver is interrupted.\<close>

theorem link_delivers:
  assumes "link_send f taken = (Ready (Inr ()), out)" "length (fr_payload f) \<le> MAX_FRAME"
    "\<forall>a \<in> set answers. fragment a" "answers \<noteq> []" "last answers \<noteq> Interrupted"
    "concat (map answer_bytes answers) = out"
  shows "link_recv answers = (Ready (Inr f), [])"
proof -
  have "out = encode f" by (rule link_send_writes(2) [OF assms(1) refl])
  with recv_loop_fragments [of answers "[]" f "[]"] assms(2-6) show ?thesis
    by (simp add: link_recv_def frame_fits_def)
qed

theorem link_delivers_witness:
  "link_recv [Msg [2, 0, 0] False, Interrupted, Msg [0, 1] False, Msg [65] False]
     = (Ready (Inr \<lparr>fr_kind = 2, fr_payload = [65]\<rparr>), [])"
proof -
  have "link_send \<lparr>fr_kind = 2, fr_payload = [65]\<rparr> [Sent 4, Sent 2] = (Ready (Inr ()), [2, 0, 0, 0, 1, 65])"
    by code_simp
  from link_delivers [OF this] show ?thesis by (simp add: MAX_FRAME_def)
qed

text \<open>Whatever the socket answers, a frame that is handed out is the bytes consumed, no more and
  no less: a truncated message, a second record or a length beyond the limit is an error instead.\<close>

theorem link_recv_exact:
  assumes "link_recv answers = (Ready (Inr f), rest)"
  shows "\<exists>used. answers = used @ rest \<and> concat (map answer_bytes used) = encode f
    \<and> length (fr_payload f) \<le> MAX_FRAME"
  using assms unfolding link_recv_def
  by (rule recv_loop_sound) (auto simp: frame_fits_def)

theorem link_recv_exact_witness:
  "\<exists>used. [Msg [6, 0, 0, 0, 0] False, Msg [9] False] = used @ [Msg [9] False]
     \<and> concat (map answer_bytes used) = encode \<lparr>fr_kind = 6, fr_payload = []\<rparr>"
proof -
  have "link_recv [Msg [6, 0, 0, 0, 0] False, Msg [9] False] = (Ready (Inr \<lparr>fr_kind = 6, fr_payload = []\<rparr>), [Msg [9] False])"
    by code_simp
  from link_recv_exact [OF this] show ?thesis by blast
qed

section \<open>The pump of a session client\<close>

text \<open>While no keystroke or resize comes in the middle of a record, the pump of a session
  forwards every data frame to the terminal and every input and resize to the jail, in order and
  without a loss, however the records are cut.\<close>

theorem pump_forwards:
  assumes "\<forall>p \<in> set ps. packet_ok p"
  shows "pump_run rj pump_init (concat (map packet_events ps)) =
    \<lparr>pm_acc = [], pm_out = concat (map packet_output ps), pm_sent = concat (map (packet_sent rj) ps), pm_why = None\<rparr>"
  using pump_run_packets [OF assms, of pump_init rj] by (simp add: pump_init_def)

theorem pump_forwards_witness:
  "pm_out (pump_run (\<lambda>c r. []) pump_init (concat (map packet_events
      [Typed [97], Record \<lparr>fr_kind = 2, fr_payload = [65]\<rparr> [Msg [2, 0, 0] False, Msg [0, 1, 65] False]]))) = [[65]]"
proof -
  let ?ps = "[Typed [97], Record \<lparr>fr_kind = 2, fr_payload = [65]\<rparr> [Msg [2, 0, 0] False, Msg [0, 1, 65] False]]"
  have "encode \<lparr>fr_kind = 2, fr_payload = [65]\<rparr> = [2, 0, 0, 0, 1, 65]" by code_simp
  then have "\<forall>p \<in> set ?ps. packet_ok p" by (simp add: frame_fits_def MAX_FRAME_def CLOSED_def)
  from pump_forwards [OF this, of "\<lambda>c r. []"] show ?thesis by (simp add: DATA_def)
qed

text \<open>C11: but when a keystroke arrives between two pieces of a record, \<open>select!\<close> drops the pending
  \<open>recv\<close> and the piece it holds: the frame is never delivered as it was sent.\<close>

theorem pump_loses_partial_record:
  assumes "encode f = a @ b" "a \<noteq> []" "b \<noteq> []" "length (fr_payload f) \<le> MAX_FRAME"
  shows "pm_out (pump_run rj pump_init [Answer (Msg a False) True, Input x True, Answer (Msg b False) True])
    \<noteq> [fr_payload f]"
  using pump_drops_head [OF assms(1-3), of pump_init rj x] assms(4)
  by (simp add: frame_fits_def pump_init_def)

theorem pump_loses_partial_record_witness:
  "pm_out (pump_run (\<lambda>c r. []) pump_init
     [Answer (Msg [2, 0, 0] False) True, Input [97] True, Answer (Msg [0, 1, 65] False) True]) \<noteq> [[65]]"
proof -
  have "encode \<lparr>fr_kind = 2, fr_payload = [65]\<rparr> = [2, 0, 0] @ [0, 1, 65]" by code_simp
  from pump_loses_partial_record [OF this] show ?thesis by (simp add: MAX_FRAME_def)
qed

end
