(* ===== verification/Rust_Text.thy ===== *)
theory Rust_Text
  imports Rust_Prelude
begin

text \<open>
  Rust's text functions the servers use: decimal and hexadecimal \<open>Display\<close>, \<open>parse\<close>
  of unsigned decimals, UTF-8 decoding and \<open>trim\<close>.
\<close>

section \<open>Numbers as text\<close>

fun digits :: "nat \<Rightarrow> nat \<Rightarrow> nat list" where
  "digits b n = (if b < 2 \<or> n < b then [n] else digits b (n div b) @ [n mod b])"

declare digits.simps [simp del]

definition digit_char :: "nat \<Rightarrow> char" where
  "digit_char n = (if n < 10 then char_of (48 + n) else char_of (87 + n))"

definition show_nat :: "nat \<Rightarrow> string" where
  "show_nat n = map digit_char (digits 10 n)"

definition show_hex :: "nat \<Rightarrow> string" where
  "show_hex n = map digit_char (digits 16 n)"

text \<open>\<open>char::to_digit(radix)\<close>.\<close>

definition to_digit :: "nat \<Rightarrow> char \<Rightarrow> nat option" where
  "to_digit radix c =
     (let v = of_char c :: nat;
          d = (if 48 \<le> v \<and> v \<le> 57 then Some (v - 48)
               else if 97 \<le> v \<and> v \<le> 122 then Some (v - 87)
               else if 65 \<le> v \<and> v \<le> 90 then Some (v - 55) else None)
      in case d of None \<Rightarrow> None | Some n \<Rightarrow> if n < radix then Some n else None)"

definition digits_value :: "nat \<Rightarrow> nat list \<Rightarrow> nat" where
  "digits_value b ds = foldl (\<lambda>acc d. b * acc + d) 0 ds"

lemma digits_value_append [simp]: "digits_value b (ds @ [d]) = b * digits_value b ds + d"
  by (simp add: digits_value_def)

lemma digits_value_digits: "2 \<le> b \<Longrightarrow> digits_value b (digits b n) = n"
proof (induction b n rule: digits.induct)
  case (1 b n)
  then show ?case
    by (cases "n < b") (simp_all add: digits.simps [of b n] digits_value_def [of b "[n]"])
qed

lemma digits_less: "2 \<le> b \<Longrightarrow> d \<in> set (digits b n) \<Longrightarrow> d < b"
proof (induction b n rule: digits.induct)
  case (1 b n)
  then show ?case
    by (cases "n < b") (auto simp: digits.simps [of b n])
qed

lemma digits_not_Nil [simp]: "digits b n \<noteq> []"
  by (subst digits.simps) simp

lemma digits_leading: "2 \<le> b \<Longrightarrow> hd (digits b n) = 0 \<Longrightarrow> n = 0"
proof (induction b n rule: digits.induct)
  case (1 b n)
  show ?case
  proof (cases "n < b")
    case False
    with "1.prems" have "hd (digits b (n div b)) = 0"
      by (simp add: digits.simps [of b n])
    with False "1.IH" "1.prems"(1) have "n div b = 0" by simp
    with False "1.prems"(1) show ?thesis by (simp add: div_eq_0_iff)
  qed (use "1.prems" in \<open>simp add: digits.simps [of b n]\<close>)
qed

lemma digits_length: "2 \<le> b \<Longrightarrow> 0 < k \<Longrightarrow> n < b ^ k \<Longrightarrow> length (digits b n) \<le> k"
proof (induction b n arbitrary: k rule: digits.induct)
  case (1 b n)
  show ?case
  proof (cases "n < b")
    case False
    with "1.prems" obtain m where k: "k = Suc m" "0 < m"
      by (cases k; cases "k - 1") auto
    with "1.prems" have "n div b < b ^ m"
      by (simp add: less_mult_imp_div_less mult.commute)
    with "1.IH" [of m] False "1.prems"(1) k show ?thesis
      by (simp add: digits.simps [of b n])
  qed (use "1.prems" in \<open>simp add: digits.simps [of b n]\<close>)
qed

lemma digit_char_value [simp]:
  "n < 36 \<Longrightarrow> (of_char (digit_char n) :: nat) = (if n < 10 then 48 + n else 87 + n)"
  by (simp add: digit_char_def)

lemma to_digit_digit_char [simp]:
  "n < radix \<Longrightarrow> radix \<le> 36 \<Longrightarrow> to_digit radix (digit_char n) = Some n"
  by (auto simp: to_digit_def Let_def)

lemma digit_char_zero:
  assumes "n < 36"
  shows "digit_char n = CHR ''0'' \<longleftrightarrow> n = 0"
proof
  assume "digit_char n = CHR ''0''"
  then have "(of_char (digit_char n) :: nat) = 48" by simp
  with assms show "n = 0" by (simp split: if_splits)
next
  assume "n = 0"
  then have "(of_char (digit_char n) :: nat) = of_char (CHR ''0'')" by simp
  then show "digit_char n = CHR ''0''" by (simp only: of_char_eq_iff)
qed

section \<open>Unsigned decimals\<close>

text \<open>\<open>parse::<u64>()\<close> of a non-empty string of digits: an overflow is the error.\<close>

definition is_digit_cp :: "nat \<Rightarrow> bool" where
  "is_digit_cp c \<longleftrightarrow> 48 \<le> c \<and> c \<le> 57"

definition parse_u64_digits :: "ustr \<Rightarrow> u64 option" where
  "parse_u64_digits ds =
     (let v = digits_value 10 (map (\<lambda>c. c - 48) ds)
      in if v < 2 ^ 64 then Some (of_nat v) else None)"

section \<open>Code points\<close>

definition is_scalar :: "nat \<Rightarrow> bool" where
  "is_scalar c \<longleftrightarrow> c < 0xD800 \<or> 0xE000 \<le> c \<and> c < 0x110000"

text \<open>\<open>char::is_whitespace\<close>: the code points with the property \<open>White_Space\<close>.\<close>

definition is_whitespace :: "nat \<Rightarrow> bool" where
  "is_whitespace c \<longleftrightarrow> 9 \<le> c \<and> c \<le> 13 \<or> c = 32 \<or> c = 133 \<or> c = 160 \<or> c = 5760
     \<or> 8192 \<le> c \<and> c \<le> 8202 \<or> c = 8232 \<or> c = 8233 \<or> c = 8239 \<or> c = 8287 \<or> c = 12288"

definition trim :: "ustr \<Rightarrow> ustr" where
  "trim = trim_by is_whitespace"

lemma set_trim: "set (trim s) \<subseteq> set s"
  by (simp add: trim_def set_trim_by)

lemma ulen_trim: "ulen (trim s) \<le> ulen s"
  by (simp add: trim_def ulen_trim_le)

section \<open>UTF-8\<close>

text \<open>\<open>str::from_utf8\<close>: the well-formed byte sequences of the Unicode standard.\<close>

definition is_cont :: "nat \<Rightarrow> bool" where
  "is_cont b \<longleftrightarrow> 128 \<le> b \<and> b \<le> 191"

definition cp2 :: "nat \<Rightarrow> nat \<Rightarrow> nat" where
  "cp2 b c1 = (b - 192) * 64 + (c1 - 128)"

definition cp3 :: "nat \<Rightarrow> nat \<Rightarrow> nat \<Rightarrow> nat" where
  "cp3 b c1 c2 = (b - 224) * 4096 + (c1 - 128) * 64 + (c2 - 128)"

definition cp4 :: "nat \<Rightarrow> nat \<Rightarrow> nat \<Rightarrow> nat \<Rightarrow> nat" where
  "cp4 b c1 c2 c3 = (b - 240) * 262144 + (c1 - 128) * 4096 + (c2 - 128) * 64 + (c3 - 128)"

text \<open>One character and the bytes after it.\<close>

fun utf8_char :: "nat list \<Rightarrow> (nat \<times> nat list) option" where
  "utf8_char [] = None"
| "utf8_char (b # bs) =
     (if b < 128 then Some (b, bs)
      else if 194 \<le> b \<and> b \<le> 223 then
        (case bs of
           c1 # rest \<Rightarrow> if is_cont c1 then Some (cp2 b c1, rest) else None
         | _ \<Rightarrow> None)
      else if 224 \<le> b \<and> b \<le> 239 then
        (case bs of
           c1 # c2 # rest \<Rightarrow>
             if is_cont c1 \<and> is_cont c2 \<and> (b = 224 \<longrightarrow> 160 \<le> c1) \<and> (b = 237 \<longrightarrow> c1 \<le> 159)
             then Some (cp3 b c1 c2, rest) else None
         | _ \<Rightarrow> None)
      else if 240 \<le> b \<and> b \<le> 244 then
        (case bs of
           c1 # c2 # c3 # rest \<Rightarrow>
             if is_cont c1 \<and> is_cont c2 \<and> is_cont c3
                \<and> (b = 240 \<longrightarrow> 144 \<le> c1) \<and> (b = 244 \<longrightarrow> c1 \<le> 143)
             then Some (cp4 b c1 c2 c3, rest) else None
         | _ \<Rightarrow> None)
      else None)"

lemma cp2_range:
  assumes "194 \<le> b" "b \<le> 223" "is_cont c1"
  shows "is_scalar (cp2 b c1)" "len_utf8 (cp2 b c1) = 2"
proof -
  have "128 \<le> cp2 b c1" "cp2 b c1 < 2048"
    using assms by (auto simp: is_cont_def cp2_def)
  then show "is_scalar (cp2 b c1)" "len_utf8 (cp2 b c1) = 2"
    by (simp_all add: is_scalar_def len_utf8_def)
qed

lemma cp3_range:
  assumes "224 \<le> b" "b \<le> 239" "is_cont c1" "is_cont c2"
    "b = 224 \<longrightarrow> 160 \<le> c1" "b = 237 \<longrightarrow> c1 \<le> 159"
  shows "is_scalar (cp3 b c1 c2)" "len_utf8 (cp3 b c1 c2) = 3"
proof -
  obtain x where b: "b = 224 + x" using assms(1) le_Suc_ex by blast
  obtain y where c1: "c1 = 128 + y" using assms(3) le_Suc_ex unfolding is_cont_def by blast
  obtain z where c2: "c2 = 128 + z" using assms(4) le_Suc_ex unfolding is_cont_def by blast
  have cp: "cp3 b c1 c2 = x * 4096 + y * 64 + z" by (simp add: cp3_def b c1 c2)
  have r: "x \<le> 15" "y \<le> 63" "z \<le> 63" "x = 0 \<longrightarrow> 32 \<le> y" "x = 13 \<longrightarrow> y \<le> 31"
    using assms b c1 c2 by (auto simp: is_cont_def)
  have "2048 \<le> cp3 b c1 c2" "cp3 b c1 c2 < 65536"
    using r unfolding cp by (cases "x = 0"; simp)+
  moreover have "cp3 b c1 c2 < 0xD800 \<or> 0xE000 \<le> cp3 b c1 c2"
    using r unfolding cp by (cases "x < 13"; cases "x = 13"; simp)
  ultimately show "is_scalar (cp3 b c1 c2)" "len_utf8 (cp3 b c1 c2) = 3"
    by (auto simp: is_scalar_def len_utf8_def)
qed

lemma cp4_range:
  assumes "240 \<le> b" "b \<le> 244" "is_cont c1" "is_cont c2" "is_cont c3"
    "b = 240 \<longrightarrow> 144 \<le> c1" "b = 244 \<longrightarrow> c1 \<le> 143"
  shows "is_scalar (cp4 b c1 c2 c3)" "len_utf8 (cp4 b c1 c2 c3) = 4"
proof -
  obtain x where b: "b = 240 + x" using assms(1) le_Suc_ex by blast
  obtain y where c1: "c1 = 128 + y" using assms(3) le_Suc_ex unfolding is_cont_def by blast
  obtain z where c2: "c2 = 128 + z" using assms(4) le_Suc_ex unfolding is_cont_def by blast
  obtain w where c3: "c3 = 128 + w" using assms(5) le_Suc_ex unfolding is_cont_def by blast
  have cp: "cp4 b c1 c2 c3 = x * 262144 + y * 4096 + z * 64 + w" by (simp add: cp4_def b c1 c2 c3)
  have r: "x \<le> 4" "y \<le> 63" "z \<le> 63" "w \<le> 63" "x = 0 \<longrightarrow> 16 \<le> y" "x = 4 \<longrightarrow> y \<le> 15"
    using assms b c1 c2 c3 by (auto simp: is_cont_def)
  have "65536 \<le> cp4 b c1 c2 c3"
    using r unfolding cp by (cases "x = 0"; simp)
  moreover have "cp4 b c1 c2 c3 < 0x110000"
    using r unfolding cp by (cases "x = 4"; simp)
  ultimately show "is_scalar (cp4 b c1 c2 c3)" "len_utf8 (cp4 b c1 c2 c3) = 4"
    by (simp_all add: is_scalar_def len_utf8_def)
qed

lemma ascii_range: "b < 128 \<Longrightarrow> is_scalar b" "b < 128 \<Longrightarrow> len_utf8 b = 1"
  by (simp_all add: is_scalar_def len_utf8_def)

lemma utf8_char_scalar:
  "utf8_char xs = Some (c, rest) \<Longrightarrow> is_scalar c \<and> length xs = len_utf8 c + length rest"
  by (cases xs)
    (auto simp: ascii_range cp2_range cp3_range cp4_range split: if_splits list.splits)

lemma utf8_char_shorter: "utf8_char xs = Some (c, rest) \<Longrightarrow> length rest < length xs"
  using utf8_char_scalar [of xs c rest] len_utf8_pos [of c] by simp

lemma utf8_char_append:
  "utf8_char xs = Some (c, rest) \<Longrightarrow> utf8_char (xs @ ys) = Some (c, rest @ ys)"
  by (cases xs) (auto split: if_splits list.splits)

function utf8_decode :: "nat list \<Rightarrow> ustr option" where
  "utf8_decode bs =
     (if bs = [] then Some []
      else case utf8_char bs of
          None \<Rightarrow> None
        | Some (c, rest) \<Rightarrow> map_option (Cons c) (utf8_decode rest))"
  by pat_completeness auto
termination
  by (relation "measure length") (auto dest: utf8_char_shorter)

declare utf8_decode.simps [simp del]

definition from_utf8 :: "bytes \<Rightarrow> ustr option" where
  "from_utf8 bs = utf8_decode (map unat bs)"

lemma utf8_decode_append:
  "utf8_decode xs = Some us \<Longrightarrow> utf8_decode (xs @ ys) = map_option (append us) (utf8_decode ys)"
proof (induction xs arbitrary: us rule: utf8_decode.induct)
  case (1 bs)
  show ?case
  proof (cases "bs = []")
    case True
    with "1.prems" show ?thesis
      by (cases "utf8_decode ys") (simp_all add: utf8_decode.simps [of "[]"])
  next
    case False
    with "1.prems" obtain c rest us' where c: "utf8_char bs = Some (c, rest)"
      and us: "utf8_decode rest = Some us'" "us = c # us'"
      by (auto simp: utf8_decode.simps [of bs] split: option.splits)
    from "1.IH" [OF False c refl us(1)] False us(2) utf8_char_append [OF c, of ys] show ?thesis
      by (cases "utf8_decode ys") (simp_all add: utf8_decode.simps [of "bs @ ys"])
  qed
qed

lemma from_utf8_append:
  "from_utf8 xs = Some us \<Longrightarrow> from_utf8 ys = Some vs \<Longrightarrow> from_utf8 (xs @ ys) = Some (us @ vs)"
  by (simp add: from_utf8_def utf8_decode_append)

text \<open>A file of lines of JSON, each ended by a newline, is UTF-8 and is split into these lines.\<close>

lemma terminated_lines:
  assumes "\<forall>l \<in> set ls. l \<noteq> [] \<and> 10 \<notin> set l \<and> last l \<noteq> 13 \<and> from_utf8 l \<noteq> None"
  shows "lines_of 10 13 (concat (map (\<lambda>l. l @ [10]) ls)) = ls"
    "from_utf8 (concat (map (\<lambda>l. l @ [10]) ls)) \<noteq> None"
proof -
  have "strip_suffix [13] l = None" if "l \<in> set ls" for l
    using assms that unfolding strip_suffix_None by (metis last_snoc)
  with assms have "\<forall>l \<in> set ls. 10 \<notin> set l \<and> strip_suffix [13] l = None" by simp
  from lines_of_terminated [OF this] show "lines_of 10 13 (concat (map (\<lambda>l. l @ [10]) ls)) = ls" .
  have nl: "from_utf8 [10] = Some [10]" "from_utf8 [] = Some []"
    by (simp_all add: from_utf8_def utf8_decode.simps)
  show "from_utf8 (concat (map (\<lambda>l. l @ [10]) ls)) \<noteq> None"
    using assms
  proof (induction ls)
    case (Cons l ls)
    then have "from_utf8 l \<noteq> None" "from_utf8 (concat (map (\<lambda>l. l @ [10]) ls)) \<noteq> None" by simp_all
    then obtain us vs where "from_utf8 l = Some us" "from_utf8 (concat (map (\<lambda>l. l @ [10]) ls)) = Some vs" by blast
    then have "from_utf8 ((l @ [10]) @ concat (map (\<lambda>l. l @ [10]) ls)) = Some ((us @ [10]) @ vs)"
      using from_utf8_append nl(1) by blast
    then show ?case by simp
  qed (simp add: nl(2))
qed

text \<open>The decoded text has scalar values only, and \<open>len_utf8\<close> of its characters adds up to
  the number of bytes.\<close>

lemma utf8_decode_scalar:
  "utf8_decode bs = Some us \<Longrightarrow> (\<forall>c \<in> set us. is_scalar c) \<and> ulen us = length bs"
proof (induction bs arbitrary: us rule: utf8_decode.induct)
  case (1 bs)
  show ?case
  proof (cases "bs = []")
    case False
    with "1.prems" obtain c rest us' where c: "utf8_char bs = Some (c, rest)"
      and us: "utf8_decode rest = Some us'" "us = c # us'"
      by (auto simp: utf8_decode.simps [of bs] split: option.splits)
    from "1.IH" [OF False c refl us(1)] utf8_char_scalar [OF c] us(2) show ?thesis by simp
  qed (use "1.prems" in \<open>simp add: utf8_decode.simps [of "[]"]\<close>)
qed

lemma from_utf8_length: "from_utf8 bs = Some us \<Longrightarrow> ulen us = length bs"
  by (auto simp: from_utf8_def dest: utf8_decode_scalar)

end
