(* ===== verification/Comment_Protocol.thy ===== *)
theory Comment_Protocol
  imports Content_Model Rust_Text
begin

text \<open>
  The requests and answers of \<^verbatim>\<open>crates/servers/commentd/src/protocol.rs\<close> and
  \<open>visible_comments\<close>, the projection of the private log (global ids) to the public view
  (numbers local to a target).
\<close>

section \<open>Requests and answers\<close>

definition PUBLIC_QUERY :: u8 where "PUBLIC_QUERY = 1"
definition PRIVATE_SUBMIT :: u8 where "PRIVATE_SUBMIT = 1"
definition PRIVATE_SYNC :: u8 where "PRIVATE_SYNC = 2"
definition PRIVATE_QUEUE :: u8 where "PRIVATE_QUEUE = 3"
definition PRIVATE_APPROVE :: u8 where "PRIVATE_APPROVE = 4"
definition PRIVATE_REJECT :: u8 where "PRIVATE_REJECT = 5"

definition DEFAULT_LIMIT :: u16 where "DEFAULT_LIMIT = 100"
definition MAX_LIMIT :: u16 where "MAX_LIMIT = 100"
definition MAX_COMMENT_BYTES :: nat where "MAX_COMMENT_BYTES = 512"

record comment =
  cm_id :: u64
  cm_target :: string
  cm_author :: ustr
  cm_text :: ustr
  cm_created_at :: string
  cm_reply_to_id :: "u64 option"

record visible_reply =
  vr_number :: u64
  vr_author :: ustr

record visible_comment =
  vc_number :: u64
  vc_target :: string
  vc_author :: ustr
  vc_text :: ustr
  vc_created_at :: string
  vc_reply_to :: "visible_reply option"

record public_query =
  pq_target :: string
  pq_after_number :: "u64 option"
  pq_limit :: "u16 option"
  pq_revision :: "string option"

record public_query_response =
  pr_ok :: bool
  pr_revision :: string
  pr_total :: nat
  pr_omitted_earlier :: nat
  pr_comments :: "visible_comment list"
  pr_next_after_number :: "u64 option"
  pr_has_more :: bool
  pr_error :: "string option"

record submit_request =
  sr_target :: string
  sr_line :: ustr
  sr_ip :: string

record submit_response =
  sp_ok :: bool
  sp_id :: "u64 option"
  sp_notice :: string
  sp_error :: "string option"

record page_request =
  pg_after_id :: u64
  pg_limit :: "u16 option"
  pg_revision :: "string option"

record page_response =
  pp_ok :: bool
  pp_revision :: string
  pp_comments :: "comment list"
  pp_next_after_id :: "u64 option"
  pp_has_more :: bool
  pp_error :: "string option"

record moderate_response =
  mr_ok :: bool
  mr_changed :: nat
  mr_error :: "string option"

definition page_limit :: "u16 option \<Rightarrow> string + nat" where
  "page_limit limit =
     (let n = (case limit of None \<Rightarrow> DEFAULT_LIMIT | Some n \<Rightarrow> n)
      in if \<not> (1 \<le> n \<and> n \<le> MAX_LIMIT) then Inl ''limit must be between 1 and 100''
         else Inr (unat n))"

lemma page_limit_range: "page_limit l = Inr n \<Longrightarrow> 1 \<le> n \<and> n \<le> 100"
  by (auto simp: page_limit_def Let_def DEFAULT_LIMIT_def MAX_LIMIT_def word_le_nat_alt split: if_splits)

lemma page_limit_default: "page_limit None = Inr 100"
  by (simp add: page_limit_def DEFAULT_LIMIT_def MAX_LIMIT_def)

lemma page_limit_error: "page_limit l = Inl e \<Longrightarrow> e = ''limit must be between 1 and 100''"
  by (auto simp: page_limit_def Let_def split: if_splits)

section \<open>The public view\<close>

datatype visible_error = Ids_not_increasing | Numbers_exhausted | Reply_missing u64 | Reply_crosses u64

text \<open>The counter of a target: \<open>entry().or_default()\<close>.\<close>

definition counter :: "(string \<rightharpoonup> u64) \<Rightarrow> string \<Rightarrow> u64" where
  "counter next_number t = (case next_number t of None \<Rightarrow> 0 | Some n \<Rightarrow> n)"

fun visible_loop ::
  "u64 \<Rightarrow> (string \<rightharpoonup> u64) \<Rightarrow> (u64 \<rightharpoonup> string \<times> visible_reply) \<Rightarrow> visible_comment list
     \<Rightarrow> comment list \<Rightarrow> visible_error + visible_comment list"
where
  "visible_loop last_id next_number seen out [] = Inr out"
| "visible_loop last_id next_number seen out (c # rest) =
     (if cm_id c = 0 \<or> cm_id c \<le> last_id then Inl Ids_not_increasing
      else case checked_add (counter next_number (cm_target c)) 1 of
          None \<Rightarrow> Inl Numbers_exhausted
        | Some number \<Rightarrow>
            and_then
              (case cm_reply_to_id c of
                 None \<Rightarrow> Inr None
               | Some parent_id \<Rightarrow>
                   (case seen parent_id of
                      None \<Rightarrow> Inl (Reply_missing parent_id)
                    | Some (parent_target, parent) \<Rightarrow>
                        if parent_target \<noteq> cm_target c then Inl (Reply_crosses parent_id)
                        else Inr (Some parent)))
              (\<lambda>reply_to.
                 visible_loop (cm_id c) (next_number(cm_target c \<mapsto> number))
                   (seen(cm_id c \<mapsto> (cm_target c, \<lparr>vr_number = number, vr_author = cm_author c\<rparr>)))
                   (out @ [\<lparr>vc_number = number, vc_target = cm_target c, vc_author = cm_author c,
                            vc_text = cm_text c, vc_created_at = cm_created_at c,
                            vc_reply_to = reply_to\<rparr>])
                   rest))"

definition visible_comments :: "comment list \<Rightarrow> visible_error + visible_comment list" where
  "visible_comments comments = visible_loop 0 Map.empty Map.empty [] comments"

section \<open>What the view shows\<close>

text \<open>A log the projection accepts: ids positive and strictly increasing, a reply to an earlier
  comment of the same target.\<close>

fun replies_back :: "comment list \<Rightarrow> comment list \<Rightarrow> bool" where
  "replies_back done [] = True"
| "replies_back done (c # rest) \<longleftrightarrow>
     (\<forall>p. cm_reply_to_id c = Some p \<longrightarrow> (\<exists>d \<in> set done. cm_id d = p \<and> cm_target d = cm_target c))
     \<and> replies_back (done @ [c]) rest"

definition visible_ok :: "comment list \<Rightarrow> bool" where
  "visible_ok cs \<longleftrightarrow> sorted_wrt (<) (0 # map cm_id cs) \<and> replies_back [] cs"

definition local_count :: "string \<Rightarrow> comment list \<Rightarrow> nat" where
  "local_count t cs = length (filter (\<lambda>c. cm_target c = t) cs)"

text \<open>The position of an id among comments, and the number and author by which a reply names
  the comment there.\<close>

definition index_of :: "u64 \<Rightarrow> comment list \<Rightarrow> nat option" where
  "index_of p cs = find (\<lambda>i. cm_id (cs ! i) = p) [0..<length cs]"

definition ref_at :: "comment list \<Rightarrow> nat \<Rightarrow> visible_reply" where
  "ref_at cs i = \<lparr>vr_number = of_nat (local_count (cm_target (cs ! i)) (take (Suc i) cs)),
                  vr_author = cm_author (cs ! i)\<rparr>"

definition shown_as :: "comment list \<Rightarrow> u64 \<Rightarrow> visible_reply option" where
  "shown_as done p = map_option (ref_at done) (index_of p done)"

definition shown_at :: "comment list \<Rightarrow> nat \<Rightarrow> visible_comment" where
  "shown_at cs i =
     (let c = cs ! i
      in \<lparr>vc_number = of_nat (local_count (cm_target c) (take (Suc i) cs)), vc_target = cm_target c,
          vc_author = cm_author c, vc_text = cm_text c, vc_created_at = cm_created_at c,
          vc_reply_to = Option.bind (cm_reply_to_id c) (shown_as (take i cs))\<rparr>)"

definition shown :: "comment list \<Rightarrow> visible_comment list" where
  "shown cs = map (shown_at cs) [0..<length cs]"

lemma local_count_append [simp]: "local_count t (cs @ ds) = local_count t cs + local_count t ds"
  by (simp add: local_count_def)

lemma local_count_Cons [simp]:
  "local_count t [] = 0"
  "local_count t (c # cs) = (if cm_target c = t then 1 else 0) + local_count t cs"
  by (simp_all add: local_count_def)

lemma local_count_le: "local_count t cs \<le> length cs"
  by (simp add: local_count_def)

lemma shown_at_append: "i < length cs \<Longrightarrow> shown_at (cs @ ds) i = shown_at cs i"
  by (simp add: shown_at_def nth_append Let_def)

lemma shown_snoc: "shown (cs @ [c]) = shown cs @ [shown_at (cs @ [c]) (length cs)]"
  by (auto simp: shown_def shown_at_append)

lemma length_shown [simp]: "length (shown cs) = length cs"
  by (simp add: shown_def)

text \<open>The state of the loop after the comments \<open>done\<close>.\<close>

definition numbers_of :: "comment list \<Rightarrow> string \<rightharpoonup> u64" where
  "numbers_of done t = (if local_count t done = 0 then None else Some (of_nat (local_count t done)))"

definition seen_of :: "comment list \<Rightarrow> u64 \<rightharpoonup> string \<times> visible_reply" where
  "seen_of done p = map_option (\<lambda>i. (cm_target (done ! i), ref_at done i)) (index_of p done)"

lemma counter_numbers_of [simp]: "counter (numbers_of done) t = of_nat (local_count t done)"
  by (simp add: counter_def numbers_of_def)

lemma numbers_of_snoc:
  "(numbers_of done)(cm_target c \<mapsto> of_nat (Suc (local_count (cm_target c) done))) = numbers_of (done @ [c])"
  by (rule ext) (simp add: numbers_of_def)

lemma index_of_None: "index_of p cs = None \<longleftrightarrow> p \<notin> cm_id ` set cs"
proof -
  have "index_of p cs = None \<longleftrightarrow> (\<forall>i < length cs. cm_id (cs ! i) \<noteq> p)"
    by (simp add: index_of_def find_None_iff)
  also have "\<dots> \<longleftrightarrow> p \<notin> cm_id ` set cs"
    by (auto simp: in_set_conv_nth image_iff) (metis nth_mem)
  finally show ?thesis .
qed

lemma index_of_Some: "index_of p cs = Some i \<Longrightarrow> i < length cs \<and> cm_id (cs ! i) = p"
  by (auto simp: index_of_def find_Some_iff)

lemma index_of_snoc:
  assumes "cm_id c \<notin> cm_id ` set cs"
  shows "index_of p (cs @ [c]) = (if p = cm_id c then Some (length cs) else index_of p cs)"
proof -
  have app: "find P (xs @ ys) = (case find P xs of None \<Rightarrow> find P ys | Some i \<Rightarrow> Some i)"
    for P :: "nat \<Rightarrow> bool" and xs ys
    by (induction xs) auto
  have "find (\<lambda>i. cm_id ((cs @ [c]) ! i) = p) [0..<length cs] = index_of p cs"
    unfolding index_of_def by (intro find_cong) (auto simp: nth_append)
  then have "index_of p (cs @ [c]) = (case index_of p cs of
      None \<Rightarrow> if p = cm_id c then Some (length cs) else None | Some i \<Rightarrow> Some i)"
    by (simp add: index_of_def [of p "cs @ [c]"] app split: option.splits)
  moreover have "index_of (cm_id c) cs = None"
    using assms by (simp add: index_of_None)
  ultimately show ?thesis
    by (cases "index_of p cs") auto
qed

lemma ref_at_append: "i < length cs \<Longrightarrow> ref_at (cs @ ds) i = ref_at cs i"
  by (simp add: ref_at_def nth_append)

lemma ref_at_last:
  "ref_at (cs @ [c]) (length cs)
    = \<lparr>vr_number = of_nat (Suc (local_count (cm_target c) cs)), vr_author = cm_author c\<rparr>"
  by (simp add: ref_at_def)

lemma seen_of_snoc:
  assumes "cm_id c \<notin> cm_id ` set done"
  shows "(seen_of done)(cm_id c \<mapsto> (cm_target c,
      \<lparr>vr_number = of_nat (Suc (local_count (cm_target c) done)), vr_author = cm_author c\<rparr>)) = seen_of (done @ [c])"
proof
  fix p
  show "((seen_of done)(cm_id c \<mapsto> (cm_target c,
      \<lparr>vr_number = of_nat (Suc (local_count (cm_target c) done)), vr_author = cm_author c\<rparr>))) p = seen_of (done @ [c]) p"
  proof (cases "index_of p done")
    case None
    then show ?thesis
      by (simp add: seen_of_def index_of_snoc [OF assms] ref_at_last)
  next
    case (Some i)
    with index_of_Some [OF Some] show ?thesis
      by (simp add: seen_of_def index_of_snoc [OF assms] ref_at_last ref_at_append nth_append)
  qed
qed

lemma seen_of_None: "seen_of done p = None \<longleftrightarrow> p \<notin> cm_id ` set done"
  by (simp add: seen_of_def index_of_None)

lemma seen_of_Some:
  assumes "seen_of done p = Some (t, r)"
  shows "shown_as done p = Some r \<and> (\<exists>d \<in> set done. cm_id d = p \<and> cm_target d = t)"
proof -
  obtain i where "index_of p done = Some i" "t = cm_target (done ! i)" "r = ref_at done i"
    using assms by (auto simp: seen_of_def)
  with index_of_Some [of p "done" i] show ?thesis
    by (auto simp: shown_as_def)
qed

text \<open>Ids are unique in an accepted log, so the parent is the one comment with that id.\<close>

lemma seen_of_member:
  assumes "distinct (map cm_id done)" "d \<in> set done"
  shows "\<exists>r. seen_of done (cm_id d) = Some (cm_target d, r)"
proof (cases "seen_of done (cm_id d)")
  case None
  with assms show ?thesis by (simp add: seen_of_None)
next
  case (Some tr)
  obtain t r where tr: "tr = (t, r)" by fastforce
  from seen_of_Some [of "done" "cm_id d" t r] Some tr
  obtain e where "e \<in> set done" "cm_id e = cm_id d" "cm_target e = t" by auto
  with assms have "e = d" by (auto simp: distinct_map inj_on_def)
  with \<open>cm_target e = t\<close> Some tr show ?thesis by auto
qed

lemma visible_loop_shown:
  assumes "sorted_wrt (<) (0 # map cm_id (done @ rest))" "length (done @ rest) < 2 ^ 64"
  shows "visible_loop (last (0 # map cm_id done)) (numbers_of done) (seen_of done) (shown done) rest = Inr vs
    \<longleftrightarrow> replies_back done rest \<and> vs = shown (done @ rest)"
  using assms
proof (induction rest arbitrary: "done")
  case Nil
  then show ?case by auto
next
  case (Cons c rest)
  define N :: u64 where "N = of_nat (Suc (local_count (cm_target c) done))"
  let ?out = "\<lambda>r. \<lparr>vc_number = N, vc_target = cm_target c,
    vc_author = cm_author c, vc_text = cm_text c, vc_created_at = cm_created_at c, vc_reply_to = r\<rparr>"
  let ?loop = "\<lambda>out. visible_loop (cm_id c) (numbers_of (done @ [c])) (seen_of (done @ [c])) out rest"
  let ?prev = "\<forall>p. cm_reply_to_id c = Some p \<longrightarrow> (\<exists>d \<in> set done. cm_id d = p \<and> cm_target d = cm_target c)"
  have sorted: "sorted_wrt (<) (0 # map cm_id ((done @ [c]) @ rest))"
    using Cons.prems(1) by simp
  then have dist: "distinct (map cm_id done)"
    by (simp add: sorted_wrt_append strict_sorted_iff)
  from sorted have gt: "last (0 # map cm_id done) < cm_id c" "0 < cm_id c" "\<forall>d \<in> set done. cm_id d < cm_id c"
    by (auto simp: sorted_wrt_append last_map)
  then have fresh: "cm_id c \<notin> cm_id ` set done" by auto
  have guard: "\<not> (cm_id c = 0 \<or> cm_id c \<le> last (0 # map cm_id done))"
    using gt(1,2) by auto
  have num: "checked_add (counter (numbers_of done) (cm_target c)) 1 = Some N"
    unfolding N_def counter_numbers_of
    by (rule checked_add_of_nat) (use Cons.prems(2) local_count_le [of "cm_target c" "done"] in simp)
  have upd: "(numbers_of done)(cm_target c \<mapsto> N) = numbers_of (done @ [c])"
    "(seen_of done)(cm_id c \<mapsto> (cm_target c, \<lparr>vr_number = N, vr_author = cm_author c\<rparr>)) = seen_of (done @ [c])"
    unfolding N_def using numbers_of_snoc seen_of_snoc [OF fresh] by auto
  have out: "shown (done @ [c]) = shown done @ [?out (Option.bind (cm_reply_to_id c) (shown_as done))]"
    unfolding shown_snoc N_def by (simp add: shown_at_def Let_def)
  have "visible_loop (last (0 # map cm_id done)) (numbers_of done) (seen_of done) (shown done) (c # rest) = Inr vs
      \<longleftrightarrow> ?prev \<and> ?loop (shown (done @ [c])) = Inr vs"
  proof (cases "cm_reply_to_id c")
    case None
    with guard num show ?thesis by (simp add: upd out)
  next
    case (Some p)
    show ?thesis
    proof (cases "seen_of done p")
      case None
      then have "\<not> ?prev" using Some by (auto simp: seen_of_None)
      with Some None guard num show ?thesis by simp
    next
      case seen: (Some tr)
      obtain t r where tr: "tr = (t, r)" by fastforce
      have "shown_as done p = Some r" "t = cm_target c \<longleftrightarrow> (\<exists>d \<in> set done. cm_id d = p \<and> cm_target d = cm_target c)"
        using seen tr seen_of_Some [of "done" p t r] seen_of_member [OF dist] by force+
      with Some seen tr guard num show ?thesis by (auto simp: upd out)
    qed
  qed
  moreover have "?loop (shown (done @ [c])) = Inr vs \<longleftrightarrow> replies_back (done @ [c]) rest \<and> vs = shown (done @ c # rest)"
    using Cons.IH [of "done @ [c]"] sorted Cons.prems(2) by simp
  ultimately show ?case by simp
qed

text \<open>The projection as a specification: it succeeds on exactly the well-formed logs, and shows
  each comment under its rank among the comments of its target.\<close>

lemma visible_ok_shown:
  assumes "visible_ok cs" "length cs < 2 ^ 64"
  shows "visible_comments cs = Inr (shown cs)"
proof -
  have "numbers_of [] = Map.empty" "seen_of [] = Map.empty" "shown [] = []"
    by (auto simp: numbers_of_def seen_of_def index_of_def shown_def)
  with visible_loop_shown [of "[]" cs "shown cs"] assms show ?thesis
    by (simp add: visible_comments_def visible_ok_def)
qed

lemma visible_loop_sorted:
  "visible_loop l n s out cs = Inr vs \<Longrightarrow> sorted_wrt (<) (l # map cm_id cs) \<and> 0 \<notin> cm_id ` set cs"
proof (induction cs arbitrary: l n s out)
  case (Cons c cs)
  from Cons.prems obtain n' s' out' where "l < cm_id c" "cm_id c \<noteq> 0"
    "visible_loop (cm_id c) n' s' out' cs = Inr vs"
    by (auto simp: result_simps not_le split: if_splits option.splits)
  with Cons.IH [of "cm_id c" n' s' out'] show ?case
    by (auto dest: less_trans)
qed simp

lemma visible_comments_Inr:
  assumes "length cs < 2 ^ 64"
  shows "visible_comments cs = Inr vs \<longleftrightarrow> visible_ok cs \<and> vs = shown cs"
proof
  assume vs: "visible_comments cs = Inr vs"
  then have "sorted_wrt (<) (0 # map cm_id cs)"
    using visible_loop_sorted unfolding visible_comments_def by blast
  moreover have "numbers_of [] = Map.empty" "seen_of [] = Map.empty" "shown [] = []"
    by (auto simp: numbers_of_def seen_of_def index_of_def shown_def)
  ultimately show "visible_ok cs \<and> vs = shown cs"
    using visible_loop_shown [of "[]" cs vs] assms vs
    by (simp add: visible_comments_def visible_ok_def)
qed (use visible_ok_shown assms in blast)

text \<open>Of a log of one target the numbers are the positions, from one.\<close>

lemma shown_number:
  assumes "\<forall>c \<in> set cs. cm_target c = t" "i < length cs"
  shows "vc_number (shown cs ! i) = of_nat (Suc i)"
proof -
  have "local_count t (take (Suc i) cs) = Suc i"
  proof -
    have "filter (\<lambda>c. cm_target c = t) (take (Suc i) cs) = take (Suc i) cs"
      using assms(1) by (intro filter_True) (auto dest: in_set_takeD)
    with assms(2) show ?thesis by (simp add: local_count_def)
  qed
  with assms show ?thesis
    by (simp add: shown_def shown_at_def Let_def)
qed

end
