(* ===== verification/Comment_Log.thy ===== *)
theory Comment_Log
  imports Comment_Protocol
begin

text \<open>
  The records of \<^verbatim>\<open>crates/servers/commentd/src/store.rs\<close>: the stored comment, the text
  of a submission (\<open>normalize_line\<close>, \<open>reply_prefix\<close>), the checks a log passes when it is
  opened (\<open>validate_stored\<close>, \<open>validate_relations\<close>) and its encoding as JSON lines.

  The hash function, the JSON library and the calendar library are not part of the repository:
  they are the fields of \<open>externals\<close>, arguments of every definition that uses them.
\<close>

section \<open>Records\<close>

datatype status = Pending | Approved | Deleted

text \<open>The life of a comment as an order: a pending comment may become either of the others, and
  those two are final.\<close>

instantiation status :: order
begin

definition less_eq_status :: "status \<Rightarrow> status \<Rightarrow> bool" where
  "less_eq_status s t \<longleftrightarrow> s = t \<or> s = Pending"

definition less_status :: "status \<Rightarrow> status \<Rightarrow> bool" where
  "less_status s t \<longleftrightarrow> s = Pending \<and> t \<noteq> Pending"

instance
  by standard (auto simp: less_eq_status_def less_status_def)

end

record stored_comment =
  sc_id :: u64
  sc_target :: string
  sc_author :: ustr
  sc_text :: ustr
  sc_reply_to_id :: "u64 option"
  sc_ip_hash :: string
  sc_created_at :: string
  sc_status :: status

definition view :: "stored_comment \<Rightarrow> comment" where
  "view c = \<lparr>cm_id = sc_id c, cm_target = sc_target c, cm_author = sc_author c,
     cm_text = sc_text c, cm_created_at = sc_created_at c, cm_reply_to_id = sc_reply_to_id c\<rparr>"

lemma view_simps [simp]:
  "cm_id (view c) = sc_id c" "cm_target (view c) = sc_target c" "cm_author (view c) = sc_author c"
  "cm_text (view c) = sc_text c" "cm_created_at (view c) = sc_created_at c"
  "cm_reply_to_id (view c) = sc_reply_to_id c"
  by (simp_all add: view_def)

text \<open>Times are nanoseconds since the epoch.  \<open>x_rfc3339_secs\<close> is
  \<open>to_rfc3339_opts(Secs, true)\<close>, \<open>x_parse_rfc3339\<close> is \<open>DateTime::parse_from_rfc3339\<close>,
  \<open>x_sha256\<close> the lower-case hexadecimal digest.\<close>

record externals =
  x_sha256 :: "bytes \<Rightarrow> string"
  x_to_json :: "stored_comment \<Rightarrow> bytes"
  x_from_json :: "bytes \<Rightarrow> stored_comment option"
  x_rfc3339_secs :: "int \<Rightarrow> string"
  x_parse_rfc3339 :: "string \<Rightarrow> int option"

definition str_bytes :: "string \<Rightarrow> bytes" where
  "str_bytes s = map of_char s"

definition encode_log :: "externals \<Rightarrow> stored_comment list \<Rightarrow> bytes" where
  "encode_log x cs = concat (map (\<lambda>c. x_to_json x c @ [10]) cs)"

definition revision :: "externals \<Rightarrow> bytes \<Rightarrow> string" where
  "revision x b = x_sha256 x b"

definition hash_ip :: "externals \<Rightarrow> bytes \<Rightarrow> string \<Rightarrow> string" where
  "hash_ip x salt ip = x_sha256 x (salt @ str_bytes ip)"

section \<open>The text of a submission\<close>

definition normalize_controls :: "ustr \<Rightarrow> ustr" where
  "normalize_controls s = filter (\<lambda>c. \<not> is_control c) s"

definition normalize_comment_controls :: "ustr \<Rightarrow> ustr" where
  "normalize_comment_controls s = filter (\<lambda>c. c = 10 \<or> \<not> is_control c) s"

record parsed_line =
  pl_author :: ustr
  pl_text :: ustr
  pl_reply_number :: "u64 option"

definition reply_prefix :: "ustr \<Rightarrow> string + (u64 \<times> ustr) option" where
  "reply_prefix text =
     (case strip_prefix [35] text of
        None \<Rightarrow> Inr None
      | Some rest \<Rightarrow>
          let ds = takeWhile is_digit_cp rest; digit_len = length ds
          in if digit_len = 0 \<or> \<not> prefix [58] (drop digit_len rest) then Inr None
             else case parse_u64_digits ds of
                 None \<Rightarrow> Inl ''reply number too large''
               | Some number \<Rightarrow>
                   if number = 0 then Inl ''reply number must be greater than 0''
                   else let body = trim (drop (digit_len + 1) rest)
                     in if body = [] then Inl ''reply body is empty''
                        else Inr (Some (number, body)))"

definition guest :: ustr where
  "guest = u_of ''guest''"

definition normalize_line :: "ustr \<Rightarrow> string + parsed_line option" where
  "normalize_line line =
     (let clean = trim (normalize_comment_controls line)
      in if clean = [] then Inr None
         else and_then (reply_prefix clean) (\<lambda>r.
           case r of
             Some (reply_number, text) \<Rightarrow>
               Inr (Some \<lparr>pl_author = guest, pl_text = text, pl_reply_number = Some reply_number\<rparr>)
           | None \<Rightarrow>
               let plain = Inr (Some \<lparr>pl_author = guest, pl_text = clean, pl_reply_number = None\<rparr>);
                   first_line = (case split_once 10 clean of None \<Rightarrow> clean | Some (first, _) \<Rightarrow> first)
               in case split_once 58 first_line of
                    None \<Rightarrow> plain
                  | Some (pre, _) \<Rightarrow>
                      let author = trim pre; text = trim (drop (length pre + 1) clean)
                      in if author \<noteq> [] \<and> text \<noteq> []
                         then and_then (reply_prefix text) (\<lambda>reply.
                           Inr (Some \<lparr>pl_author = author,
                             pl_text = (case reply of None \<Rightarrow> text | Some (_, body) \<Rightarrow> body),
                             pl_reply_number = map_option fst reply\<rparr>))
                         else plain))"

section \<open>Checks on a log\<close>

datatype log_error = Id_zero | Bad_target | Bad_lengths | Bad_controls | Bad_ip_hash | Bad_created_at
  | Reply_not_earlier nat u64 u64 | Reply_crosses_target nat u64 | Parent_not_approved nat u64

definition validate_stored :: "externals \<Rightarrow> stored_comment \<Rightarrow> log_error + unit" where
  "validate_stored x c =
     (if sc_id c = 0 then Inl Id_zero
      else if \<not> valid_target (sc_target c) then Inl Bad_target
      else if sc_author c = [] \<or> 32 < ulen (sc_author c) \<or> sc_text c = []
        \<or> MAX_COMMENT_BYTES < ulen (sc_text c) then Inl Bad_lengths
      else if normalize_controls (sc_author c) \<noteq> sc_author c
        \<or> normalize_comment_controls (sc_text c) \<noteq> sc_text c then Inl Bad_controls
      else if length (sc_ip_hash c) \<noteq> 64 \<or> \<not> list_all is_ascii_hexdigit (sc_ip_hash c) then Inl Bad_ip_hash
      else if x_parse_rfc3339 x (sc_created_at c) = None then Inl Bad_created_at
      else Inr ())"

fun relations_loop ::
  "nat \<Rightarrow> (u64 \<rightharpoonup> string \<times> status) \<Rightarrow> stored_comment list \<Rightarrow> log_error + unit"
where
  "relations_loop index seen [] = Inr ()"
| "relations_loop index seen (c # rest) =
     and_then
       (case sc_reply_to_id c of
          None \<Rightarrow> Inr ()
        | Some parent_id \<Rightarrow>
            (case seen parent_id of
               None \<Rightarrow> Inl (Reply_not_earlier (index + 1) (sc_id c) parent_id)
             | Some (parent_target, parent_status) \<Rightarrow>
                 if parent_target \<noteq> sc_target c then Inl (Reply_crosses_target (index + 1) (sc_id c))
                 else if parent_status \<noteq> Approved then Inl (Parent_not_approved (index + 1) (sc_id c))
                 else Inr ()))
       (\<lambda>_. relations_loop (index + 1) (seen(sc_id c \<mapsto> (sc_target c, sc_status c))) rest)"

definition validate_relations :: "stored_comment list \<Rightarrow> log_error + unit" where
  "validate_relations comments = relations_loop 0 Map.empty comments"

fun resolve_loop :: "u64 \<Rightarrow> u64 \<Rightarrow> stored_comment list \<Rightarrow> u64 option" where
  "resolve_loop number wanted [] = None"
| "resolve_loop number wanted (c # rest) =
     (case checked_add number 1 of
        None \<Rightarrow> None
      | Some number \<Rightarrow> if number = wanted then Some (sc_id c) else resolve_loop number wanted rest)"

definition resolve_reply_id :: "stored_comment list \<Rightarrow> string \<Rightarrow> u64 \<Rightarrow> u64 option" where
  "resolve_reply_id comments target wanted =
     resolve_loop 0 wanted (filter (\<lambda>c. sc_status c = Approved \<and> sc_target c = target) comments)"

section \<open>The parsed text\<close>

lemma normalize_controls_id: "normalize_controls s = s \<longleftrightarrow> (\<forall>c \<in> set s. \<not> is_control c)"
  by (simp add: normalize_controls_def filter_id_conv)

lemma normalize_comment_controls_id:
  "normalize_comment_controls s = s \<longleftrightarrow> (\<forall>c \<in> set s. c = 10 \<or> \<not> is_control c)"
  by (simp add: normalize_comment_controls_def filter_id_conv)

text \<open>\<open>part_of s t\<close>: what the parser cuts out of a text has its characters and is no longer.\<close>

definition part_of :: "ustr \<Rightarrow> ustr \<Rightarrow> bool" where
  "part_of s t \<longleftrightarrow> set s \<subseteq> set t \<and> ulen s \<le> ulen t"

lemma part_of_refl [simp]: "part_of s s"
  by (simp add: part_of_def)

lemma part_of_trans: "part_of s t \<Longrightarrow> part_of t u \<Longrightarrow> part_of s u"
  by (auto simp: part_of_def)

lemma part_of_trim: "part_of (trim s) s"
  using set_trim ulen_trim by (simp add: part_of_def)

lemma part_of_drop: "part_of (drop n s) s"
  by (metis append_take_drop_id le_add2 part_of_def set_drop_subset ulen_simps(3))

lemma part_of_before: "split_once c s = Some (a, b) \<Longrightarrow> part_of a s"
  by (auto simp: part_of_def split_once_Some)

lemma part_of_filter: "part_of (filter P s) s"
  by (auto simp: part_of_def ulen_filter_le)

lemma reply_prefix_Some:
  assumes "reply_prefix t = Inr (Some (n, body))"
  shows "body \<noteq> []" "part_of body t" "0 < n"
proof -
  from assms obtain k rest where t: "t = [35] @ rest" "body = trim (drop k rest)" "body \<noteq> []" "n \<noteq> 0"
    by (auto simp: reply_prefix_def Let_def split: option.splits if_splits)
  have "part_of body rest"
    using t(2) part_of_trim part_of_drop part_of_trans by metis
  moreover have "part_of rest t"
    using part_of_drop [of 1 t] t(1) by simp
  ultimately show "part_of body t" by (rule part_of_trans)
  show "body \<noteq> []" "0 < n" using t by (simp_all add: word_neq_0_conv)
qed

lemma guest_ok: "guest \<noteq> []" "ulen guest = 5" "\<forall>c \<in> set guest. \<not> is_control c \<and> is_scalar c"
  by (auto simp: guest_def u_of_def len_utf8_def is_control_def is_scalar_def)

definition parsed_ok :: "ustr \<Rightarrow> parsed_line \<Rightarrow> bool" where
  "parsed_ok line p \<longleftrightarrow> pl_author p \<noteq> [] \<and> pl_text p \<noteq> [] \<and> ulen (pl_text p) \<le> ulen line
     \<and> (\<forall>c \<in> set (pl_author p). \<not> is_control c \<and> c \<in> set line \<union> set guest)
     \<and> (\<forall>c \<in> set (pl_text p). (c = 10 \<or> \<not> is_control c) \<and> c \<in> set line)
     \<and> (\<forall>n. pl_reply_number p = Some n \<longrightarrow> 0 < n)"

lemma normalize_line_ok:
  assumes "normalize_line line = Inr (Some p)"
  shows "parsed_ok line p"
proof -
  define clean where "clean = trim (normalize_comment_controls line)"
  have clean: "\<forall>c \<in> set clean. (c = 10 \<or> \<not> is_control c) \<and> c \<in> set line" "ulen clean \<le> ulen line"
    using set_trim [of "normalize_comment_controls line"] ulen_trim [of "normalize_comment_controls line"]
      ulen_filter_le [of _ line]
    by (auto simp: clean_def normalize_comment_controls_def intro: order_trans)
  have text_ok: "\<forall>c \<in> set t. (c = 10 \<or> \<not> is_control c) \<and> c \<in> set line" "ulen t \<le> ulen line"
    if "part_of t clean" for t
    using that clean by (auto simp: part_of_def)
  have guest: "\<forall>c \<in> set guest. \<not> is_control c" using guest_ok(3) by simp
  from assms have ne: "clean \<noteq> []"
    by (auto simp: normalize_line_def clean_def [symmetric] Let_def)
  from assms ne obtain r where r: "reply_prefix clean = Inr r"
    by (auto simp: normalize_line_def clean_def [symmetric] Let_def result_simps)
  show ?thesis
  proof (cases r)
    case (Some nb)
    obtain n b where nb: "nb = (n, b)" by fastforce
    with assms ne r Some have "p = \<lparr>pl_author = guest, pl_text = b, pl_reply_number = Some n\<rparr>"
      by (simp add: normalize_line_def clean_def [symmetric])
    with reply_prefix_Some [of clean n b] r Some nb text_ok [of b] guest guest_ok show ?thesis
      by (simp add: parsed_ok_def)
  next
    case None
    define first where "first = (case split_once 10 clean of None \<Rightarrow> clean | Some (f, _) \<Rightarrow> f)"
    have no_nl: "10 \<notin> set first" "set first \<subseteq> set clean"
      by (auto simp: first_def split_once_None split_once_Some split: option.splits)
    have plain: "parsed_ok line \<lparr>pl_author = guest, pl_text = clean, pl_reply_number = None\<rparr>"
      using text_ok [of clean] ne guest guest_ok by (simp add: parsed_ok_def)
    note unfolded = assms [unfolded normalize_line_def clean_def [symmetric] Let_def first_def [symmetric]]
    show ?thesis
    proof (cases "split_once 58 first")
      case None
      with unfolded ne r \<open>r = None\<close> plain show ?thesis by (simp add: first_def [symmetric])
    next
      case (Some ab)
      obtain pre post where ab: "ab = (pre, post)" by fastforce
      show ?thesis
      proof (cases "trim pre \<noteq> [] \<and> trim (drop (length pre + 1) clean) \<noteq> []")
        case False
        with unfolded ne r \<open>r = None\<close> Some ab plain show ?thesis
          by (auto simp: first_def [symmetric])
      next
        case True
        let ?text = "trim (drop (length pre + 1) clean)"
        from unfolded ne r \<open>r = None\<close> Some ab True obtain reply where
          reply: "reply_prefix ?text = Inr reply"
          and p: "p = \<lparr>pl_author = trim pre,
            pl_text = (case reply of None \<Rightarrow> ?text | Some (_, body) \<Rightarrow> body), pl_reply_number = map_option fst reply\<rparr>"
          by (auto simp: first_def [symmetric] result_simps)
        have cut: "part_of ?text clean"
          using part_of_trim part_of_drop part_of_trans by metis
        have "\<forall>c \<in> set (trim pre). \<not> is_control c \<and> c \<in> set line"
          using set_trim [of pre] part_of_before [OF Some [unfolded ab]] no_nl clean(1)
          by (auto simp: part_of_def) (metis subsetD)+
        moreover have "part_of b clean \<and> b \<noteq> [] \<and> 0 < n" if "reply = Some (n, b)" for n b
          using reply_prefix_Some [of ?text n b] reply that cut part_of_trans by blast
        ultimately show ?thesis
          using True cut text_ok(1) text_ok(2) by (cases reply) (fastforce simp: p parsed_ok_def)+
      qed
    qed
  qed
qed

section \<open>Relations between comments\<close>

fun parents_back :: "stored_comment list \<Rightarrow> stored_comment list \<Rightarrow> bool" where
  "parents_back done [] = True"
| "parents_back done (c # rest) \<longleftrightarrow>
     (\<forall>p. sc_reply_to_id c = Some p \<longrightarrow>
        (\<exists>d \<in> set done. sc_id d = p \<and> sc_target d = sc_target c \<and> sc_status d = Approved))
     \<and> parents_back (done @ [c]) rest"

lemma parents_back_append:
  "parents_back done (a @ b) \<longleftrightarrow> parents_back done a \<and> parents_back (done @ a) b"
  by (induction a arbitrary: "done") auto

definition status_map :: "stored_comment list \<Rightarrow> u64 \<rightharpoonup> string \<times> status" where
  "status_map done = map_of (map (\<lambda>d. (sc_id d, (sc_target d, sc_status d))) (rev done))"

lemma status_map_snoc:
  "(status_map done)(sc_id c \<mapsto> (sc_target c, sc_status c)) = status_map (done @ [c])"
  by (simp add: status_map_def)

lemma status_map_Some:
  assumes "distinct (map sc_id done)"
  shows "status_map done p = Some (t, s) \<longleftrightarrow> (\<exists>d \<in> set done. sc_id d = p \<and> sc_target d = t \<and> sc_status d = s)"
proof -
  have "distinct (map fst (map (\<lambda>d. (sc_id d, (sc_target d, sc_status d))) (rev done)))"
    using assms by (simp add: comp_def rev_map [symmetric])
  then show ?thesis
    by (auto simp: status_map_def map_of_eq_Some_iff)
qed

lemma status_map_None: "status_map done p = None \<longleftrightarrow> p \<notin> sc_id ` set done"
  by (auto simp: status_map_def map_of_eq_None_iff image_iff)

lemma relations_loop_parents:
  assumes "distinct (map sc_id (done @ rest))"
  shows "relations_loop index (status_map done) rest = Inr u \<longleftrightarrow> parents_back done rest"
  using assms
proof (induction rest arbitrary: index "done")
  case (Cons c rest)
  have dist: "distinct (map sc_id done)" using Cons.prems by simp
  have IH: "relations_loop (index + 1) (status_map (done @ [c])) rest = Inr u \<longleftrightarrow> parents_back (done @ [c]) rest"
    using Cons.IH [of "done @ [c]"] Cons.prems by simp
  show ?case
  proof (cases "sc_reply_to_id c")
    case None
    with IH show ?thesis by (simp add: status_map_snoc)
  next
    case (Some p)
    show ?thesis
    proof (cases "status_map done p")
      case None
      then have "\<forall>d \<in> set done. sc_id d \<noteq> p" by (auto simp: status_map_None)
      with Some None show ?thesis by simp
    next
      case seen: (Some ts)
      obtain t s where ts: "ts = (t, s)" by fastforce
      then obtain d where d: "d \<in> set done" "sc_id d = p" "sc_target d = t" "sc_status d = s"
        using seen status_map_Some [OF dist] by auto
      have "e = d" if "e \<in> set done" "sc_id e = p" for e
        using that d dist by (auto simp: distinct_map inj_on_def)
      with d have "(\<exists>e \<in> set done. sc_id e = p \<and> sc_target e = sc_target c \<and> sc_status e = Approved)
          \<longleftrightarrow> t = sc_target c \<and> s = Approved" by blast
      with Some seen ts IH show ?thesis by (auto simp: status_map_snoc)
    qed
  qed
qed simp

lemma validate_relations_parents:
  "distinct (map sc_id cs) \<Longrightarrow> validate_relations cs = Inr u \<longleftrightarrow> parents_back [] cs"
  using relations_loop_parents [of "[]" cs 0 u] by (simp add: validate_relations_def status_map_def)

text \<open>The approved comments of a target form a log the public projection accepts.\<close>

definition approved :: "string \<Rightarrow> stored_comment list \<Rightarrow> stored_comment list" where
  "approved t cs = filter (\<lambda>c. sc_status c = Approved \<and> sc_target c = t) cs"

lemma approved_replies_back:
  "parents_back done rest \<Longrightarrow> replies_back (map view (approved t done)) (map view (approved t rest))"
proof (induction rest arbitrary: "done")
  case (Cons c rest)
  then have "replies_back (map view (approved t (done @ [c]))) (map view (approved t rest))"
    by simp
  moreover have "\<exists>d \<in> set (approved t done). sc_id d = p" if "sc_reply_to_id c = Some p" "sc_target c = t" for p
    using Cons.prems that by (auto simp: approved_def)
  ultimately show ?case
    by (auto simp: approved_def)
qed (simp add: approved_def)

lemma approved_visible_ok:
  assumes "sorted_wrt (<) (0 # map sc_id cs)" "parents_back [] cs"
  shows "visible_ok (map view (approved t cs))"
proof -
  have "sorted_wrt (<) (map sc_id (approved t cs))" "\<forall>c \<in> set (approved t cs). 0 < sc_id c"
    using assms(1) by (auto simp: approved_def sorted_wrt_map intro: sorted_wrt_filter)
  then have "sorted_wrt (<) (0 # map cm_id (map view (approved t cs)))"
    by (simp add: comp_def)
  moreover have "replies_back [] (map view (approved t cs))"
    using approved_replies_back [OF assms(2), of t] by (simp add: approved_def)
  ultimately show ?thesis by (simp add: visible_ok_def)
qed

section \<open>Resolving a public number\<close>

lemma resolve_loop_nth:
  assumes "k + length cs < 2 ^ 64"
  shows "resolve_loop (of_nat k) wanted cs =
    (if k < unat wanted \<and> unat wanted \<le> k + length cs then Some (sc_id (cs ! (unat wanted - k - 1))) else None)"
  using assms
proof (induction cs arbitrary: k)
  case (Cons c cs)
  have step: "checked_add (of_nat k :: u64) 1 = Some (of_nat (Suc k))"
    by (rule checked_add_of_nat) (use Cons.prems in simp)
  have eq: "of_nat (Suc k) = wanted \<longleftrightarrow> Suc k = unat wanted"
  proof -
    have "unat (of_nat (Suc k) :: u64) = Suc k"
      using Cons.prems by (simp add: unat_of_nat take_bit_nat_eq_self del: of_nat_Suc)
    then show ?thesis by (metis unsigned_word_eqI)
  qed
  show ?case
  proof (cases "Suc k = unat wanted")
    case True
    with step eq show ?thesis by (simp del: of_nat_Suc)
  next
    case False
    with step eq Cons.IH [of "Suc k"] Cons.prems show ?thesis
      by (auto simp: nth_Cons' simp del: of_nat_Suc)
  qed
qed simp

end
