(* ===== verification/Rust_Net.thy ===== *)
theory Rust_Net
  imports Rust_Text
begin

text \<open>
  \<open>std::net::IpAddr\<close>: the parser behind \<open>parse::<IpAddr>()\<close> and the \<open>Display\<close> text,
  which commentd (\<open>submit\<close>) and statd (\<open>canonical_ip\<close>) apply to addresses reported by
  their clients.
\<close>

datatype ip_addr = V4 u8 u8 u8 u8 | V6 "u16 list"

section \<open>Parsing\<close>

text \<open>A parser returns the rest of the input; \<open>None\<close> leaves the input to the caller, as
  \<open>read_atomically\<close> does.\<close>

definition read_number :: "nat \<Rightarrow> nat \<Rightarrow> bool \<Rightarrow> nat \<Rightarrow> string \<Rightarrow> (nat \<times> string) option" where
  "read_number radix max_digits allow_zero_prefix bits s =
     (let isd = (\<lambda>c. to_digit radix c \<noteq> None);
          ds = takeWhile isd s; rest = dropWhile isd s;
          v = digits_value radix (map (the \<circ> to_digit radix) ds)
      in if max_digits < length ds then None
         else if ds = [] then None
         else if \<not> allow_zero_prefix \<and> prefix ''0'' s \<and> 1 < length ds then None
         else if v < 2 ^ bits then Some (v, rest) else None)"

definition read_separator :: "char \<Rightarrow> nat \<Rightarrow> (string \<Rightarrow> ('a \<times> string) option) \<Rightarrow> string \<Rightarrow> ('a \<times> string) option"
where
  "read_separator sep i p s =
     (if 0 < i then (case s of [] \<Rightarrow> None | c # rest \<Rightarrow> if c = sep then p rest else None) else p s)"

fun read_octets :: "nat \<Rightarrow> nat \<Rightarrow> string \<Rightarrow> (u8 list \<times> string) option" where
  "read_octets 0 i s = Some ([], s)"
| "read_octets (Suc k) i s =
     (case read_separator (CHR ''.'') i (read_number 10 3 False 8) s of
        None \<Rightarrow> None
      | Some (v, rest) \<Rightarrow>
          map_option (\<lambda>(os, rest). (of_nat v # os, rest)) (read_octets k (Suc i) rest))"

definition read_ipv4 :: "string \<Rightarrow> (ip_addr \<times> string) option" where
  "read_ipv4 s =
     (case read_octets 4 0 s of
        Some ([a, b, c, d], rest) \<Rightarrow> Some (V4 a b c d, rest) | _ \<Rightarrow> None)"

definition be16 :: "u8 \<Rightarrow> u8 \<Rightarrow> u16" where
  "be16 a b = of_nat (unat a * 256 + unat b)"

fun read_groups :: "nat \<Rightarrow> nat \<Rightarrow> string \<Rightarrow> u16 list \<times> bool \<times> string" where
  "read_groups 0 i s = ([], False, s)"
| "read_groups (Suc k) i s =
     (case (if 0 < k then read_separator (CHR '':'') i read_ipv4 s else None) of
        Some (V4 a b c d, rest) \<Rightarrow> ([be16 a b, be16 c d], True, rest)
      | _ \<Rightarrow>
          (case read_separator (CHR '':'') i (read_number 16 4 True 16) s of
             None \<Rightarrow> ([], False, s)
           | Some (g, rest) \<Rightarrow>
               (let (gs, v4, rest) = read_groups k (Suc i) rest in (of_nat g # gs, v4, rest))))"

definition read_ipv6 :: "string \<Rightarrow> (ip_addr \<times> string) option" where
  "read_ipv6 s =
     (let (head, head_ipv4, rest) = read_groups 8 0 s
      in if length head = 8 then Some (V6 head, rest)
         else if head_ipv4 then None
         else if prefix ''::'' rest
         then (let (tail, _, rest) = read_groups (8 - (length head + 1)) 0 (drop 2 rest)
               in Some (V6 (head @ replicate (8 - length head - length tail) 0 @ tail), rest))
         else None)"

definition parse_ip :: "string \<Rightarrow> ip_addr option" where
  "parse_ip s =
     (case (case read_ipv4 s of None \<Rightarrow> read_ipv6 s | Some r \<Rightarrow> Some r) of
        Some (a, []) \<Rightarrow> Some a | _ \<Rightarrow> None)"

section \<open>Display\<close>

definition to_ipv4_mapped :: "u16 list \<Rightarrow> ip_addr option" where
  "to_ipv4_mapped g =
     (if take 6 g = [0, 0, 0, 0, 0, 0xffff] \<and> length g = 8
      then Some (V4 (of_nat (unat (g ! 6) div 256)) (of_nat (unat (g ! 6) mod 256))
                    (of_nat (unat (g ! 7) div 256)) (of_nat (unat (g ! 7) mod 256)))
      else None)"

text \<open>The first longest run of zero groups: \<open>(start, len)\<close>.\<close>

fun zero_run :: "nat \<Rightarrow> nat \<times> nat \<Rightarrow> nat \<times> nat \<Rightarrow> u16 list \<Rightarrow> nat \<times> nat" where
  "zero_run i longest cur [] = longest"
| "zero_run i (ls, ll) (cs, cl) (g # gs) =
     (if g = 0
      then (let cs = (if cl = 0 then i else cs); cl = cl + 1
            in zero_run (i + 1) (if ll < cl then (cs, cl) else (ls, ll)) (cs, cl) gs)
      else zero_run (i + 1) (ls, ll) (0, 0) gs)"

definition show_groups :: "u16 list \<Rightarrow> string" where
  "show_groups gs = join_with (CHR '':'') (map (\<lambda>g. show_hex (unat g)) gs)"

definition show_v4 :: "u8 \<Rightarrow> u8 \<Rightarrow> u8 \<Rightarrow> u8 \<Rightarrow> string" where
  "show_v4 a b c d = show_nat (unat a) @ ''.'' @ show_nat (unat b) @ ''.'' @ show_nat (unat c)
     @ ''.'' @ show_nat (unat d)"

fun show_ip :: "ip_addr \<Rightarrow> string" where
  "show_ip (V4 a b c d) = show_v4 a b c d"
| "show_ip (V6 g) =
     (case to_ipv4_mapped g of
        Some (V4 a b c d) \<Rightarrow> ''::ffff:'' @ show_v4 a b c d
      | _ \<Rightarrow>
          (let (start, len) = zero_run 0 (0, 0) (0, 0) g
           in if 1 < len
              then show_groups (take start g) @ ''::'' @ show_groups (drop (start + len) g)
              else show_groups g))"

section \<open>Reading back an IPv4 address\<close>

lemma prefix_0_show_nat:
  assumes "prefix ''0'' (show_nat n @ r)"
  shows "length (show_nat n) = 1"
proof -
  obtain x xs where ds: "digits 10 n = x # xs"
    using digits_not_Nil by (metis list.exhaust)
  have "x < 10" using ds digits_less [of 10 x n] by simp
  moreover from assms ds have "digit_char x = CHR ''0''" by (simp add: show_nat_def)
  ultimately have "x = 0" by (simp add: digit_char_zero)
  with ds digits_leading [of 10 n] have "n = 0" by simp
  then show ?thesis by (simp add: show_nat_def digits.simps)
qed

lemma read_number_show_nat:
  assumes "n < 256" "r = [] \<or> to_digit 10 (hd r) = None"
  shows "read_number 10 3 False 8 (show_nat n @ r) = Some (n, r)"
proof -
  let ?isd = "\<lambda>c. to_digit 10 c \<noteq> None"
  have dig: "\<forall>d \<in> set (digits 10 n). d < 10"
    using digits_less by auto
  then have all: "\<forall>c \<in> set (show_nat n). ?isd c"
    by (auto simp: show_nat_def)
  have tw: "takeWhile ?isd (show_nat n @ r) = show_nat n" "dropWhile ?isd (show_nat n @ r) = r"
    using all assms(2) by (cases r; auto simp: takeWhile_append dropWhile_append)+
  have val: "map (the \<circ> to_digit 10) (show_nat n) = digits 10 n"
    using dig by (auto simp: show_nat_def intro!: map_idI)
  have "length (show_nat n) \<le> 3"
    using digits_length [of 10 3 n] assms(1) by (simp add: show_nat_def)
  moreover have "show_nat n \<noteq> []"
    by (simp add: show_nat_def)
  moreover have "\<not> (prefix ''0'' (show_nat n @ r) \<and> 1 < length (show_nat n))"
    using prefix_0_show_nat by fastforce
  ultimately show ?thesis
    using assms(1) unfolding read_number_def Let_def tw val
    by (simp add: digits_value_digits)
qed

lemma read_octets_show_v4:
  "read_octets 4 0 (show_v4 a b c d) = Some ([a, b, c, d], [])"
proof -
  have dot: "to_digit 10 (CHR ''.'') = None"
    by (simp add: to_digit_def)
  have lt: "unat (x :: u8) < 256" for x
    using unsigned_less [where ?'a = nat, of x] by simp
  note rn = read_number_show_nat [OF lt]
  have "read_number 10 3 False 8 (show_nat (unat d)) = Some (unat d, [])"
    using rn [of "[]" d] by simp
  moreover have "(4::nat) = Suc (Suc (Suc (Suc 0)))" by simp
  ultimately show ?thesis
    by (simp only: show_v4_def) (simp add: read_separator_def rn dot)
qed

theorem parse_ip_show_v4: "parse_ip (show_ip (V4 a b c d)) = Some (V4 a b c d)"
  by (simp add: parse_ip_def read_ipv4_def read_octets_show_v4)

end
