(* ===== verification/Rust_Std.thy ===== *)
theory Rust_Std
  imports Rust_Prelude
begin

text \<open>
  What the programs use of the standard library beside texts: \<open>BTreeMap\<close>, and what
  \<open>symlink_metadata\<close> and reading show of a data directory.
\<close>

section \<open>Ordered maps\<close>

text \<open>
  \<open>BTreeMap\<close>: the entries in the order of their keys.  A \<open>BTreeMap<String, _>\<close> orders its keys by
  their bytes, as the lexicographic order on strings does.
\<close>

fun bt_insert :: "'k::linorder \<Rightarrow> 'v \<Rightarrow> ('k \<times> 'v) list \<Rightarrow> ('k \<times> 'v) list" where
  "bt_insert k v [] = [(k, v)]"
| "bt_insert k v ((l, w) # es) =
     (if k < l then (k, v) # (l, w) # es
      else if k = l then (k, v) # es
      else (l, w) # bt_insert k v es)"

definition bt_ok :: "('k::linorder \<times> 'v) list \<Rightarrow> bool" where
  "bt_ok es \<longleftrightarrow> sorted_wrt (<) (map fst es)"

text \<open>\<open>entry(k).or_insert(v)\<close>.\<close>

definition bt_or_insert :: "'k::linorder \<Rightarrow> 'v \<Rightarrow> ('k \<times> 'v) list \<Rightarrow> ('k \<times> 'v) list" where
  "bt_or_insert k v es = (if map_of es k = None then bt_insert k v es else es)"

lemma bt_ok_simps [simp]:
  "bt_ok []" "bt_ok ((k, v) # es) \<longleftrightarrow> (\<forall>l \<in> fst ` set es. k < l) \<and> bt_ok es"
  by (auto simp: bt_ok_def)

lemma bt_ok_distinct: "bt_ok es \<Longrightarrow> distinct (map fst es)"
  unfolding bt_ok_def by (simp add: strict_sorted_iff)

lemma keys_bt_insert [simp]: "fst ` set (bt_insert k v es) = insert k (fst ` set es)"
  by (induction k v es rule: bt_insert.induct) (simp_all add: insert_commute)

lemma map_of_bt_insert [simp]: "map_of (bt_insert k v es) = (map_of es)(k \<mapsto> v)"
  by (induction es) (auto simp: fun_eq_iff)

lemma bt_insert_ok [simp]: "bt_ok es \<Longrightarrow> bt_ok (bt_insert k v es)"
proof (induction es)
  case (Cons e es)
  obtain l w where e: "e = (l, w)" by fastforce
  with Cons.prems have "\<forall>m \<in> fst ` set es. l < m" "bt_ok es" by simp_all
  moreover have "\<forall>m \<in> fst ` set es. k < m" if "k \<le> l"
    using calculation(1) that by (blast intro: order_le_less_trans)
  ultimately show ?case
    using Cons.IH e by (cases k l rule: linorder_cases) simp_all
qed simp

lemma set_bt_insert_subset: "set (bt_insert k v es) \<subseteq> insert (k, v) (set es)"
  by (induction es) (auto split: if_splits)

lemma bt_or_insert_ok [simp]: "bt_ok es \<Longrightarrow> bt_ok (bt_or_insert k v es)"
  by (simp add: bt_or_insert_def)

lemma keys_bt_or_insert [simp]: "fst ` set (bt_or_insert k v es) = insert k (fst ` set es)"
  by (auto simp: bt_or_insert_def dom_map_of_conv_image_fst [symmetric])

lemma bt_ok_filter: "bt_ok es \<Longrightarrow> bt_ok (filter P es)"
  by (induction es) auto

lemma map_of_filter_key: "map_of (filter (\<lambda>e. fst e \<noteq> k) es) = (map_of es)(k := None)"
  by (induction es) auto

lemma map_of_bt: "bt_ok es \<Longrightarrow> map_of es k = Some v \<longleftrightarrow> (k, v) \<in> set es"
  by (rule map_of_eq_Some_iff) (rule bt_ok_distinct)

text \<open>Two maps with the same lookups are the same list.\<close>

lemma bt_eqI:
  assumes "bt_ok es" "bt_ok fs" "map_of es = map_of fs"
  shows "es = fs"
proof -
  have "set es = set fs"
    using map_of_bt [OF assms(1)] map_of_bt [OF assms(2)] assms(3) by auto
  moreover have "sorted (map fst es)" "sorted (map fst fs)" "distinct (map fst es)" "distinct (map fst fs)"
    using assms(1,2) by (simp_all add: bt_ok_def strict_sorted_iff)
  ultimately show ?thesis
    by (intro map_sorted_distinct_set_unique [of fst])
      (auto simp: inj_on_def distinct_map dest: bt_ok_distinct [OF assms(1), unfolded distinct_map, THEN conjunct2, THEN inj_onD])
qed

section \<open>A data directory\<close>

text \<open>
  What the servers see of a data directory when they start: the metadata that \<open>symlink_metadata\<close>
  returns and the contents of the files.
\<close>

record fs_meta =
  fm_is_dir :: bool
  fm_is_file :: bool
  fm_is_symlink :: bool
  fm_uid :: u32
  fm_gid :: u32
  fm_mode :: u32

text \<open>A data directory: its own metadata (\<open>None\<close> where the path does not exist) and its files.\<close>

record store_dir =
  sd_meta :: "fs_meta option"
  sd_files :: "(string \<times> fs_meta \<times> bytes) list"

definition root_meta :: "u32 \<Rightarrow> u32 \<Rightarrow> bool \<Rightarrow> fs_meta" where
  "root_meta gid mode is_dir = \<lparr>fm_is_dir = is_dir, fm_is_file = \<not> is_dir, fm_is_symlink = False,
     fm_uid = 0, fm_gid = gid, fm_mode = mode\<rparr>"

definition file_bytes :: "store_dir \<Rightarrow> string \<Rightarrow> bytes" where
  "file_bytes dir name = (case map_of (sd_files dir) name of None \<Rightarrow> [] | Some (_, b) \<Rightarrow> b)"

end
