(* ===== verification/Comment_Store.thy ===== *)
theory Comment_Store
  imports Comment_Log Rust_Net Rust_Std
begin

text \<open>
  \<open>Store\<close> of \<^verbatim>\<open>crates/servers/commentd/src/store.rs\<close>: submissions, queries, moderation and
  the commit to disk.  commentd is the only writer; every change is made on a candidate list,
  and replaces the list in memory only when it has reached the disk.
\<close>

section \<open>State\<close>

record store =
  st_salt :: bytes
  st_comments :: "stored_comment list"
  st_revision :: string
  st_poisoned :: bool

text \<open>\<open>dk_data\<close> is what a reader of \<open>comments.jsonl\<close> sees, \<open>dk_temps\<close> the sequence
  numbers of the temporary files with this process id in the directory.\<close>

record disk =
  dk_data :: bytes
  dk_temps :: "nat list"

text \<open>The process: the store, its directory and the counter \<open>TEMP_SEQ\<close>.\<close>

record daemon =
  d_store :: store
  d_disk :: disk
  d_seq :: nat

text \<open>What the operating system answers to the calls of one commit: the error of the \<open>open\<close>
  (\<open>AlreadyExists\<close> apart), and whether each later call succeeds.\<close>

record commit_io =
  io_open :: "nat option"
  io_write :: bool
  io_sync :: bool
  io_rename :: bool
  io_remove :: bool
  io_dirsync :: bool

definition io_fine :: commit_io where
  "io_fine = \<lparr>io_open = None, io_write = True, io_sync = True, io_rename = True, io_remove = True,
              io_dirsync = True\<rparr>"

datatype store_error = Fail_stop | Ids_exhausted | Open_failed nat | Write_failed | Sync_failed
  | Rename_failed | Dir_sync_failed

section \<open>Commit\<close>

text \<open>The loop over \<open>TEMP_SEQ\<close>: the first number from \<open>seq\<close> on whose name is free.  A name
  already passed is never tried again, so it can leave the list.\<close>

function free_seq :: "nat \<Rightarrow> nat list \<Rightarrow> nat" where
  "free_seq seq temps =
     (if seq \<in> set temps then free_seq (Suc seq) (filter (\<lambda>t. t \<noteq> seq) temps) else seq)"
  by pat_completeness auto
termination
  by (relation "measure (\<lambda>(seq, temps). length temps)")
    (auto simp: length_filter_less)

declare free_seq.simps [simp del]

definition commit ::
  "externals \<Rightarrow> commit_io \<Rightarrow> daemon \<Rightarrow> stored_comment list \<Rightarrow> (store_error + unit) \<times> daemon"
where
  "commit x io d candidate =
     (let bytes = encode_log x candidate;
          new_revision = revision x bytes;
          disk = d_disk d;
          n = free_seq (d_seq d) (dk_temps disk);
          opened = d\<lparr>d_seq := Suc n\<rparr>;
          created = disk\<lparr>dk_temps := n # dk_temps disk\<rparr>;
          abandoned = opened\<lparr>d_disk := (if io_remove io then disk else created)\<rparr>;
          renamed = opened\<lparr>d_disk := disk\<lparr>dk_data := bytes\<rparr>\<rparr>
      in case io_open io of
           Some e \<Rightarrow> (Inl (Open_failed e), opened)
         | None \<Rightarrow>
             if \<not> io_write io then (Inl Write_failed, abandoned)
             else if \<not> io_sync io then (Inl Sync_failed, abandoned)
             else if \<not> io_rename io then (Inl Rename_failed, abandoned)
             else if \<not> io_dirsync io
             then (Inl Dir_sync_failed, renamed\<lparr>d_store := (d_store d)\<lparr>st_poisoned := True\<rparr>\<rparr>)
             else (Inr (), renamed\<lparr>d_store := (d_store d)\<lparr>st_comments := candidate,
                     st_revision := new_revision\<rparr>\<rparr>))"

section \<open>Submit\<close>

text \<open>\<open>signed_duration_since(..).num_seconds()\<close> truncates towards zero.\<close>

definition num_seconds :: "int \<Rightarrow> int" where
  "num_seconds ns = sgn ns * (\<bar>ns\<bar> div 1000000000)"

definition recent :: "externals \<Rightarrow> int \<Rightarrow> stored_comment \<Rightarrow> int \<Rightarrow> bool" where
  "recent x now c seconds =
     (case x_parse_rfc3339 x (sc_created_at c) of
        None \<Rightarrow> False
      | Some t \<Rightarrow> num_seconds (now - t) \<le> seconds)"

definition reject :: "string \<Rightarrow> submit_response" where
  "reject msg = \<lparr>sp_ok = False, sp_id = None, sp_notice = ''Comment not submitted: '' @ msg,
                 sp_error = Some msg\<rparr>"

record draft =
  df_author :: ustr
  df_text :: ustr
  df_reply_to_id :: "u64 option"
  df_ip_hash :: string

text \<open>The checks of \<open>submit\<close> on the text, up to the resolution of the reply; \<open>Inl\<close> is the
  message of the rejection.\<close>

definition submit_parse :: "store \<Rightarrow> submit_request \<Rightarrow> string + ustr \<times> ustr \<times> u64 option" where
  "submit_parse s req =
     (if \<not> valid_target (sr_target req) then Inl ''invalid target''
      else if MAX_COMMENT_BYTES < ulen (sr_line req) then Inl ''comment exceeds 512 bytes''
      else if parse_ip (sr_ip req) = None then Inl ''invalid IP''
      else and_then (normalize_line (sr_line req)) (\<lambda>parsed.
        case parsed of
          None \<Rightarrow> Inl ''cleaned body is empty''
        | Some p \<Rightarrow>
            if 32 < ulen (pl_author p) then Inl ''author name exceeds 32 bytes''
            else if MAX_COMMENT_BYTES < ulen (pl_text p) then Inl ''body exceeds 512 bytes''
            else case pl_reply_number p of
                None \<Rightarrow> Inr (pl_author p, pl_text p, None)
              | Some number \<Rightarrow>
                  (case resolve_reply_id (st_comments s) (sr_target req) number of
                     None \<Rightarrow> Inl (''public comment #'' @ show_nat (unat number)
                                  @ '' does not exist in target'')
                   | Some i \<Rightarrow> Inr (pl_author p, pl_text p, Some i))))"

text \<open>The limits per source address.\<close>

definition submit_limits ::
  "externals \<Rightarrow> int \<Rightarrow> store \<Rightarrow> submit_request \<Rightarrow> ustr \<times> ustr \<times> u64 option \<Rightarrow> string + draft"
where
  "submit_limits x now s req parsed =
     (let (author, text, reply_to_id) = parsed;
          ip_hash = hash_ip x (st_salt s) (sr_ip req)
      in if 10 \<le> length (filter (\<lambda>c. sc_ip_hash c = ip_hash \<and> recent x now c 3600) (st_comments s))
         then Inl ''rate limit exceeded: max 10 comments per hour from same source''
         else if list_ex (\<lambda>c. sc_ip_hash c = ip_hash \<and> sc_target c = sr_target req \<and> sc_text c = text
             \<and> sc_reply_to_id c = reply_to_id \<and> recent x now c 300) (st_comments s)
         then Inl ''duplicate content within 5 minutes''
         else Inr \<lparr>df_author = author, df_text = text, df_reply_to_id = reply_to_id,
                   df_ip_hash = ip_hash\<rparr>)"

definition next_id :: "stored_comment list \<Rightarrow> u64 option" where
  "next_id cs = (if cs = [] then Some 1 else checked_add (sc_id (last cs)) 1)"

definition new_comment :: "externals \<Rightarrow> int \<Rightarrow> u64 \<Rightarrow> string \<Rightarrow> draft \<Rightarrow> stored_comment" where
  "new_comment x now i target df =
     \<lparr>sc_id = i, sc_target = target, sc_author = df_author df, sc_text = df_text df,
      sc_reply_to_id = df_reply_to_id df, sc_ip_hash = df_ip_hash df,
      sc_created_at = x_rfc3339_secs x now, sc_status = Pending\<rparr>"

definition submit ::
  "externals \<Rightarrow> int \<Rightarrow> commit_io \<Rightarrow> daemon \<Rightarrow> submit_request \<Rightarrow> (store_error + submit_response) \<times> daemon"
where
  "submit x now io d req =
     (let s = d_store d
      in if st_poisoned s then (Inl Fail_stop, d)
         else case and_then (submit_parse s req) (submit_limits x now s req) of
             Inl msg \<Rightarrow> (Inr (reject msg), d)
           | Inr df \<Rightarrow>
               (case next_id (st_comments s) of
                  None \<Rightarrow> (Inl Ids_exhausted, d)
                | Some i \<Rightarrow>
                    (case commit x io d (st_comments s @ [new_comment x now i (sr_target req) df]) of
                       (Inl e, d') \<Rightarrow> (Inl e, d')
                     | (Inr _, d') \<Rightarrow>
                         (Inr \<lparr>sp_ok = True, sp_id = Some i,
                               sp_notice = ''Comment submitted to moderation queue'',
                               sp_error = None\<rparr>, d'))))"

section \<open>Moderate\<close>

definition moderated :: "u64 list \<Rightarrow> bool \<Rightarrow> stored_comment \<Rightarrow> stored_comment" where
  "moderated ids approve c =
     (if sc_status c = Pending \<and> sc_id c \<in> set ids
      then c\<lparr>sc_status := (if approve then Approved else Deleted)\<rparr> else c)"

definition moderate ::
  "externals \<Rightarrow> commit_io \<Rightarrow> daemon \<Rightarrow> u64 list \<Rightarrow> bool \<Rightarrow> (store_error + moderate_response) \<times> daemon"
where
  "moderate x io d ids approve =
     (let s = d_store d
      in if st_poisoned s then (Inl Fail_stop, d)
         else if ids = []
         then (Inr \<lparr>mr_ok = False, mr_changed = 0, mr_error = Some ''ids cannot be empty''\<rparr>, d)
         else let candidate = map (moderated ids approve) (st_comments s);
                  changed = length (filter (\<lambda>c. sc_status c = Pending \<and> sc_id c \<in> set ids) (st_comments s));
                  answer = \<lparr>mr_ok = True, mr_changed = changed, mr_error = None\<rparr>
           in if 0 < changed
              then (case commit x io d candidate of
                      (Inl e, d') \<Rightarrow> (Inl e, d') | (Inr _, d') \<Rightarrow> (Inr answer, d'))
              else (Inr answer, d))"

section \<open>Queries\<close>

definition query_error :: "store \<Rightarrow> string \<Rightarrow> public_query_response" where
  "query_error s message =
     \<lparr>pr_ok = False, pr_revision = st_revision s, pr_total = 0, pr_omitted_earlier = 0,
      pr_comments = [], pr_next_after_number = None, pr_has_more = False, pr_error = Some message\<rparr>"

text \<open>The checks before the comments are looked at: the limit, or the message.\<close>

definition query_guard :: "store \<Rightarrow> public_query \<Rightarrow> string + nat" where
  "query_guard s req =
     (if \<not> valid_target (pq_target req) then Inl ''invalid target''
      else and_then (page_limit (pq_limit req)) (\<lambda>limit.
        if 0 < (case pq_after_number req of None \<Rightarrow> 0 | Some n \<Rightarrow> n) \<and> pq_revision req = None
        then Inl ''revision is required when after_number>0''
        else if pq_revision req \<noteq> None \<and> pq_revision req \<noteq> Some (st_revision s)
        then Inl ''stale_revision''
        else Inr limit))"

definition latest_comments :: "store \<Rightarrow> nat \<Rightarrow> visible_comment list \<Rightarrow> public_query_response" where
  "latest_comments s limit all =
     (let start = length all - limit
      in \<lparr>pr_ok = True, pr_revision = st_revision s, pr_total = length all, pr_omitted_earlier = start,
          pr_comments = drop start all, pr_next_after_number = None, pr_has_more = False,
          pr_error = None\<rparr>)"

definition comments_after :: "store \<Rightarrow> nat \<Rightarrow> u64 \<Rightarrow> visible_comment list \<Rightarrow> public_query_response" where
  "comments_after s limit after_number all =
     (let rest = filter (\<lambda>c. after_number < vc_number c) all;
          comments = take limit rest;
          has_more = (drop limit rest \<noteq> [])
      in \<lparr>pr_ok = True, pr_revision = st_revision s, pr_total = length all, pr_omitted_earlier = 0,
          pr_comments = comments,
          pr_next_after_number =
            (if has_more \<and> comments \<noteq> [] then Some (vc_number (last comments)) else None),
          pr_has_more = has_more, pr_error = None\<rparr>)"

definition public_query :: "store \<Rightarrow> public_query \<Rightarrow> public_query_response" where
  "public_query s req =
     (case query_guard s req of
        Inl message \<Rightarrow> query_error s message
      | Inr limit \<Rightarrow>
          (case visible_comments (map view (filter
               (\<lambda>c. sc_status c = Approved \<and> sc_target c = pq_target req) (st_comments s))) of
             Inl _ \<Rightarrow> query_error s ''comment data unavailable''
           | Inr all \<Rightarrow>
               (case pq_after_number req of
                  None \<Rightarrow> latest_comments s limit all
                | Some n \<Rightarrow> comments_after s limit n all)))"

definition page_error :: "store \<Rightarrow> string \<Rightarrow> page_response" where
  "page_error s message =
     \<lparr>pp_ok = False, pp_revision = st_revision s, pp_comments = [], pp_next_after_id = None,
      pp_has_more = False, pp_error = Some message\<rparr>"

definition page :: "store \<Rightarrow> page_request \<Rightarrow> bool \<Rightarrow> page_response" where
  "page s req pending =
     (case page_limit (pg_limit req) of
        Inl e \<Rightarrow> page_error s e
      | Inr limit \<Rightarrow>
          if 0 < pg_after_id req \<and> pg_revision req = None
          then page_error s ''revision is required when after_id>0''
          else if pg_revision req \<noteq> None \<and> pg_revision req \<noteq> Some (st_revision s)
          then page_error s ''stale_revision''
          else let wanted = (if pending then Pending else Approved);
                   found = map view (filter (\<lambda>c. sc_status c = wanted \<and> pg_after_id req < sc_id c)
                             (st_comments s));
                   comments = take limit found;
                   has_more = (drop limit found \<noteq> [])
            in \<lparr>pp_ok = True, pp_revision = st_revision s, pp_comments = comments,
                pp_next_after_id = (if has_more \<and> comments \<noteq> [] then Some (cm_id (last comments)) else None),
                pp_has_more = has_more, pp_error = None\<rparr>)"

section \<open>Opening and initialising the directory\<close>

definition DATA_FILE :: string where "DATA_FILE = ''comments.jsonl''"
definition SALT_FILE :: string where "SALT_FILE = ''salt''"
definition MARKER_FILE :: string where "MARKER_FILE = ''initialized''"
definition MARKER :: bytes where "MARKER = str_bytes (''termblog-commentd-v1'' @ [CHR 0x0A])"
definition SALT_LEN :: nat where "SALT_LEN = 32"

datatype open_error = Dir_missing | Dir_not_real | Dir_owner | Dir_mode | File_missing string
  | File_not_regular string | File_owner_mode string | Bad_marker | Bad_salt | Not_utf8
  | Line_empty nat | Line_json nat | Line_invalid nat log_error | Line_order nat | Bad_relations log_error
  | Dir_not_empty

unbundle bit_operations_syntax

definition validate_dir :: "store_dir \<Rightarrow> open_error + unit" where
  "validate_dir dir =
     (case sd_meta dir of
        None \<Rightarrow> Inl Dir_missing
      | Some md \<Rightarrow>
          if \<not> fm_is_dir md \<or> fm_is_symlink md then Inl Dir_not_real
          else if fm_uid md \<noteq> 0 \<or> fm_gid md \<noteq> 0 then Inl Dir_owner
          else if fm_mode md AND 0x12 \<noteq> 0 then Inl Dir_mode
          else Inr ())"

definition validate_file :: "store_dir \<Rightarrow> string \<Rightarrow> open_error + unit" where
  "validate_file dir name =
     (case map_of (sd_files dir) name of
        None \<Rightarrow> Inl (File_missing name)
      | Some (md, _) \<Rightarrow>
          if \<not> fm_is_file md \<or> fm_is_symlink md then Inl (File_not_regular name)
          else if fm_uid md \<noteq> 0 \<or> fm_gid md \<noteq> 0 \<or> fm_mode md AND 0x1FF \<noteq> 0x180
          then Inl (File_owner_mode name)
          else Inr ())"

fun open_lines ::
  "externals \<Rightarrow> nat \<Rightarrow> u64 \<Rightarrow> stored_comment list \<Rightarrow> bytes list \<Rightarrow> open_error + stored_comment list"
where
  "open_lines x idx last_id comments [] = Inr comments"
| "open_lines x idx last_id comments (line # rest) =
     (if line = [] then Inl (Line_empty (idx + 1))
      else case x_from_json x line of
          None \<Rightarrow> Inl (Line_json (idx + 1))
        | Some c \<Rightarrow>
            (case validate_stored x c of
               Inl e \<Rightarrow> Inl (Line_invalid (idx + 1) e)
             | Inr _ \<Rightarrow>
                 if sc_id c \<le> last_id then Inl (Line_order (idx + 1))
                 else open_lines x (idx + 1) (sc_id c) (comments @ [c]) rest))"

text \<open>The middle of \<open>open\<close>: the bytes of the data file to the comments.\<close>

definition read_log :: "externals \<Rightarrow> bytes \<Rightarrow> open_error + stored_comment list" where
  "read_log x raw =
     and_then (ensure (from_utf8 raw \<noteq> None) Not_utf8) (\<lambda>_.
     and_then (open_lines x 0 0 [] (lines_of 10 13 raw)) (\<lambda>comments.
     case validate_relations comments of
       Inl e \<Rightarrow> Inl (Bad_relations e)
     | Inr _ \<Rightarrow> Inr comments))"

definition opened :: "externals \<Rightarrow> bytes \<Rightarrow> stored_comment list \<Rightarrow> store" where
  "opened x salt comments =
     \<lparr>st_salt = salt, st_comments = comments, st_revision = revision x (encode_log x comments),
      st_poisoned = False\<rparr>"

definition open_store :: "externals \<Rightarrow> store_dir \<Rightarrow> open_error + store" where
  "open_store x dir =
     and_then (validate_dir dir) (\<lambda>_.
     and_then (try_each (validate_file dir) [SALT_FILE, DATA_FILE, MARKER_FILE]) (\<lambda>_.
     and_then (ensure (file_bytes dir MARKER_FILE = MARKER) Bad_marker) (\<lambda>_.
     and_then (ensure (length (file_bytes dir SALT_FILE) = SALT_LEN) Bad_salt) (\<lambda>_.
     and_then (read_log x (file_bytes dir DATA_FILE)) (\<lambda>comments.
       Inr (opened x (file_bytes dir SALT_FILE) comments))))))"

text \<open>\<open>Store::init\<close>: the checks, the mode, then the three files, the marker last.  A new directory
  and its files get the group of their parent, as on FreeBSD.  A crash leaves a prefix of the
  writes; \<open>steps\<close> counts those that happened.\<close>

definition init_checks :: "u32 \<Rightarrow> store_dir \<Rightarrow> open_error + store_dir" where
  "init_checks parent_gid dir =
     (case sd_meta dir of
        None \<Rightarrow> Inr \<lparr>sd_meta = Some (root_meta parent_gid 0x1C0 True), sd_files = []\<rparr>
      | Some md \<Rightarrow>
          if \<not> fm_is_dir md \<or> fm_is_symlink md then Inl Dir_not_real
          else if fm_uid md \<noteq> 0 \<or> fm_gid md \<noteq> 0 then Inl Dir_owner
          else if sd_files dir \<noteq> [] then Inl Dir_not_empty
          else Inr (dir\<lparr>sd_meta := Some (md\<lparr>fm_mode := 0x1C0\<rparr>)\<rparr>))"

definition init_writes :: "bytes \<Rightarrow> (string \<times> bytes) list" where
  "init_writes salt = [(SALT_FILE, salt), (DATA_FILE, []), (MARKER_FILE, MARKER)]"

definition create_synced :: "store_dir \<Rightarrow> string \<times> bytes \<Rightarrow> store_dir" where
  "create_synced dir w =
     dir\<lparr>sd_files := (fst w, root_meta (case sd_meta dir of None \<Rightarrow> 0 | Some md \<Rightarrow> fm_gid md) 0x180 False, snd w)
                     # sd_files dir\<rparr>"

definition init_store :: "bytes \<Rightarrow> nat \<Rightarrow> u32 \<Rightarrow> store_dir \<Rightarrow> open_error + store_dir" where
  "init_store salt steps parent_gid dir =
     and_then (init_checks parent_gid dir) (\<lambda>dir.
     and_then (validate_dir dir) (\<lambda>_.
       Inr (foldl create_synced dir (take steps (init_writes salt)))))"

end
