(* ===== verification/Contracts.thy ===== *)
theory Contracts
  imports Rust_Prelude
begin

text \<open>
  The interfaces between the components, as locales over arbitrary states: what a state machine
  owes its invariant, what a commit to disk owes the store above it, and what a paged listing
  owes the client that walks through it.  Each is interpreted where its provider is modelled.
\<close>

section \<open>State machines\<close>

inductive reach :: "('s \<Rightarrow> bool) \<Rightarrow> ('s \<Rightarrow> 's \<Rightarrow> bool) \<Rightarrow> 's \<Rightarrow> bool" for init step where
  reach_init: "init s \<Longrightarrow> reach init step s"
| reach_step: "reach init step s \<Longrightarrow> step s t \<Longrightarrow> reach init step t"

text \<open>\<open>steps s t\<close>: any number of steps.\<close>

definition steps :: "('s \<Rightarrow> 's \<Rightarrow> bool) \<Rightarrow> 's \<Rightarrow> 's \<Rightarrow> bool" where
  "steps step = step\<^sup>*\<^sup>*"

locale invariant_machine =
  fixes init :: "'s \<Rightarrow> bool"
    and step :: "'s \<Rightarrow> 's \<Rightarrow> bool"
    and inv :: "'s \<Rightarrow> bool"
  assumes inv_init: "init s \<Longrightarrow> inv s"
    and inv_step: "inv s \<Longrightarrow> step s t \<Longrightarrow> inv t"
begin

lemma inv_reach: "reach init step s \<Longrightarrow> inv s"
  by (induction rule: reach.induct) (auto intro: inv_init inv_step)

lemma inv_steps: "steps step s t \<Longrightarrow> inv s \<Longrightarrow> inv t"
  unfolding steps_def by (induction rule: rtranclp_induct) (auto intro: inv_step)

end

text \<open>A machine whose steps only move up in an order: later states are above earlier ones.\<close>

locale monotone_machine = invariant_machine init step inv
  for init :: "'s \<Rightarrow> bool" and step :: "'s \<Rightarrow> 's \<Rightarrow> bool" and inv :: "'s \<Rightarrow> bool" +
  fixes below :: "'s \<Rightarrow> 's \<Rightarrow> bool"
  assumes below_refl: "below s s"
    and below_trans: "below s t \<Longrightarrow> below t u \<Longrightarrow> below s u"
    and step_below: "inv s \<Longrightarrow> step s t \<Longrightarrow> below s t"
begin

lemma steps_below: "steps step s t \<Longrightarrow> inv s \<Longrightarrow> below s t"
  unfolding steps_def
proof (induction rule: rtranclp_induct)
  case (step t u)
  then have "inv t" using inv_steps [of s t] by (simp add: steps_def)
  with step show ?case by (blast intro: below_trans step_below)
qed (rule below_refl)

end

section \<open>Commits\<close>

text \<open>
  \<open>put\<close> writes a value to disk and, when it reports success, to memory.  A reported failure
  leaves memory alone; it leaves the disk alone too, unless it marks the process as failed, in
  which case the new value is already on disk.  \<open>recover\<close> is what a restart reads.
\<close>

locale transactional =
  fixes mem :: "'d \<Rightarrow> 'v"
    and disk :: "'d \<Rightarrow> 'b"
    and failed :: "'d \<Rightarrow> bool"
    and render :: "'v \<Rightarrow> 'b"
    and recover :: "'b \<Rightarrow> 'e + 'v"
    and ok :: "'v \<Rightarrow> bool"
    and put :: "'d \<Rightarrow> 'v \<Rightarrow> ('x + unit) \<times> 'd"
  assumes put_success: "\<not> failed d \<Longrightarrow> put d v = (Inr (), d') \<Longrightarrow>
      mem d' = v \<and> disk d' = render v \<and> \<not> failed d'"
    and put_failure: "\<not> failed d \<Longrightarrow> put d v = (Inl e, d') \<Longrightarrow>
      mem d' = mem d \<and> (if failed d' then disk d' = render v else disk d' = disk d)"
    and recover_render: "ok v \<Longrightarrow> recover (render v) = Inr v"
begin

lemma put_atomic:
  assumes "\<not> failed d" "put d v = (r, d')"
  shows "(r = Inr () \<and> mem d' = v \<and> disk d' = render v \<and> \<not> failed d')
    \<or> (r \<noteq> Inr () \<and> mem d' = mem d \<and> disk d' = disk d \<and> \<not> failed d')
    \<or> (r \<noteq> Inr () \<and> mem d' = mem d \<and> disk d' = render v \<and> failed d')"
proof (cases r)
  case (Inl e)
  with put_failure [OF assms(1), of v e d'] assms(2) show ?thesis by (auto split: if_splits)
next
  case (Inr u)
  with put_success [OF assms(1), of v d'] assms(2) show ?thesis by auto
qed

text \<open>What survives a crash is a good value, and the one in memory unless the process has
  failed: a put of a good value keeps it so.\<close>

lemma put_recoverable:
  assumes "\<not> failed d" "put d v = (r, d')" "ok (mem d)" "recover (disk d) = Inr (mem d)" "ok v"
  shows "ok (mem d') \<and> (\<exists>w. ok w \<and> recover (disk d') = Inr w \<and> (\<not> failed d' \<longrightarrow> w = mem d'))"
  using put_atomic [OF assms(1,2)] assms recover_render by (elim disjE) auto

end

section \<open>Recorded events\<close>

text \<open>
  A store whose contents stand for the events it has accepted.  A request carries events; it is
  accepted as a whole, or it changes nothing.
\<close>

fun after_requests :: "('db \<Rightarrow> 'r \<Rightarrow> ('x + 'a) \<times> 'db) \<Rightarrow> 'db \<Rightarrow> 'r list \<Rightarrow> 'db" where
  "after_requests enter db [] = db"
| "after_requests enter db (r # rs) = after_requests enter (snd (enter db r)) rs"

fun accepted_requests :: "('db \<Rightarrow> 'r \<Rightarrow> ('x + 'a) \<times> 'db) \<Rightarrow> 'db \<Rightarrow> 'r list \<Rightarrow> 'r list" where
  "accepted_requests enter db [] = []"
| "accepted_requests enter db (r # rs) =
     (case enter db r of
        (Inl _, db') \<Rightarrow> accepted_requests enter db' rs
      | (Inr _, db') \<Rightarrow> r # accepted_requests enter db' rs)"

locale event_store =
  fixes represents :: "'e list \<Rightarrow> 'db \<Rightarrow> bool"
    and enter :: "'db \<Rightarrow> 'r \<Rightarrow> ('x + 'a) \<times> 'db"
    and events :: "'r \<Rightarrow> 'e list"
  assumes record_accepts: "represents h db \<Longrightarrow> enter db r = (Inr n, db') \<Longrightarrow> represents (h @ events r) db'"
    and record_refuses: "enter db r = (Inl e, db') \<Longrightarrow> db' = db"
begin

lemma represents_run:
  "represents h db \<Longrightarrow>
    represents (h @ concat (map events (accepted_requests enter db rs))) (after_requests enter db rs)"
proof (induction rs arbitrary: h db)
  case (Cons r rs)
  obtain a db' where r: "enter db r = (a, db')" by fastforce
  show ?case
  proof (cases a)
    case (Inl e)
    with r have "db' = db" using record_refuses by blast
    with r Inl Cons.IH [OF Cons.prems] show ?thesis by simp
  next
    case (Inr n)
    with r record_accepts [OF Cons.prems] Cons.IH [of "h @ events r" db'] show ?thesis by simp
  qed
qed simp

end

section \<open>Paged listings\<close>

text \<open>
  A listing \<open>items s\<close> of a state in strictly increasing key order, handed out in pages.  A page
  is asked for with the last key seen and the revision of the first page; the provider answers
  \<open>None\<close> when its revision is another one by now.
\<close>

locale paged_listing =
  fixes items :: "'s \<Rightarrow> 'c list"
    and key :: "'c \<Rightarrow> u64"
    and rev_of :: "'s \<Rightarrow> 'r"
    and fetch :: "'s \<Rightarrow> u64 \<Rightarrow> 'r option \<Rightarrow> ('r \<times> 'c list \<times> u64 option) option"
    and width :: nat
    and good :: "'s \<Rightarrow> bool"
  assumes width_pos: "0 < width"
    and items_sorted: "good s \<Longrightarrow> sorted_wrt (<) (map key (items s))"
    and items_pos: "good s \<Longrightarrow> c \<in> set (items s) \<Longrightarrow> 0 < key c"
    and fetch_stale: "r \<noteq> rev_of s \<Longrightarrow> fetch s after (Some r) = None"
    and fetch_fresh: "good s \<Longrightarrow> rq = Some (rev_of s) \<or> rq = None \<and> after = 0 \<Longrightarrow>
      fetch s after rq =
        (let rest = filter (\<lambda>c. after < key c) (items s)
         in Some (rev_of s, take width rest,
                  if length rest \<le> width then None else Some (key (rest ! (width - 1)))))"
begin

lemma rest_suffix:
  assumes "good s" "items s = seen @ rest" "seen \<noteq> [] \<longrightarrow> after = key (last seen)" "seen = [] \<longrightarrow> after = 0"
  shows "filter (\<lambda>c. after < key c) (items s) = rest"
proof -
  have sorted: "sorted_wrt (<) (map key seen @ map key rest)"
    using items_sorted [OF assms(1)] assms(2) by simp
  have "\<forall>c \<in> set rest. after < key c"
    using sorted assms items_pos [OF assms(1)] by (cases "seen = []") (auto simp: sorted_wrt_append)
  moreover have "\<forall>c \<in> set seen. \<not> after < key c"
  proof (cases seen rule: rev_cases)
    case (snoc xs y)
    then show ?thesis using sorted assms(3) by (auto simp: sorted_wrt_append)
  qed simp
  ultimately show ?thesis
    using assms(2) by (simp add: filter_id_conv filter_empty_conv)
qed

text \<open>A page read in the right revision continues the listing where the previous ones ended.\<close>

lemma fetch_continues:
  assumes "good s" "items s = seen @ rest" "seen \<noteq> [] \<longrightarrow> after = key (last seen)" "seen = [] \<longrightarrow> after = 0"
    "rq = Some (rev_of s) \<or> rq = None \<and> after = 0"
    "fetch s after rq = Some (r, page, next)"
  shows "r = rev_of s" "items s = (seen @ page) @ drop width rest"
    "next = None \<Longrightarrow> items s = seen @ page"
    "next = Some k \<Longrightarrow> page \<noteq> [] \<and> k = key (last (seen @ page))"
proof -
  have "fetch s after rq = Some (rev_of s, take width rest,
      if length rest \<le> width then None else Some (key (rest ! (width - 1))))"
    using fetch_fresh [OF assms(1,5)] rest_suffix [OF assms(1-4)] by (simp add: Let_def)
  with assms(6) have eqs: "r = rev_of s" "page = take width rest"
    "next = (if length rest \<le> width then None else Some (key (rest ! (width - 1))))"
    by auto
  show "r = rev_of s" by fact
  show "items s = (seen @ page) @ drop width rest"
    using assms(2) eqs(2) by simp
  show "items s = seen @ page" if "next = None"
    using that assms(2) eqs by (simp split: if_splits)
  show "page \<noteq> [] \<and> k = key (last (seen @ page))" if "next = Some k"
  proof -
    from that eqs(3) have len: "width < length rest" "k = key (rest ! (width - 1))"
      by (auto split: if_splits)
    have ne: "page \<noteq> []" "length page = width"
      using width_pos len(1) by (auto simp: eqs(2))
    then have "last page = rest ! (width - 1)"
      using width_pos len(1) by (simp add: last_conv_nth) (simp add: eqs(2))
    with len(2) ne show ?thesis by simp
  qed
qed

end

end
