(* ===== verification/Comment_Invariant.thy ===== *)
theory Comment_Invariant
  imports Comment_Store Contracts
begin

text \<open>
  What commentd keeps: every log it writes is one it can read back, commits are all or nothing
  unless the process stops, and the log only grows.
\<close>

section \<open>What is assumed of the libraries\<close>

definition stored_scalars :: "stored_comment \<Rightarrow> bool" where
  "stored_scalars c \<longleftrightarrow> (\<forall>u \<in> set (sc_author c) \<union> set (sc_text c). is_scalar u)"

text \<open>The JSON library reads back what it wrote, on one line of UTF-8 that ends with its brace,
  and what it reads are Rust strings.\<close>

definition json_ok :: "externals \<Rightarrow> bool" where
  "json_ok x \<longleftrightarrow> (\<forall>c. stored_scalars c \<longrightarrow>
     x_from_json x (x_to_json x c) = Some c \<and> x_to_json x c \<noteq> [] \<and> 10 \<notin> set (x_to_json x c)
     \<and> last (x_to_json x c) \<noteq> 13 \<and> from_utf8 (x_to_json x c) \<noteq> None)
   \<and> (\<forall>l c. x_from_json x l = Some c \<longrightarrow> stored_scalars c)"

text \<open>A SHA-256 digest has 64 hexadecimal digits.\<close>

definition sha_ok :: "externals \<Rightarrow> bool" where
  "sha_ok x \<longleftrightarrow> (\<forall>b. length (x_sha256 x b) = 64 \<and> list_all is_ascii_hexdigit (x_sha256 x b))"

text \<open>A time stamp of the years 1970 to 9999 reads back as the second it was written in.\<close>

definition clock_range :: "int \<Rightarrow> bool" where
  "clock_range now \<longleftrightarrow> 0 \<le> now \<and> now < 253402300800 * 1000000000"

definition clock_ok :: "externals \<Rightarrow> bool" where
  "clock_ok x \<longleftrightarrow> (\<forall>now. clock_range now \<longrightarrow>
     x_parse_rfc3339 x (x_rfc3339_secs x now) = Some (now - now mod 1000000000))"

definition libs_ok :: "externals \<Rightarrow> bool" where
  "libs_ok x \<longleftrightarrow> json_ok x \<and> sha_ok x \<and> clock_ok x"

section \<open>Well-formed logs read back\<close>

definition log_ok :: "externals \<Rightarrow> stored_comment list \<Rightarrow> bool" where
  "log_ok x cs \<longleftrightarrow> (\<forall>c \<in> set cs. validate_stored x c = Inr () \<and> stored_scalars c)
     \<and> sorted_wrt (<) (0 # map sc_id cs) \<and> parents_back [] cs"

lemma log_ok_ids:
  assumes "log_ok x cs"
  shows "sorted_wrt (<) (map sc_id cs)" "distinct (map sc_id cs)" "c \<in> set cs \<Longrightarrow> 0 < sc_id c"
  using assms by (auto simp: log_ok_def strict_sorted_iff)

lemma open_lines_Inr:
  assumes "json_ok x" "\<forall>c \<in> set cs. validate_stored x c = Inr () \<and> stored_scalars c"
    "sorted_wrt (<) (last_id # map sc_id cs)"
  shows "open_lines x idx last_id acc (map (x_to_json x) cs) = Inr (acc @ cs)"
  using assms(2,3)
proof (induction cs arbitrary: idx last_id acc)
  case (Cons c cs)
  then show ?case
    using assms(1) Cons.IH [of "sc_id c" "idx + 1" "acc @ [c]"] by (auto simp: json_ok_def)
qed simp

lemma encode_log_lines:
  assumes "json_ok x" "\<forall>c \<in> set cs. stored_scalars c"
  shows "lines_of 10 13 (encode_log x cs) = map (x_to_json x) cs" "from_utf8 (encode_log x cs) \<noteq> None"
proof -
  have "\<forall>l \<in> set (map (x_to_json x) cs). l \<noteq> [] \<and> 10 \<notin> set l \<and> last l \<noteq> 13 \<and> from_utf8 l \<noteq> None"
    using assms by (auto simp: json_ok_def)
  from terminated_lines [OF this]
  show "lines_of 10 13 (encode_log x cs) = map (x_to_json x) cs" "from_utf8 (encode_log x cs) \<noteq> None"
    unfolding encode_log_def map_map comp_def by blast+
qed

lemma read_encode_log:
  assumes "json_ok x" "log_ok x cs"
  shows "read_log x (encode_log x cs) = Inr cs"
proof -
  have "open_lines x 0 0 [] (map (x_to_json x) cs) = Inr cs"
    using open_lines_Inr [of x cs 0 0 "[]"] assms by (simp add: log_ok_def)
  moreover have "validate_relations cs = Inr ()"
    using validate_relations_parents log_ok_ids(2) [OF assms(2)] assms(2) by (simp add: log_ok_def)
  ultimately show ?thesis
    using encode_log_lines [OF assms(1)] assms(2) by (simp add: read_log_def log_ok_def)
qed

text \<open>Conversely, what \<open>open\<close> accepts is well formed (the JSON library builds Rust strings).\<close>

lemma open_lines_sound:
  assumes "open_lines x idx last_id acc ls = Inr cs"
  shows "\<exists>new. cs = acc @ new \<and> (\<forall>c \<in> set new. validate_stored x c = Inr () \<and> (\<exists>l. x_from_json x l = Some c))
    \<and> sorted_wrt (<) (last_id # map sc_id new)"
  using assms
proof (induction ls arbitrary: idx last_id acc)
  case (Cons l ls)
  from Cons.prems obtain c where c: "x_from_json x l = Some c" "validate_stored x c = Inr ()" "last_id < sc_id c"
    "open_lines x (idx + 1) (sc_id c) (acc @ [c]) ls = Inr cs"
    by (auto simp: not_le split: if_splits option.splits sum.splits)
  from Cons.IH [OF c(4)] obtain new where new: "cs = (acc @ [c]) @ new"
    "\<forall>d \<in> set new. validate_stored x d = Inr () \<and> (\<exists>l. x_from_json x l = Some d)"
    "sorted_wrt (<) (sc_id c # map sc_id new)" by blast
  with c show ?case
    by (intro exI [of _ "c # new"]) (auto dest: less_trans)
qed simp

lemma read_log_sound:
  assumes "read_log x raw = Inr cs" "json_ok x"
  shows "log_ok x cs"
proof -
  from assms(1) obtain ds where "open_lines x 0 0 [] (lines_of 10 13 raw) = Inr ds"
    "(case validate_relations ds of Inl e \<Rightarrow> Inl (Bad_relations e) | Inr _ \<Rightarrow> Inr ds) = Inr cs"
    unfolding read_log_def and_then_Inr by blast
  then have opened: "open_lines x 0 0 [] (lines_of 10 13 raw) = Inr cs" and rel: "validate_relations cs = Inr ()"
    by (cases "validate_relations ds"; simp)+
  from open_lines_sound [OF opened] have lines: "\<forall>c \<in> set cs. validate_stored x c = Inr () \<and> (\<exists>l. x_from_json x l = Some c)"
    "sorted_wrt (<) (0 # map sc_id cs)" by fastforce+
  then have "distinct (map sc_id cs)" by (simp add: strict_sorted_iff)
  with lines assms(2) rel validate_relations_parents show ?thesis
    by (auto simp: log_ok_def json_ok_def)
qed

section \<open>Commits are transactions\<close>

lemma commit_cases:
  assumes "commit x io d cs = (r, d')"
  obtains (committed) "r = Inr ()" "dk_data (d_disk d') = encode_log x cs"
      "d_store d' = (d_store d)\<lparr>st_comments := cs, st_revision := revision x (encode_log x cs)\<rparr>"
  | (refused) e where "r = Inl e" "d_store d' = d_store d" "dk_data (d_disk d') = dk_data (d_disk d)"
  | (stopped) "r = Inl Dir_sync_failed" "dk_data (d_disk d') = encode_log x cs"
      "d_store d' = (d_store d)\<lparr>st_poisoned := True\<rparr>"
proof (cases "io_open io = None \<and> io_write io \<and> io_sync io \<and> io_rename io")
  case True
  with assms show thesis
    by (cases "io_dirsync io") (auto simp: commit_def Let_def intro: committed stopped)
next
  case False
  then consider e where "io_open io = Some e" | "io_open io = None" "\<not> io_write io"
    | "io_open io = None" "io_write io" "\<not> io_sync io"
    | "io_open io = None" "io_write io" "io_sync io" "\<not> io_rename io"
    by (cases "io_open io") auto
  then show thesis
    using assms by cases (auto simp: commit_def Let_def intro: refused)
qed

text \<open>The temporary name is a free one, and every name before it was taken: the loop ends.\<close>

lemma free_seq_free: "free_seq n ts \<notin> set ts"
proof -
  have "free_seq n ts \<notin> set ts \<and> n \<le> free_seq n ts"
  proof (induction n ts rule: free_seq.induct)
    case (1 n ts)
    show ?case
    proof (cases "n \<in> set ts")
      case True
      with "1.IH" [OF True] have "free_seq (Suc n) (filter (\<lambda>t. t \<noteq> n) ts) \<notin> set ts"
        "n \<le> free_seq (Suc n) (filter (\<lambda>t. t \<noteq> n) ts)" by auto
      with True show ?thesis by (simp add: free_seq.simps [of n ts])
    qed (simp add: free_seq.simps)
  qed
  then show ?thesis by simp
qed

interpretation commits: transactional
  "\<lambda>d :: daemon. st_comments (d_store d)" "\<lambda>d. dk_data (d_disk d)" "\<lambda>d. st_poisoned (d_store d)"
  "encode_log x" "read_log x" "\<lambda>cs. json_ok x \<and> log_ok x cs" "commit x io"
  for x io
proof unfold_locales
  fix d d' :: daemon and cs e
  assume "\<not> st_poisoned (d_store d)"
  then show "commit x io d cs = (Inr (), d') \<Longrightarrow> st_comments (d_store d') = cs
      \<and> dk_data (d_disk d') = encode_log x cs \<and> \<not> st_poisoned (d_store d')"
    by (auto elim!: commit_cases)
  show "commit x io d cs = (Inl e, d') \<Longrightarrow> st_comments (d_store d') = st_comments (d_store d)
      \<and> (if st_poisoned (d_store d') then dk_data (d_disk d') = encode_log x cs
         else dk_data (d_disk d') = dk_data (d_disk d))"
    using \<open>\<not> st_poisoned (d_store d)\<close> by (auto elim!: commit_cases)
qed (use read_encode_log in blast)

section \<open>The invariant of the daemon\<close>

definition revision_ok :: "externals \<Rightarrow> store \<Rightarrow> bool" where
  "revision_ok x s \<longleftrightarrow> st_revision s = revision x (encode_log x (st_comments s))"

text \<open>A restart finds a well-formed log, and the one in memory as long as the daemon runs.\<close>

definition daemon_ok :: "externals \<Rightarrow> daemon \<Rightarrow> bool" where
  "daemon_ok x d \<longleftrightarrow> log_ok x (st_comments (d_store d)) \<and> revision_ok x (d_store d)
     \<and> (\<exists>cs. log_ok x cs \<and> read_log x (dk_data (d_disk d)) = Inr cs
          \<and> (\<not> st_poisoned (d_store d) \<longrightarrow> cs = st_comments (d_store d)))"

lemma commit_daemon_ok:
  assumes "json_ok x" "daemon_ok x d" "\<not> st_poisoned (d_store d)" "log_ok x cs"
    "commit x io d cs = (r, d')"
  shows "daemon_ok x d'"
proof -
  have rec: "read_log x (dk_data (d_disk d)) = Inr (st_comments (d_store d))"
    using assms(2,3) by (auto simp: daemon_ok_def)
  have "\<exists>w. (json_ok x \<and> log_ok x w) \<and> read_log x (dk_data (d_disk d')) = Inr w
      \<and> (\<not> st_poisoned (d_store d') \<longrightarrow> w = st_comments (d_store d'))"
    using commits.put_recoverable [of d x io cs r d'] rec assms by (auto simp: daemon_ok_def)
  moreover have "log_ok x (st_comments (d_store d')) \<and> revision_ok x (d_store d')"
    using assms(5) by (rule commit_cases) (use assms in \<open>auto simp: daemon_ok_def revision_ok_def\<close>)
  ultimately show ?thesis by (auto simp: daemon_ok_def)
qed

subsection \<open>A submission extends the log\<close>

lemma submit_parse_ok:
  assumes "submit_parse s req = Inr (author, body, parent)" "\<forall>u \<in> set (sr_line req). is_scalar u"
  shows "valid_target (sr_target req)" "author \<noteq> []" "ulen author \<le> 32" "body \<noteq> []"
    "ulen body \<le> MAX_COMMENT_BYTES" "normalize_controls author = author"
    "normalize_comment_controls body = body" "\<forall>u \<in> set author \<union> set body. is_scalar u"
    "parent = Some i \<Longrightarrow> \<exists>n. resolve_reply_id (st_comments s) (sr_target req) n = Some i"
proof -
  from assms(1) obtain q where q: "normalize_line (sr_line req) = Inr q"
    by (auto simp: submit_parse_def result_simps split: if_splits)
  with assms(1) obtain p where p: "normalize_line (sr_line req) = Inr (Some p)"
    by (cases q) (auto simp: submit_parse_def split: if_splits)
  have eqs: "author = pl_author p" "body = pl_text p" and checks: "valid_target (sr_target req)"
      "ulen (sr_line req) \<le> MAX_COMMENT_BYTES" "ulen (pl_author p) \<le> 32"
      "parent = None \<or> (\<exists>n. parent = resolve_reply_id (st_comments s) (sr_target req) n)"
    using assms(1) p by (auto simp: submit_parse_def split: if_splits option.splits)
  note ok = normalize_line_ok [OF p, unfolded parsed_ok_def]
  show "valid_target (sr_target req)" "author \<noteq> []" "ulen author \<le> 32" "body \<noteq> []"
    "ulen body \<le> MAX_COMMENT_BYTES" "normalize_controls author = author"
    "normalize_comment_controls body = body"
    using ok checks by (auto simp: eqs normalize_controls_id normalize_comment_controls_id)
  show "\<forall>u \<in> set author \<union> set body. is_scalar u"
    using ok assms(2) guest_ok(3) by (auto simp: eqs)
  show "\<exists>n. resolve_reply_id (st_comments s) (sr_target req) n = Some i" if "parent = Some i"
    using checks(4) that by (metis option.distinct(1))
qed

lemma resolve_reply_member:
  assumes "resolve_reply_id cs t n = Some i"
  shows "\<exists>c \<in> set cs. sc_id c = i \<and> sc_target c = t \<and> sc_status c = Approved"
proof -
  have "resolve_loop k n ds = Some i \<Longrightarrow> \<exists>c \<in> set ds. sc_id c = i" for k ds
    by (induction ds arbitrary: k) (auto split: option.splits if_splits)
  with assms obtain c where "c \<in> set (filter (\<lambda>c. sc_status c = Approved \<and> sc_target c = t) cs)" "sc_id c = i"
    unfolding resolve_reply_id_def by blast
  then show ?thesis by auto
qed

lemma next_id_above:
  assumes "next_id cs = Some i" "sorted_wrt (<) (0 # map sc_id cs)"
  shows "0 < i" "\<forall>c \<in> set cs. sc_id c < i"
proof -
  show "0 < i"
    using assms checked_add_less by (auto simp: next_id_def split: if_splits)
  show "\<forall>c \<in> set cs. sc_id c < i"
  proof (cases cs rule: rev_cases)
    case (snoc ds d)
    then have "sc_id d < i" using assms(1) checked_add_less by (auto simp: next_id_def)
    with snoc assms(2) show ?thesis by (auto simp: sorted_wrt_append dest: less_trans)
  qed simp
qed

definition draft_ok :: "stored_comment list \<Rightarrow> string \<Rightarrow> draft \<Rightarrow> bool" where
  "draft_ok cs t df \<longleftrightarrow> valid_target t \<and> df_author df \<noteq> [] \<and> ulen (df_author df) \<le> 32 \<and> df_text df \<noteq> []
     \<and> ulen (df_text df) \<le> MAX_COMMENT_BYTES \<and> normalize_controls (df_author df) = df_author df
     \<and> normalize_comment_controls (df_text df) = df_text df
     \<and> (\<forall>u \<in> set (df_author df) \<union> set (df_text df). is_scalar u)
     \<and> length (df_ip_hash df) = 64 \<and> list_all is_ascii_hexdigit (df_ip_hash df)
     \<and> (\<forall>i. df_reply_to_id df = Some i \<longrightarrow>
          (\<exists>c \<in> set cs. sc_id c = i \<and> sc_target c = t \<and> sc_status c = Approved))"

lemma submit_checks_draft:
  assumes "and_then (submit_parse s req) (submit_limits x now s req) = Inr df" "sha_ok x"
    "\<forall>u \<in> set (sr_line req). is_scalar u"
  shows "draft_ok (st_comments s) (sr_target req) df" "df_ip_hash df = hash_ip x (st_salt s) (sr_ip req)"
proof -
  from assms(1) obtain a b p where parse: "submit_parse s req = Inr (a, b, p)"
    and df: "df = \<lparr>df_author = a, df_text = b, df_reply_to_id = p, df_ip_hash = hash_ip x (st_salt s) (sr_ip req)\<rparr>"
    by (auto simp: result_simps submit_limits_def Let_def split: if_splits)
  then show "df_ip_hash df = hash_ip x (st_salt s) (sr_ip req)" by simp
  show "draft_ok (st_comments s) (sr_target req) df"
    using submit_parse_ok [OF parse assms(3)] resolve_reply_member assms(2)
    by (auto simp: draft_ok_def df hash_ip_def sha_ok_def)
qed

lemma log_ok_snoc:
  assumes "log_ok x cs" "draft_ok cs t df" "next_id cs = Some i" "clock_ok x" "clock_range now"
  shows "log_ok x (cs @ [new_comment x now i t df])"
proof -
  note id = next_id_above [OF assms(3)]
  have "validate_stored x (new_comment x now i t df) = Inr ()" "stored_scalars (new_comment x now i t df)"
    using assms id by (auto simp: validate_stored_def new_comment_def draft_ok_def clock_ok_def stored_scalars_def
        log_ok_def)
  moreover have "sorted_wrt (<) (0 # map sc_id (cs @ [new_comment x now i t df]))"
    using assms(1) id by (auto simp: log_ok_def sorted_wrt_append new_comment_def)
  moreover have "parents_back [] (cs @ [new_comment x now i t df])"
    using assms(1,2) by (auto simp: log_ok_def parents_back_append draft_ok_def new_comment_def)
  ultimately show ?thesis
    using assms(1) by (auto simp: log_ok_def)
qed

subsection \<open>Moderation keeps the log well formed\<close>

lemma moderated_simps [simp]:
  "sc_id (moderated ids a c) = sc_id c" "sc_target (moderated ids a c) = sc_target c"
  "sc_author (moderated ids a c) = sc_author c" "sc_text (moderated ids a c) = sc_text c"
  "sc_reply_to_id (moderated ids a c) = sc_reply_to_id c" "sc_ip_hash (moderated ids a c) = sc_ip_hash c"
  "sc_created_at (moderated ids a c) = sc_created_at c"
  "sc_status c = Approved \<Longrightarrow> sc_status (moderated ids a c) = Approved"
  by (auto simp: moderated_def)

lemma parents_back_moderated:
  "parents_back done rest \<Longrightarrow> parents_back (map (moderated ids a) done) (map (moderated ids a) rest)"
proof (induction rest arbitrary: "done")
  case (Cons c rest)
  then show ?case by (fastforce simp: image_iff)
qed simp

lemma moderated_ok [simp]:
  "validate_stored x (moderated ids a c) = validate_stored x c"
  "stored_scalars (moderated ids a c) = stored_scalars c"
  by (simp_all add: validate_stored_def stored_scalars_def)

lemma log_ok_moderated:
  assumes "log_ok x cs"
  shows "log_ok x (map (moderated ids a) cs)"
proof -
  have "map sc_id (map (moderated ids a) cs) = map sc_id cs" by (simp add: comp_def)
  with assms parents_back_moderated [of "[]" cs ids a] show ?thesis
    by (auto simp: log_ok_def simp del: map_map)
qed

end
