(* ===== verification/Comment_Server.thy ===== *)
theory Comment_Server
  imports Comment_Invariant Proto
begin

text \<open>
  \<^verbatim>\<open>crates/servers/commentd/src/server.rs\<close>: which request a socket accepts and what it
  answers; \<^verbatim>\<open>client.rs\<close>: the walk over the pages; \<^verbatim>\<open>main.rs\<close>: the commands of
  \<open>commentctl\<close>.
\<close>

section \<open>The server\<close>

datatype side = Public | Private

text \<open>The JSON library on the requests (the error is its message), and the text of the error of
  a failed store operation.\<close>

record request_json =
  j_public_query :: "bytes \<Rightarrow> string + public_query"
  j_submit :: "bytes \<Rightarrow> string + submit_request"
  j_page :: "bytes \<Rightarrow> string + page_request"
  j_moderate :: "bytes \<Rightarrow> string + u64 list"
  j_error_text :: "store_error \<Rightarrow> string"

datatype response = R_error string | R_query public_query_response | R_submit submit_response
  | R_page page_response | R_moderate moderate_response

definition invalid_json :: "string \<Rightarrow> response" where
  "invalid_json e = R_error (''invalid request JSON: '' @ e)"

definition submit_failed :: "string \<Rightarrow> submit_response" where
  "submit_failed e = \<lparr>sp_ok = False, sp_id = None, sp_notice = ''Comment service persistence failed'',
                      sp_error = Some e\<rparr>"

text \<open>The part of \<open>handle\<close> between the receive and the send.  The store is locked once per
  request, so the requests of concurrent connections come one after the other.\<close>

definition answer ::
  "externals \<Rightarrow> request_json \<Rightarrow> int \<Rightarrow> commit_io \<Rightarrow> side \<Rightarrow> frame \<Rightarrow> daemon \<Rightarrow> response \<times> daemon"
where
  "answer x j now io side f d =
     (let kind = fr_kind f
      in case side of
           Public \<Rightarrow>
             if kind = PUBLIC_QUERY
             then (case frame_parse (j_public_query j) f of
                     Inr req \<Rightarrow> (R_query (public_query (d_store d) req), d)
                   | Inl e \<Rightarrow> (invalid_json e, d))
             else (R_error ''public socket only allows approved query'', d)
         | Private \<Rightarrow>
             if kind = PRIVATE_SUBMIT
             then (case frame_parse (j_submit j) f of
                     Inr req \<Rightarrow>
                       (case submit x now io d req of
                          (Inr r, d') \<Rightarrow> (R_submit r, d')
                        | (Inl e, d') \<Rightarrow> (R_submit (submit_failed (j_error_text j e)), d'))
                   | Inl e \<Rightarrow> (invalid_json e, d))
             else if kind = PRIVATE_SYNC \<or> kind = PRIVATE_QUEUE
             then (case frame_parse (j_page j) f of
                     Inr req \<Rightarrow> (R_page (page (d_store d) req (kind = PRIVATE_QUEUE)), d)
                   | Inl e \<Rightarrow> (invalid_json e, d))
             else if kind = PRIVATE_APPROVE \<or> kind = PRIVATE_REJECT
             then (case frame_parse (j_moderate j) f of
                     Inr ids \<Rightarrow>
                       (case moderate x io d ids (kind = PRIVATE_APPROVE) of
                          (Inr r, d') \<Rightarrow> (R_moderate r, d')
                        | (Inl e, d') \<Rightarrow> (R_moderate \<lparr>mr_ok = False, mr_changed = 0,
                                                    mr_error = Some (j_error_text j e)\<rparr>, d'))
                   | Inl e \<Rightarrow> (invalid_json e, d))
             else (R_error ''invalid private socket kind'', d))"

text \<open>One connection: one request, one answer of the same kind, and the exit of a failed store.\<close>

definition handle ::
  "externals \<Rightarrow> request_json \<Rightarrow> int \<Rightarrow> commit_io \<Rightarrow> side \<Rightarrow> 'e + frame \<Rightarrow> daemon
     \<Rightarrow> (u8 \<times> response) option \<times> daemon \<times> bool"
where
  "handle x j now io side received d =
     (case received of
        Inl _ \<Rightarrow> (None, d, False)
      | Inr f \<Rightarrow>
          (case answer x j now io side f d of
             (r, d') \<Rightarrow> (Some (fr_kind f, r), d', st_poisoned (d_store d'))))"

datatype socket_path = Path_socket | Path_other | Path_missing | Path_error nat

text \<open>\<open>prepare_socket\<close>: \<open>Inr True\<close> when an old socket has to be removed.\<close>

definition prepare_socket :: "socket_path \<Rightarrow> string + bool" where
  "prepare_socket p =
     (case p of
        Path_socket \<Rightarrow> Inr True
      | Path_other \<Rightarrow> Inl ''exists and is not a socket, refusing to overwrite''
      | Path_missing \<Rightarrow> Inr False
      | Path_error _ \<Rightarrow> Inl ''os error'')"

section \<open>The client\<close>

text \<open>The end of \<open>request\<close>: the answer has to be of the kind asked for.\<close>

definition accept_answer :: "(bytes \<Rightarrow> string + 'r) \<Rightarrow> u8 \<Rightarrow> frame \<Rightarrow> string + 'r" where
  "accept_answer parse kind f =
     (if fr_kind f \<noteq> kind then Inl ''commentd response kind mismatch''
      else frame_parse parse f)"

text \<open>\<open>all\<close> asks for one page after the other.  Each element of the last argument is the service
  at the time of one request; \<open>None\<close> stands for a client still waiting.  \<open>rounds\<close> counts
  the rounds that remain after this one.\<close>

type_synonym page_service = "page_request \<Rightarrow> string + page_response"

fun all_loop ::
  "nat \<Rightarrow> comment list \<Rightarrow> u64 \<Rightarrow> string option \<Rightarrow> page_service list \<Rightarrow> (string + comment list) option"
where
  "all_loop rounds out after_id rvn [] = None"
| "all_loop rounds out after_id rvn (serve # later) =
     (case serve \<lparr>pg_after_id = after_id, pg_limit = Some MAX_LIMIT, pg_revision = rvn\<rparr> of
        Inl e \<Rightarrow> Some (Inl e)
      | Inr res \<Rightarrow>
          if \<not> pp_ok res
          then if pp_error res = Some ''stale_revision''
               then (if rounds = 0
                     then Some (Inl ''commentd data continuously changing, unable to acquire consistent snapshot'')
                     else all_loop (rounds - 1) [] 0 None later)
               else Some (Inl (''commentd query failed: ''
                      @ (case pp_error res of None \<Rightarrow> ''unknown error'' | Some e \<Rightarrow> e)))
          else let rvn = (case rvn of None \<Rightarrow> Some (pp_revision res) | Some r \<Rightarrow> Some r);
                   out = out @ pp_comments res
            in if \<not> pp_has_more res then Some (Inr out)
               else case pp_next_after_id res of
                   None \<Rightarrow> Some (Inl ''commentd has_more missing next_after_id'')
                 | Some k \<Rightarrow> all_loop rounds out k rvn later)"

definition client_all :: "page_service list \<Rightarrow> (string + comment list) option" where
  "client_all services = all_loop 4 [] 0 None services"

section \<open>The commands of commentctl\<close>

text \<open>\<open>take_option\<close>: the value after the first occurrence of the name, and what is left.\<close>

fun take_option :: "string list \<Rightarrow> string \<Rightarrow> string + string option \<times> string list" where
  "take_option [] name = Inr (None, [])"
| "take_option (a # args) name =
     (if a = name
      then (case args of [] \<Rightarrow> Inl (name @ '' missing value'') | v # rest \<Rightarrow> Inr (Some v, rest))
      else and_then (take_option args name) (\<lambda>(v, rest). Inr (v, a # rest)))"

text \<open>\<open>parse::<u64>()\<close> and \<open>parse::<u16>()\<close> of an argument: an optional plus sign, then digits.\<close>

definition parse_unsigned :: "nat \<Rightarrow> string \<Rightarrow> nat option" where
  "parse_unsigned bits s =
     (let ds = (case strip_prefix ''+'' s of Some t \<Rightarrow> t | None \<Rightarrow> s);
          v = digits_value 10 (map (\<lambda>c. of_char c - 48) ds)
      in if ds = [] \<or> \<not> list_all is_ascii_digit ds \<or> 2 ^ bits \<le> v then None else Some v)"

definition parse_ids :: "string list \<Rightarrow> string + u64 list" where
  "parse_ids args =
     (if args = [] then Inl ''at least one comment ID required''
      else try_map (\<lambda>s. case parse_unsigned 64 s of None \<Rightarrow> Inl (''invalid ID: '' @ s)
                                               | Some n \<Rightarrow> Inr (of_nat n)) args)"

definition escape_tsv :: "ustr \<Rightarrow> ustr" where
  "escape_tsv value = concat (map (\<lambda>c. if c = 92 then [92, 92] else if c = 10 then [92, 110] else [c]) value)"

definition queue_revision :: "page_service \<Rightarrow> string + string" where
  "queue_revision serve =
     and_then (serve \<lparr>pg_after_id = 0, pg_limit = Some 1, pg_revision = None\<rparr>) (\<lambda>res.
       if \<not> pp_ok res
       then Inl (''queue failed: '' @ (case pp_error res of None \<Rightarrow> ''unknown error'' | Some e \<Rightarrow> e))
       else Inr (pp_revision res))"

text \<open>The loop of \<open>queue\<close>.  \<open>fresh\<close>: the walk starts over, with a request for the revision
  when it does not start at the beginning.\<close>

fun queue_loop ::
  "u64 \<Rightarrow> u16 \<Rightarrow> nat \<Rightarrow> bool \<Rightarrow> comment list \<Rightarrow> u64 \<Rightarrow> string option \<Rightarrow> page_service list
     \<Rightarrow> (string + comment list) option"
where
  "queue_loop start limit retries fresh rows cursor rvn [] = None"
| "queue_loop start limit retries fresh rows cursor rvn (serve # later) =
     (if fresh \<and> 0 < start
      then (case queue_revision serve of
              Inl e \<Rightarrow> Some (Inl e)
            | Inr r \<Rightarrow> queue_loop start limit retries False [] start (Some r) later)
      else
        case serve \<lparr>pg_after_id = cursor, pg_limit = Some limit, pg_revision = rvn\<rparr> of
          Inl e \<Rightarrow> Some (Inl e)
        | Inr res \<Rightarrow>
            if \<not> pp_ok res
            then if pp_error res = Some ''stale_revision''
                 then (if 5 \<le> Suc retries
                       then Some (Inl ''commentd data continuously changing, unable to acquire consistent queue'')
                       else queue_loop start limit (Suc retries) True [] start None later)
                 else Some (Inl (''queue failed: '' @ (case pp_error res of None \<Rightarrow> '''' | Some e \<Rightarrow> e)))
            else let rvn = (case rvn of None \<Rightarrow> Some (pp_revision res) | Some r \<Rightarrow> Some r);
                     rows = rows @ pp_comments res
              in if \<not> pp_has_more res then Some (Inr rows)
                 else case pp_next_after_id res of
                     None \<Rightarrow> Some (Inl ''has_more missing next_after_id'')
                   | Some k \<Rightarrow> queue_loop start limit retries False rows k rvn later)"

text \<open>\<open>queue\<close> up to the printing of the rows: its two options and the walk.\<close>

definition queue_args :: "string list \<Rightarrow> string + u64 \<times> u16" where
  "queue_args args =
     and_then (take_option args ''--after-id'') (\<lambda>(a, args).
     and_then (case a of
         None \<Rightarrow> Inr 0
       | Some s \<Rightarrow> (case parse_unsigned 64 s of
             None \<Rightarrow> Inl ''--after-id must be an integer'' | Some n \<Rightarrow> Inr (of_nat n))) (\<lambda>start.
     and_then (take_option args ''--limit'') (\<lambda>(l, args).
     and_then (case l of
         None \<Rightarrow> Inr DEFAULT_LIMIT
       | Some s \<Rightarrow> (case parse_unsigned 16 s of
             None \<Rightarrow> Inl ''--limit must be an integer'' | Some n \<Rightarrow> Inr (of_nat n))) (\<lambda>limit.
     and_then (page_limit (Some limit)) (\<lambda>_.
       if args \<noteq> [] then Inl ''invalid queue arguments'' else Inr (start, limit))))))"

definition queue :: "page_service list \<Rightarrow> string list \<Rightarrow> (string + comment list) option" where
  "queue services args =
     (case queue_args args of
        Inl e \<Rightarrow> Some (Inl e)
      | Inr (start, limit) \<Rightarrow> queue_loop start limit 0 True [] start None services)"

definition reply_column :: "u64 option \<Rightarrow> string" where
  "reply_column r = (case r of None \<Rightarrow> ''root'' | Some i \<Rightarrow> ''reply_to=#'' @ show_nat (unat i))"

text \<open>A row as it is printed.\<close>

definition queue_row :: "comment \<Rightarrow> ustr" where
  "queue_row c = join_with 9 [u_of (''#'' @ show_nat (unat (cm_id c))), u_of (cm_target c), cm_author c,
     u_of (cm_created_at c), u_of (reply_column (cm_reply_to_id c)), escape_tsv (cm_text c)]"

text \<open>What \<open>commentctl\<close> asks commentd to moderate: the ids and the direction.  The requests
  of \<open>approve --all\<close> for the listing are the last argument.\<close>

datatype ctl_result = Ctl_error string | Ctl_moderate "u64 list" bool | Ctl_nothing | Ctl_rows "comment list" | Ctl_waiting

definition ctl_ids :: "string + u64 list \<Rightarrow> bool \<Rightarrow> ctl_result" where
  "ctl_ids r approve =
     (case r of Inl e \<Rightarrow> Ctl_error e
      | Inr ids \<Rightarrow> if approve \<and> ids = [] then Ctl_nothing else Ctl_moderate ids approve)"

definition ctl :: "page_service list \<Rightarrow> string list \<Rightarrow> ctl_result" where
  "ctl services args =
     (case args of
        [] \<Rightarrow> Ctl_error ''Usage: commentctl queue [--after-id N] [--limit N] | approve <id>|--all | reject <id>''
      | cmd # rest \<Rightarrow>
          if cmd = ''queue''
          then (case queue services rest of
                  None \<Rightarrow> Ctl_waiting | Some (Inl e) \<Rightarrow> Ctl_error e | Some (Inr rows) \<Rightarrow> Ctl_rows rows)
          else if cmd = ''approve''
          then if rest \<noteq> [] \<and> hd rest = ''--all''
               then if length args \<noteq> 2 then Ctl_error ''--all cannot be combined with IDs''
                    else (case client_all services of
                            None \<Rightarrow> Ctl_waiting
                          | Some (Inl e) \<Rightarrow> Ctl_error e
                          | Some (Inr cs) \<Rightarrow> ctl_ids (Inr (map cm_id cs)) True)
               else ctl_ids (parse_ids rest) True
          else if cmd = ''reject'' then ctl_ids (parse_ids rest) False
          else Ctl_error (''unknown commentctl command: '' @ cmd))"

end
