(* ===== verification/Comment_Service.thy ===== *)
theory Comment_Service
  imports Comment_Server
begin

text \<open>
  commentd as a state machine: requests on its two sockets, crashes, restarts.  The invariant and
  the order in which the durable log grows are interpretations of the locales of \<open>Contracts\<close>.
\<close>

section \<open>Writes\<close>

text \<open>A write request either leaves the daemon alone or commits one candidate.\<close>

definition submits :: "externals \<Rightarrow> int \<Rightarrow> stored_comment list \<Rightarrow> submit_request \<Rightarrow> draft \<Rightarrow> u64 \<Rightarrow> stored_comment list"
where
  "submits x now cs req df i = cs @ [new_comment x now i (sr_target req) df]"

lemma submit_cases:
  assumes "submit x now io d req = (r, d')"
  obtains (failed) "st_poisoned (d_store d)" "r = Inl Fail_stop" "d' = d"
  | (rejected) msg where "\<not> st_poisoned (d_store d)" "r = Inr (reject msg)" "d' = d"
      "and_then (submit_parse (d_store d) req) (submit_limits x now (d_store d) req) = Inl msg"
  | (exhausted) df where "\<not> st_poisoned (d_store d)" "r = Inl Ids_exhausted" "d' = d"
      "and_then (submit_parse (d_store d) req) (submit_limits x now (d_store d) req) = Inr df"
      "next_id (st_comments (d_store d)) = None"
  | (committed) df i u where "\<not> st_poisoned (d_store d)"
      "and_then (submit_parse (d_store d) req) (submit_limits x now (d_store d) req) = Inr df"
      "next_id (st_comments (d_store d)) = Some i"
      "commit x io d (submits x now (st_comments (d_store d)) req df i) = (u, d')"
      "r = (case u of Inl e \<Rightarrow> Inl e
            | Inr _ \<Rightarrow> Inr \<lparr>sp_ok = True, sp_id = Some i, sp_notice = ''Comment submitted to moderation queue'',
                           sp_error = None\<rparr>)"
proof (cases "st_poisoned (d_store d)")
  case True
  with assms have "r = Inl Fail_stop" "d' = d" by (simp_all add: submit_def Let_def)
  with True show thesis by (rule failed)
next
  case False
  let ?checks = "and_then (submit_parse (d_store d) req) (submit_limits x now (d_store d) req)"
  show thesis
  proof (cases ?checks)
    case (Inl msg)
    with assms False have "r = Inr (reject msg)" "d' = d" by (simp_all add: submit_def Let_def)
    from rejected [OF False this Inl] show thesis .
  next
    case (Inr df)
    show thesis
    proof (cases "next_id (st_comments (d_store d))")
      case None
      with assms False Inr have "r = Inl Ids_exhausted" "d' = d" by (simp_all add: submit_def Let_def)
      from exhausted [OF False this Inr None] show thesis .
    next
      case (Some i)
      obtain u d'' where c: "commit x io d (submits x now (st_comments (d_store d)) req df i) = (u, d'')"
        by fastforce
      with assms False Inr Some have "d'' = d'" "r = (case u of Inl e \<Rightarrow> Inl e
            | Inr _ \<Rightarrow> Inr \<lparr>sp_ok = True, sp_id = Some i, sp_notice = ''Comment submitted to moderation queue'',
                           sp_error = None\<rparr>)"
        by (auto simp: submit_def Let_def submits_def split: sum.splits)
      with c have "commit x io d (submits x now (st_comments (d_store d)) req df i) = (u, d')" by simp
      from committed [OF False Inr Some this \<open>r = _\<close>] show thesis .
    qed
  qed
qed

definition pending_ids :: "u64 list \<Rightarrow> stored_comment list \<Rightarrow> stored_comment list" where
  "pending_ids ids cs = filter (\<lambda>c. sc_status c = Pending \<and> sc_id c \<in> set ids) cs"

lemma moderate_cases:
  assumes "moderate x io d ids a = (r, d')"
  obtains (failed) "st_poisoned (d_store d)" "r = Inl Fail_stop" "d' = d"
  | (no_ids) "\<not> st_poisoned (d_store d)" "ids = []" "d' = d"
      "r = Inr \<lparr>mr_ok = False, mr_changed = 0, mr_error = Some ''ids cannot be empty''\<rparr>"
  | (unchanged) "\<not> st_poisoned (d_store d)" "ids \<noteq> []" "pending_ids ids (st_comments (d_store d)) = []" "d' = d"
      "r = Inr \<lparr>mr_ok = True, mr_changed = 0, mr_error = None\<rparr>"
  | (committed) u where "\<not> st_poisoned (d_store d)" "ids \<noteq> []" "pending_ids ids (st_comments (d_store d)) \<noteq> []"
      "commit x io d (map (moderated ids a) (st_comments (d_store d))) = (u, d')"
      "r = (case u of Inl e \<Rightarrow> Inl e
            | Inr _ \<Rightarrow> Inr \<lparr>mr_ok = True, mr_changed = length (pending_ids ids (st_comments (d_store d))),
                           mr_error = None\<rparr>)"
proof (cases "st_poisoned (d_store d)")
  case True
  with assms have "r = Inl Fail_stop" "d' = d" by (simp_all add: moderate_def Let_def)
  with True show thesis by (rule failed)
next
  case False
  show thesis
  proof (cases "ids = [] \<or> pending_ids ids (st_comments (d_store d)) = []")
    case True
    show thesis
    proof (cases "ids = []")
      case ids: True
      with assms False have "d' = d" "r = Inr \<lparr>mr_ok = False, mr_changed = 0, mr_error = Some ''ids cannot be empty''\<rparr>"
        by (simp_all add: moderate_def Let_def)
      from no_ids [OF False ids this] show thesis .
    next
      case ids: False
      with assms False True have "d' = d" "r = Inr \<lparr>mr_ok = True, mr_changed = 0, mr_error = None\<rparr>"
        by (simp_all add: moderate_def Let_def pending_ids_def)
      from unchanged [OF False ids _ this] True ids show thesis by blast
    qed
  next
    case some: False
    obtain u d'' where c: "commit x io d (map (moderated ids a) (st_comments (d_store d))) = (u, d'')"
      by fastforce
    with assms False some have "d'' = d'" "r = (case u of Inl e \<Rightarrow> Inl e
          | Inr _ \<Rightarrow> Inr \<lparr>mr_ok = True, mr_changed = length (pending_ids ids (st_comments (d_store d))),
                         mr_error = None\<rparr>)"
      by (auto simp: moderate_def Let_def pending_ids_def split: sum.splits)
    with c have "commit x io d (map (moderated ids a) (st_comments (d_store d))) = (u, d')" by simp
    from committed [OF False _ _ this \<open>r = _\<close>] some show thesis by blast
  qed
qed

section \<open>The order of logs\<close>

text \<open>\<open>evolved c c'\<close>: the same comment, moderated perhaps; \<open>log_le\<close>: every comment kept
  in its place, new ones at the end.\<close>

definition evolved :: "stored_comment \<Rightarrow> stored_comment \<Rightarrow> bool" where
  "evolved c c' \<longleftrightarrow> c' = c\<lparr>sc_status := sc_status c'\<rparr> \<and> sc_status c \<le> sc_status c'"

definition log_le :: "stored_comment list \<Rightarrow> stored_comment list \<Rightarrow> bool" where
  "log_le cs ds \<longleftrightarrow> list_all2 evolved cs (take (length cs) ds)"

lemma evolved_refl [simp]: "evolved c c"
  by (simp add: evolved_def)

lemma evolved_trans: "evolved c d \<Longrightarrow> evolved d e \<Longrightarrow> evolved c e"
  by (cases c; cases d; cases e) (auto simp: evolved_def)

lemma evolved_moderated [simp]: "evolved c (moderated ids a c)"
  by (auto simp: evolved_def moderated_def less_eq_status_def)

lemma evolved_same: "evolved c d \<Longrightarrow> sc_id d = sc_id c \<and> view d = view c
    \<and> (sc_status c \<noteq> Pending \<longrightarrow> d = c)"
  by (cases c; cases d) (auto simp: evolved_def view_def less_eq_status_def)

lemma log_le_refl [simp]: "log_le cs cs"
  by (simp add: log_le_def list_all2_same)

lemma log_le_snoc [simp]: "log_le cs (cs @ ds)"
  by (simp add: log_le_def list_all2_same)

lemma log_le_moderated [simp]: "log_le cs (map (moderated ids a) cs)"
  by (simp add: log_le_def list_all2_map2 list_all2_same)

lemma log_le_trans:
  assumes "log_le cs ds" "log_le ds es"
  shows "log_le cs es"
proof -
  have len: "length cs \<le> length ds"
    using list_all2_lengthD [OF assms(1) [unfolded log_le_def]] by simp
  have "list_all2 evolved (take (length cs) ds) (take (length cs) (take (length ds) es))"
    using list_all2_takeI [OF assms(2) [unfolded log_le_def], of "length cs"] .
  then have "list_all2 evolved (take (length cs) ds) (take (length cs) es)"
    using len by (simp add: min_def)
  with assms(1) evolved_trans show ?thesis
    unfolding log_le_def by (blast intro: list_all2_trans)
qed

lemma log_le_member:
  assumes "log_le cs ds" "c \<in> set cs"
  shows "\<exists>d \<in> set ds. evolved c d"
proof -
  obtain i where i: "i < length cs" "c = cs ! i"
    using assms(2) by (auto simp: in_set_conv_nth)
  with assms(1) have "evolved c (take (length cs) ds ! i)" "i < length (take (length cs) ds)"
    unfolding log_le_def by (simp_all add: list_all2_conv_all_nth)
  then show ?thesis by (meson in_set_takeD nth_mem)
qed

section \<open>Every write keeps the invariant\<close>

lemma submit_candidate:
  assumes "libs_ok x" "clock_range now" "log_ok x (st_comments s)" "\<forall>u \<in> set (sr_line req). is_scalar u"
    "and_then (submit_parse s req) (submit_limits x now s req) = Inr df" "next_id (st_comments s) = Some i"
  shows "log_ok x (submits x now (st_comments s) req df i)"
  using submit_checks_draft(1) [OF assms(5) _ assms(4)] assms log_ok_snoc
  by (auto simp: submits_def libs_ok_def)

lemma submit_daemon_ok:
  assumes "libs_ok x" "clock_range now" "daemon_ok x d" "\<forall>u \<in> set (sr_line req). is_scalar u"
    "submit x now io d req = (r, d')"
  shows "daemon_ok x d'"
  using assms(5)
proof (cases rule: submit_cases)
  case (committed df i u)
  have "log_ok x (submits x now (st_comments (d_store d)) req df i)"
    using submit_candidate committed(2,3) assms by (auto simp: daemon_ok_def)
  with commit_daemon_ok committed(1,4) assms(1,3) show ?thesis
    by (auto simp: libs_ok_def)
qed (use assms(3) in auto)

lemma moderate_daemon_ok:
  assumes "libs_ok x" "daemon_ok x d" "moderate x io d ids a = (r, d')"
  shows "daemon_ok x d'"
  using assms(3)
proof (cases rule: moderate_cases)
  case (committed u)
  have "log_ok x (map (moderated ids a) (st_comments (d_store d)))"
    using log_ok_moderated assms(2) by (auto simp: daemon_ok_def)
  with commit_daemon_ok committed(1,4) assms(1,2) show ?thesis
    by (auto simp: libs_ok_def)
qed (use assms(2) in auto)

text \<open>JSON requests carry Rust strings.\<close>

definition requests_ok :: "request_json \<Rightarrow> bool" where
  "requests_ok j \<longleftrightarrow> (\<forall>b req. j_submit j b = Inr req \<longrightarrow> (\<forall>u \<in> set (sr_line req). is_scalar u))"

lemma answer_cases:
  assumes "answer x j now io side f d = (r, d')"
  obtains (read) "d' = d"
  | (submitted) req r' where "side = Private" "fr_kind f = PRIVATE_SUBMIT" "j_submit j (fr_payload f) = Inr req"
      "submit x now io d req = (r', d')"
  | (moderated) ids a r' where "side = Private" "fr_kind f = PRIVATE_APPROVE \<or> fr_kind f = PRIVATE_REJECT"
      "moderate x io d ids a = (r', d')"
proof (cases "side = Private \<and> (fr_kind f = PRIVATE_SUBMIT \<or> fr_kind f = PRIVATE_APPROVE \<or> fr_kind f = PRIVATE_REJECT)")
  case False
  with assms have "d' = d"
    by (auto simp: answer_def Let_def split: side.splits if_splits sum.splits)
  then show thesis by (rule read)
next
  case True
  show thesis
  proof (cases "fr_kind f = PRIVATE_SUBMIT")
    case submit: True
    show thesis
    proof (cases "j_submit j (fr_payload f)")
      case (Inl e)
      with assms True submit have "d' = d" by (simp add: answer_def frame_parse_def)
      then show thesis by (rule read)
    next
      case (Inr req)
      obtain r' d'' where s: "submit x now io d req = (r', d'')" by fastforce
      with assms True submit Inr have "d'' = d'"
        by (auto simp: answer_def frame_parse_def split: sum.splits)
      with s submitted True submit Inr show thesis by blast
    qed
  next
    case no_submit: False
    with True have kind: "fr_kind f = PRIVATE_APPROVE \<or> fr_kind f = PRIVATE_REJECT" by simp
    then have other: "fr_kind f \<noteq> PRIVATE_SYNC" "fr_kind f \<noteq> PRIVATE_QUEUE"
      by (auto simp: PRIVATE_APPROVE_def PRIVATE_REJECT_def PRIVATE_SYNC_def PRIVATE_QUEUE_def)
    show thesis
    proof (cases "j_moderate j (fr_payload f)")
      case (Inl e)
      with assms True no_submit other have "d' = d" by (simp add: answer_def frame_parse_def)
      then show thesis by (rule read)
    next
      case (Inr ids)
      obtain r' d'' where m: "moderate x io d ids (fr_kind f = PRIVATE_APPROVE) = (r', d'')" by fastforce
      with assms True no_submit other Inr kind have "d'' = d'"
        by (auto simp: answer_def frame_parse_def split: sum.splits)
      with m moderated True kind show thesis by blast
    qed
  qed
qed

lemma answer_daemon_ok:
  assumes "libs_ok x" "requests_ok j" "clock_range now" "daemon_ok x d" "answer x j now io side f d = (r, d')"
  shows "daemon_ok x d'"
  using assms(5)
proof (cases rule: answer_cases)
  case (submitted req r')
  then have "\<forall>u \<in> set (sr_line req). is_scalar u"
    using assms(2) unfolding requests_ok_def by blast
  from submit_daemon_ok [OF assms(1,3,4) this submitted(4)] show ?thesis .
next
  case (moderated ids a r')
  from moderate_daemon_ok [OF assms(1,4) this(3)] show ?thesis .
qed (use assms(4) in simp)

section \<open>The service\<close>

datatype service = Running daemon | Down bytes disk

definition service_disk :: "service \<Rightarrow> disk" where
  "service_disk s = (case s of Running d \<Rightarrow> d_disk d | Down _ dk \<Rightarrow> dk)"

definition started :: "externals \<Rightarrow> bytes \<Rightarrow> disk \<Rightarrow> stored_comment list \<Rightarrow> daemon" where
  "started x salt dk cs = \<lparr>d_store = opened x salt cs, d_disk = dk, d_seq = 1\<rparr>"

text \<open>A request on either socket; the end of the process, by a crash at any time or because the
  store failed; the start, by a process whose number some temporary files may bear.\<close>

inductive service_step :: "externals \<Rightarrow> request_json \<Rightarrow> service \<Rightarrow> service \<Rightarrow> bool" for x j where
  request: "clock_range now \<Longrightarrow> answer x j now io side f d = (r, d') \<Longrightarrow>
     service_step x j (Running d) (Running d')"
| stop: "service_step x j (Running d) (Down (st_salt (d_store d)) (d_disk d))"
| start: "read_log x (dk_data dk) = Inr cs \<Longrightarrow>
     service_step x j (Down salt dk) (Running (started x salt (dk\<lparr>dk_temps := temps\<rparr>) cs))"

inductive_cases service_step_RunningE: "service_step x j (Running d) t"

inductive_simps service_step_Down: "service_step x j (Down salt dk) t"

text \<open>commentd starts on a directory that \<open>open\<close> accepts.\<close>

definition service_init :: "externals \<Rightarrow> service \<Rightarrow> bool" where
  "service_init x s \<longleftrightarrow> (\<exists>dir st temps. open_store x dir = Inr st
     \<and> s = Running \<lparr>d_store = st, d_disk = \<lparr>dk_data = file_bytes dir DATA_FILE, dk_temps = temps\<rparr>, d_seq = 1\<rparr>)"

definition service_ok :: "externals \<Rightarrow> service \<Rightarrow> bool" where
  "service_ok x s \<longleftrightarrow> (case s of
     Running d \<Rightarrow> daemon_ok x d
   | Down _ dk \<Rightarrow> \<exists>cs. log_ok x cs \<and> read_log x (dk_data dk) = Inr cs)"

lemma open_store_Inr:
  assumes "open_store x dir = Inr st"
  shows "read_log x (file_bytes dir DATA_FILE) = Inr (st_comments st)"
    "st = opened x (file_bytes dir SALT_FILE) (st_comments st)"
  using assms by (auto simp: open_store_def opened_def result_simps)

lemma opened_simps [simp]:
  "st_comments (opened x salt cs) = cs" "st_salt (opened x salt cs) = salt"
  "\<not> st_poisoned (opened x salt cs)" "revision_ok x (opened x salt cs)"
  by (simp_all add: opened_def revision_ok_def)

lemma opened_daemon_ok:
  assumes "json_ok x" "d_store d = opened x salt cs" "read_log x (dk_data (d_disk d)) = Inr cs"
  shows "daemon_ok x d"
  using assms read_log_sound by (auto simp: daemon_ok_def)

text \<open>What a restart would read.\<close>

definition durable :: "externals \<Rightarrow> service \<Rightarrow> stored_comment list" where
  "durable x s = (case read_log x (dk_data (service_disk s)) of Inl _ \<Rightarrow> [] | Inr cs \<Rightarrow> cs)"

lemma durable_running:
  assumes "daemon_ok x d" "\<not> st_poisoned (d_store d)"
  shows "durable x (Running d) = st_comments (d_store d)"
  using assms by (auto simp: durable_def service_disk_def daemon_ok_def)

lemma commit_durable:
  assumes "json_ok x" "daemon_ok x d" "\<not> st_poisoned (d_store d)" "log_ok x cs" "commit x io d cs = (r, d')"
  shows "durable x (Running d') = st_comments (d_store d) \<and> r \<noteq> Inr ()
    \<or> durable x (Running d') = cs"
proof -
  have "dk_data (d_disk d') = dk_data (d_disk d) \<and> r \<noteq> Inr () \<or> dk_data (d_disk d') = encode_log x cs"
    using assms(5) by (rule commit_cases) auto
  moreover have "read_log x (encode_log x cs) = Inr cs"
    using read_encode_log assms(1,4) by blast
  ultimately show ?thesis
    using durable_running [OF assms(2,3)] by (auto simp: durable_def service_disk_def)
qed

lemma answer_durable:
  assumes "libs_ok x" "requests_ok j" "clock_range now" "daemon_ok x d" "answer x j now io side f d = (r, d')"
  shows "log_le (durable x (Running d)) (durable x (Running d'))"
  using assms(5)
proof (cases rule: answer_cases)
  case (submitted req r')
  from submitted(4) show ?thesis
  proof (cases rule: submit_cases)
    case (committed df i u)
    have "log_ok x (submits x now (st_comments (d_store d)) req df i)"
      using submit_candidate committed(2,3) submitted(3) assms by (auto simp: daemon_ok_def requests_ok_def)
    with commit_durable committed(1,4) assms(1,4) durable_running [OF assms(4) committed(1)] show ?thesis
      by (fastforce simp: libs_ok_def submits_def)
  qed auto
next
  case (moderated ids a r')
  from moderated(3) show ?thesis
  proof (cases rule: moderate_cases)
    case (committed u)
    have "log_ok x (map (moderated ids a) (st_comments (d_store d)))"
      using log_ok_moderated assms(4) by (auto simp: daemon_ok_def)
    with commit_durable committed(1,4) assms(1,4) durable_running [OF assms(4) committed(1)] show ?thesis
      by (fastforce simp: libs_ok_def)
  qed auto
qed simp

lemma service_inv_init: "libs_ok x \<Longrightarrow> service_init x s \<Longrightarrow> service_ok x s"
  using open_store_Inr opened_daemon_ok by (fastforce simp: service_init_def service_ok_def libs_ok_def)

lemma service_inv_step:
  assumes "libs_ok x" "requests_ok j" "service_ok x s" "service_step x j s t"
  shows "service_ok x t"
  using assms(4)
proof (cases rule: service_step.cases)
  case (request now io side f d r d')
  with assms answer_daemon_ok show ?thesis by (auto simp: service_ok_def)
next
  case (stop d)
  with assms(3) show ?thesis by (auto simp: service_ok_def daemon_ok_def)
next
  case (start dk cs salt temps)
  have "daemon_ok x (started x salt (dk\<lparr>dk_temps := temps\<rparr>) cs)"
    by (rule opened_daemon_ok) (use start assms(1) in \<open>auto simp: started_def libs_ok_def\<close>)
  with start show ?thesis by (simp add: service_ok_def)
qed

lemma service_step_durable:
  assumes "libs_ok x" "requests_ok j" "service_ok x s" "service_step x j s t"
  shows "log_le (durable x s) (durable x t)"
  using assms(4)
proof (cases rule: service_step.cases)
  case (request now io side f d r d')
  with assms answer_durable show ?thesis by (auto simp: service_ok_def)
qed (auto simp: durable_def service_disk_def started_def)

text \<open>The machine with the hypotheses on the libraries as part of its start: then every state
  it reaches keeps the invariant, and the durable log only grows.\<close>

definition machine_init :: "externals \<Rightarrow> request_json \<Rightarrow> service \<Rightarrow> bool" where
  "machine_init x j s \<longleftrightarrow> libs_ok x \<and> requests_ok j \<and> service_init x s"

interpretation service: monotone_machine "machine_init x j" "service_step x j"
  "\<lambda>s. libs_ok x \<and> requests_ok j \<and> service_ok x s" "\<lambda>s t. log_le (durable x s) (durable x t)"
  for x j
proof unfold_locales
  show "machine_init x j s \<Longrightarrow> libs_ok x \<and> requests_ok j \<and> service_ok x s" for s
    using service_inv_init by (simp add: machine_init_def)
  show "libs_ok x \<and> requests_ok j \<and> service_ok x s \<Longrightarrow> service_step x j s t
      \<Longrightarrow> libs_ok x \<and> requests_ok j \<and> service_ok x t" for s t
    using service_inv_step by blast
  show "log_le (durable x s) (durable x s)" for s by simp
  show "log_le (durable x s) (durable x t) \<Longrightarrow> log_le (durable x t) (durable x u)
      \<Longrightarrow> log_le (durable x s) (durable x u)" for s t u
    by (rule log_le_trans)
  show "libs_ok x \<and> requests_ok j \<and> service_ok x s \<Longrightarrow> service_step x j s t
      \<Longrightarrow> log_le (durable x s) (durable x t)" for s t
    using service_step_durable by blast
qed

end
