(* ===== verification/Comment_Sample.thy ===== *)
theory Comment_Sample
  imports Comment_Service "HOL-Library.Code_Target_Nat"
begin

text \<open>
  A concrete library: a line format that reads back, a length in place of SHA-256 and seconds
  in decimal as time stamps.  It meets every hypothesis on \<open>externals\<close> and \<open>request_json\<close>, so
  the theorems that have these hypotheses speak of something.
\<close>

section \<open>Numbers in a line\<close>

definition put_nat :: "nat \<Rightarrow> nat list" where
  "put_nat n = map (\<lambda>d. d + 48) (digits 10 n)"

definition get_nat :: "nat list \<Rightarrow> nat" where
  "get_nat ds = digits_value 10 (map (\<lambda>c. c - 48) ds)"

definition put_list :: "nat list \<Rightarrow> nat list" where
  "put_list ns = join_with 44 (map put_nat ns)"

definition get_list :: "nat list \<Rightarrow> nat list" where
  "get_list s = (if s = [] then [] else map get_nat (split_on 44 s))"

definition put_lists :: "nat list list \<Rightarrow> nat list" where
  "put_lists nss = join_with 59 (map put_list nss)"

definition get_lists :: "nat list \<Rightarrow> nat list list" where
  "get_lists s = map get_list (split_on 59 s)"

lemma get_put_nat [simp]: "get_nat (put_nat n) = n"
  by (simp add: get_nat_def put_nat_def comp_def digits_value_digits)

lemma put_nat_chars: "c \<in> set (put_nat n) \<Longrightarrow> 48 \<le> c \<and> c \<le> 57"
  by (auto simp: put_nat_def dest!: digits_less [rotated])

lemma put_nat_not_Nil [simp]: "put_nat n \<noteq> []"
  by (simp add: put_nat_def)

lemma put_list_chars: "c \<in> set (put_list ns) \<Longrightarrow> 48 \<le> c \<and> c \<le> 57 \<or> c = 44"
  using set_join_with [of 44 "map put_nat ns"] put_nat_chars by (fastforce simp: put_list_def)

lemma put_list_Nil [simp]: "put_list ns = [] \<longleftrightarrow> ns = []"
  by (cases ns rule: remdups_adj.cases) (auto simp: put_list_def)

lemma get_put_list [simp]: "get_list (put_list ns) = ns"
proof (cases "ns = []")
  case False
  have "\<forall>w \<in> set (map put_nat ns). 44 \<notin> set w"
    using put_nat_chars by fastforce
  with split_join [of "map put_nat ns" 44] False have "split_on 44 (put_list ns) = map put_nat ns"
    by (simp add: put_list_def)
  with False show ?thesis by (simp add: get_list_def comp_def)
qed (simp add: get_list_def)

lemma put_lists_chars: "c \<in> set (put_lists nss) \<Longrightarrow> 48 \<le> c \<and> c \<le> 57 \<or> c = 44 \<or> c = 59"
  using set_join_with [of 59 "map put_list nss"] put_list_chars by (fastforce simp: put_lists_def)

lemma get_put_lists:
  assumes "nss \<noteq> []"
  shows "get_lists (put_lists nss) = nss"
proof -
  have "\<forall>w \<in> set (map put_list nss). 59 \<notin> set w"
    using put_list_chars by fastforce
  with split_join [of "map put_list nss" 59] assms have "split_on 59 (put_lists nss) = map put_list nss"
    by (simp add: put_lists_def)
  then show ?thesis by (simp add: get_lists_def comp_def)
qed

section \<open>Comments in a line\<close>

definition status_tally :: "status \<Rightarrow> nat list" where
  "status_tally s = (case s of Pending \<Rightarrow> [] | Approved \<Rightarrow> [1] | Deleted \<Rightarrow> [1, 1])"

definition tally_status :: "nat list \<Rightarrow> status" where
  "tally_status n = (case n of [] \<Rightarrow> Pending | [_] \<Rightarrow> Approved | _ \<Rightarrow> Deleted)"

lemma tally_status_tally [simp]: "tally_status (status_tally s) = s"
  by (cases s) (simp_all add: tally_status_def status_tally_def)

definition comment_fields :: "stored_comment \<Rightarrow> nat list list" where
  "comment_fields c =
     [[unat (sc_id c)], map of_char (sc_target c), sc_author c, sc_text c,
      (case sc_reply_to_id c of None \<Rightarrow> [] | Some i \<Rightarrow> [unat i]),
      map of_char (sc_ip_hash c), map of_char (sc_created_at c), status_tally (sc_status c)]"

fun comment_of_fields :: "nat list list \<Rightarrow> stored_comment option" where
  "comment_of_fields [[i], t, a, b, r, h, ca, s] =
     Some \<lparr>sc_id = of_nat i, sc_target = map char_of t, sc_author = a, sc_text = b,
           sc_reply_to_id = (case r of [] \<Rightarrow> None | p # _ \<Rightarrow> Some (of_nat p)),
           sc_ip_hash = map char_of h, sc_created_at = map char_of ca, sc_status = tally_status s\<rparr>"
| "comment_of_fields _ = None"

lemma comment_of_fields_fields: "comment_of_fields (comment_fields c) = Some c"
  by (cases c) (auto simp: comment_fields_def comp_def split: option.splits)

text \<open>Lists of numbers as a line.\<close>

definition fields_line :: "nat list list \<Rightarrow> bytes" where
  "fields_line nss = map of_nat (put_lists nss)"

lemma unat_fields_line: "map unat (fields_line nss) = put_lists nss"
  using put_lists_chars [of _ nss]
  by (fastforce simp: fields_line_def unat_of_nat comp_def intro!: map_idI)

lemma fields_line_chars: "b \<in> set (fields_line nss) \<Longrightarrow> b \<noteq> 10 \<and> b \<noteq> 13 \<and> unat b < 128"
proof -
  assume "b \<in> set (fields_line nss)"
  then obtain n where "n \<in> set (put_lists nss)" "b = of_nat n" by (auto simp: fields_line_def)
  with put_lists_chars have "n < 128" "n \<noteq> 10" "n \<noteq> 13" and b: "b = of_nat n" by fastforce+
  then have "unat b = n" by (simp add: unat_of_nat)
  with \<open>n < 128\<close> \<open>n \<noteq> 10\<close> \<open>n \<noteq> 13\<close> show ?thesis by auto
qed

definition line_of :: "stored_comment \<Rightarrow> bytes" where
  "line_of c = fields_line (comment_fields c)"

definition comment_of_line :: "bytes \<Rightarrow> stored_comment option" where
  "comment_of_line b =
     (case comment_of_fields (get_lists (map unat b)) of
        None \<Rightarrow> None
      | Some c \<Rightarrow> if stored_scalars c then Some c else None)"

lemma comment_of_line_of: "stored_scalars c \<Longrightarrow> comment_of_line (line_of c) = Some c"
proof -
  assume c: "stored_scalars c"
  have "comment_fields c \<noteq> []" by (simp add: comment_fields_def)
  with c show ?thesis
    by (simp add: comment_of_line_def line_of_def unat_fields_line get_put_lists comment_of_fields_fields)
qed

lemma line_of_not_Nil: "line_of c \<noteq> []"
  by (simp add: line_of_def fields_line_def put_lists_def comment_fields_def)

lemma utf8_ascii: "\<forall>b \<in> set bs. b < 128 \<Longrightarrow> utf8_decode bs = Some bs"
  by (induction bs) (simp_all add: utf8_decode.simps)

lemma from_utf8_ascii: "\<forall>b \<in> set bs. unat b < 128 \<Longrightarrow> from_utf8 bs \<noteq> None"
  using utf8_ascii [of "map unat bs"] by (simp add: from_utf8_def)

lemma fields_line_text:
  assumes "fields_line nss \<noteq> []"
  shows "10 \<notin> set (fields_line nss)" "last (fields_line nss) \<noteq> 13" "from_utf8 (fields_line nss) \<noteq> None"
  using assms fields_line_chars [of "last (fields_line nss)" nss] fields_line_chars [of _ nss] from_utf8_ascii by auto

section \<open>The library\<close>

definition checksum :: "bytes \<Rightarrow> string" where
  "checksum b =
     (let w = of_nat (length b) :: u16
      in replicate 60 CHR ''0'' @ map (\<lambda>k. digit_char (unat (take_bit 4 (drop_bit k w)))) [12, 8, 4, 0])"

definition seconds_text :: "int \<Rightarrow> string" where
  "seconds_text now = show_nat (nat (now div 1000000000))"

definition text_seconds :: "string \<Rightarrow> int option" where
  "text_seconds s =
     (if s \<noteq> [] \<and> list_all is_ascii_digit s
      then Some (int (digits_value 10 (map (\<lambda>c. of_char c - 48) s)) * 1000000000) else None)"

definition sample_libs :: externals where
  "sample_libs = \<lparr>x_sha256 = checksum, x_to_json = line_of, x_from_json = comment_of_line,
                  x_rfc3339_secs = seconds_text, x_parse_rfc3339 = text_seconds\<rparr>"

lemma digit_chars:
  "\<forall>n \<in> set [0..<16]. is_ascii_hexdigit (digit_char n)" "\<forall>n \<in> set [0..<10]. is_ascii_digit (digit_char n)"
  by code_simp+

lemma digit_char_hex: "n < 16 \<Longrightarrow> is_ascii_hexdigit (digit_char n)"
  using digit_chars(1) by simp

lemma checksum_ok: "length (checksum b) = 64 \<and> list_all is_ascii_hexdigit (checksum b)"
proof -
  have "unat (take_bit 4 w) < 16" for w :: u16
    using take_bit_nat_less_exp [of 4 "unat w"] by (simp add: unsigned_take_bit_eq)
  moreover have "is_ascii_hexdigit CHR ''0''" by code_simp
  ultimately show ?thesis
    by (simp add: checksum_def Let_def list_all_iff digit_char_hex)
qed

lemma text_seconds_text:
  assumes "0 \<le> now"
  shows "text_seconds (seconds_text now) = Some (now - now mod 1000000000)"
proof -
  let ?n = "nat (now div 1000000000)"
  have less: "d < 10" if "d \<in> set (digits 10 ?n)" for d
    using digits_less [of 10] that by simp
  have "is_ascii_digit (digit_char d)" if "d < 10" for d
    using digit_chars(2) that by simp
  with less have "list_all is_ascii_digit (show_nat ?n)"
    by (auto simp: show_nat_def list_all_iff)
  moreover have "map (\<lambda>c. of_char c - 48) (show_nat ?n) = digits 10 ?n"
    using less by (fastforce simp: show_nat_def comp_def intro!: map_idI)
  moreover have "show_nat ?n \<noteq> []" by (simp add: show_nat_def)
  ultimately have "text_seconds (seconds_text now) = Some (int ?n * 1000000000)"
    by (simp add: text_seconds_def seconds_text_def digits_value_digits)
  with assms show ?thesis
    by (simp add: minus_mod_eq_div_mult pos_imp_zdiv_nonneg_iff)
qed

lemma sample_libs_ok: "libs_ok sample_libs"
proof -
  have "last (line_of c) \<noteq> 13" "10 \<notin> set (line_of c)" "from_utf8 (line_of c) \<noteq> None" for c
    using fields_line_text [of "comment_fields c"] line_of_not_Nil [of c] unfolding line_of_def by blast+
  moreover have "comment_of_line l = Some c \<Longrightarrow> stored_scalars c" for l c
    by (auto simp: comment_of_line_def split: option.splits if_splits)
  ultimately have "json_ok sample_libs"
    using comment_of_line_of line_of_not_Nil by (simp add: json_ok_def sample_libs_def)
  moreover have "sha_ok sample_libs"
    using checksum_ok by (simp add: sha_ok_def sample_libs_def)
  moreover have "clock_ok sample_libs"
    using text_seconds_text by (simp add: clock_ok_def sample_libs_def clock_range_def)
  ultimately show ?thesis by (simp add: libs_ok_def)
qed

text \<open>Requests: the payload is the text of the comment, the list of ids, or nothing of interest.\<close>

definition sample_requests :: request_json where
  "sample_requests =
     \<lparr>j_public_query = (\<lambda>b. Inr \<lparr>pq_target = ''/notes/'', pq_after_number = None, pq_limit = None, pq_revision = None\<rparr>),
      j_submit = (\<lambda>b. case from_utf8 b of None \<Rightarrow> Inl ''invalid''
         | Some line \<Rightarrow> Inr \<lparr>sr_target = ''/notes/'', sr_line = line, sr_ip = ''192.0.2.1''\<rparr>),
      j_page = (\<lambda>b. Inr \<lparr>pg_after_id = 0, pg_limit = None, pg_revision = None\<rparr>),
      j_moderate = (\<lambda>b. Inr (map ucast b)),
      j_error_text = (\<lambda>e. ''error'')\<rparr>"

lemma sample_requests_ok: "requests_ok sample_requests"
  by (auto simp: requests_ok_def sample_requests_def from_utf8_def dest: utf8_decode_scalar split: option.splits)

section \<open>A directory and a run\<close>

definition sample_dir :: "bytes \<Rightarrow> store_dir" where
  "sample_dir raw =
     \<lparr>sd_meta = Some (root_meta 0 0x1C0 True),
      sd_files = [(MARKER_FILE, root_meta 0 0x180 False, MARKER), (DATA_FILE, root_meta 0 0x180 False, raw),
                  (SALT_FILE, root_meta 0 0x180 False, replicate 32 1)]\<rparr>"

definition sample_daemon :: daemon where
  "sample_daemon = started sample_libs (replicate 32 1) \<lparr>dk_data = [], dk_temps = []\<rparr> []"

definition sample_frame :: "u8 \<Rightarrow> string \<Rightarrow> frame" where
  "sample_frame kind s = \<lparr>fr_kind = kind, fr_payload = str_bytes s\<rparr>"

lemma open_sample_dir: "open_store sample_libs (sample_dir []) = Inr (d_store sample_daemon)"
  by code_simp

lemma sample_init: "machine_init sample_libs sample_requests (Running sample_daemon)"
proof -
  have "service_init sample_libs (Running sample_daemon)"
    unfolding service_init_def
    by (intro exI [of _ "sample_dir []"] exI [of _ "d_store sample_daemon"] exI [of _ "[]"] conjI open_sample_dir)
      (simp add: sample_daemon_def started_def sample_dir_def file_bytes_def DATA_FILE_def MARKER_FILE_def)
  then show ?thesis
    by (simp add: machine_init_def sample_libs_ok sample_requests_ok)
qed

lemma sample_reach:
  "reach (machine_init sample_libs sample_requests) (service_step sample_libs sample_requests) (Running sample_daemon)"
  by (rule reach_init) (rule sample_init)

text \<open>The daemon after two comments, the first approved.\<close>

definition sample_now :: int where "sample_now = 1000 * 1000000000"

definition sample_submit :: "string \<Rightarrow> daemon \<Rightarrow> daemon" where
  "sample_submit s d =
     snd (answer sample_libs sample_requests sample_now io_fine Private (sample_frame PRIVATE_SUBMIT s) d)"

definition sample_approve :: "bytes \<Rightarrow> daemon \<Rightarrow> daemon" where
  "sample_approve ids d =
     snd (answer sample_libs sample_requests sample_now io_fine Private \<lparr>fr_kind = PRIVATE_APPROVE, fr_payload = ids\<rparr> d)"

definition sample_later :: daemon where
  "sample_later = sample_submit ''#1: bo'' (sample_approve [1] (sample_submit ''al: hi'' sample_daemon))"

lemma sample_now_range [simp]: "clock_range sample_now"
  by (simp add: sample_now_def clock_range_def)

lemma sample_step:
  "service_step sample_libs sample_requests (Running d) (Running (sample_submit s d))"
  "service_step sample_libs sample_requests (Running d) (Running (sample_approve ids d))"
  unfolding sample_submit_def sample_approve_def
  by (rule service_step.request [OF sample_now_range prod.collapse [symmetric]])+

lemma sample_later_reach:
  "steps (service_step sample_libs sample_requests) (Running sample_daemon) (Running sample_later)"
proof -
  let ?step = "service_step sample_libs sample_requests"
  let ?d1 = "sample_submit ''al: hi'' sample_daemon"
  have "?step\<^sup>*\<^sup>* (Running sample_daemon) (Running ?d1)"
    by (rule r_into_rtranclp) (rule sample_step)
  then have "?step\<^sup>*\<^sup>* (Running sample_daemon) (Running (sample_approve [1] ?d1))"
    by (rule rtranclp.rtrancl_into_rtrancl) (rule sample_step)
  then show ?thesis
    unfolding steps_def sample_later_def by (rule rtranclp.rtrancl_into_rtrancl) (rule sample_step)
qed

lemma sample_later_comments:
  "map (\<lambda>c. (sc_id c, sc_status c, sc_reply_to_id c)) (st_comments (d_store sample_later))
    = [(1, Approved, None), (2, Pending, Some 1)]"
  by code_simp

end
