(* ===== verification/Comment_Paging.thy ===== *)
theory Comment_Paging
  imports Comment_Service
begin

text \<open>
  The listings of commentd (approved or pending comments, in pages of a revision) as a provider of
  \<open>paged_listing\<close>, and the client that collects one of them while the store may change.
\<close>

section \<open>The provider\<close>

definition listing :: "bool \<Rightarrow> store \<Rightarrow> comment list" where
  "listing pending s = map view (filter (\<lambda>c. sc_status c = (if pending then Pending else Approved)) (st_comments s))"

definition fetch_page ::
  "bool \<Rightarrow> store \<Rightarrow> u64 \<Rightarrow> string option \<Rightarrow> (string \<times> comment list \<times> u64 option) option"
where
  "fetch_page pending s after rq =
     (let r = page s \<lparr>pg_after_id = after, pg_limit = Some MAX_LIMIT, pg_revision = rq\<rparr> pending
      in if pp_ok r
         then Some (pp_revision r, pp_comments r, if pp_has_more r then pp_next_after_id r else None)
         else None)"

definition ids_ok :: "store \<Rightarrow> bool" where
  "ids_ok s \<longleftrightarrow> sorted_wrt (<) (0 # map sc_id (st_comments s))"

lemma MAX_LIMIT_ok: "page_limit (Some MAX_LIMIT) = Inr 100"
  by (simp add: page_limit_def MAX_LIMIT_def)

lemma listing_after:
  "map view (filter (\<lambda>c. sc_status c = (if pending then Pending else Approved) \<and> after < sc_id c) (st_comments s))
    = filter (\<lambda>c. after < cm_id c) (listing pending s)"
  by (simp add: listing_def filter_map comp_def conj_commute)

lemma page_fresh:
  assumes "rq = Some (st_revision s) \<or> rq = None \<and> after = 0"
  shows "page s \<lparr>pg_after_id = after, pg_limit = Some MAX_LIMIT, pg_revision = rq\<rparr> pending =
    (let found = filter (\<lambda>c. after < cm_id c) (listing pending s); more = (drop 100 found \<noteq> [])
     in \<lparr>pp_ok = True, pp_revision = st_revision s, pp_comments = take 100 found,
         pp_next_after_id = (if more \<and> take 100 found \<noteq> [] then Some (cm_id (last (take 100 found))) else None),
         pp_has_more = more, pp_error = None\<rparr>)"
  using assms by (auto simp: page_def MAX_LIMIT_ok Let_def listing_after [symmetric])

lemma page_stale:
  assumes "r \<noteq> st_revision s"
  shows "page s \<lparr>pg_after_id = after, pg_limit = Some MAX_LIMIT, pg_revision = Some r\<rparr> pending
    = page_error s ''stale_revision''"
  using assms by (simp add: page_def MAX_LIMIT_ok)

lemma last_take_nth: "n < length xs \<Longrightarrow> 0 < n \<Longrightarrow> last (take n xs) = xs ! (n - 1)"
  by (subst last_conv_nth) auto

interpretation pages: paged_listing "listing pending" cm_id st_revision "fetch_page pending" 100 ids_ok
  for pending
proof unfold_locales
  show "ids_ok s \<Longrightarrow> sorted_wrt (<) (map cm_id (listing pending s))" for s
    by (auto simp: ids_ok_def listing_def comp_def sorted_wrt_map intro: sorted_wrt_filter)
  show "ids_ok s \<Longrightarrow> c \<in> set (listing pending s) \<Longrightarrow> 0 < cm_id c" for s c
    by (auto simp: ids_ok_def listing_def)
  show "r \<noteq> st_revision s \<Longrightarrow> fetch_page pending s after (Some r) = None" for r s after
    by (simp add: fetch_page_def page_stale page_error_def)
  show "fetch_page pending s after rq =
      (let rest = filter (\<lambda>c. after < cm_id c) (listing pending s)
       in Some (st_revision s, take 100 rest, if length rest \<le> 100 then None else Some (cm_id (rest ! (100 - 1)))))"
    if "rq = Some (st_revision s) \<or> rq = None \<and> after = 0" for s after rq
  proof -
    let ?found = "filter (\<lambda>c. after < cm_id c) (listing pending s)"
    have "last (take 100 ?found) = ?found ! (100 - 1)" "?found \<noteq> []" if "100 < length ?found"
      using that last_take_nth [of 100 ?found] by (simp, force)
    then show ?thesis
      using that by (auto simp: fetch_page_def page_fresh Let_def not_le)
  qed
qed simp

text \<open>One answer of the server in the terms of \<open>fetch_page\<close>.\<close>

lemma page_fetch:
  assumes "rq = Some (st_revision s) \<or> rq = None \<and> after = 0"
    "p = page s \<lparr>pg_after_id = after, pg_limit = Some MAX_LIMIT, pg_revision = rq\<rparr> pending"
  obtains more where "fetch_page pending s after rq = Some (st_revision s, pp_comments p, more)"
    "p = \<lparr>pp_ok = True, pp_revision = st_revision s, pp_comments = pp_comments p, pp_next_after_id = more,
          pp_has_more = (more \<noteq> None), pp_error = None\<rparr>"
proof -
  let ?found = "filter (\<lambda>c. after < cm_id c) (listing pending s)"
  have "?found \<noteq> []" if "drop 100 ?found \<noteq> []" using that by force
  with that [of "if drop 100 ?found \<noteq> [] then Some (cm_id (last (take 100 ?found))) else None"] assms(1)
  show thesis
    unfolding assms(2) fetch_page_def page_fresh [OF assms(1)] Let_def by simp
qed

section \<open>The client\<close>

definition serve_pages :: "bool \<Rightarrow> store \<Rightarrow> page_service" where
  "serve_pages pending s = (\<lambda>req. Inr (page s req pending))"

lemma all_loop_serve:
  "all_loop rounds out after rq (serve_pages pending s # later) =
     (let p = page s \<lparr>pg_after_id = after, pg_limit = Some MAX_LIMIT, pg_revision = rq\<rparr> pending
      in if \<not> pp_ok p
         then if pp_error p = Some ''stale_revision''
              then (if rounds = 0
                    then Some (Inl ''commentd data continuously changing, unable to acquire consistent snapshot'')
                    else all_loop (rounds - 1) [] 0 None later)
              else Some (Inl (''commentd query failed: ''
                     @ (case pp_error p of None \<Rightarrow> ''unknown error'' | Some e \<Rightarrow> e)))
         else if \<not> pp_has_more p then Some (Inr (out @ pp_comments p))
         else case pp_next_after_id p of
             None \<Rightarrow> Some (Inl ''commentd has_more missing next_after_id'')
           | Some k \<Rightarrow> all_loop rounds (out @ pp_comments p) k
               (case rq of None \<Rightarrow> Some (pp_revision p) | Some r \<Rightarrow> Some r) later)"
  by (simp only: all_loop.simps serve_pages_def sum.case Let_def)

text \<open>The state of a walk: at its start, or in the middle of the listing of one revision.\<close>

definition walk_ok ::
  "bool \<Rightarrow> store set \<Rightarrow> comment list \<Rightarrow> u64 \<Rightarrow> string option \<Rightarrow> bool"
where
  "walk_ok pending S out after rq \<longleftrightarrow>
     out = [] \<and> after = 0 \<and> rq = None
   \<or> (\<exists>s \<in> S. \<exists>rest. rq = Some (st_revision s) \<and> listing pending s = out @ rest \<and> out \<noteq> []
        \<and> after = cm_id (last out))"

declare all_loop.simps(2) [simp del]

lemma walk_start: "walk_ok pending S [] 0 None"
  by (simp add: walk_ok_def)

definition collision_free :: "store set \<Rightarrow> bool" where
  "collision_free S \<longleftrightarrow> (\<forall>s \<in> S. \<forall>t \<in> S. st_revision s = st_revision t \<longrightarrow> st_comments s = st_comments t)"

lemma listing_cong: "st_comments s = st_comments t \<Longrightarrow> listing pending s = listing pending t"
  by (simp add: listing_def)

lemma walk_request:
  assumes "walk_ok pending S out after rq" "collision_free S" "s \<in> S" "rq = Some (st_revision s) \<or> rq = None"
  obtains rest where "listing pending s = out @ rest" "out \<noteq> [] \<longrightarrow> after = cm_id (last out)"
    "out = [] \<longrightarrow> after = 0" "rq = Some (st_revision s) \<or> rq = None \<and> after = 0"
  using assms(1) unfolding walk_ok_def
proof
  assume "out = [] \<and> after = 0 \<and> rq = None"
  with that show thesis by simp
next
  assume "\<exists>t \<in> S. \<exists>rest. rq = Some (st_revision t) \<and> listing pending t = out @ rest \<and> out \<noteq> []
      \<and> after = cm_id (last out)"
  then obtain t rest where t: "t \<in> S" "rq = Some (st_revision t)" "listing pending t = out @ rest" "out \<noteq> []"
    "after = cm_id (last out)" by blast
  with assms(4) have same: "st_revision s = st_revision t" by simp
  with assms(2,3) t(1) have "st_comments s = st_comments t" unfolding collision_free_def by blast
  from that [of rest] listing_cong [OF this, of pending] t same show thesis by simp
qed

lemma all_loop_result:
  assumes "walk_ok pending S out after rq" "collision_free S" "\<forall>s \<in> S. ids_ok s" "set ss \<subseteq> S"
    "all_loop rounds out after rq (map (serve_pages pending) ss) = Some r"
  shows "r = Inl ''commentd data continuously changing, unable to acquire consistent snapshot''
    \<or> (\<exists>s \<in> S. r = Inr (listing pending s))"
  using assms(1,4,5)
proof (induction ss arbitrary: rounds out after rq)
  case (Cons s ss)
  then have s: "s \<in> S" by simp
  show ?case
  proof (cases "rq = Some (st_revision s) \<or> rq = None")
    case False
    then obtain q where "rq = Some q" "q \<noteq> st_revision s" by auto
    with page_stale [of q s after pending] Cons.prems(3)
    have "(if rounds = 0 then Some (Inl ''commentd data continuously changing, unable to acquire consistent snapshot'')
       else all_loop (rounds - 1) [] 0 None (map (serve_pages pending) ss)) = Some r"
      by (simp add: all_loop_serve page_error_def)
    with Cons.IH [OF walk_start, of "rounds - 1"] Cons.prems(2) show ?thesis
      by (cases "rounds = 0") auto
  next
    case True
    from walk_request [OF Cons.prems(1) assms(2) s True] obtain rest where
      rest: "listing pending s = out @ rest" "out \<noteq> [] \<longrightarrow> after = cm_id (last out)" "out = [] \<longrightarrow> after = 0"
        "rq = Some (st_revision s) \<or> rq = None \<and> after = 0" .
    define p where "p = page s \<lparr>pg_after_id = after, pg_limit = Some MAX_LIMIT, pg_revision = rq\<rparr> pending"
    from page_fetch [OF rest(4) p_def] obtain more where
      fetch: "fetch_page pending s after rq = Some (st_revision s, pp_comments p, more)"
      and p: "p = \<lparr>pp_ok = True, pp_revision = st_revision s, pp_comments = pp_comments p, pp_next_after_id = more,
          pp_has_more = (more \<noteq> None), pp_error = None\<rparr>" by blast
    note cont = pages.fetch_continues [OF _ rest fetch]
    have ok: "ids_ok s" using assms(3) s by blast
    have pok: "pp_ok p" "pp_revision p = st_revision s" "pp_next_after_id p = more" "pp_has_more p = (more \<noteq> None)"
      by (subst p; simp)+
    have rq: "(case rq of None \<Rightarrow> Some (pp_revision p) | Some r \<Rightarrow> Some r) = Some (st_revision s)"
        using rest(4) pok by auto
    show ?thesis
    proof (cases more)
      case None
      with Cons.prems(3) pok have "r = Inr (out @ pp_comments p)"
        by (simp add: all_loop_serve p_def [symmetric])
      with cont(3) [OF ok None] s show ?thesis by metis
    next
      case (Some k)
      with Cons.prems(3) pok rq have loop: "all_loop rounds (out @ pp_comments p) k (Some (st_revision s))
          (map (serve_pages pending) ss) = Some r"
        by (simp add: all_loop_serve p_def [symmetric])
      have "walk_ok pending S (out @ pp_comments p) k (Some (st_revision s))"
        using cont(2) [OF ok] cont(4) [OF ok Some] s unfolding walk_ok_def by blast
      from Cons.IH [OF this _ loop] Cons.prems(2) show ?thesis by simp
    qed
  qed
qed simp

text \<open>While the store does not change, one round is enough.\<close>

lemma all_loop_quiet:
  assumes "ids_ok s" "listing pending s = out @ rest" "out \<noteq> [] \<longrightarrow> after = cm_id (last out)"
    "out = [] \<longrightarrow> after = 0" "rq = Some (st_revision s) \<or> rq = None \<and> after = 0"
    "length rest \<le> 100 * n" "0 < n"
  shows "all_loop rounds out after rq (replicate n (serve_pages pending s)) = Some (Inr (listing pending s))"
  using assms(2-7)
proof (induction n arbitrary: out rest after rq)
  case (Suc n)
  define p where "p = page s \<lparr>pg_after_id = after, pg_limit = Some MAX_LIMIT, pg_revision = rq\<rparr> pending"
  from page_fetch [OF Suc.prems(4) p_def] obtain more where
    fetch: "fetch_page pending s after rq = Some (st_revision s, pp_comments p, more)"
    and p: "p = \<lparr>pp_ok = True, pp_revision = st_revision s, pp_comments = pp_comments p, pp_next_after_id = more,
        pp_has_more = (more \<noteq> None), pp_error = None\<rparr>" by blast
  note cont = pages.fetch_continues [OF assms(1) Suc.prems(1-4) fetch]
  have pok: "pp_ok p" "pp_revision p = st_revision s" "pp_next_after_id p = more" "pp_has_more p = (more \<noteq> None)"
    by (subst p; simp)+
  have rq: "(case rq of None \<Rightarrow> Some (pp_revision p) | Some r \<Rightarrow> Some r) = Some (st_revision s)"
    using Suc.prems(4) pok by auto
  show ?case
  proof (cases more)
    case None
    with pok cont(3) show ?thesis by (simp add: all_loop_serve p_def [symmetric])
  next
    case (Some k)
    with cont(2) have "drop 100 rest \<noteq> []"
    proof -
      have "fetch_page pending s after rq = Some (st_revision s, take 100 rest,
          if length rest \<le> 100 then None else Some (cm_id (rest ! (100 - 1))))"
        using pages.fetch_fresh [OF assms(1) Suc.prems(4)] pages.rest_suffix [OF assms(1) Suc.prems(1-3)]
        by (simp add: Let_def)
      with fetch Some show ?thesis by (auto split: if_splits)
    qed
    with Suc.prems(5) have "0 < n" by (cases n) auto
    with Suc.IH [OF cont(2), of k "Some (st_revision s)"] cont(4) [OF Some] Suc.prems(5)
    have "all_loop rounds (out @ pp_comments p) k (Some (st_revision s)) (replicate n (serve_pages pending s))
        = Some (Inr (listing pending s))" by auto
    with Some pok rq show ?thesis by (simp add: all_loop_serve p_def [symmetric])
  qed
qed simp

end
