(* ===== verification/Comment_Answers.thy ===== *)
theory Comment_Answers
  imports Comment_Service
begin

text \<open>
  What an answer of commentd says: a submission reported as accepted, a moderation, a page of the
  public view.  The properties of the service rest on these lemmas.
\<close>

section \<open>Submissions\<close>

lemma submit_checks_Inr:
  assumes "and_then (submit_parse s req) (submit_limits x now s req) = Inr df"
  shows "submit_parse s req = Inr (df_author df, df_text df, df_reply_to_id df)"
    "df_ip_hash df = hash_ip x (st_salt s) (sr_ip req)"
    "length (filter (\<lambda>c. sc_ip_hash c = df_ip_hash df \<and> recent x now c 3600) (st_comments s)) < 10"
    "\<not> (\<exists>c \<in> set (st_comments s). sc_ip_hash c = df_ip_hash df \<and> sc_target c = sr_target req
       \<and> sc_text c = df_text df \<and> sc_reply_to_id c = df_reply_to_id df \<and> recent x now c 300)"
proof -
  from assms obtain p where p: "submit_parse s req = Inr p" "submit_limits x now s req p = Inr df"
    by (auto simp: result_simps)
  obtain a b r where "p = (a, b, r)" by (cases p) auto
  with p show "submit_parse s req = Inr (df_author df, df_text df, df_reply_to_id df)"
    "df_ip_hash df = hash_ip x (st_salt s) (sr_ip req)"
    "length (filter (\<lambda>c. sc_ip_hash c = df_ip_hash df \<and> recent x now c 3600) (st_comments s)) < 10"
    "\<not> (\<exists>c \<in> set (st_comments s). sc_ip_hash c = df_ip_hash df \<and> sc_target c = sr_target req
       \<and> sc_text c = df_text df \<and> sc_reply_to_id c = df_reply_to_id df \<and> recent x now c 300)"
    by (auto simp: submit_limits_def Let_def list_ex_iff split: if_splits)
qed

lemma reject_not_ok [simp]: "\<not> sp_ok (reject msg)" "\<not> sp_ok (submit_failed e)"
  by (simp_all add: reject_def submit_failed_def)

text \<open>A submission that is reported as accepted has been committed.\<close>

lemma submit_accepted:
  assumes "submit x now io d req = (Inr resp, d')" "sp_ok resp"
  obtains df i where "\<not> st_poisoned (d_store d)"
    "and_then (submit_parse (d_store d) req) (submit_limits x now (d_store d) req) = Inr df"
    "next_id (st_comments (d_store d)) = Some i" "sp_id resp = Some i"
    "commit x io d (submits x now (st_comments (d_store d)) req df i) = (Inr (), d')"
  using assms(1)
proof (cases rule: submit_cases)
  case (rejected msg)
  with assms(2) show ?thesis by simp
next
  case (committed df i u)
  with that [of df i] show ?thesis by (auto split: sum.splits)
qed simp_all

lemma commit_comments:
  assumes "commit x io d cs = (Inr (), d')"
  shows "st_comments (d_store d') = cs" "st_salt (d_store d') = st_salt (d_store d)"
    "dk_data (d_disk d') = encode_log x cs" "st_poisoned (d_store d') = st_poisoned (d_store d)"
  using assms by (auto elim: commit_cases)

lemma answer_submit:
  assumes "answer x j now io side f d = (R_submit resp, d')"
  shows "side = Private \<and> fr_kind f = PRIVATE_SUBMIT \<and> (\<exists>req r. j_submit j (fr_payload f) = Inr req
    \<and> submit x now io d req = (r, d')
    \<and> resp = (case r of Inr a \<Rightarrow> a | Inl e \<Rightarrow> submit_failed (j_error_text j e)))"
proof (cases "side = Private \<and> fr_kind f = PRIVATE_SUBMIT")
  case False
  with assms show ?thesis
    by (auto simp: answer_def Let_def invalid_json_def split: side.splits if_splits sum.splits prod.splits)
next
  case True
  then show ?thesis
  proof (cases "j_submit j (fr_payload f)")
    case (Inl e)
    with True assms show ?thesis by (simp add: answer_def frame_parse_def invalid_json_def)
  next
    case (Inr req)
    obtain r d'' where s: "submit x now io d req = (r, d'')" by fastforce
    with True assms Inr show ?thesis
      by (cases r) (simp_all add: answer_def frame_parse_def)
  qed
qed

lemma answered_submission:
  assumes "answer x j now io side f d = (R_submit resp, d')" "sp_ok resp"
  obtains req df i where "j_submit j (fr_payload f) = Inr req" "\<not> st_poisoned (d_store d)"
    "and_then (submit_parse (d_store d) req) (submit_limits x now (d_store d) req) = Inr df"
    "next_id (st_comments (d_store d)) = Some i" "sp_id resp = Some i"
    "commit x io d (submits x now (st_comments (d_store d)) req df i) = (Inr (), d')"
proof -
  from answer_submit [OF assms(1)] obtain req r where r: "j_submit j (fr_payload f) = Inr req"
    "submit x now io d req = (r, d')" "resp = (case r of Inr a \<Rightarrow> a | Inl e \<Rightarrow> submit_failed (j_error_text j e))"
    by blast
  with assms(2) have "submit x now io d req = (Inr resp, d')" by (cases r) auto
  from submit_accepted [OF this assms(2)] that r(1) show thesis by blast
qed

lemma evolved_fields:
  assumes "evolved c e"
  shows "sc_id e = sc_id c" "sc_target e = sc_target c" "sc_author e = sc_author c" "sc_text e = sc_text c"
    "sc_reply_to_id e = sc_reply_to_id c" "sc_ip_hash e = sc_ip_hash c" "sc_created_at e = sc_created_at c"
proof -
  obtain s where "e = c\<lparr>sc_status := s\<rparr>" using assms unfolding evolved_def by blast
  then show "sc_id e = sc_id c" "sc_target e = sc_target c" "sc_author e = sc_author c" "sc_text e = sc_text c"
    "sc_reply_to_id e = sc_reply_to_id c" "sc_ip_hash e = sc_ip_hash c" "sc_created_at e = sc_created_at c"
    by simp_all
qed

section \<open>Moderation\<close>

lemma moderate_answered:
  assumes "moderate x io d ids a = (Inr resp, d')" "mr_ok resp"
  shows "st_comments (d_store d') = map (moderated ids a) (st_comments (d_store d))
    \<and> mr_changed resp = length (pending_ids ids (st_comments (d_store d)))"
  using assms(1)
proof (cases rule: moderate_cases)
  case no_ids
  with assms(2) show ?thesis by simp
next
  case unchanged
  have "map (moderated ids a) (st_comments (d_store d)) = st_comments (d_store d)"
    using unchanged(3) by (auto simp: pending_ids_def filter_empty_conv moderated_def intro!: map_idI)
  with unchanged show ?thesis by simp
next
  case (committed u)
  then have "u = Inr ()" by (cases u) auto
  with committed commit_comments(1) show ?thesis by simp
qed simp_all

lemma pending_ids_moderated: "pending_ids ids (map (moderated ids a) cs) = []"
  by (auto simp: pending_ids_def filter_empty_conv moderated_def)

section \<open>The public view\<close>

text \<open>What a reader of a target may see: its approved comments under their public numbers.\<close>

definition public_list :: "store \<Rightarrow> string \<Rightarrow> visible_comment list" where
  "public_list s t = shown (map view (approved t (st_comments s)))"

lemma length_approved: "length (approved t cs) \<le> length cs"
  by (simp add: approved_def)

lemma public_list_visible:
  assumes "log_ok x (st_comments s)" "length (st_comments s) < 2 ^ 64"
  shows "visible_comments (map view (filter (\<lambda>c. sc_status c = Approved \<and> sc_target c = t) (st_comments s)))
    = Inr (public_list s t)"
proof -
  have "visible_ok (map view (approved t (st_comments s)))"
    using approved_visible_ok assms(1) by (auto simp: log_ok_def)
  moreover have "length (map view (approved t (st_comments s))) < 2 ^ 64"
    using length_approved [of t "st_comments s"] assms(2) by simp
  ultimately show ?thesis
    unfolding public_list_def approved_def [symmetric] by (rule visible_ok_shown)
qed

lemma public_list_number:
  assumes "i < length (public_list s t)"
  shows "vc_number (public_list s t ! i) = of_nat (Suc i)"
  using assms shown_number [of "map view (approved t (st_comments s))" t i]
  by (auto simp: public_list_def approved_def)

text \<open>The page of a query that passes the checks, as slices of the list.\<close>

definition public_page :: "store \<Rightarrow> public_query \<Rightarrow> nat \<Rightarrow> visible_comment list" where
  "public_page s req limit =
     (case pq_after_number req of
        None \<Rightarrow> drop (length (public_list s (pq_target req)) - limit) (public_list s (pq_target req))
      | Some n \<Rightarrow> take limit (drop (unat n) (public_list s (pq_target req))))"

lemma filter_numbers:
  assumes "\<And>i. i < length vs \<Longrightarrow> vc_number (vs ! i) = of_nat (Suc i)" "length vs < 2 ^ 64"
  shows "filter (\<lambda>c. n < vc_number c) vs = drop (unat n) vs"
proof -
  have num: "n < vc_number (vs ! i) \<longleftrightarrow> unat n \<le> i" if "i < length vs" for i
    using assms(1) [OF that] assms(2) that
    by (simp add: word_less_nat_alt unat_of_nat take_bit_nat_eq_self less_Suc_eq_le del: of_nat_Suc)
  have "filter (\<lambda>c. n < vc_number c) (take (unat n) vs) = []"
    using num by (auto simp: filter_empty_conv in_set_conv_nth)
  moreover have "filter (\<lambda>c. n < vc_number c) (drop (unat n) vs) = drop (unat n) vs"
    using num by (auto simp: filter_id_conv in_set_conv_nth)
  ultimately show ?thesis
    by (metis append_Nil append_take_drop_id filter_append)
qed

lemma public_query_page:
  assumes "log_ok x (st_comments s)" "length (st_comments s) < 2 ^ 64" "query_guard s req = Inr limit"
  shows "pr_ok (public_query s req)" "pr_comments (public_query s req) = public_page s req limit"
    "pr_total (public_query s req) = length (public_list s (pq_target req))"
    "pr_revision (public_query s req) = st_revision s"
proof -
  let ?vs = "public_list s (pq_target req)"
  have len: "length ?vs < 2 ^ 64"
    using length_approved [of "pq_target req" "st_comments s"] assms(2) by (simp add: public_list_def)
  have after: "filter (\<lambda>c. n < vc_number c) ?vs = drop (unat n) ?vs" for n
    by (rule filter_numbers) (use len public_list_number in auto)
  note eq = public_query_def public_list_visible [OF assms(1,2)] assms(3) public_page_def
  show "pr_ok (public_query s req)" "pr_comments (public_query s req) = public_page s req limit"
    "pr_total (public_query s req) = length ?vs" "pr_revision (public_query s req) = st_revision s"
    by (auto simp: eq after latest_comments_def comments_after_def Let_def split: option.split)
qed

lemma public_query_refused:
  "query_guard s req = Inl e \<Longrightarrow> public_query s req = query_error s e"
  by (simp add: public_query_def)

lemma shown_member:
  assumes "v \<in> set (shown cs)"
  obtains c where "c \<in> set cs" "vc_target v = cm_target c" "vc_author v = cm_author c" "vc_text v = cm_text c"
    "vc_created_at v = cm_created_at c"
proof -
  from assms obtain i where "i < length cs" "v = shown_at cs i" by (auto simp: shown_def)
  with that [of "cs ! i"] show thesis by (simp add: shown_at_def Let_def)
qed

lemma public_list_member:
  assumes "v \<in> set (public_list s t)"
  obtains c where "c \<in> set (st_comments s)" "sc_status c = Approved" "sc_target c = t" "vc_target v = t"
    "vc_author v = sc_author c" "vc_text v = sc_text c" "vc_created_at v = sc_created_at c"
  using assms unfolding public_list_def by (rule shown_member) (auto simp: approved_def)

lemma public_page_subset: "set (public_page s req limit) \<subseteq> set (public_list s (pq_target req))"
  by (auto simp: public_page_def dest: in_set_takeD in_set_dropD split: option.splits)

lemma resolve_reply_position:
  assumes "length cs < 2 ^ 64"
  shows "resolve_reply_id cs t n = (if 0 < n \<and> unat n \<le> length (approved t cs)
    then Some (sc_id (approved t cs ! (unat n - 1))) else None)"
proof -
  have "length (approved t cs) < 2 ^ 64" using length_approved [of t cs] assms by simp
  with resolve_loop_nth [of 0 "approved t cs" n] show ?thesis
    by (simp add: resolve_reply_id_def approved_def [symmetric] word_less_nat_alt)
qed

lemma number_of_position: "k < 2 ^ 64 - 1 \<Longrightarrow> unat (of_nat (Suc k) :: u64) = Suc k"
  by (simp add: unat_of_nat take_bit_nat_eq_self del: of_nat_Suc)

lemma resolve_public_number:
  assumes "length (st_comments s) < 2 ^ 64" "k < length (approved t (st_comments s))"
  shows "resolve_reply_id (st_comments s) t (vc_number (public_list s t ! k)) = Some (sc_id (approved t (st_comments s) ! k))"
proof -
  have "length (approved t (st_comments s)) = length (public_list s t)" by (simp add: public_list_def)
  then have num: "vc_number (public_list s t ! k) = of_nat (Suc k)"
    using public_list_number assms(2) by simp
  have "unat (of_nat (Suc k) :: u64) = Suc k"
    using number_of_position length_approved [of t "st_comments s"] assms by simp
  with assms(2) show ?thesis
    unfolding num resolve_reply_position [OF assms(1)] by (simp add: word_less_nat_alt del: of_nat_Suc)
qed

lemma public_list_text:
  "k < length (approved t (st_comments s)) \<Longrightarrow> vc_text (public_list s t ! k) = sc_text (approved t (st_comments s) ! k)"
  by (simp add: public_list_def shown_def shown_at_def Let_def)

lemma resolve_only_public:
  assumes "length (st_comments s) < 2 ^ 64" "resolve_reply_id (st_comments s) t n = Some i"
  shows "\<exists>k < length (approved t (st_comments s)). vc_number (public_list s t ! k) = n
    \<and> i = sc_id (approved t (st_comments s) ! k)"
proof -
  let ?k = "unat n - 1"
  have n: "0 < n" "unat n \<le> length (approved t (st_comments s))" and i: "i = sc_id (approved t (st_comments s) ! ?k)"
    using assms(2) unfolding resolve_reply_position [OF assms(1)] by (auto split: if_splits)
  then have k: "Suc ?k = unat n" by (simp add: word_less_nat_alt)
  have "of_nat (unat n) = n" by simp
  moreover have "length (approved t (st_comments s)) = length (public_list s t)" by (simp add: public_list_def)
  ultimately have "vc_number (public_list s t ! ?k) = n"
    using public_list_number [of ?k s t] n(2) k by simp
  with i n(2) k show ?thesis by (intro exI [of _ ?k]) simp
qed

text \<open>Queries do not look at the mark of failure.\<close>

lemma failed_parts:
  "query_error (s\<lparr>st_poisoned := b\<rparr>) = query_error s" "query_guard (s\<lparr>st_poisoned := b\<rparr>) = query_guard s"
  "latest_comments (s\<lparr>st_poisoned := b\<rparr>) = latest_comments s"
  "comments_after (s\<lparr>st_poisoned := b\<rparr>) = comments_after s" "page_error (s\<lparr>st_poisoned := b\<rparr>) = page_error s"
  by (auto simp: fun_eq_iff query_error_def query_guard_def latest_comments_def comments_after_def page_error_def
      Let_def cong: if_cong)

lemma failed_queries:
  "public_query (s\<lparr>st_poisoned := b\<rparr>) q = public_query s q" "page (s\<lparr>st_poisoned := b\<rparr>) r p = page s r p"
  by (auto simp: public_query_def page_def failed_parts Let_def cong: if_cong split: sum.split option.split)

section \<open>Initialisation\<close>

lemma init_store_files:
  assumes "init_store salt n gid dir = Inr dir'"
  shows "\<exists>md. sd_meta dir' = Some md \<and> fm_gid md = 0 \<and> validate_dir dir' = Inr ()
    \<and> sd_files dir' = rev (map (\<lambda>w. (fst w, root_meta 0 0x180 False, snd w)) (take n (init_writes salt)))"
proof -
  obtain dir0 where d0: "init_checks gid dir = Inr dir0" "validate_dir dir0 = Inr ()"
    "dir' = foldl create_synced dir0 (take n (init_writes salt))"
    using assms by (auto simp: init_store_def result_simps)
  from d0(2) obtain md where md: "sd_meta dir0 = Some md" "fm_gid md = 0"
    by (auto simp: validate_dir_def split: option.splits if_splits)
  have empty: "sd_files dir0 = []"
    using d0(1) by (auto simp: init_checks_def split: option.splits if_splits)
  have files: "sd_meta (foldl create_synced dir0 ws) = sd_meta dir0
      \<and> sd_files (foldl create_synced dir0 ws) = rev (map (\<lambda>w. (fst w, root_meta 0 0x180 False, snd w)) ws)" for ws
    by (induction ws rule: rev_induct) (simp_all add: create_synced_def md empty)
  moreover have "validate_dir dir' = validate_dir dir0"
    using d0(3) files by (simp add: validate_dir_def)
  ultimately show ?thesis using d0(2,3) md by simp
qed

lemma init_store_opens:
  assumes "init_store salt n gid dir = Inr dir'" "length salt = SALT_LEN"
  shows "3 \<le> n \<Longrightarrow> open_store x dir' = Inr (opened x salt [])"
    "n < 3 \<Longrightarrow> \<exists>e. open_store x dir' = Inl e"
proof -
  obtain md where dir': "sd_meta dir' = Some md" "validate_dir dir' = Inr ()"
    "sd_files dir' = rev (map (\<lambda>w. (fst w, root_meta 0 0x180 False, snd w)) (take n (init_writes salt)))"
    using init_store_files [OF assms(1)] by blast
  note names = SALT_FILE_def DATA_FILE_def MARKER_FILE_def
  have log: "read_log x [] = Inr []"
    by (simp add: read_log_def from_utf8_def utf8_decode.simps validate_relations_def)
  show "open_store x dir' = Inr (opened x salt [])" if "3 \<le> n"
    using that assms(2) log dir'
    by (simp add: open_store_def validate_file_def file_bytes_def init_writes_def names root_meta_def)
  show "\<exists>e. open_store x dir' = Inl e" if "n < 3"
  proof -
    have "map_of (sd_files dir') MARKER_FILE = None"
      using that dir'(3) by (cases n; cases "n - 1") (auto simp: init_writes_def names)
    then have "validate_file dir' MARKER_FILE = Inl (File_missing MARKER_FILE)"
      by (simp add: validate_file_def)
    then have "try_each (validate_file dir') [SALT_FILE, DATA_FILE, MARKER_FILE] \<noteq> Inr ()"
      unfolding try_each_Inr by simp
    then show ?thesis
      using dir'(2) by (cases "try_each (validate_file dir') [SALT_FILE, DATA_FILE, MARKER_FILE]")
        (simp_all add: open_store_def)
  qed
qed

end
