(* ===== verification/Comment_Properties.thy ===== *)
theory Comment_Properties
  imports Comment_Sample Comment_Paging Comment_Answers
begin

text \<open>
  The properties of commentd and of its clients, each with an instance that meets its hypotheses.
\<close>

section \<open>Durability\<close>

text \<open>C1: in every state commentd can reach, through any requests, failing system calls, crashes
  and restarts, the file on disk is a log that a start accepts; and as long as the process has not
  failed, the log in memory is that log, under its revision.\<close>

theorem restart_finds_good_log:
  assumes "reach (machine_init x j) (service_step x j) s"
  shows "\<exists>cs. read_log x (dk_data (service_disk s)) = Inr cs \<and> log_ok x cs
    \<and> (\<forall>d. s = Running d \<and> \<not> st_poisoned (d_store d) \<longrightarrow>
         st_comments (d_store d) = cs \<and> st_revision (d_store d) = revision x (encode_log x cs))"
  using service.inv_reach [OF assms]
  by (cases s) (auto simp: service_ok_def daemon_ok_def service_disk_def revision_ok_def)

theorem restart_finds_good_log_witness:
  "\<exists>cs. read_log sample_libs (dk_data (service_disk (Running sample_daemon))) = Inr cs \<and> log_ok sample_libs cs"
  using restart_finds_good_log [OF sample_reach] by blast

text \<open>C5: the durable log only grows: between any two states of a run each comment keeps its
  place, its id, its text and its origin, a comment that was approved or deleted stays so, and new
  comments come at the end.\<close>

theorem durable_log_grows:
  assumes "reach (machine_init x j) (service_step x j) s" "steps (service_step x j) s t"
  shows "log_le (durable x s) (durable x t)"
  using service.steps_below [OF assms(2)] service.inv_reach [OF assms(1)] by blast

theorem durable_log_grows_witness:
  "log_le (durable sample_libs (Running sample_daemon)) (durable sample_libs (Running sample_later))"
  using durable_log_grows [OF sample_reach sample_later_reach] .

text \<open>C2: a comment whose submission was acknowledged is in the log that every later start reads,
  whatever happens in between, with the text and target of the request; and the acknowledged id is
  one that no earlier comment had.\<close>

theorem acknowledged_comment_survives:
  assumes "reach (machine_init x j) (service_step x j) (Running d)" "clock_range now"
    "answer x j now io side f d = (R_submit resp, d')" "sp_ok resp"
    "steps (service_step x j) (Running d') t"
  shows "\<exists>i req c. sp_id resp = Some i \<and> j_submit j (fr_payload f) = Inr req \<and> c \<in> set (durable x t)
    \<and> sc_id c = i \<and> sc_target c = sr_target req
    \<and> submit_parse (d_store d) req = Inr (sc_author c, sc_text c, sc_reply_to_id c)
    \<and> (\<forall>b \<in> set (durable x (Running d)). sc_id b < i)"
proof -
  have inv: "libs_ok x" "requests_ok j" "daemon_ok x d"
    using service.inv_reach [OF assms(1)] by (simp_all add: service_ok_def)
  obtain req df i where req: "j_submit j (fr_payload f) = Inr req" and up: "\<not> st_poisoned (d_store d)"
    and checks: "and_then (submit_parse (d_store d) req) (submit_limits x now (d_store d) req) = Inr df"
    and i: "next_id (st_comments (d_store d)) = Some i" "sp_id resp = Some i"
    and c: "commit x io d (submits x now (st_comments (d_store d)) req df i) = (Inr (), d')"
    using answered_submission [OF assms(3,4)] by blast
  have ok: "log_ok x (st_comments (d_store d))" "\<forall>u \<in> set (sr_line req). is_scalar u"
    using inv(2,3) req by (simp_all add: daemon_ok_def requests_ok_def)
  have durable: "durable x (Running d') = submits x now (st_comments (d_store d)) req df i"
    using commit_durable [OF _ inv(3) up submit_candidate [OF inv(1) assms(2) ok checks i(1)] c] inv(1)
    by (simp add: libs_ok_def)
  have "service_step x j (Running d) (Running d')"
    by (rule service_step.request [OF assms(2,3)])
  then have "log_le (durable x (Running d')) (durable x t)"
    using service.steps_below [OF assms(5)] service.inv_step service.inv_reach [OF assms(1)] by blast
  moreover have "new_comment x now i (sr_target req) df \<in> set (durable x (Running d'))"
    by (simp add: durable submits_def)
  ultimately obtain e where e: "e \<in> set (durable x t)" "evolved (new_comment x now i (sr_target req) df) e"
    using log_le_member by metis
  have "sc_id e = i" "sc_target e = sr_target req" "sc_author e = df_author df" "sc_text e = df_text df"
    "sc_reply_to_id e = df_reply_to_id df"
    using evolved_fields [OF e(2)] by (simp_all add: new_comment_def)
  moreover have "\<forall>b \<in> set (durable x (Running d)). sc_id b < i"
    using next_id_above [OF i(1)] ok durable_running [OF inv(3) up] by (simp add: log_ok_def)
  ultimately show ?thesis
    using i(2) req e(1) submit_checks_Inr(1) [OF checks] by auto
qed

theorem acknowledged_comment_survives_witness:
  "\<exists>c \<in> set (durable sample_libs (Down (replicate 32 1) (d_disk (sample_submit ''al: hi'' sample_daemon)))).
     sc_target c = ''/notes/''"
proof -
  let ?d = "sample_submit ''al: hi'' sample_daemon"
  let ?f = "sample_frame PRIVATE_SUBMIT ''al: hi''"
  have a: "answer sample_libs sample_requests sample_now io_fine Private ?f sample_daemon
      = (R_submit \<lparr>sp_ok = True, sp_id = Some 1, sp_notice = ''Comment submitted to moderation queue'', sp_error = None\<rparr>, ?d)"
    by code_simp
  have "st_salt (d_store ?d) = replicate 32 1" by code_simp
  then have "steps (service_step sample_libs sample_requests) (Running ?d) (Down (replicate 32 1) (d_disk ?d))"
    using service_step.stop [of sample_libs sample_requests ?d] unfolding steps_def by simp
  moreover have "j_submit sample_requests (fr_payload ?f) = Inr \<lparr>sr_target = ''/notes/'', sr_line = map of_char ''al: hi'', sr_ip = ''192.0.2.1''\<rparr>"
    by code_simp
  ultimately show ?thesis
    using acknowledged_comment_survives [OF sample_reach sample_now_range a] by auto
qed

text \<open>C6: a write is all or nothing: it succeeds and reaches memory and disk, or it fails and changes
  neither; only when the directory cannot be synchronised after the rename is the new log on disk
  and not in memory, and then the store is marked as failed.\<close>

theorem commit_atomic:
  assumes "\<not> st_poisoned (d_store d)" "commit x io d cs = (r, d')"
  shows "(r = Inr () \<and> st_comments (d_store d') = cs \<and> dk_data (d_disk d') = encode_log x cs
      \<and> \<not> st_poisoned (d_store d'))
    \<or> (r \<noteq> Inr () \<and> st_comments (d_store d') = st_comments (d_store d)
      \<and> dk_data (d_disk d') = dk_data (d_disk d) \<and> \<not> st_poisoned (d_store d'))
    \<or> (r \<noteq> Inr () \<and> st_comments (d_store d') = st_comments (d_store d)
      \<and> dk_data (d_disk d') = encode_log x cs \<and> st_poisoned (d_store d'))"
  using assms by (rule commits.put_atomic)

theorem commit_atomic_witness:
  "dk_data (d_disk (snd (commit sample_libs io_fine sample_daemon []))) = []"
proof -
  have "\<not> st_poisoned (d_store sample_daemon)" "dk_data (d_disk sample_daemon) = []"
    by (simp_all add: sample_daemon_def started_def)
  with commit_atomic [of sample_daemon sample_libs io_fine "[]", OF _ prod.collapse [symmetric]] show ?thesis
    by (auto simp: encode_log_def)
qed

text \<open>Initialisation is safe against a crash at any point: the directory opens only when all
  three files have been written, the marker last, and then it is an empty log.\<close>

theorem init_crash_safe:
  assumes "init_store salt n gid dir = Inr dir'" "length salt = SALT_LEN"
  shows "if 3 \<le> n then open_store x dir' = Inr (opened x salt []) else \<forall>st. open_store x dir' \<noteq> Inr st"
proof (cases "3 \<le> n")
  case True
  with init_store_opens(1) [OF assms] show ?thesis by simp
next
  case False
  then have "n < 3" by simp
  from init_store_opens(2) [OF assms this] False show ?thesis by (metis Inl_Inr_False)
qed

theorem init_crash_safe_witness:
  "\<not> (\<exists>st. open_store sample_libs (case init_store (replicate 32 1) 2 0 \<lparr>sd_meta = None, sd_files = []\<rparr> of Inr d \<Rightarrow> d) = Inr st)"
proof -
  obtain d where "init_store (replicate 32 1) 2 0 \<lparr>sd_meta = None, sd_files = []\<rparr> = Inr d"
    by (simp add: init_store_def init_checks_def validate_dir_def root_meta_def)
  with init_crash_safe [OF this, of sample_libs] show ?thesis
    by (simp add: SALT_LEN_def)
qed

section \<open>Submissions and moderation\<close>

text \<open>C9: an accepted submission appends exactly one comment, pending, under the next id, with the
  author, text and parent that the text of the request spells; a refused one, and one whose write
  fails before the rename, leaves the log as it was.\<close>

theorem submit_appends:
  assumes "submit x now io d req = (Inr resp, d')"
  shows "if sp_ok resp
    then \<exists>i a b p. sp_id resp = Some i \<and> submit_parse (d_store d) req = Inr (a, b, p)
      \<and> next_id (st_comments (d_store d)) = Some i
      \<and> st_comments (d_store d') = st_comments (d_store d)
          @ [\<lparr>sc_id = i, sc_target = sr_target req, sc_author = a, sc_text = b, sc_reply_to_id = p,
              sc_ip_hash = hash_ip x (st_salt (d_store d)) (sr_ip req),
              sc_created_at = x_rfc3339_secs x now, sc_status = Pending\<rparr>]
    else d' = d"
proof (cases "sp_ok resp")
  case True
  from submit_accepted [OF assms True] obtain df i where
    checks: "and_then (submit_parse (d_store d) req) (submit_limits x now (d_store d) req) = Inr df"
    and i: "next_id (st_comments (d_store d)) = Some i" "sp_id resp = Some i"
    and c: "commit x io d (submits x now (st_comments (d_store d)) req df i) = (Inr (), d')" by blast
  with True submit_checks_Inr(1,2) [OF checks] commit_comments(1) [OF c] show ?thesis
    by (simp add: submits_def new_comment_def)
next
  case False
  from assms show ?thesis
  proof (cases rule: submit_cases)
    case (committed df i u)
    then have "sp_ok resp" by (cases u) auto
    with False show ?thesis by simp
  qed (use False in auto)
qed

theorem submit_appends_witness:
  "snd (submit sample_libs sample_now io_fine sample_daemon
     \<lparr>sr_target = ''notes'', sr_line = u_of ''hi'', sr_ip = ''192.0.2.1''\<rparr>) = sample_daemon"
proof -
  let ?req = "\<lparr>sr_target = ''notes'', sr_line = u_of ''hi'', sr_ip = ''192.0.2.1''\<rparr>"
  have s: "submit sample_libs sample_now io_fine sample_daemon ?req = (Inr (reject ''invalid target''), sample_daemon)"
    by code_simp
  with submit_appends [OF s] show ?thesis by simp
qed

text \<open>C10: the limits on a source hold after every accepted submission: at most ten comments of the
  source within the hour, the new one included, and no other comment of the source with the same
  target, text and parent within five minutes.\<close>

theorem submission_limits_hold:
  assumes "submit x now io d req = (Inr resp, d')" "sp_ok resp"
  shows "length (filter (\<lambda>c. sc_ip_hash c = hash_ip x (st_salt (d_store d)) (sr_ip req) \<and> recent x now c 3600)
      (st_comments (d_store d'))) \<le> 10
    \<and> (\<forall>c \<in> set (st_comments (d_store d)).
         sc_ip_hash c = sc_ip_hash (last (st_comments (d_store d'))) \<and> sc_target c = sr_target req
         \<and> sc_text c = sc_text (last (st_comments (d_store d')))
         \<and> sc_reply_to_id c = sc_reply_to_id (last (st_comments (d_store d'))) \<longrightarrow> \<not> recent x now c 300)"
proof -
  from submit_accepted [OF assms] obtain df i where
    checks: "and_then (submit_parse (d_store d) req) (submit_limits x now (d_store d) req) = Inr df"
    and c: "commit x io d (submits x now (st_comments (d_store d)) req df i) = (Inr (), d')" by blast
  note facts = submit_checks_Inr [OF checks]
  have "st_comments (d_store d') = st_comments (d_store d) @ [new_comment x now i (sr_target req) df]"
    using commit_comments(1) [OF c] by (simp add: submits_def)
  with facts show ?thesis by (auto simp: new_comment_def)
qed

theorem submission_limits_hold_witness:
  "length (filter (\<lambda>c. sc_ip_hash c = hash_ip sample_libs (replicate 32 1) ''192.0.2.1'' \<and> recent sample_libs sample_now c 3600)
     (st_comments (d_store (sample_submit ''al: hi'' sample_daemon)))) \<le> 10"
proof -
  let ?req = "\<lparr>sr_target = ''/notes/'', sr_line = map of_char ''al: hi'', sr_ip = ''192.0.2.1''\<rparr>"
  have s: "submit sample_libs sample_now io_fine sample_daemon ?req
      = (Inr \<lparr>sp_ok = True, sp_id = Some 1, sp_notice = ''Comment submitted to moderation queue'', sp_error = None\<rparr>,
         sample_submit ''al: hi'' sample_daemon)"
    by code_simp
  moreover have "st_salt (d_store sample_daemon) = replicate 32 1"
    by (simp add: sample_daemon_def started_def)
  ultimately show ?thesis using submission_limits_hold [OF s] by simp
qed

text \<open>Moderation decides exactly the pending comments among the ids, reports their number, and
  decides nothing twice: the same request again finds nothing to change.\<close>

theorem moderation_exact:
  assumes "moderate x io d ids a = (Inr resp, d')" "mr_ok resp"
    "moderate x io' d' ids a' = (Inr resp', d'')"
  shows "st_comments (d_store d') = map (\<lambda>c. if sc_status c = Pending \<and> sc_id c \<in> set ids
      then c\<lparr>sc_status := (if a then Approved else Deleted)\<rparr> else c) (st_comments (d_store d))
    \<and> mr_changed resp = length (filter (\<lambda>c. sc_status c = Pending \<and> sc_id c \<in> set ids) (st_comments (d_store d)))
    \<and> mr_changed resp' = 0 \<and> d'' = d'"
proof -
  note first = moderate_answered [OF assms(1,2)]
  have none: "pending_ids ids (st_comments (d_store d')) = []"
    using first pending_ids_moderated by simp
  from assms(3) have "mr_changed resp' = 0 \<and> d'' = d'"
    by (cases rule: moderate_cases) (use none in auto)
  with first show ?thesis
    by (auto simp: pending_ids_def moderated_def)
qed

theorem moderation_exact_witness:
  "map sc_status (st_comments (d_store (snd (moderate sample_libs io_fine sample_later [2, 7] False)))) = [Approved, Deleted]"
proof -
  let ?d' = "snd (moderate sample_libs io_fine sample_later [2, 7] False)"
  have m: "fst (moderate sample_libs io_fine sample_later [2, 7] False) = Inr \<lparr>mr_ok = True, mr_changed = 1, mr_error = None\<rparr>"
    by code_simp
  have n: "fst (moderate sample_libs io_fine ?d' [2, 7] True) = Inr \<lparr>mr_ok = True, mr_changed = 0, mr_error = None\<rparr>"
    by code_simp
  have "moderate sample_libs io_fine sample_later [2, 7] False = (Inr \<lparr>mr_ok = True, mr_changed = 1, mr_error = None\<rparr>, ?d')"
    using m by (metis prod.collapse)
  moreover have "moderate sample_libs io_fine ?d' [2, 7] True
      = (Inr \<lparr>mr_ok = True, mr_changed = 0, mr_error = None\<rparr>, snd (moderate sample_libs io_fine ?d' [2, 7] True))"
    using n by (metis prod.collapse)
  ultimately have "st_comments (d_store ?d') = map (\<lambda>c. if sc_status c = Pending \<and> sc_id c \<in> set [2, 7]
      then c\<lparr>sc_status := Deleted\<rparr> else c) (st_comments (d_store sample_later))"
    using moderation_exact [of sample_libs io_fine sample_later "[2, 7]" False] by fastforce
  moreover have "map (\<lambda>c. sc_status (if sc_status c = Pending \<and> sc_id c \<in> set [2, 7]
      then c\<lparr>sc_status := Deleted\<rparr> else c)) (st_comments (d_store sample_later)) = [Approved, Deleted]"
    by code_simp
  ultimately show ?thesis by (simp add: comp_def)
qed

end
