(* ===== verification/Comment_Views.thy ===== *)
theory Comment_Views
  imports Comment_Sample Comment_Paging Comment_Answers
begin

text \<open>
  The properties of the listings of commentd: the public view and its numbers, the socket that
  serves it, the pages a client collects, and the answers of a store that has failed.
\<close>

section \<open>The public view\<close>

text \<open>C8: the public socket never changes the store, and what it tells of it is only approved
  comments of the target asked for.\<close>

theorem public_socket_reads_approved:
  assumes "reach (machine_init x j) (service_step x j) (Running d)" "length (st_comments (d_store d)) < 2 ^ 64"
    "answer x j now io Public f d = (r, d')"
  shows "d' = d \<and> ((\<exists>e. r = R_error e) \<or> (\<exists>req q. r = R_query q \<and> j_public_query j (fr_payload f) = Inr req
    \<and> (\<forall>v \<in> set (pr_comments q). \<exists>c \<in> set (st_comments (d_store d)).
         sc_status c = Approved \<and> sc_target c = pq_target req \<and> vc_text v = sc_text c \<and> vc_author v = sc_author c)))"
proof -
  have ok: "log_ok x (st_comments (d_store d))"
    using service.inv_reach [OF assms(1)] by (simp add: service_ok_def daemon_ok_def)
  have view: "\<exists>c \<in> set (st_comments (d_store d)). sc_status c = Approved \<and> sc_target c = pq_target req
      \<and> vc_text v = sc_text c \<and> vc_author v = sc_author c" if "v \<in> set (pr_comments (public_query (d_store d) req))" for v req
  proof (cases "query_guard (d_store d) req")
    case (Inl e)
    with that show ?thesis by (simp add: public_query_refused query_error_def)
  next
    case (Inr limit)
    with that public_query_page(2) [OF ok assms(2) Inr] public_page_subset
    have "v \<in> set (public_list (d_store d) (pq_target req))" by fastforce
    then show ?thesis by (rule public_list_member) auto
  qed
  show ?thesis
  proof (cases "fr_kind f = PUBLIC_QUERY")
    case True
    show ?thesis
    proof (cases "j_public_query j (fr_payload f)")
      case (Inl e)
      with True assms(3) show ?thesis by (auto simp: answer_def frame_parse_def invalid_json_def)
    next
      case (Inr req)
      with True assms(3) have "r = R_query (public_query (d_store d) req)" "d' = d"
        by (auto simp: answer_def frame_parse_def)
      with view [of _ req] Inr show ?thesis by blast
    qed
  next
    case False
    with assms(3) show ?thesis by (auto simp: answer_def)
  qed
qed

theorem public_socket_reads_approved_witness:
  "snd (answer sample_libs sample_requests 0 io_fine Public (sample_frame PRIVATE_APPROVE ''x'') sample_daemon) = sample_daemon"
proof -
  have "length (st_comments (d_store sample_daemon)) < 2 ^ 64" by (simp add: sample_daemon_def started_def)
  from public_socket_reads_approved [OF sample_reach this prod.collapse [symmetric]] show ?thesis by blast
qed

text \<open>A public query whose checks pass is always answered, with a window of the list of the
  approved comments of the target: the last ones without a number, else the ones that follow the
  number; the data of a reachable store is never unavailable.\<close>

theorem public_query_window:
  assumes "reach (machine_init x j) (service_step x j) (Running d)" "length (st_comments (d_store d)) < 2 ^ 64"
    "query_guard (d_store d) req = Inr limit"
  shows "pr_ok (public_query (d_store d) req)
    \<and> pr_total (public_query (d_store d) req)
        = length (filter (\<lambda>c. sc_status c = Approved \<and> sc_target c = pq_target req) (st_comments (d_store d)))
    \<and> pr_comments (public_query (d_store d) req)
        = (let all = public_list (d_store d) (pq_target req)
           in case pq_after_number req of
                None \<Rightarrow> drop (length all - limit) all
              | Some n \<Rightarrow> take limit (drop (unat n) all))"
proof -
  have ok: "log_ok x (st_comments (d_store d))"
    using service.inv_reach [OF assms(1)] by (simp add: service_ok_def daemon_ok_def)
  note page = public_query_page [OF ok assms(2,3)]
  have "length (public_list (d_store d) (pq_target req))
      = length (filter (\<lambda>c. sc_status c = Approved \<and> sc_target c = pq_target req) (st_comments (d_store d)))"
    by (simp add: public_list_def approved_def)
  with page show ?thesis
    by (simp add: public_page_def Let_def split: option.split)
qed

theorem public_query_window_witness:
  "pr_total (public_query (d_store sample_daemon)
     \<lparr>pq_target = ''/notes/'', pq_after_number = None, pq_limit = None, pq_revision = None\<rparr>) = 0"
proof -
  let ?req = "\<lparr>pq_target = ''/notes/'', pq_after_number = None, pq_limit = None, pq_revision = None\<rparr>"
  have e: "st_comments (d_store sample_daemon) = []" by (simp add: sample_daemon_def started_def)
  have "query_guard (d_store sample_daemon) ?req = Inr 100" by code_simp
  with public_query_window [OF sample_reach _ this] e show ?thesis by simp
qed



section \<open>Pages\<close>

text \<open>C4: the list a client collects page by page is the listing of one state of the store, complete
  and without repetition, although other requests may change the store between its requests; else
  the client reports that the data keeps changing.  (States with the same revision are taken to have
  the same log: SHA-256 is taken to be free of collisions on them.)\<close>

theorem client_all_consistent:
  assumes "\<forall>s \<in> set ss. log_ok x (st_comments s)"
    "\<forall>s \<in> set ss. \<forall>t \<in> set ss. st_revision s = st_revision t \<longrightarrow> st_comments s = st_comments t"
    "client_all (map (\<lambda>s req. Inr (page s req pending)) ss) = Some r"
  shows "r = Inl ''commentd data continuously changing, unable to acquire consistent snapshot''
    \<or> (\<exists>s \<in> set ss. r = Inr (map view (filter (\<lambda>c. sc_status c = (if pending then Pending else Approved))
         (st_comments s))))"
proof -
  have "\<forall>s \<in> set ss. ids_ok s" using assms(1) by (simp add: ids_ok_def log_ok_def)
  moreover have "collision_free (set ss)" using assms(2) unfolding collision_free_def .
  moreover have "(\<lambda>s req. Inr (page s req pending)) = serve_pages pending"
    by (simp add: serve_pages_def fun_eq_iff)
  ultimately show ?thesis
    using all_loop_result [OF walk_start, of "set ss" ss 4 pending r] assms(3)
    by (simp add: client_all_def listing_def)
qed

theorem client_all_consistent_witness:
  "\<exists>r. client_all [\<lambda>req. Inr (page (d_store sample_daemon) req True)] = Some r
     \<and> (r = Inl ''commentd data continuously changing, unable to acquire consistent snapshot'' \<or> r = Inr [])"
proof -
  have "client_all [\<lambda>req. Inr (page (d_store sample_daemon) req True)] = Some (Inr [])" by code_simp
  moreover have e: "st_comments (d_store sample_daemon) = []" by (simp add: sample_daemon_def started_def)
  moreover have "log_ok sample_libs []" by (simp add: log_ok_def)
  ultimately show ?thesis
    using client_all_consistent [of "[d_store sample_daemon]" sample_libs True "Inr []"] by simp
qed

text \<open>As long as the store is left alone a client gets the whole listing, after one request for
  every hundred comments.\<close>

theorem client_all_completes:
  assumes "log_ok x (st_comments s)" "0 < n"
    "length (filter (\<lambda>c. sc_status c = (if pending then Pending else Approved)) (st_comments s)) \<le> 100 * n"
  shows "client_all (replicate n (\<lambda>req. Inr (page s req pending)))
    = Some (Inr (map view (filter (\<lambda>c. sc_status c = (if pending then Pending else Approved)) (st_comments s))))"
proof -
  have "ids_ok s" using assms(1) by (simp add: ids_ok_def log_ok_def)
  moreover have "(\<lambda>req. Inr (page s req pending)) = serve_pages pending s"
    by (simp add: serve_pages_def fun_eq_iff)
  ultimately show ?thesis
    using all_loop_quiet [of s pending "[]" "listing pending s" 0 None n 4] assms(2,3)
    by (simp add: client_all_def listing_def)
qed

theorem client_all_completes_witness:
  "client_all (replicate 3 (\<lambda>req. Inr (page (d_store sample_daemon) req False))) = Some (Inr [])"
proof -
  have e: "st_comments (d_store sample_daemon) = []" by (simp add: sample_daemon_def started_def)
  moreover have "log_ok sample_libs []" by (simp add: log_ok_def)
  ultimately show ?thesis
    using client_all_completes [of sample_libs "d_store sample_daemon" 3 False] by simp
qed

section \<open>A store that has failed\<close>

text \<open>After a commit whose directory could not be synchronised the new log is on disk, every
  further write is refused, and yet until the process ends queries are answered from the old log:
  neither \<open>public_query\<close> nor \<open>page\<close> looks at the mark of failure.\<close>

theorem failed_store_serves_old_log:
  assumes "commit x io d cs = (Inl Dir_sync_failed, d')"
  shows "dk_data (d_disk d') = encode_log x cs
    \<and> submit x now io' d' req = (Inl Fail_stop, d') \<and> moderate x io' d' ids a = (Inl Fail_stop, d')
    \<and> public_query (d_store d') q = public_query (d_store d) q \<and> page (d_store d') p b = page (d_store d) p b"
proof -
  from assms have d': "dk_data (d_disk d') = encode_log x cs" "d_store d' = (d_store d)\<lparr>st_poisoned := True\<rparr>"
    by (auto simp: commit_def Let_def split: if_splits option.splits)
  then show ?thesis by (simp add: submit_def moderate_def failed_queries Let_def)
qed

theorem failed_store_serves_old_log_witness:
  "pr_ok (public_query (d_store (snd (moderate sample_libs (io_fine\<lparr>io_dirsync := False\<rparr>)
       (sample_submit ''al: hi'' sample_daemon) [1] True)))
     \<lparr>pq_target = ''/notes/'', pq_after_number = None, pq_limit = None, pq_revision = None\<rparr>)"
proof -
  let ?d = "sample_submit ''al: hi'' sample_daemon"
  let ?q = "\<lparr>pq_target = ''/notes/'', pq_after_number = None, pq_limit = None, pq_revision = None\<rparr>"
  let ?io = "io_fine\<lparr>io_dirsync := False\<rparr>"
  let ?c = "commit sample_libs ?io ?d (map (moderated [1] True) (st_comments (d_store ?d)))"
  have f: "fst ?c = Inl Dir_sync_failed" by (simp add: commit_def Let_def io_fine_def)
  have m: "moderate sample_libs ?io ?d [1] True = (Inl Dir_sync_failed, snd ?c)"
  proof -
    have "\<not> st_poisoned (d_store ?d)" by code_simp
    moreover have "filter (\<lambda>c. sc_status c = Pending \<and> sc_id c \<in> set [1]) (st_comments (d_store ?d)) \<noteq> []"
      by code_simp
    ultimately show ?thesis using f by (cases ?c) (simp add: moderate_def Let_def)
  qed
  have "?c = (Inl Dir_sync_failed, snd ?c)" using f by (metis prod.collapse)
  from failed_store_serves_old_log [OF this] have "public_query (d_store (snd ?c)) ?q = public_query (d_store ?d) ?q"
    by blast
  moreover have "pr_ok (public_query (d_store ?d) ?q)" by code_simp
  ultimately show ?thesis using m by simp
qed

end
