(* ===== verification/Stats_Store.thy ===== *)
theory Stats_Store
  imports Content_Manifest Rust_Net Contracts
begin

text \<open>
  The statistics service: the requests of \<^verbatim>\<open>crates/servers/statd/src/protocol.rs\<close> and
  \<open>Store\<close> of \<^verbatim>\<open>store.rs\<close>.  The three tables of the database are maps over their
  primary keys (the visitors a list without repetition), with the statements the source runs on
  them; SQLite itself only appears through the errors it may report.  The HMAC is an argument.
\<close>

section \<open>Requests and answers\<close>

definition MAX_BATCH_EVENTS :: nat where "MAX_BATCH_EVENTS = 256"
definition MAX_SNAPSHOT_TARGETS :: nat where "MAX_SNAPSHOT_TARGETS = 256"
definition MAX_SNAPSHOT_ARTICLES :: nat where "MAX_SNAPSHOT_ARTICLES = 1024"
definition MAX_ARTICLE_KEY_LEN :: nat where "MAX_ARTICLE_KEY_LEN = 512"

datatype source = Terminal_read_session | Static_request

record record_event =
  re_source :: source
  re_target :: string
  re_article :: string
  re_ip :: string

record snapshot_target_request =
  tr_target :: string
  tr_articles :: "string list"

record article_snapshot =
  as_article :: string
  as_terminal_read_sessions :: u64
  as_static_requests :: u64

record target_snapshot =
  ts_target :: string
  ts_terminal_read_sessions_total :: u64
  ts_static_requests_total :: u64
  ts_unique_visitors_approx :: u64
  ts_articles :: "article_snapshot list"

record snapshot_response =
  ss_ok :: bool
  ss_snapshot_at :: string
  ss_targets :: "target_snapshot list"
  ss_error :: "string option"

record record_batch_response =
  rb_ok :: bool
  rb_accepted :: nat
  rb_error :: "string option"

datatype stat_error = Batch_size | Key_length | Bad_path path_error | Key_mapping | Not_in_target string string
  | Bad_ip | Too_many_targets | Duplicate_target string | Too_many_articles | Duplicate_article string
  | Counter_overflow | Negative_counter | Sqlite nat

section \<open>The database\<close>

record database =
  db_totals :: "string \<Rightarrow> (int \<times> int) option"
  db_articles :: "string \<times> string \<times> source \<Rightarrow> int option"
  db_visitors :: "(string \<times> bytes) list"

text \<open>\<open>create_schema\<close>.\<close>

definition empty_db :: database where
  "empty_db = \<lparr>db_totals = (\<lambda>_. None), db_articles = (\<lambda>_. None), db_visitors = []\<rparr>"

text \<open>\<open>i64::checked_add(1)\<close>.\<close>

definition checked_succ :: "int \<Rightarrow> stat_error + int" where
  "checked_succ n = (if n + 1 < 2 ^ 63 then Inr (n + 1) else Inl Counter_overflow)"

definition increment_target :: "database \<Rightarrow> string \<Rightarrow> source \<Rightarrow> stat_error + database" where
  "increment_target db target src =
     (let (terminal, static) = (case db_totals db target of None \<Rightarrow> (0, 0) | Some p \<Rightarrow> p)
      in and_then
           (case src of
              Terminal_read_session \<Rightarrow> and_then (checked_succ terminal) (\<lambda>n. Inr (n, static))
            | Static_request \<Rightarrow> and_then (checked_succ static) (\<lambda>n. Inr (terminal, n)))
           (\<lambda>row. Inr (db\<lparr>db_totals := (db_totals db)(target \<mapsto> row)\<rparr>)))"

definition increment_article :: "database \<Rightarrow> string \<Rightarrow> string \<Rightarrow> source \<Rightarrow> stat_error + database" where
  "increment_article db target article src =
     and_then (checked_succ (case db_articles db (target, article, src) of None \<Rightarrow> 0 | Some n \<Rightarrow> n)) (\<lambda>n.
       Inr (db\<lparr>db_articles := (db_articles db)((target, article, src) \<mapsto> n)\<rparr>))"

text \<open>\<open>INSERT OR IGNORE\<close>.\<close>

definition add_visitor :: "database \<Rightarrow> string \<Rightarrow> bytes \<Rightarrow> database" where
  "add_visitor db target h =
     (if (target, h) \<in> set (db_visitors db) then db
      else db\<lparr>db_visitors := db_visitors db @ [(target, h)]\<rparr>)"

definition ascii_bytes :: "string \<Rightarrow> bytes" where
  "ascii_bytes s = map of_char s"

definition visitor_hash :: "(bytes \<Rightarrow> bytes \<Rightarrow> bytes) \<Rightarrow> bytes \<Rightarrow> string \<Rightarrow> string \<Rightarrow> bytes" where
  "visitor_hash hmac secret target ip = hmac secret (ascii_bytes target @ [0] @ ascii_bytes ip)"

section \<open>Recording\<close>

record valid_event =
  ve_source :: source
  ve_target :: string
  ve_article :: string
  ve_ip :: string

definition canonical_ip :: "string \<Rightarrow> stat_error + string" where
  "canonical_ip raw =
     (case parse_ip raw of
        None \<Rightarrow> Inl Bad_ip
      | Some (V4 a b c d) \<Rightarrow> Inr (show_ip (V4 a b c d))
      | Some (V6 g) \<Rightarrow> Inr (case to_ipv4_mapped g of None \<Rightarrow> show_ip (V6 g) | Some ip \<Rightarrow> show_ip ip))"

definition lift_path :: "path_error + 'a \<Rightarrow> stat_error + 'a" where
  "lift_path r = (case r of Inl e \<Rightarrow> Inl (Bad_path e) | Inr a \<Rightarrow> Inr a)"

definition validate_event :: "record_event \<Rightarrow> stat_error + valid_event" where
  "validate_event e =
     (if re_article e = [] \<or> MAX_ARTICLE_KEY_LEN < length (re_article e) then Inl Key_length
      else and_then (lift_path (article_parse (re_article e @ ''.md''))) (\<lambda>article.
        if ap_key article \<noteq> re_article e then Inl Key_mapping
        else and_then (lift_path (scope_from_target (re_target e))) (\<lambda>scope.
          if \<not> contains_article scope article then Inl (Not_in_target (re_article e) (re_target e))
          else and_then (canonical_ip (re_ip e)) (\<lambda>ip.
            Inr \<lparr>ve_source = re_source e, ve_target = re_target e, ve_article = re_article e, ve_ip = ip\<rparr>))))"

text \<open>What SQLite answers during one transaction: whether it begins, the event at which a
  statement fails, whether it commits; the numbers are its error codes.\<close>

record db_io =
  io_begin :: "nat option"
  io_statement :: "(nat \<times> nat) option"
  io_commit :: "nat option"

definition record_one ::
  "(bytes \<Rightarrow> bytes \<Rightarrow> bytes) \<Rightarrow> bytes \<Rightarrow> database \<Rightarrow> valid_event \<Rightarrow> stat_error + database"
where
  "record_one hmac secret db e =
     and_then (increment_target db (ve_target e) (ve_source e)) (\<lambda>db.
     and_then (increment_article db (ve_target e) (ve_article e) (ve_source e)) (\<lambda>db.
       Inr (add_visitor db (ve_target e) (visitor_hash hmac secret (ve_target e) (ve_ip e)))))"

fun record_loop ::
  "(bytes \<Rightarrow> bytes \<Rightarrow> bytes) \<Rightarrow> bytes \<Rightarrow> db_io \<Rightarrow> nat \<Rightarrow> database \<Rightarrow> valid_event list \<Rightarrow> stat_error + database"
where
  "record_loop hmac secret io i db [] = Inr db"
| "record_loop hmac secret io i db (e # es) =
     (case io_statement io of
        Some (k, code) \<Rightarrow>
          if k = i then Inl (Sqlite code)
          else and_then (record_one hmac secret db e) (\<lambda>db. record_loop hmac secret io (i + 1) db es)
      | None \<Rightarrow> and_then (record_one hmac secret db e) (\<lambda>db. record_loop hmac secret io (i + 1) db es))"

text \<open>An error drops the transaction, and SQLite rolls it back.\<close>

definition record_batch ::
  "(bytes \<Rightarrow> bytes \<Rightarrow> bytes) \<Rightarrow> bytes \<Rightarrow> db_io \<Rightarrow> database \<Rightarrow> record_event list \<Rightarrow> (stat_error + nat) \<times> database"
where
  "record_batch hmac secret io db request =
     (if request = [] \<or> MAX_BATCH_EVENTS < length request then (Inl Batch_size, db)
      else case try_map validate_event request of
          Inl e \<Rightarrow> (Inl e, db)
        | Inr events \<Rightarrow>
            (case io_begin io of
               Some c \<Rightarrow> (Inl (Sqlite c), db)
             | None \<Rightarrow>
                 (case record_loop hmac secret io 0 db events of
                    Inl e \<Rightarrow> (Inl e, db)
                  | Inr db' \<Rightarrow>
                      (case io_commit io of
                         Some c \<Rightarrow> (Inl (Sqlite c), db)
                       | None \<Rightarrow> (Inr (length events), db')))))"

section \<open>Snapshots\<close>

text \<open>The inner loop of \<open>validate_snapshot_request\<close>: the count of articles so far, or the
  error.  The count stays below \<open>MAX_SNAPSHOT_ARTICLES + 2\<close>, so its \<open>checked_add\<close> cannot fail.\<close>

fun snapshot_articles ::
  "content_scope \<Rightarrow> string \<Rightarrow> string set \<Rightarrow> nat \<Rightarrow> string list \<Rightarrow> stat_error + nat"
where
  "snapshot_articles scope target seen n [] = Inr n"
| "snapshot_articles scope target seen n (key # keys) =
     (if MAX_SNAPSHOT_ARTICLES < n + 1 then Inl Too_many_articles
      else if key = [] \<or> MAX_ARTICLE_KEY_LEN < length key then Inl Key_length
      else and_then (lift_path (article_parse (key @ ''.md''))) (\<lambda>article.
        if ap_key article \<noteq> key \<or> \<not> contains_article scope article then Inl (Not_in_target key target)
        else if key \<in> seen then Inl (Duplicate_article key)
        else snapshot_articles scope target (insert key seen) (n + 1) keys))"

fun snapshot_targets ::
  "string set \<Rightarrow> nat \<Rightarrow> snapshot_target_request list \<Rightarrow> stat_error + snapshot_target_request list"
where
  "snapshot_targets seen n [] = Inr []"
| "snapshot_targets seen n (t # ts) =
     and_then (lift_path (scope_from_target (tr_target t))) (\<lambda>scope.
       if tr_target t \<in> seen then Inl (Duplicate_target (tr_target t))
       else and_then (snapshot_articles scope (tr_target t) {} n (tr_articles t)) (\<lambda>n.
         and_then (snapshot_targets (insert (tr_target t) seen) n ts) (\<lambda>ts.
           Inr (t\<lparr>tr_articles := sort (tr_articles t)\<rparr> # ts))))"

definition validate_snapshot_request ::
  "snapshot_target_request list \<Rightarrow> stat_error + snapshot_target_request list"
where
  "validate_snapshot_request request =
     (if MAX_SNAPSHOT_TARGETS < length request then Inl Too_many_targets
      else and_then (snapshot_targets {} 0 request) (\<lambda>ts. Inr (sort_key tr_target ts)))"

definition as_u64 :: "int \<Rightarrow> stat_error + u64" where
  "as_u64 v = (if v < 0 then Inl Negative_counter else Inr (of_int v))"

text \<open>The schema admits the two sources only, so a row with another one does not occur.\<close>

definition article_row :: "database \<Rightarrow> string \<Rightarrow> source \<Rightarrow> string \<Rightarrow> int" where
  "article_row db target src article = (case db_articles db (target, article, src) of None \<Rightarrow> 0 | Some n \<Rightarrow> n)"

definition snapshot_article :: "database \<Rightarrow> string \<Rightarrow> string \<Rightarrow> stat_error + article_snapshot" where
  "snapshot_article db target article =
     and_then (as_u64 (article_row db target Terminal_read_session article)) (\<lambda>terminal.
     and_then (as_u64 (article_row db target Static_request article)) (\<lambda>static.
       Inr \<lparr>as_article = article, as_terminal_read_sessions = terminal, as_static_requests = static\<rparr>))"

definition snapshot_target :: "database \<Rightarrow> snapshot_target_request \<Rightarrow> stat_error + target_snapshot" where
  "snapshot_target db t =
     (let (terminal, static) = (case db_totals db (tr_target t) of None \<Rightarrow> (0, 0) | Some p \<Rightarrow> p);
          visitors = int (length (filter (\<lambda>v. fst v = tr_target t) (db_visitors db)))
      in and_then (try_map (snapshot_article db (tr_target t)) (tr_articles t)) (\<lambda>articles.
         and_then (as_u64 terminal) (\<lambda>terminal.
         and_then (as_u64 static) (\<lambda>static.
         and_then (as_u64 visitors) (\<lambda>visitors.
           Inr \<lparr>ts_target = tr_target t, ts_terminal_read_sessions_total = terminal,
                ts_static_requests_total = static, ts_unique_visitors_approx = visitors,
                ts_articles = articles\<rparr>)))))"

text \<open>The loop over the targets; \<open>io_statement\<close> names the target whose queries fail.\<close>

fun snapshot_loop ::
  "db_io \<Rightarrow> nat \<Rightarrow> database \<Rightarrow> snapshot_target_request list \<Rightarrow> stat_error + target_snapshot list"
where
  "snapshot_loop io i db [] = Inr []"
| "snapshot_loop io i db (t # ts) =
     (case io_statement io of
        Some (k, code) \<Rightarrow>
          if k = i then Inl (Sqlite code)
          else and_then (snapshot_target db t) (\<lambda>s. and_then (snapshot_loop io (i + 1) db ts) (\<lambda>ss. Inr (s # ss)))
      | None \<Rightarrow>
          and_then (snapshot_target db t) (\<lambda>s. and_then (snapshot_loop io (i + 1) db ts) (\<lambda>ss. Inr (s # ss))))"

definition snapshot ::
  "string \<Rightarrow> db_io \<Rightarrow> database \<Rightarrow> snapshot_target_request list \<Rightarrow> stat_error + snapshot_response"
where
  "snapshot now io db request =
     and_then (validate_snapshot_request request) (\<lambda>targets.
       case io_begin io of
         Some c \<Rightarrow> Inl (Sqlite c)
       | None \<Rightarrow>
           and_then (snapshot_loop io 0 db targets) (\<lambda>snapshots.
             case io_commit io of
               Some c \<Rightarrow> Inl (Sqlite c)
             | None \<Rightarrow> Inr \<lparr>ss_ok = True, ss_snapshot_at = now, ss_targets = snapshots, ss_error = None\<rparr>))"

section \<open>The specification: counting events\<close>

text \<open>What the service stands for is the sequence of events it has recorded: every number it
  reports is a count over it.\<close>

definition count_target :: "string \<Rightarrow> source \<Rightarrow> valid_event list \<Rightarrow> nat" where
  "count_target t src h = length (filter (\<lambda>e. ve_target e = t \<and> ve_source e = src) h)"

definition count_article :: "string \<Rightarrow> string \<Rightarrow> source \<Rightarrow> valid_event list \<Rightarrow> nat" where
  "count_article t a src h = length (filter (\<lambda>e. ve_target e = t \<and> ve_article e = a \<and> ve_source e = src) h)"

definition visitors :: "(string \<Rightarrow> string \<Rightarrow> bytes) \<Rightarrow> string \<Rightarrow> valid_event list \<Rightarrow> bytes set" where
  "visitors hash t h = (\<lambda>e. hash t (ve_ip e)) ` {e \<in> set h. ve_target e = t}"

definition represents :: "(string \<Rightarrow> string \<Rightarrow> bytes) \<Rightarrow> valid_event list \<Rightarrow> database \<Rightarrow> bool" where
  "represents hash h db \<longleftrightarrow>
     (\<forall>t. (case db_totals db t of None \<Rightarrow> (0, 0) | Some p \<Rightarrow> p)
        = (int (count_target t Terminal_read_session h), int (count_target t Static_request h)))
   \<and> (\<forall>t a src. article_row db t src a = int (count_article t a src h))
   \<and> distinct (db_visitors db)
   \<and> set (db_visitors db) = {(t, v). v \<in> visitors hash t h}"

lemma count_simps [simp]:
  "count_target t src [] = 0" "count_article t a src [] = 0" "visitors hash t [] = {}"
  "count_target t src (h @ k) = count_target t src h + count_target t src k"
  "count_article t a src (h @ k) = count_article t a src h + count_article t a src k"
  "visitors hash t (h @ k) = visitors hash t h \<union> visitors hash t k"
  by (auto simp: count_target_def count_article_def visitors_def)

lemma count_single:
  "count_target t src [e] = (if ve_target e = t \<and> ve_source e = src then 1 else 0)"
  "count_article t a src [e] = (if ve_target e = t \<and> ve_article e = a \<and> ve_source e = src then 1 else 0)"
  "visitors hash t [e] = (if ve_target e = t then {hash t (ve_ip e)} else {})"
  by (auto simp: count_target_def count_article_def visitors_def)

lemma represents_empty: "represents hash [] empty_db"
  by (simp add: represents_def empty_db_def article_row_def)

lemma count_article_le: "count_article t a src h \<le> count_target t src h"
  unfolding count_article_def count_target_def by (induction h) auto

text \<open>One event: the tables move on to the longer history, unless a counter is at its limit.\<close>

lemma increment_target_Inr:
  assumes "increment_target db t src = Inr db'"
  shows "db_articles db' = db_articles db" "db_visitors db' = db_visitors db"
    "(case db_totals db' u of None \<Rightarrow> (0, 0) | Some p \<Rightarrow> p)
      = (let p = (case db_totals db u of None \<Rightarrow> (0, 0) | Some p \<Rightarrow> p)
         in if u = t then (case src of Terminal_read_session \<Rightarrow> (fst p + 1, snd p) | Static_request \<Rightarrow> (fst p, snd p + 1))
            else p)"
  using assms by (cases src; cases "db_totals db t"; auto simp: increment_target_def checked_succ_def Let_def split: if_splits)+

lemma increment_article_Inr:
  assumes "increment_article db t a src = Inr db'"
  shows "db_totals db' = db_totals db" "db_visitors db' = db_visitors db"
    "article_row db' u src' b = article_row db u src' b + (if u = t \<and> b = a \<and> src' = src then 1 else 0)"
  using assms by (auto simp: increment_article_def checked_succ_def article_row_def split: if_splits)

lemma add_visitor_simps [simp]:
  "db_totals (add_visitor db t v) = db_totals db" "db_articles (add_visitor db t v) = db_articles db"
  "distinct (db_visitors db) \<Longrightarrow> distinct (db_visitors (add_visitor db t v))"
  "set (db_visitors (add_visitor db t v)) = insert (t, v) (set (db_visitors db))"
  by (auto simp: add_visitor_def)

lemma record_one_represents:
  assumes "record_one hmac secret db e = Inr db'" "represents (visitor_hash hmac secret) h db"
  shows "represents (visitor_hash hmac secret) (h @ [e]) db'"
proof -
  obtain db1 db2 where one: "increment_target db (ve_target e) (ve_source e) = Inr db1"
    "increment_article db1 (ve_target e) (ve_article e) (ve_source e) = Inr db2"
    and db': "db' = add_visitor db2 (ve_target e) (visitor_hash hmac secret (ve_target e) (ve_ip e))"
    using assms(1) by (auto simp: record_one_def result_simps)
  note t = increment_target_Inr [OF one(1)] and a = increment_article_Inr [OF one(2)]
  have rows: "article_row db1 u src b = article_row db u src b" "article_row db' u src b = article_row db2 u src b" for u src b
    by (simp_all add: article_row_def t(1) db')
  have totals: "(case db_totals db' u of None \<Rightarrow> (0, 0) | Some p \<Rightarrow> p)
      = (int (count_target u Terminal_read_session (h @ [e])), int (count_target u Static_request (h @ [e])))" for u
    using assms(2) t(3) [of u] by (cases "ve_source e") (auto simp: represents_def count_single db' a(1) Let_def)
  have articles: "article_row db' u src b = int (count_article u b src (h @ [e]))" for u src b
    using assms(2) a(3) [of u src b] by (auto simp: represents_def count_single rows)
  have "distinct (db_visitors db')" "set (db_visitors db') = {(u, v). v \<in> visitors (visitor_hash hmac secret) u (h @ [e])}"
    using assms(2) by (auto simp: represents_def count_single db' a(2) t(2) split: if_splits)
  with totals articles show ?thesis
    unfolding represents_def by blast
qed

lemma record_loop_represents:
  "record_loop hmac secret io i db es = Inr db' \<Longrightarrow> represents (visitor_hash hmac secret) h db
    \<Longrightarrow> represents (visitor_hash hmac secret) (h @ es) db'"
proof (induction es arbitrary: i db h)
  case (Cons e es)
  from Cons.prems(1) obtain db1 where one: "record_one hmac secret db e = Inr db1"
    "record_loop hmac secret io (i + 1) db1 es = Inr db'"
    by (auto simp: result_simps split: option.splits if_splits)
  from Cons.IH [OF one(2) record_one_represents [OF one(1) Cons.prems(2)]] show ?case by simp
qed simp

end
