(* ===== verification/Stats_Server.thy ===== *)
theory Stats_Server
  imports Stats_Store Rust_Std Link
begin

text \<open>
  How statd starts and answers: \<open>Store::init\<close> and \<open>Store::open\<close> of
  \<^verbatim>\<open>crates/servers/statd/src/store.rs\<close> over the metadata of the data directory and what
  SQLite reports about the database file, the dispatch of \<^verbatim>\<open>server.rs\<close>, the checks of
  \<^verbatim>\<open>client.rs\<close>.
\<close>

section \<open>The data directory\<close>

definition DATABASE_FILE :: string where "DATABASE_FILE = ''stats.sqlite3''"
definition SECRET_FILE :: string where "SECRET_FILE = ''secret''"
definition SECRET_LEN :: nat where "SECRET_LEN = 32"
definition SCHEMA_VERSION :: int where "SCHEMA_VERSION = 1"

text \<open>What the queries of \<open>validate_database\<close> see of a database file: the version, the verdict
  of the integrity check, the tables with their columns; and the rows.\<close>

record sqlite_file =
  sq_version :: int
  sq_integrity :: string
  sq_tables :: "(string \<times> string list) list"
  sq_rows :: database

text \<open>An empty file is an empty database.\<close>

definition new_sqlite_file :: sqlite_file where
  "new_sqlite_file = \<lparr>sq_version = 0, sq_integrity = ''ok'', sq_tables = [], sq_rows = empty_db\<rparr>"

definition schema :: "(string \<times> string list) list" where
  "schema =
     [(''target_totals'', [''target'', ''terminal_read_sessions'', ''static_requests'']),
      (''article_totals'', [''target'', ''article'', ''source'', ''total'']),
      (''target_visitors'', [''target'', ''visitor_hash''])]"

definition create_schema :: "sqlite_file \<Rightarrow> sqlite_file" where
  "create_schema f = f\<lparr>sq_version := 1, sq_tables := schema @ sq_tables f\<rparr>"

record stat_dir =
  sdir_files :: store_dir
  sdir_db :: sqlite_file

record stat_store =
  stt_db :: database
  stt_secret :: bytes

datatype stat_open_error = Sd_missing | Sd_not_real | Sd_not_empty | Sd_owner_mode | Sf_missing string
  | Sf_owner_mode string | Bad_secret | Bad_version int | Bad_integrity string | Missing_table string
  | Bad_schema string | Open_failed nat

unbundle bit_operations_syntax

definition validate_root_dir :: "store_dir \<Rightarrow> stat_open_error + unit" where
  "validate_root_dir dir =
     (case sd_meta dir of
        None \<Rightarrow> Inl Sd_missing
      | Some md \<Rightarrow>
          if \<not> fm_is_dir md \<or> fm_is_symlink md then Inl Sd_not_real
          else if fm_uid md \<noteq> 0 \<or> fm_gid md \<noteq> 0 \<or> fm_mode md AND 0xFFF \<noteq> 0x1C0 then Inl Sd_owner_mode
          else Inr ())"

definition validate_root_file :: "store_dir \<Rightarrow> string \<Rightarrow> stat_open_error + unit" where
  "validate_root_file dir name =
     (case map_of (sd_files dir) name of
        None \<Rightarrow> Inl (Sf_missing name)
      | Some (md, _) \<Rightarrow>
          if \<not> fm_is_file md \<or> fm_is_symlink md \<or> fm_uid md \<noteq> 0 \<or> fm_gid md \<noteq> 0
             \<or> fm_mode md AND 0xFFF \<noteq> 0x180
          then Inl (Sf_owner_mode name)
          else Inr ())"

definition has_table :: "sqlite_file \<Rightarrow> string \<Rightarrow> stat_open_error + unit" where
  "has_table f name =
     ensure (length (filter (\<lambda>t. fst t = name) (sq_tables f)) = 1) (Missing_table name)"

text \<open>Preparing \<open>SELECT columns FROM table\<close> succeeds when the table has the columns.\<close>

definition has_columns :: "sqlite_file \<Rightarrow> string \<times> string list \<Rightarrow> stat_open_error + unit" where
  "has_columns f q =
     (case map_of (sq_tables f) (fst q) of
        None \<Rightarrow> Inl (Bad_schema (fst q))
      | Some columns \<Rightarrow> ensure (set (snd q) \<subseteq> set columns) (Bad_schema (fst q)))"

definition validate_database :: "sqlite_file \<Rightarrow> stat_open_error + unit" where
  "validate_database f =
     (if sq_version f \<noteq> SCHEMA_VERSION then Inl (Bad_version (sq_version f))
      else if sq_integrity f \<noteq> ''ok'' then Inl (Bad_integrity (sq_integrity f))
      else and_then (try_each (has_table f) (map fst schema)) (\<lambda>_. try_each (has_columns f) schema))"

text \<open>\<open>opens\<close>: the error of \<open>open_connection\<close>, if any.\<close>

definition open_stats :: "nat option \<Rightarrow> stat_dir \<Rightarrow> stat_open_error + stat_store" where
  "open_stats opens d =
     and_then (validate_root_dir (sdir_files d)) (\<lambda>_.
     and_then (validate_root_file (sdir_files d) SECRET_FILE) (\<lambda>_.
     and_then (validate_root_file (sdir_files d) DATABASE_FILE) (\<lambda>_.
     and_then (ensure (length (file_bytes (sdir_files d) SECRET_FILE) = SECRET_LEN) Bad_secret) (\<lambda>_.
     case opens of
       Some c \<Rightarrow> Inl (Open_failed c)
     | None \<Rightarrow>
         and_then (validate_database (sdir_db d)) (\<lambda>_.
           Inr \<lparr>stt_db = sq_rows (sdir_db d), stt_secret = file_bytes (sdir_files d) SECRET_FILE\<rparr>)))))"

definition prepare_empty_root_dir :: "u32 \<Rightarrow> store_dir \<Rightarrow> stat_open_error + store_dir" where
  "prepare_empty_root_dir parent_gid dir =
     and_then
       (case sd_meta dir of
          None \<Rightarrow> Inr \<lparr>sd_meta = Some (root_meta parent_gid 0x1C0 True), sd_files = []\<rparr>
        | Some md \<Rightarrow>
            if \<not> fm_is_dir md \<or> fm_is_symlink md then Inl Sd_not_real
            else if sd_files dir \<noteq> [] then Inl Sd_not_empty
            else Inr (dir\<lparr>sd_meta := Some (md\<lparr>fm_mode := 0x1C0\<rparr>)\<rparr>)) (\<lambda>dir.
     and_then (validate_root_dir dir) (\<lambda>_. Inr dir))"

definition add_file :: "string \<Rightarrow> bytes \<Rightarrow> store_dir \<Rightarrow> store_dir" where
  "add_file name b dir =
     dir\<lparr>sd_files := (name, root_meta (case sd_meta dir of None \<Rightarrow> 0 | Some md \<Rightarrow> fm_gid md) 0x180 False, b)
                     # sd_files dir\<rparr>"

text \<open>The writes of \<open>init\<close>, in order: the secret, the empty database file, the schema, which is
  one transaction.  A crash leaves a prefix of them.\<close>

definition init_steps :: "bytes \<Rightarrow> (stat_dir \<Rightarrow> stat_dir) list" where
  "init_steps secret =
     [\<lambda>d. d\<lparr>sdir_files := add_file SECRET_FILE secret (sdir_files d)\<rparr>,
      \<lambda>d. d\<lparr>sdir_files := add_file DATABASE_FILE [] (sdir_files d), sdir_db := new_sqlite_file\<rparr>,
      \<lambda>d. d\<lparr>sdir_db := create_schema (sdir_db d)\<rparr>]"

definition init_stats :: "bytes \<Rightarrow> nat \<Rightarrow> u32 \<Rightarrow> stat_dir \<Rightarrow> stat_open_error + stat_dir" where
  "init_stats secret done_steps parent_gid d =
     and_then (prepare_empty_root_dir parent_gid (sdir_files d)) (\<lambda>files.
       Inr (fold (\<lambda>f d. f d) (take done_steps (init_steps secret)) (d\<lparr>sdir_files := files\<rparr>)))"

section \<open>The server\<close>

definition RECORD_BATCH :: u8 where "RECORD_BATCH = 1"
definition SNAPSHOT :: u8 where "SNAPSHOT = 2"

record stat_json =
  j_record_batch :: "bytes \<Rightarrow> string + record_event list"
  j_snapshot :: "bytes \<Rightarrow> string + snapshot_target_request list"
  j_stat_error :: "stat_error \<Rightarrow> string"

datatype stat_response = S_record record_batch_response | S_snapshot snapshot_response | S_error string

definition record_failed :: "string \<Rightarrow> record_batch_response" where
  "record_failed e = \<lparr>rb_ok = False, rb_accepted = 0, rb_error = Some e\<rparr>"

definition snapshot_failed :: "string \<Rightarrow> snapshot_response" where
  "snapshot_failed e = \<lparr>ss_ok = False, ss_snapshot_at = [], ss_targets = [], ss_error = Some e\<rparr>"

text \<open>\<open>handle\<close>: one request, one answer of the same kind; the store is locked meanwhile.\<close>

definition stat_answer ::
  "(bytes \<Rightarrow> bytes \<Rightarrow> bytes) \<Rightarrow> stat_json \<Rightarrow> string \<Rightarrow> db_io \<Rightarrow> stat_store \<Rightarrow> frame
     \<Rightarrow> stat_response \<times> stat_store"
where
  "stat_answer hmac j now io s f =
     (if fr_kind f = RECORD_BATCH
      then (case frame_parse (j_record_batch j) f of
              Inl e \<Rightarrow> (S_record (record_failed (''invalid request JSON: '' @ e)), s)
            | Inr request \<Rightarrow>
                (case record_batch hmac (stt_secret s) io (stt_db s) request of
                   (Inl e, db) \<Rightarrow> (S_record (record_failed (j_stat_error j e)), s\<lparr>stt_db := db\<rparr>)
                 | (Inr n, db) \<Rightarrow> (S_record \<lparr>rb_ok = True, rb_accepted = n, rb_error = None\<rparr>, s\<lparr>stt_db := db\<rparr>)))
      else if fr_kind f = SNAPSHOT
      then (case frame_parse (j_snapshot j) f of
              Inl e \<Rightarrow> (S_snapshot (snapshot_failed (''invalid request JSON: '' @ e)), s)
            | Inr request \<Rightarrow>
                (case snapshot now io (stt_db s) request of
                   Inl e \<Rightarrow> (S_snapshot (snapshot_failed (j_stat_error j e)), s)
                 | Inr r \<Rightarrow> (S_snapshot r, s)))
      else (S_error (''unknown statd request kind '' @ show_nat (unat (fr_kind f))), s))"

definition stat_handle ::
  "(bytes \<Rightarrow> bytes \<Rightarrow> bytes) \<Rightarrow> stat_json \<Rightarrow> string \<Rightarrow> db_io \<Rightarrow> stat_store \<Rightarrow> 'e + frame
     \<Rightarrow> (u8 \<times> stat_response) option \<times> stat_store"
where
  "stat_handle hmac j now io s received =
     (case received of
        Inl _ \<Rightarrow> (None, s)
      | Inr f \<Rightarrow> (case stat_answer hmac j now io s f of (r, s') \<Rightarrow> (Some (fr_kind f, r), s')))"

record socket_meta =
  sk_socket :: bool
  sk_symlink :: bool
  sk_uid :: u32

text \<open>\<open>prepare_socket\<close>: \<open>found\<close> is the result of \<open>symlink_metadata\<close>, \<open>Inr None\<close> when the path
  does not exist; \<open>Inr True\<close> when the old socket is removed.\<close>

definition prepare_stat_socket :: "string + socket_meta option \<Rightarrow> string + bool" where
  "prepare_stat_socket found =
     (case found of
        Inr (Some md) \<Rightarrow>
          if \<not> sk_socket md \<or> sk_symlink md \<or> sk_uid md \<noteq> 0 then Inl ''refusing to replace non-root socket''
          else Inr True
      | Inr None \<Rightarrow> Inr False
      | Inl e \<Rightarrow> Inl e)"

section \<open>The client\<close>

text \<open>The exchange of \<open>request\<close>: \<open>answered\<close> is what \<open>connect\<close>, \<open>send\<close> and \<open>recv\<close> come to, \<open>None\<close> when
  the timeout passes first.\<close>

definition stat_request :: "(bytes \<Rightarrow> string + 'r) \<Rightarrow> u8 \<Rightarrow> (string + frame) option \<Rightarrow> string + 'r" where
  "stat_request parse kind answered =
     (case answered of
        None \<Rightarrow> Inl ''statd request timed out''
      | Some (Inl e) \<Rightarrow> Inl e
      | Some (Inr f) \<Rightarrow>
          if fr_kind f \<noteq> kind then Inl ''statd response kind mismatch''
          else frame_parse parse f)"

definition unknown_error :: "string option \<Rightarrow> string" where
  "unknown_error e = (case e of None \<Rightarrow> ''unknown error'' | Some e \<Rightarrow> e)"

definition client_record_batch ::
  "(bytes \<Rightarrow> string + record_batch_response) \<Rightarrow> (string + frame) option \<Rightarrow> string + nat"
where
  "client_record_batch parse answered =
     and_then (stat_request parse RECORD_BATCH answered) (\<lambda>r.
       if \<not> rb_ok r then Inl (''statd record failed: '' @ unknown_error (rb_error r))
       else Inr (rb_accepted r))"

definition client_snapshot ::
  "(bytes \<Rightarrow> string + snapshot_response) \<Rightarrow> (string + frame) option \<Rightarrow> string + snapshot_response"
where
  "client_snapshot parse answered =
     and_then (stat_request parse SNAPSHOT answered) (\<lambda>r.
       if \<not> ss_ok r then Inl (''statd snapshot failed: '' @ unknown_error (ss_error r))
       else Inr r)"

end
