(* ===== verification/Stats_Facts.thy ===== *)
theory Stats_Facts
  imports Stats_Server
begin

text \<open>
  What the store of statd keeps: the batches it has accepted, counted (an interpretation of
  \<open>event_store\<close>); which requests pass its checks; what a snapshot reads out of the tables.
\<close>

section \<open>Batches\<close>

definition enter_batch ::
  "(bytes \<Rightarrow> bytes \<Rightarrow> bytes) \<Rightarrow> bytes \<Rightarrow> database \<Rightarrow> db_io \<times> record_event list \<Rightarrow> (stat_error + nat) \<times> database"
where
  "enter_batch hmac secret db r = record_batch hmac secret (fst r) db (snd r)"

definition batch_events :: "db_io \<times> record_event list \<Rightarrow> valid_event list" where
  "batch_events r = (case try_map validate_event (snd r) of Inl _ \<Rightarrow> [] | Inr es \<Rightarrow> es)"

lemma record_batch_Inr:
  "record_batch hmac secret io db request = (Inr n, db') \<longleftrightarrow>
     request \<noteq> [] \<and> length request \<le> MAX_BATCH_EVENTS \<and> n = length request \<and> io_begin io = None \<and> io_commit io = None
     \<and> (\<exists>es. try_map validate_event request = Inr es \<and> record_loop hmac secret io 0 db es = Inr db')"
  by (auto simp: record_batch_def dest: try_map_length split: sum.splits option.splits)

lemma record_batch_Inl: "record_batch hmac secret io db request = (Inl e, db') \<Longrightarrow> db' = db"
  by (auto simp: record_batch_def split: if_splits sum.splits option.splits)

interpretation stats: event_store "represents (visitor_hash hmac secret)" "enter_batch hmac secret" batch_events
  for hmac secret
proof unfold_locales
  fix h db r n db'
  assume "represents (visitor_hash hmac secret) h db" "enter_batch hmac secret db r = (Inr n, db')"
  then show "represents (visitor_hash hmac secret) (h @ batch_events r) db'"
    by (auto simp: enter_batch_def record_batch_Inr batch_events_def intro: record_loop_represents)
qed (auto simp: enter_batch_def dest: record_batch_Inl)

text \<open>Away from the limit of \<open>i64\<close> no counter stops a batch.\<close>

lemma count_target_le: "count_target t src h \<le> length h"
  by (simp add: count_target_def)

lemma increment_target_ok:
  assumes "represents hash h db" "length h + 1 < 2 ^ 63"
  shows "\<exists>db'. increment_target db t src = Inr db'"
proof -
  have "count_target t src' h + 1 < 2 ^ 63" for src'
    using count_target_le [of t src' h] assms(2) by simp
  then have "int (count_target t src' h) + 1 < 2 ^ 63" for src'
    by (metis (mono_tags) of_nat_1 of_nat_add of_nat_less_iff of_nat_numeral of_nat_power)
  then show ?thesis
    using assms(1) unfolding increment_target_def represents_def Let_def
    by (cases src) (auto simp: checked_succ_def)
qed

lemma increment_article_ok:
  assumes "article_row db t src a = int (count_article t a src h)" "length h + 1 < 2 ^ 63"
  shows "\<exists>db'. increment_article db t a src = Inr db'"
proof -
  have "count_article t a src h + 1 < 2 ^ 63"
    using count_target_le [of t src h] count_article_le [of t a src h] assms(2) by simp
  then have "int (count_article t a src h) + 1 < 2 ^ 63"
    by (metis (mono_tags) of_nat_1 of_nat_add of_nat_less_iff of_nat_numeral of_nat_power)
  then show ?thesis
    using assms(1) by (auto simp: increment_article_def checked_succ_def article_row_def)
qed

lemma record_one_ok:
  assumes "represents (visitor_hash hmac secret) h db" "length h + 1 < 2 ^ 63"
  shows "\<exists>db'. record_one hmac secret db e = Inr db'"
proof -
  obtain db1 where db1: "increment_target db (ve_target e) (ve_source e) = Inr db1"
    using increment_target_ok [OF assms] by blast
  have "article_row db1 (ve_target e) (ve_source e) (ve_article e)
      = int (count_article (ve_target e) (ve_article e) (ve_source e) h)"
    using assms(1) increment_target_Inr(1) [OF db1] by (simp add: represents_def article_row_def)
  from increment_article_ok [OF this assms(2)] db1 show ?thesis
    by (auto simp: record_one_def)
qed

lemma record_loop_ok:
  "represents (visitor_hash hmac secret) h db \<Longrightarrow> length h + length es < 2 ^ 63 \<Longrightarrow> io_statement io = None
    \<Longrightarrow> \<exists>db'. record_loop hmac secret io i db es = Inr db'"
proof (induction es arbitrary: i db h)
  case (Cons e es)
  obtain db1 where db1: "record_one hmac secret db e = Inr db1"
    using record_one_ok [OF Cons.prems(1)] Cons.prems(2) by fastforce
  have "length (h @ [e]) + length es < 2 ^ 63"
    using Cons.prems(2) by simp
  from Cons.IH [OF record_one_represents [OF db1 Cons.prems(1)] this Cons.prems(3)] db1 Cons.prems(3)
  show ?case by simp
qed simp

text \<open>With a working SQLite nothing but the checks refuses a batch.\<close>

definition quiet :: db_io where
  "quiet = \<lparr>io_begin = None, io_statement = None, io_commit = None\<rparr>"

lemma record_batch_accepts:
  assumes "represents (visitor_hash hmac secret) h db" "length h + 256 < 2 ^ 63"
    "request \<noteq> []" "length request \<le> 256" "list_all (\<lambda>e. \<not> isl (validate_event e)) request"
  shows "\<exists>db'. record_batch hmac secret quiet db request = (Inr (length request), db')"
proof -
  have "try_map validate_event request = Inr (map (projr \<circ> validate_event) request)"
    using assms(5) by (intro try_map_all_Inr) (auto simp: list_all_iff isl_def)
  moreover obtain db'' where "record_loop hmac secret quiet 0 db (map (projr \<circ> validate_event) request) = Inr db''"
    using record_loop_ok [OF assms(1), of "map (projr \<circ> validate_event) request" quiet 0] assms(2,4)
    by (auto simp: quiet_def)
  ultimately show ?thesis
    using assms(3,4) by (simp add: record_batch_def MAX_BATCH_EVENTS_def quiet_def)
qed

section \<open>Which snapshot requests are accepted\<close>

definition snapshot_key_ok :: "content_scope \<Rightarrow> string \<Rightarrow> bool" where
  "snapshot_key_ok scope key \<longleftrightarrow>
     key \<noteq> [] \<and> length key \<le> MAX_ARTICLE_KEY_LEN
     \<and> (\<exists>a. article_parse (key @ ''.md'') = Inr a \<and> ap_key a = key \<and> contains_article scope a)"

definition snapshot_target_ok :: "snapshot_target_request \<Rightarrow> bool" where
  "snapshot_target_ok t \<longleftrightarrow>
     (\<exists>scope. scope_from_target (tr_target t) = Inr scope \<and> list_all (snapshot_key_ok scope) (tr_articles t))
     \<and> distinct (tr_articles t)"

definition sort_articles :: "snapshot_target_request \<Rightarrow> snapshot_target_request" where
  "sort_articles t = t\<lparr>tr_articles := sort (tr_articles t)\<rparr>"

lemma lift_path_Inr [simp]: "lift_path r = Inr a \<longleftrightarrow> r = Inr a"
  by (simp add: lift_path_def split: sum.splits)

lemma sort_articles_simps [simp]:
  "tr_target (sort_articles t) = tr_target t" "tr_articles (sort_articles t) = sort (tr_articles t)"
  by (simp_all add: sort_articles_def)

lemma snapshot_articles_Inr:
  "snapshot_articles scope t seen n keys = Inr m \<longleftrightarrow>
     m = n + length keys \<and> (keys = [] \<or> n + length keys \<le> MAX_SNAPSHOT_ARTICLES)
     \<and> list_all (snapshot_key_ok scope) keys \<and> distinct keys \<and> set keys \<inter> seen = {}"
proof (induction keys arbitrary: seen n)
  case (Cons key keys)
  show ?case
  proof (cases "n + 1 \<le> MAX_SNAPSHOT_ARTICLES \<and> snapshot_key_ok scope key \<and> key \<notin> seen")
    case True
    then have "snapshot_articles scope t seen n (key # keys) = snapshot_articles scope t (insert key seen) (n + 1) keys"
      by (auto simp: snapshot_key_ok_def lift_path_def)
    with True Cons.IH [of "insert key seen" "n + 1"] show ?thesis by auto
  next
    case False
    then have "snapshot_articles scope t seen n (key # keys) \<noteq> Inr m"
      by (auto simp: snapshot_key_ok_def result_simps split: if_splits)
    with False show ?thesis by auto
  qed
qed auto

lemma snapshot_targets_Inr:
  "n \<le> MAX_SNAPSHOT_ARTICLES \<Longrightarrow>
   snapshot_targets seen n ts = Inr out \<longleftrightarrow>
     out = map sort_articles ts \<and> list_all snapshot_target_ok ts \<and> distinct (map tr_target ts)
     \<and> tr_target ` set ts \<inter> seen = {}
     \<and> n + sum_list (map (length \<circ> tr_articles) ts) \<le> MAX_SNAPSHOT_ARTICLES"
proof (induction ts arbitrary: seen n out)
  case (Cons t ts)
  let ?m = "n + length (tr_articles t)"
  show ?case
  proof (cases "snapshot_target_ok t \<and> tr_target t \<notin> seen \<and> ?m \<le> MAX_SNAPSHOT_ARTICLES")
    case True
    then obtain scope where "scope_from_target (tr_target t) = Inr scope"
      "snapshot_articles scope (tr_target t) {} n (tr_articles t) = Inr ?m"
      by (auto simp: snapshot_target_ok_def snapshot_articles_Inr)
    with True have "snapshot_targets seen n (t # ts) =
        and_then (snapshot_targets (insert (tr_target t) seen) ?m ts) (\<lambda>ts. Inr (sort_articles t # ts))"
      by (simp add: lift_path_def sort_articles_def)
    with True Cons.IH [of ?m "insert (tr_target t) seen"] show ?thesis
      by (auto simp: result_simps add.assoc)
  next
    case False
    then have "snapshot_targets seen n (t # ts) \<noteq> Inr out"
      using Cons.prems by (auto simp: snapshot_target_ok_def result_simps snapshot_articles_Inr split: if_splits)
    moreover have "sum_list (map (length \<circ> tr_articles) (t # ts)) \<ge> length (tr_articles t)"
      by simp
    ultimately show ?thesis using False by auto
  qed
qed auto

lemma validate_snapshot_request_Inr:
  "validate_snapshot_request request = Inr out \<longleftrightarrow>
     length request \<le> MAX_SNAPSHOT_TARGETS \<and> list_all snapshot_target_ok request \<and> distinct (map tr_target request)
     \<and> sum_list (map (length \<circ> tr_articles) request) \<le> MAX_SNAPSHOT_ARTICLES
     \<and> out = sort_key tr_target (map sort_articles request)"
  by (auto simp: validate_snapshot_request_def result_simps snapshot_targets_Inr)

section \<open>What a snapshot reads\<close>

definition article_view :: "string \<Rightarrow> valid_event list \<Rightarrow> string \<Rightarrow> article_snapshot" where
  "article_view t h a =
     \<lparr>as_article = a, as_terminal_read_sessions = of_nat (count_article t a Terminal_read_session h),
      as_static_requests = of_nat (count_article t a Static_request h)\<rparr>"

definition target_view :: "(string \<Rightarrow> string \<Rightarrow> bytes) \<Rightarrow> valid_event list \<Rightarrow> snapshot_target_request \<Rightarrow> target_snapshot"
where
  "target_view hash h t =
     \<lparr>ts_target = tr_target t,
      ts_terminal_read_sessions_total = of_nat (count_target (tr_target t) Terminal_read_session h),
      ts_static_requests_total = of_nat (count_target (tr_target t) Static_request h),
      ts_unique_visitors_approx = of_nat (card (visitors hash (tr_target t) h)),
      ts_articles = map (article_view (tr_target t) h) (tr_articles t)\<rparr>"

lemma finite_visitors [simp]: "finite (visitors hash t h)"
  by (simp add: visitors_def)

lemma card_visitors_le: "card (visitors hash t h) \<le> count_target t Terminal_read_session h + count_target t Static_request h"
proof -
  have "card (visitors hash t h) \<le> card {e \<in> set h. ve_target e = t}"
    unfolding visitors_def by (rule card_image_le) simp
  also have "{e \<in> set h. ve_target e = t} = set (filter (\<lambda>e. ve_target e = t) h)"
    by auto
  also have "card \<dots> \<le> length (filter (\<lambda>e. ve_target e = t) h)"
    by (rule card_length)
  also have "\<dots> = count_target t Terminal_read_session h + count_target t Static_request h"
    unfolding count_target_def by (induction h) (auto, metis source.exhaust)
  finally show ?thesis .
qed

text \<open>The rows of a target in the table of the visitors are as many as its visitors.\<close>

lemma count_visitors:
  assumes "represents hash h db"
  shows "length (filter (\<lambda>v. fst v = t) (db_visitors db)) = card (visitors hash t h)"
proof -
  have "length (filter (\<lambda>v. fst v = t) (db_visitors db)) = card (set (filter (\<lambda>v. fst v = t) (db_visitors db)))"
    using assms by (intro distinct_card [symmetric]) (simp add: represents_def)
  also have "set (filter (\<lambda>v. fst v = t) (db_visitors db)) = Pair t ` visitors hash t h"
    using assms by (auto simp: represents_def)
  also have "card \<dots> = card (visitors hash t h)"
    by (rule card_image) (simp add: inj_on_def)
  finally show ?thesis .
qed

lemma as_u64_count [simp]: "as_u64 (int n) = Inr (of_nat n)"
  by (simp add: as_u64_def)

lemma snapshot_target_view:
  assumes "represents hash h db"
  shows "snapshot_target db t = Inr (target_view hash h t)"
proof -
  have article: "snapshot_article db (tr_target t) a = Inr (article_view (tr_target t) h a)" for a
    using assms by (simp add: represents_def snapshot_article_def article_view_def)
  have "try_map (snapshot_article db (tr_target t)) (tr_articles t) = Inr (map (article_view (tr_target t) h) (tr_articles t))"
    by (rule try_map_all_Inr) (rule article)
  moreover have "(case db_totals db (tr_target t) of None \<Rightarrow> (0, 0) | Some p \<Rightarrow> p)
      = (int (count_target (tr_target t) Terminal_read_session h), int (count_target (tr_target t) Static_request h))"
    using assms by (simp add: represents_def)
  ultimately show ?thesis
    by (simp add: snapshot_target_def target_view_def count_visitors [OF assms] Let_def)
qed

lemma snapshot_loop_view:
  "represents hash h db \<Longrightarrow> io_statement io = None \<Longrightarrow> snapshot_loop io i db ts = Inr (map (target_view hash h) ts)"
  by (induction ts arbitrary: i) (simp_all add: snapshot_target_view)

text \<open>Whatever SQLite answers, an answer that is given is this one.\<close>

lemma snapshot_loop_Inr:
  "represents hash h db \<Longrightarrow> snapshot_loop io i db ts = Inr out \<Longrightarrow> out = map (target_view hash h) ts"
  by (induction ts arbitrary: i out)
    (auto simp: snapshot_target_view result_simps split: option.splits if_splits)

lemma snapshot_Inr:
  assumes "represents hash h db" "snapshot now io db request = Inr r"
  shows "ss_targets r = map (target_view hash h) (sort_key tr_target (map sort_articles request))"
    "distinct (map tr_target request)" "list_all snapshot_target_ok request"
proof -
  obtain targets where targets: "validate_snapshot_request request = Inr targets"
    and r: "snapshot_loop io 0 db targets = Inr (ss_targets r)"
    using assms(2) by (auto simp: snapshot_def result_simps split: option.splits)
  from snapshot_loop_Inr [OF assms(1) r] targets
  show "ss_targets r = map (target_view hash h) (sort_key tr_target (map sort_articles request))"
    "distinct (map tr_target request)" "list_all snapshot_target_ok request"
    by (simp_all add: validate_snapshot_request_Inr)
qed

text \<open>The articles of a request are distinct, so their counts add up to at most the target's.\<close>

lemma sum_articles_le:
  "distinct as \<Longrightarrow> sum_list (map (\<lambda>a. count_article t a src h) as) \<le> count_target t src h"
proof (induction h)
  case (Cons e h)
  have split: "count_article t a src (e # h) = count_article t a src [e] + count_article t a src h" for a
    using count_simps(5) [of t a src "[e]" h] by simp
  have target: "count_target t src (e # h) = count_target t src [e] + count_target t src h"
    using count_simps(4) [of t src "[e]" h] by simp
  have "sum_list (map (\<lambda>a. count_article t a src [e]) as) \<le> count_target t src [e]"
    using Cons.prems
    by (induction as) (auto simp: count_single split: if_splits)
  moreover have "sum_list (map (\<lambda>a. count_article t a src (e # h)) as)
      = sum_list (map (\<lambda>a. count_article t a src [e]) as) + sum_list (map (\<lambda>a. count_article t a src h) as)"
    by (simp add: split sum_list_addf)
  ultimately show ?case
    using Cons by (simp add: target)
qed (simp add: sum_list_triv)

section \<open>Initialisation\<close>

lemma prepared_dir:
  assumes "prepare_empty_root_dir gid files = Inr files'"
  shows "sd_files files' = []" "validate_root_dir files' = Inr ()"
  using assms by (auto simp: prepare_empty_root_dir_def result_simps split: option.splits if_splits)

lemma validate_root_dir_Inr:
  "validate_root_dir files = Inr () \<longleftrightarrow> (\<exists>md. sd_meta files = Some md \<and> fm_is_dir md \<and> \<not> fm_is_symlink md
     \<and> fm_uid md = 0 \<and> fm_gid md = 0 \<and> fm_mode md AND 0xFFF = 0x1C0)"
  by (auto simp: validate_root_dir_def split: option.splits)

lemma file_names: "SECRET_FILE \<noteq> DATABASE_FILE" "DATABASE_FILE \<noteq> SECRET_FILE"
  by (simp_all add: SECRET_FILE_def DATABASE_FILE_def)

lemma schema_valid: "validate_database (create_schema new_sqlite_file) = Inr ()"
  by code_simp

theorem init_stats_crash_safe:
  assumes "init_stats secret n gid d = Inr d'" "length secret = 32"
  shows "if 3 \<le> n then open_stats None d' = Inr \<lparr>stt_db = empty_db, stt_secret = secret\<rparr>
    else isl (open_stats opens d')"
proof -
  obtain files where files: "prepare_empty_root_dir gid (sdir_files d) = Inr files"
    and d': "d' = fold (\<lambda>f d. f d) (take n (init_steps secret)) (d\<lparr>sdir_files := files\<rparr>)"
    using assms(1) by (auto simp: init_stats_def result_simps)
  note prepared = prepared_dir [OF files]
  from prepared(2) obtain md where md: "sd_meta files = Some md" "fm_gid md = 0"
    by (auto simp: validate_root_dir_Inr)
  have dir: "validate_root_dir (sdir_files d') = Inr ()"
    using prepared(2) d' by (auto simp: validate_root_dir_Inr init_steps_def add_file_def take_Cons split: nat.splits)
  have cases: "n = 0 \<or> n = 1 \<or> n = 2 \<or> 3 \<le> n" by linarith
  show ?thesis
  proof (cases "3 \<le> n")
    case True
    then have d'': "d' = d\<lparr>sdir_files := add_file DATABASE_FILE [] (add_file SECRET_FILE secret files),
        sdir_db := create_schema new_sqlite_file\<rparr>"
      by (simp add: d' init_steps_def)
    have "validate_root_file (sdir_files d') SECRET_FILE = Inr ()" "validate_root_file (sdir_files d') DATABASE_FILE = Inr ()"
      "file_bytes (sdir_files d') SECRET_FILE = secret"
      by (simp_all add: d'' validate_root_file_def add_file_def root_meta_def file_names file_bytes_def md)
    moreover have "sq_rows (sdir_db d') = empty_db" "validate_database (sdir_db d') = Inr ()"
      using schema_valid by (simp_all add: d'' create_schema_def new_sqlite_file_def)
    ultimately show ?thesis
      using True dir assms(2) by (simp add: open_stats_def SECRET_LEN_def)
  next
    case False
    have "open_stats opens d' \<noteq> Inr s" for s
      using cases False
      by (elim disjE) (auto simp: d' init_steps_def open_stats_def validate_root_file_def add_file_def prepared(1)
          file_names validate_database_def new_sqlite_file_def SCHEMA_VERSION_def result_simps split: option.splits)
    then have "isl (open_stats opens d')"
      by (cases "open_stats opens d'") auto
    with False show ?thesis by simp
  qed
qed

end
