(* ===== verification/Stats_Properties.thy ===== *)
theory Stats_Properties
  imports Stats_Facts "HOL-Library.Code_Target_Nat"
begin

text \<open>
  The properties of statd: its tables count exactly the events of the batches it accepted, a
  snapshot reports these counts, a reader behind an IPv4-mapped address is one visitor, and an
  interrupted initialisation leaves a directory that does not open.
\<close>

section \<open>A sample\<close>

definition sample_hmac :: "bytes \<Rightarrow> bytes \<Rightarrow> bytes" where
  "sample_hmac k m = take 32 (m @ k)"

definition sample_event :: "source \<Rightarrow> string \<Rightarrow> string \<Rightarrow> record_event" where
  "sample_event s a ip = \<lparr>re_source = s, re_target = ''/notes/'', re_article = a, re_ip = ip\<rparr>"

definition sample_batch :: "record_event list" where
  "sample_batch = [sample_event Static_request ''notes/a'' ''::ffff:1.2.3.4'',
     sample_event Static_request ''notes/a'' ''1.2.3.4'', sample_event Terminal_read_session ''notes/b'' ''::1'']"

definition sample_db :: database where
  "sample_db = snd (record_batch sample_hmac (replicate 32 7) quiet empty_db sample_batch)"

definition sample_history :: "valid_event list" where
  "sample_history = batch_events (quiet, sample_batch)"

lemma sample_represents: "represents (visitor_hash sample_hmac (replicate 32 7)) sample_history sample_db"
proof -
  have "fst (enter_batch sample_hmac (replicate 32 7) empty_db (quiet, sample_batch)) = Inr 3"
    by code_simp
  then have "enter_batch sample_hmac (replicate 32 7) empty_db (quiet, sample_batch) = (Inr 3, sample_db)"
    by (simp add: sample_db_def enter_batch_def prod_eq_iff)
  from stats.record_accepts [OF represents_empty this] show ?thesis
    by (simp add: sample_history_def)
qed

definition sample_request :: "snapshot_target_request list" where
  "sample_request = [\<lparr>tr_target = ''/notes/'', tr_articles = [''notes/b'', ''notes/a'']\<rparr>]"

section \<open>Recording\<close>

text \<open>C12: after any sequence of batches, whatever SQLite answered to each, the tables of the
  database count exactly the events of the accepted batches, in order: a batch counts as a whole
  or not at all.\<close>

theorem stats_represent_history:
  "represents (visitor_hash hmac secret)
     (concat (map batch_events (accepted_requests (enter_batch hmac secret) empty_db rs)))
     (after_requests (enter_batch hmac secret) empty_db rs)"
  using stats.represents_run [OF represents_empty, of hmac secret rs] by simp

text \<open>On a database of few enough events and with a working SQLite, a batch is accepted
  exactly when it has 1 to 256 events and each of them is valid, and the answer is its length; a
  refused batch changes nothing.\<close>

theorem record_batch_exact:
  assumes "represents (visitor_hash hmac secret) h db" "length h + 256 < 2 ^ 63"
    "record_batch hmac secret quiet db request = (r, db')"
  shows "(if request \<noteq> [] \<and> length request \<le> 256 \<and> list_all (\<lambda>e. \<not> isl (validate_event e)) request
          then r = Inr (length request) else isl r \<and> db' = db)"
proof (cases "request \<noteq> [] \<and> length request \<le> 256 \<and> list_all (\<lambda>e. \<not> isl (validate_event e)) request")
  case True
  with record_batch_accepts [OF assms(1,2)] assms(3) show ?thesis by fastforce
next
  case False
  have "\<not> isl r \<Longrightarrow> list_all (\<lambda>e. \<not> isl (validate_event e)) request \<and> request \<noteq> [] \<and> length request \<le> 256"
    using assms(3) by (cases r)
      (auto simp: record_batch_Inr try_map_Inr MAX_BATCH_EVENTS_def list_all_iff list_all2_conv_all_nth in_set_conv_nth)
  with False have "isl r" by blast
  with False record_batch_Inl assms(3) show ?thesis by (cases r) auto
qed

theorem record_batch_exact_witness:
  "fst (record_batch sample_hmac (replicate 32 7) quiet sample_db sample_batch) = Inr 3
   \<and> snd (record_batch sample_hmac (replicate 32 7) quiet sample_db []) = sample_db"
proof -
  have small: "length sample_history + 256 < 2 ^ 63" by code_simp
  note exact = record_batch_exact [OF sample_represents small prod.collapse [symmetric]]
  have "sample_batch \<noteq> [] \<and> length sample_batch \<le> 256 \<and> list_all (\<lambda>e. \<not> isl (validate_event e)) sample_batch"
    "length sample_batch = 3"
    by code_simp+
  with exact [of sample_batch] exact [of "[]"] show ?thesis by simp
qed

section \<open>Snapshots\<close>

text \<open>C13: a snapshot of a database that stands for a sequence of events is the view of these
  events: for a request that passes the checks, sorted by target and by article, the counts of
  each target, of each article and the number of visitors; otherwise the error of the check.
  The check for negative counters never fails.\<close>

theorem snapshot_refines_counts:
  assumes "represents hash h db"
  shows "snapshot now quiet db request =
    and_then (validate_snapshot_request request) (\<lambda>targets.
      Inr \<lparr>ss_ok = True, ss_snapshot_at = now, ss_targets = map (target_view hash h) targets, ss_error = None\<rparr>)"
  using snapshot_loop_view [OF assms, of quiet 0] by (simp add: snapshot_def quiet_def)

theorem snapshot_refines_counts_witness:
  "map_sum id ss_targets (snapshot ''now'' quiet sample_db sample_request) =
     Inr [\<lparr>ts_target = ''/notes/'', ts_terminal_read_sessions_total = 1, ts_static_requests_total = 2,
       ts_unique_visitors_approx = 2, ts_articles =
         [\<lparr>as_article = ''notes/a'', as_terminal_read_sessions = 0, as_static_requests = 2\<rparr>,
          \<lparr>as_article = ''notes/b'', as_terminal_read_sessions = 1, as_static_requests = 0\<rparr>]\<rparr>]"
proof -
  have "validate_snapshot_request sample_request =
      Inr [\<lparr>tr_target = ''/notes/'', tr_articles = [''notes/a'', ''notes/b'']\<rparr>]"
    by code_simp
  moreover have "map (target_view (visitor_hash sample_hmac (replicate 32 7)) sample_history)
      [\<lparr>tr_target = ''/notes/'', tr_articles = [''notes/a'', ''notes/b'']\<rparr>] =
     [\<lparr>ts_target = ''/notes/'', ts_terminal_read_sessions_total = 1, ts_static_requests_total = 2,
       ts_unique_visitors_approx = 2, ts_articles =
         [\<lparr>as_article = ''notes/a'', as_terminal_read_sessions = 0, as_static_requests = 2\<rparr>,
          \<lparr>as_article = ''notes/b'', as_terminal_read_sessions = 1, as_static_requests = 0\<rparr>]\<rparr>]"
    by code_simp
  ultimately show ?thesis
    using snapshot_refines_counts [OF sample_represents, of "''now''" sample_request] by simp
qed

text \<open>The numbers of a snapshot agree with each other, whatever was asked: the articles of a
  target add up to at most its total, for both sources, and a target has at most as many visitors
  as it was read; targets come in strictly increasing order.\<close>

theorem snapshot_consistent:
  assumes "represents hash h db" "length h < 2 ^ 63" "snapshot now io db request = Inr r" "t \<in> set (ss_targets r)"
  shows "sum_list (map (unat \<circ> as_static_requests) (ts_articles t)) \<le> unat (ts_static_requests_total t)
    \<and> sum_list (map (unat \<circ> as_terminal_read_sessions) (ts_articles t)) \<le> unat (ts_terminal_read_sessions_total t)
    \<and> unat (ts_unique_visitors_approx t)
        \<le> unat (ts_terminal_read_sessions_total t) + unat (ts_static_requests_total t)
    \<and> sorted_wrt (<) (map ts_target (ss_targets r))"
proof -
  note view = snapshot_Inr [OF assms(1,3)]
  from assms(4) view(1) obtain q where q: "q \<in> set request" and t: "t = target_view hash h (sort_articles q)"
    by auto
  have fits: "unat (of_nat (count_target u src h) :: u64) = count_target u src h"
    "unat (of_nat (count_article u a src h) :: u64) = count_article u a src h" for u src a
    using count_target_le [of u src h] count_article_le [of u a src h] assms(2)
    by (simp_all add: unat_of_nat take_bit_nat_eq_self)
  have "distinct (sort (tr_articles q))"
    using view(3) q by (auto simp: list_all_iff snapshot_target_ok_def)
  note sums = sum_articles_le [OF this, of "tr_target q" _ h]
  have "unat (of_nat (card (visitors hash (tr_target q) h)) :: u64) \<le> card (visitors hash (tr_target q) h)"
    by (simp add: unat_of_nat take_bit_nat_less_eq_self)
  moreover have "distinct (map tr_target (map sort_articles request))"
    using view(2) by (simp add: comp_def)
  then have "sorted_wrt (<) (map ts_target (ss_targets r))"
    unfolding view(1) distinct_map by (simp add: target_view_def comp_def strict_sorted_iff distinct_map)
  ultimately show ?thesis
    using sums card_visitors_le [of hash "tr_target q" h]
    by (simp add: t target_view_def article_view_def comp_def fits order_trans)
qed

theorem snapshot_consistent_witness:
  "\<exists>r. snapshot ''now'' quiet sample_db sample_request = Inr r
     \<and> sorted_wrt (<) (map ts_target (ss_targets r)) \<and> ss_targets r \<noteq> []"
proof -
  let ?s = "snapshot ''now'' quiet sample_db sample_request"
  have ok: "?s = Inr (projr ?s)"
    by code_simp
  have ne: "ss_targets (projr ?s) \<noteq> []"
    by code_simp
  then have "hd (ss_targets (projr ?s)) \<in> set (ss_targets (projr ?s))"
    by simp
  moreover have "length sample_history < 2 ^ 63"
    by code_simp
  ultimately show ?thesis
    using snapshot_consistent [OF sample_represents _ ok] ok ne by metis
qed

section \<open>Visitors\<close>

lemma digit_f_colon:
  "to_digit 10 (CHR ''f'') = None" "to_digit 10 (CHR '':'') = None" "to_digit 16 (CHR '':'') = None"
  "to_digit 16 (CHR ''f'') = Some 15"
  by code_simp+

lemma read_number_no_digit: "to_digit radix c = None \<Longrightarrow> read_number radix m z bits (c # s) = None"
  by (simp add: read_number_def Let_def)

lemma read_ipv4_no_digit: "to_digit 10 c = None \<Longrightarrow> read_ipv4 (c # s) = None"
  using read_octets.simps(2) [of 3 0 "c # s"]
  by (simp add: read_ipv4_def read_separator_def read_number_no_digit eval_nat_numeral)

lemma read_ffff: "read_number 16 4 True 16 (CHR ''f'' # CHR ''f'' # CHR ''f'' # CHR ''f'' # CHR '':'' # r) = Some (65535, CHR '':'' # r)"
  by (simp add: read_number_def digit_f_colon digits_value_def Let_def)

lemma read_mapped_tail:
  assumes "read_ipv4 s = Some (V4 a b c d, r)"
  shows "read_groups 7 0 (CHR ''f'' # CHR ''f'' # CHR ''f'' # CHR ''f'' # CHR '':'' # s) = ([0xffff, be16 a b, be16 c d], True, r)"
proof -
  have "read_groups 6 (Suc 0) (CHR '':'' # s) = ([be16 a b, be16 c d], True, r)"
    using assms read_groups.simps(2) [of 5 "Suc 0" "CHR '':'' # s"] by (simp add: read_separator_def)
  with read_groups.simps(2) [of 6 0 "CHR ''f'' # CHR ''f'' # CHR ''f'' # CHR ''f'' # CHR '':'' # s"]
  show ?thesis
    by (simp add: read_separator_def read_ipv4_no_digit digit_f_colon read_ffff)
qed

lemma parse_ip_mapped:
  "parse_ip (''::ffff:'' @ show_v4 a b c d) = Some (V6 [0, 0, 0, 0, 0, 0xffff, be16 a b, be16 c d])"
proof -
  have v4: "read_ipv4 (show_v4 a b c d) = Some (V4 a b c d, [])"
    by (simp add: read_ipv4_def read_octets_show_v4)
  have head: "read_groups 8 0 (CHR '':'' # r) = ([], False, CHR '':'' # r)" for r
    using read_groups.simps(2) [of 7 0 "CHR '':'' # r"]
    by (simp add: read_separator_def read_ipv4_no_digit read_number_no_digit digit_f_colon)
  have "replicate 5 (0 :: u16) = [0, 0, 0, 0, 0]"
    by (simp add: eval_nat_numeral)
  then show ?thesis
    by (simp add: parse_ip_def read_ipv4_no_digit digit_f_colon read_ipv6_def head read_mapped_tail [OF v4])
qed

lemma unat_be16: "unat (be16 a b) = unat a * 256 + unat b"
proof -
  have "unat a < 256" "unat b < 256"
    using unsigned_less [where ?'a = nat, of a] unsigned_less [where ?'a = nat, of b] by simp_all
  then show ?thesis
    unfolding be16_def by (subst unat_of_nat) (simp add: take_bit_nat_eq_self)
qed

lemma to_ipv4_mapped_be16: "to_ipv4_mapped [0, 0, 0, 0, 0, 0xffff, be16 a b, be16 c d] = Some (V4 a b c d)"
proof -
  have "unat (x :: u8) < 256" for x
    using unsigned_less [where ?'a = nat, of x] by simp
  then show ?thesis
    by (simp add: to_ipv4_mapped_def unat_be16)
qed

text \<open>An IPv4 reader is the same visitor whether the address reported is the IPv4 one or its
  IPv4-mapped IPv6 form, and the canonical form is stable.\<close>

theorem canonical_ip_mapped:
  "canonical_ip (''::ffff:'' @ show_ip (V4 a b c d)) = Inr (show_ip (V4 a b c d))
   \<and> canonical_ip (show_ip (V4 a b c d)) = Inr (show_ip (V4 a b c d))"
  by (simp only: canonical_ip_def parse_ip_show_v4 option.case ip_addr.case simp_thms)
    (simp add: parse_ip_mapped to_ipv4_mapped_be16 del: append.simps)

end
