(* ===== verification/Web_Sessions.thy ===== *)
theory Web_Sessions
  imports Proto Contracts
begin

text \<open>
  \<^verbatim>\<open>crates/servers/web/src/sessions.rs\<close>: the table of sessions that the gateway keeps across
  reloads of the browser.  The state holds what the process holds: the table, one forwarding task
  per session, one bounded queue per connection, the grace timers.  Every \<open>await\<close> is a boundary
  between two steps; a step that has to wait is \<open>None\<close>.  The ids of connections and timers are
  unbounded here, they are 64-bit counters in the source.
\<close>

section \<open>State\<close>

definition IDLE_GRACE :: nat where "IDLE_GRACE = 60"
definition OUTPUT_CHUNKS :: nat where "OUTPUT_CHUNKS = 128"
definition SCROLLBACK_BYTES :: nat where "SCROLLBACK_BYTES = 128 * 1024"
definition REPLAY_CHUNK :: nat where "REPLAY_CHUNK = 4096"
definition COMMANDS :: nat where "COMMANDS = 8"

datatype close_reason = Replaced | Slow_consumer

fun close_message :: "close_reason \<Rightarrow> string" where
  "close_message Replaced = ''replaced by reconnect''"
| "close_message Slow_consumer = ''slow consumer''"

datatype out_item = Out_data bytes | Replay_end

text \<open>The forwarding task: the ids in \<open>ft_commands\<close> are the \<open>Attach\<close> commands not yet taken.
  \<open>ft_started\<close>: the first \<open>Replay_end\<close> has been sent.\<close>

record fwd_task =
  ft_scrollback :: bytes
  ft_active :: "nat option"
  ft_commands :: "nat list"
  ft_started :: bool

record web_session =
  wn_sid :: string
  wn_owner :: "nat option"
  wn_timer :: "nat option"

text \<open>Where the handler of a WebSocket is: in \<open>attach\<close> (sending the command, awaiting the reply),
  running with its connection, or over.\<close>

datatype stage = Sending | Awaiting | Live | Gone

text \<open>\<open>cn_read\<close> is what the WebSocket has taken out of its queue so far, \<open>cn_receiving\<close> whether
  it still holds the receiver.\<close>

record conn =
  cn_token :: string
  cn_attached :: bool
  cn_stage :: stage
  cn_queue :: "out_item list"
  cn_read :: "out_item list"
  cn_receiving :: bool
  cn_close :: "close_reason option"
  cn_reply :: "bool option"

text \<open>\<open>wb_output\<close> records what each session has put out; timers sleep until they wake, and a
  woken one removes its session at its next step.\<close>

record web =
  wb_table :: "string \<Rightarrow> web_session option"
  wb_tasks :: "string \<Rightarrow> fwd_task option"
  wb_conns :: "nat \<Rightarrow> conn option"
  wb_next_conn :: nat
  wb_sleeping :: "(nat \<times> string) list"
  wb_woken :: "(nat \<times> string) list"
  wb_next_timer :: nat
  wb_output :: "string \<Rightarrow> bytes"

definition web_start :: web where
  "web_start = \<lparr>wb_table = (\<lambda>_. None), wb_tasks = (\<lambda>_. None), wb_conns = (\<lambda>_. None), wb_next_conn = 1,
     wb_sleeping = [], wb_woken = [], wb_next_timer = 0, wb_output = (\<lambda>_. [])\<rparr>"

definition set_entry :: "string \<Rightarrow> web_session option \<Rightarrow> web \<Rightarrow> web" where
  "set_entry tok s w = w\<lparr>wb_table := (wb_table w)(tok := s)\<rparr>"

definition set_task :: "string \<Rightarrow> fwd_task option \<Rightarrow> web \<Rightarrow> web" where
  "set_task tok t w = w\<lparr>wb_tasks := (wb_tasks w)(tok := t)\<rparr>"

definition set_conn :: "nat \<Rightarrow> conn \<Rightarrow> web \<Rightarrow> web" where
  "set_conn i c w = w\<lparr>wb_conns := (wb_conns w)(i \<mapsto> c)\<rparr>"

definition new_conn :: "string \<Rightarrow> bool \<Rightarrow> stage \<Rightarrow> conn" where
  "new_conn tok attached stage =
     \<lparr>cn_token = tok, cn_attached = attached, cn_stage = stage, cn_queue = [], cn_read = [],
      cn_receiving = True, cn_close = None, cn_reply = None\<rparr>"

text \<open>\<open>take()\<close> of the timer and \<open>abort()\<close>: a timer past its sleep has no await point left and goes on.\<close>

definition abort_timer :: "nat option \<Rightarrow> web \<Rightarrow> web" where
  "abort_timer timer w =
     (case timer of
        None \<Rightarrow> w
      | Some k \<Rightarrow> w\<lparr>wb_sleeping := filter (\<lambda>p. fst p \<noteq> k) (wb_sleeping w)\<rparr>)"

section \<open>Operations of the store\<close>

text \<open>\<open>attach\<close> up to its first await; \<open>None\<close>: the token is unknown.\<close>

definition attach_begin :: "string \<Rightarrow> web \<Rightarrow> (nat \<times> web) option" where
  "attach_begin tok w =
     (case wb_table w tok of
        None \<Rightarrow> None
      | Some s \<Rightarrow>
          (let i = wb_next_conn w;
               w = set_entry tok (Some (s\<lparr>wn_timer := None\<rparr>)) (abort_timer (wn_timer s) w)
           in Some (i, set_conn i (new_conn tok True Sending) (w\<lparr>wb_next_conn := i + 1\<rparr>))))"

text \<open>\<open>fwd_cmd.send\<close>: it waits while the channel is full and fails when the task is gone.\<close>

definition attach_send :: "nat \<Rightarrow> web \<Rightarrow> web option" where
  "attach_send i w =
     (case wb_conns w i of
        None \<Rightarrow> None
      | Some c \<Rightarrow>
          if cn_stage c \<noteq> Sending then None
          else (case wb_tasks w (cn_token c) of
              None \<Rightarrow> Some (set_conn i (c\<lparr>cn_stage := Gone, cn_receiving := False\<rparr>) w)
            | Some t \<Rightarrow>
                if COMMANDS \<le> length (ft_commands t) then None
                else Some (set_task (cn_token c) (Some (t\<lparr>ft_commands := ft_commands t @ [i]\<rparr>))
                       (set_conn i (c\<lparr>cn_stage := Awaiting\<rparr>) w))))"

text \<open>\<open>reply_rx.await\<close>: the reply, or the failure of a task that ended.\<close>

definition attach_return :: "nat \<Rightarrow> web \<Rightarrow> (bool \<times> web) option" where
  "attach_return i w =
     (case wb_conns w i of
        None \<Rightarrow> None
      | Some c \<Rightarrow>
          if cn_stage c \<noteq> Awaiting then None
          else (case cn_reply c of
              Some True \<Rightarrow> Some (True, set_conn i (c\<lparr>cn_stage := Live\<rparr>) w)
            | Some False \<Rightarrow> Some (False, set_conn i (c\<lparr>cn_stage := Gone, cn_receiving := False\<rparr>) w)
            | None \<Rightarrow>
                if wb_tasks w (cn_token c) = None
                then Some (False, set_conn i (c\<lparr>cn_stage := Gone, cn_receiving := False\<rparr>) w)
                else None))"

text \<open>\<open>create\<close> after \<open>open\<close> has succeeded with the id \<open>sid\<close>.\<close>

definition create :: "string \<Rightarrow> string \<Rightarrow> web \<Rightarrow> nat \<times> web" where
  "create tok sid w =
     (let i = wb_next_conn w
      in (i, set_entry tok (Some \<lparr>wn_sid = sid, wn_owner = Some i, wn_timer = None\<rparr>)
             (set_task tok (Some \<lparr>ft_scrollback = [], ft_active = Some i, ft_commands = [], ft_started = False\<rparr>)
             (set_conn i (new_conn tok False Live) (w\<lparr>wb_next_conn := i + 1\<rparr>)))))"

definition reset :: "string \<Rightarrow> web \<Rightarrow> web" where
  "reset tok w =
     (case wb_table w tok of
        None \<Rightarrow> w
      | Some s \<Rightarrow> if wn_owner s = None then set_entry tok None w else w)"

definition detach :: "string \<Rightarrow> nat \<Rightarrow> web \<Rightarrow> web" where
  "detach tok i w =
     (case wb_table w tok of
        None \<Rightarrow> w
      | Some s \<Rightarrow>
          if wn_owner s \<noteq> Some i then w
          else (let k = wb_next_timer w
                in set_entry tok (Some (s\<lparr>wn_owner := None, wn_timer := Some k\<rparr>))
                     (w\<lparr>wb_next_timer := k + 1, wb_sleeping := (k, tok) # wb_sleeping w\<rparr>)))"

text \<open>The timer: the end of its sleep, and the removal after it.\<close>

definition timer_wake :: "nat \<Rightarrow> web \<Rightarrow> web option" where
  "timer_wake k w =
     (case map_of (wb_sleeping w) k of
        None \<Rightarrow> None
      | Some tok \<Rightarrow> Some (w\<lparr>wb_sleeping := filter (\<lambda>p. fst p \<noteq> k) (wb_sleeping w), wb_woken := (k, tok) # wb_woken w\<rparr>))"

definition timer_remove :: "nat \<Rightarrow> web \<Rightarrow> web option" where
  "timer_remove k w =
     (case map_of (wb_woken w) k of
        None \<Rightarrow> None
      | Some tok \<Rightarrow> Some (set_entry tok None (w\<lparr>wb_woken := filter (\<lambda>p. fst p \<noteq> k) (wb_woken w)\<rparr>)))"

section \<open>The forwarding task\<close>

text \<open>The end of the task: the entry goes, and its ends of the channels with it.\<close>

definition forward_end :: "string \<Rightarrow> web \<Rightarrow> web option" where
  "forward_end tok w =
     (if wb_tasks w tok = None then None else Some (set_task tok None (set_entry tok None w)))"

text \<open>Before the loop.\<close>

definition forward_start :: "string \<Rightarrow> web \<Rightarrow> web option" where
  "forward_start tok w =
     (case wb_tasks w tok of
        None \<Rightarrow> None
      | Some t \<Rightarrow>
          if ft_started t then None
          else (case ft_active t of
              None \<Rightarrow> Some (set_task tok (Some (t\<lparr>ft_started := True\<rparr>)) w)
            | Some i \<Rightarrow>
                (case wb_conns w i of
                   None \<Rightarrow> None
                 | Some c \<Rightarrow>
                     if \<not> cn_receiving c then forward_end tok w
                     else Some (set_conn i (c\<lparr>cn_queue := cn_queue c @ [Replay_end]\<rparr>)
                            (set_task tok (Some (t\<lparr>ft_started := True\<rparr>)) w)))))"

text \<open>The replay into the queue of a new subscriber, which nobody reads before the reply: it never
  waits as long as it fits.\<close>

definition replay :: "bytes \<Rightarrow> out_item list" where
  "replay scrollback = map Out_data (chunks REPLAY_CHUNK scrollback) @ [Replay_end]"

definition notify :: "close_reason \<Rightarrow> nat option \<Rightarrow> web \<Rightarrow> web" where
  "notify reason active w =
     (case active of
        None \<Rightarrow> w
      | Some i \<Rightarrow> (case wb_conns w i of None \<Rightarrow> w | Some c \<Rightarrow> set_conn i (c\<lparr>cn_close := Some reason\<rparr>) w))"

definition forward_attach :: "string \<Rightarrow> web \<Rightarrow> web option" where
  "forward_attach tok w =
     (case wb_tasks w tok of
        None \<Rightarrow> None
      | Some t \<Rightarrow>
          if \<not> ft_started t then None
          else (case ft_commands t of
              [] \<Rightarrow> None
            | i # rest \<Rightarrow>
                (case wb_conns w i of
                   None \<Rightarrow> None
                 | Some c \<Rightarrow>
                     (let t = t\<lparr>ft_commands := rest\<rparr>;
                          replayed = (cn_receiving c \<or> ft_scrollback t = []);
                          c = (if cn_receiving c then c\<lparr>cn_queue := cn_queue c @ replay (ft_scrollback t)\<rparr> else c)
                      in if \<not> replayed
                         then Some (set_task tok (Some t) (set_conn i (c\<lparr>cn_reply := Some False\<rparr>) w))
                         else (case wb_table w tok of
                             None \<Rightarrow> Some (set_task tok (Some t) (set_conn i (c\<lparr>cn_reply := Some False\<rparr>) w))
                           | Some s \<Rightarrow>
                               Some (set_entry tok (Some (s\<lparr>wn_timer := None, wn_owner := Some i\<rparr>))
                                 (abort_timer (wn_timer s)
                                 (set_task tok (Some (t\<lparr>ft_active := Some i\<rparr>))
                                 (set_conn i (c\<lparr>cn_reply := Some True\<rparr>)
                                 (notify Replaced (ft_active t) w)))))))))) "

definition push_scrollback :: "bytes \<Rightarrow> bytes \<Rightarrow> bytes" where
  "push_scrollback scrollback b =
     (let s = scrollback @ b
      in if SCROLLBACK_BYTES < length s then drop (length s - SCROLLBACK_BYTES) s else s)"

definition forward_output :: "string \<Rightarrow> bytes \<Rightarrow> web \<Rightarrow> web option" where
  "forward_output tok b w =
     (case wb_tasks w tok of
        None \<Rightarrow> None
      | Some t \<Rightarrow>
          if \<not> ft_started t then None
          else (let t = t\<lparr>ft_scrollback := push_scrollback (ft_scrollback t) b\<rparr>;
                    w = w\<lparr>wb_output := (wb_output w)(tok := wb_output w tok @ b)\<rparr>;
                    dropped = set_task tok (Some (t\<lparr>ft_active := None\<rparr>)) w
                in case ft_active t of
                     None \<Rightarrow> Some (set_task tok (Some t) w)
                   | Some i \<Rightarrow>
                       (case wb_conns w i of
                          None \<Rightarrow> None
                        | Some c \<Rightarrow>
                            if \<not> cn_receiving c then Some dropped
                            else if OUTPUT_CHUNKS \<le> length (cn_queue c) then Some (notify Slow_consumer (Some i) dropped)
                            else Some (set_task tok (Some t) (set_conn i (c\<lparr>cn_queue := cn_queue c @ [Out_data b]\<rparr>) w)))))"

section \<open>The WebSocket side\<close>

text \<open>The writer takes the next item; it stops and drops the receiver; the handler ends and gives
  the connection back.\<close>

definition read_output :: "nat \<Rightarrow> web \<Rightarrow> web option" where
  "read_output i w =
     (case wb_conns w i of
        None \<Rightarrow> None
      | Some c \<Rightarrow>
          if cn_stage c = Live \<and> cn_receiving c
          then (case cn_queue c of
                  [] \<Rightarrow> None
                | x # q \<Rightarrow> Some (set_conn i (c\<lparr>cn_queue := q, cn_read := cn_read c @ [x]\<rparr>) w))
          else None)"

definition stop_reading :: "nat \<Rightarrow> web \<Rightarrow> web option" where
  "stop_reading i w =
     (case wb_conns w i of
        None \<Rightarrow> None
      | Some c \<Rightarrow> if cn_stage c = Live then Some (set_conn i (c\<lparr>cn_receiving := False\<rparr>) w) else None)"

definition finish :: "nat \<Rightarrow> web \<Rightarrow> web option" where
  "finish i w =
     (case wb_conns w i of
        None \<Rightarrow> None
      | Some c \<Rightarrow>
          if cn_stage c = Live
          then Some (detach (cn_token c) i (set_conn i (c\<lparr>cn_stage := Gone, cn_receiving := False\<rparr>) w))
          else None)"

section \<open>Steps\<close>

text \<open>A token is 128 random bits: no two are equal.\<close>

definition fresh_token :: "string \<Rightarrow> web \<Rightarrow> bool" where
  "fresh_token tok w \<longleftrightarrow> (\<forall>i c. wb_conns w i = Some c \<longrightarrow> cn_token c \<noteq> tok)"

inductive web_step :: "web \<Rightarrow> web \<Rightarrow> bool" where
  do_attach_begin: "attach_begin tok w = Some (i, w') \<Longrightarrow> web_step w w'"
| do_attach_send: "attach_send i w = Some w' \<Longrightarrow> web_step w w'"
| do_attach_return: "attach_return i w = Some (r, w') \<Longrightarrow> web_step w w'"
| do_create: "fresh_token tok w \<Longrightarrow> web_step w (snd (create tok sid w))"
| do_reset: "web_step w (reset tok w)"
| do_timer_wake: "timer_wake k w = Some w' \<Longrightarrow> web_step w w'"
| do_timer_remove: "timer_remove k w = Some w' \<Longrightarrow> web_step w w'"
| do_forward_start: "forward_start tok w = Some w' \<Longrightarrow> web_step w w'"
| do_forward_attach: "forward_attach tok w = Some w' \<Longrightarrow> web_step w w'"
| do_forward_output: "forward_output tok b w = Some w' \<Longrightarrow> web_step w w'"
| do_forward_end: "forward_end tok w = Some w' \<Longrightarrow> web_step w w'"
| do_read_output: "read_output i w = Some w' \<Longrightarrow> web_step w w'"
| do_stop_reading: "stop_reading i w = Some w' \<Longrightarrow> web_step w w'"
| do_finish: "finish i w = Some w' \<Longrightarrow> web_step w w'"

end
