(* ===== verification/Web_Invariant.thy ===== *)
theory Web_Invariant
  imports Web_Sessions
begin

text \<open>
  The invariant of the gateway's sessions: each entry has somebody who is responsible for it, the
  scrollback is the end of what the session has put out, and each connection was given a
  contiguous piece of that output behind one \<open>Replay_end\<close>.
\<close>

section \<open>The invariant\<close>

definition items :: "conn \<Rightarrow> out_item list" where
  "items c = cn_read c @ cn_queue c"

fun item_bytes :: "out_item list \<Rightarrow> bytes" where
  "item_bytes [] = []"
| "item_bytes (Out_data b # xs) = b @ item_bytes xs"
| "item_bytes (Replay_end # xs) = item_bytes xs"

text \<open>Data, one \<open>Replay_end\<close>, data.\<close>

definition framed :: "out_item list \<Rightarrow> bool" where
  "framed xs \<longleftrightarrow> (\<exists>r l. xs = map Out_data r @ Replay_end # map Out_data l)"

definition awaiting :: "conn \<Rightarrow> bool" where
  "awaiting c \<longleftrightarrow> cn_stage c = Awaiting \<and> cn_reply c = None"

text \<open>An attach in progress, and a connection whose handler will call \<open>detach\<close>.\<close>

definition pending :: "conn \<Rightarrow> bool" where
  "pending c \<longleftrightarrow> cn_stage c = Sending \<or> awaiting c"

definition holds :: "conn \<Rightarrow> bool" where
  "holds c \<longleftrightarrow> cn_stage c = Live \<or> cn_stage c = Awaiting \<and> cn_reply c = Some True"

definition conn_ok :: "web \<Rightarrow> nat \<Rightarrow> conn \<Rightarrow> bool" where
  "conn_ok w i c \<longleftrightarrow>
     i < wb_next_conn w
   \<and> (cn_stage c = Sending \<longrightarrow> cn_reply c = None)
   \<and> (pending c \<longrightarrow> cn_receiving c \<and> items c = [])
   \<and> (awaiting c \<longrightarrow> (\<forall>t. wb_tasks w (cn_token c) = Some t \<longrightarrow> i \<in> set (ft_commands t)))
   \<and> (items c = [] \<or> framed (items c)) \<and> sublist (item_bytes (items c)) (wb_output w (cn_token c))
   \<and> length (cn_queue c) \<le> OUTPUT_CHUNKS"

definition subscribed :: "web \<Rightarrow> string \<Rightarrow> bool \<Rightarrow> nat \<Rightarrow> bool" where
  "subscribed w tok started i \<longleftrightarrow>
     (\<exists>c. wb_conns w i = Some c \<and> cn_token c = tok \<and> \<not> pending c
      \<and> (if started then framed (items c) \<and> suffix (item_bytes (items c)) (wb_output w tok) else items c = []))"

definition task_ok :: "web \<Rightarrow> string \<Rightarrow> fwd_task \<Rightarrow> bool" where
  "task_ok w tok t \<longleftrightarrow>
     ft_scrollback t = drop (length (wb_output w tok) - SCROLLBACK_BYTES) (wb_output w tok)
   \<and> distinct (ft_commands t)
   \<and> (\<forall>i \<in> set (ft_commands t). \<exists>c. wb_conns w i = Some c \<and> cn_token c = tok \<and> awaiting c)
   \<and> (\<forall>i. ft_active t = Some i \<longrightarrow> subscribed w tok (ft_started t) i)
   \<and> (\<not> ft_started t \<longrightarrow> wb_output w tok = [])"

definition in_flight :: "web \<Rightarrow> string \<Rightarrow> bool" where
  "in_flight w tok \<longleftrightarrow> (\<exists>i c. wb_conns w i = Some c \<and> cn_token c = tok \<and> pending c)"

definition all_timers :: "web \<Rightarrow> (nat \<times> string) list" where
  "all_timers w = wb_sleeping w @ wb_woken w"

definition entry_ok :: "web \<Rightarrow> string \<Rightarrow> web_session \<Rightarrow> bool" where
  "entry_ok w tok s \<longleftrightarrow>
     wb_tasks w tok \<noteq> None
   \<and> (\<forall>k. wn_timer s = Some k \<longrightarrow> (k, tok) \<in> set (all_timers w))
   \<and> (case wn_owner s of
        Some i \<Rightarrow> wn_timer s = None \<and> (\<exists>c. wb_conns w i = Some c \<and> cn_token c = tok \<and> holds c)
      | None \<Rightarrow> in_flight w tok \<or> wn_timer s \<noteq> None)"

definition timers_ok :: "web \<Rightarrow> bool" where
  "timers_ok w \<longleftrightarrow>
     distinct (map fst (all_timers w))
   \<and> (\<forall>k tok. (k, tok) \<in> set (all_timers w) \<longrightarrow> k < wb_next_timer w \<and> \<not> fresh_token tok w)
   \<and> (\<forall>k tok s. (k, tok) \<in> set (wb_sleeping w) \<longrightarrow> wb_table w tok = Some s \<longrightarrow> wn_timer s = Some k \<and> wn_owner s = None)"

definition fresh_ok :: "web \<Rightarrow> bool" where
  "fresh_ok w \<longleftrightarrow> (\<forall>tok. fresh_token tok w \<longrightarrow> wb_table w tok = None \<and> wb_tasks w tok = None \<and> wb_output w tok = [])"

definition web_ok :: "web \<Rightarrow> bool" where
  "web_ok w \<longleftrightarrow>
     (\<forall>i c. wb_conns w i = Some c \<longrightarrow> conn_ok w i c)
   \<and> (\<forall>tok t. wb_tasks w tok = Some t \<longrightarrow> task_ok w tok t)
   \<and> (\<forall>tok s. wb_table w tok = Some s \<longrightarrow> entry_ok w tok s)
   \<and> timers_ok w \<and> fresh_ok w"

lemmas set_defs = set_entry_def set_task_def set_conn_def

lemma web_okD:
  assumes "web_ok w"
  shows "wb_conns w i = Some c \<Longrightarrow> conn_ok w i c" "wb_tasks w tok = Some t \<Longrightarrow> task_ok w tok t"
    "wb_table w tok = Some s \<Longrightarrow> entry_ok w tok s" "timers_ok w" "fresh_ok w"
  using assms by (auto simp: web_ok_def)

section \<open>Streams\<close>

lemma item_bytes_append [simp]: "item_bytes (xs @ ys) = item_bytes xs @ item_bytes ys"
  by (induction xs rule: item_bytes.induct) auto

lemma item_bytes_data [simp]: "item_bytes (map Out_data bs) = concat bs"
  by (induction bs) auto

lemma item_bytes_replay [simp]: "item_bytes (replay b) = b"
  by (simp add: replay_def REPLAY_CHUNK_def concat_chunks)

lemma framed_replay [simp]: "framed (replay b)"
  unfolding framed_def replay_def by (intro exI [of _ "chunks REPLAY_CHUNK b"] exI [of _ "[]"]) simp

lemma framed_start [simp]: "framed [Replay_end]"
  unfolding framed_def by (intro exI [of _ "[]"]) simp

lemma framed_data: "framed xs \<Longrightarrow> framed (xs @ [Out_data b])"
  unfolding framed_def
proof (elim exE)
  fix r l assume "xs = map Out_data r @ Replay_end # map Out_data l"
  then have "xs @ [Out_data b] = map Out_data r @ Replay_end # map Out_data (l @ [b])" by simp
  then show "\<exists>r l. xs @ [Out_data b] = map Out_data r @ Replay_end # map Out_data l" by blast
qed

lemma replay_length: "length b \<le> SCROLLBACK_BYTES \<Longrightarrow> length (replay b) \<le> 33"
  using length_chunks [of REPLAY_CHUNK b 32] by (simp add: replay_def REPLAY_CHUNK_def SCROLLBACK_BYTES_def)

lemma push_scrollback_output:
  "push_scrollback (drop (length out - SCROLLBACK_BYTES) out) b
    = drop (length (out @ b) - SCROLLBACK_BYTES) (out @ b)"
  by (cases "length out \<le> SCROLLBACK_BYTES") (auto simp: push_scrollback_def Let_def add.commute)

lemma sublist_snoc: "sublist xs ys \<Longrightarrow> sublist xs (ys @ zs)"
  by (auto simp: sublist_def) (metis append.assoc)

section \<open>Steps that only move a connection on\<close>

text \<open>A connection that keeps its token and what it was given, is as far in its attach as before,
  and still holds its session if it held it.\<close>

definition moves_on :: "conn \<Rightarrow> conn \<Rightarrow> bool" where
  "moves_on c c' \<longleftrightarrow> cn_token c' = cn_token c \<and> items c' = items c \<and> length (cn_queue c') \<le> length (cn_queue c)
     \<and> pending c' = pending c \<and> awaiting c' = awaiting c \<and> (holds c \<longrightarrow> holds c')
     \<and> (pending c \<longrightarrow> cn_receiving c' = cn_receiving c) \<and> (cn_stage c' = Sending \<longrightarrow> cn_reply c' = None)"

lemma set_conn_simps [simp]:
  "wb_table (set_conn i c w) = wb_table w" "wb_tasks (set_conn i c w) = wb_tasks w"
  "wb_conns (set_conn i c w) = (wb_conns w)(i \<mapsto> c)" "wb_next_conn (set_conn i c w) = wb_next_conn w"
  "wb_sleeping (set_conn i c w) = wb_sleeping w" "wb_woken (set_conn i c w) = wb_woken w"
  "wb_next_timer (set_conn i c w) = wb_next_timer w" "wb_output (set_conn i c w) = wb_output w"
  by (simp_all add: set_conn_def)

lemma set_task_simps [simp]:
  "wb_table (set_task tok t w) = wb_table w" "wb_tasks (set_task tok t w) = (wb_tasks w)(tok := t)"
  "wb_conns (set_task tok t w) = wb_conns w" "wb_next_conn (set_task tok t w) = wb_next_conn w"
  "wb_sleeping (set_task tok t w) = wb_sleeping w" "wb_woken (set_task tok t w) = wb_woken w"
  "wb_next_timer (set_task tok t w) = wb_next_timer w" "wb_output (set_task tok t w) = wb_output w"
  by (simp_all add: set_task_def)

lemma set_entry_simps [simp]:
  "wb_table (set_entry tok s w) = (wb_table w)(tok := s)" "wb_tasks (set_entry tok s w) = wb_tasks w"
  "wb_conns (set_entry tok s w) = wb_conns w" "wb_next_conn (set_entry tok s w) = wb_next_conn w"
  "wb_sleeping (set_entry tok s w) = wb_sleeping w" "wb_woken (set_entry tok s w) = wb_woken w"
  "wb_next_timer (set_entry tok s w) = wb_next_timer w" "wb_output (set_entry tok s w) = wb_output w"
  by (simp_all add: set_entry_def)

lemma abort_timer_simps [simp]:
  "wb_table (abort_timer k w) = wb_table w" "wb_tasks (abort_timer k w) = wb_tasks w"
  "wb_conns (abort_timer k w) = wb_conns w" "wb_next_conn (abort_timer k w) = wb_next_conn w"
  "wb_woken (abort_timer k w) = wb_woken w" "wb_next_timer (abort_timer k w) = wb_next_timer w"
  "wb_output (abort_timer k w) = wb_output w"
  "wb_sleeping (abort_timer k w) = filter (\<lambda>p. Some (fst p) \<noteq> k) (wb_sleeping w)"
  by (auto simp: abort_timer_def split: option.splits)

lemma fresh_set_conn:
  "wb_conns w i = Some c \<Longrightarrow> cn_token c' = cn_token c \<Longrightarrow> fresh_token tok (set_conn i c' w) = fresh_token tok w"
  by (auto simp: fresh_token_def)

lemma fresh_simps [simp]:
  "fresh_token tok (set_task tok' t w) = fresh_token tok w" "fresh_token tok (set_entry tok' s w) = fresh_token tok w"
  "fresh_token tok (abort_timer k w) = fresh_token tok w"
  by (simp_all add: fresh_token_def)

lemma in_flight_set_conn:
  assumes "wb_conns w i = Some c" "cn_token c' = cn_token c" "pending c' = pending c"
  shows "in_flight (set_conn i c' w) tok = in_flight w tok"
  unfolding in_flight_def by (rule ex_cong1) (use assms in auto)

lemma all_timers_simps [simp]:
  "all_timers (set_conn i c w) = all_timers w" "all_timers (set_task tok t w) = all_timers w"
  "all_timers (set_entry tok s w) = all_timers w"
  by (simp_all add: all_timers_def)

lemma timer_keys:
  assumes "timers_ok w" "(k, u) \<in> set (all_timers w)" "(k, v) \<in> set (all_timers w)"
  shows "u = v"
  using assms eq_key_imp_eq_value unfolding timers_ok_def by fast

lemma moves_on_ok:
  assumes ok: "web_ok w" and c: "wb_conns w i = Some c" and m: "moves_on c c'"
  shows "web_ok (set_conn i c' w)"
proof -
  have m': "cn_token c' = cn_token c" "items c' = items c" "pending c' = pending c" "awaiting c' = awaiting c"
    "holds c \<Longrightarrow> holds c'" "length (cn_queue c') \<le> length (cn_queue c)"
    using m by (auto simp: moves_on_def)
  have sub: "subscribed w tok st j \<Longrightarrow> subscribed (set_conn i c' w) tok st j" for tok st j
    using c m' by (auto simp: subscribed_def)
  have "conn_ok (set_conn i c' w) j d" if "wb_conns (set_conn i c' w) j = Some d" for j d
    using that web_okD(1) [OF ok] web_okD(1) [OF ok c] m m'
    by (cases "j = i") (auto simp: conn_ok_def moves_on_def)
  moreover have "task_ok (set_conn i c' w) tok t" if "wb_tasks w tok = Some t" for tok t
    using web_okD(2) [OF ok that] sub c m' by (fastforce simp: task_ok_def)
  moreover have "entry_ok (set_conn i c' w) tok s" if "wb_table w tok = Some s" for tok s
    using web_okD(3) [OF ok that] in_flight_set_conn [OF c m'(1,3)] c m'(1,5)
    by (auto simp: entry_ok_def split: option.splits)
  ultimately show ?thesis
    using web_okD(4,5) [OF ok] fresh_set_conn [OF c m'(1)]
    by (simp add: web_ok_def timers_ok_def fresh_ok_def)
qed

section \<open>Every step keeps the invariant\<close>

lemma conn_ok_frame:
  "conn_ok w i c \<Longrightarrow> wb_next_conn w \<le> wb_next_conn w' \<Longrightarrow> wb_tasks w' = wb_tasks w \<Longrightarrow> wb_output w' = wb_output w
    \<Longrightarrow> conn_ok w' i c"
  unfolding conn_ok_def by (elim conjE, intro conjI) simp_all

lemma conn_ok_gone: "conn_ok w i c \<Longrightarrow> conn_ok w i (c\<lparr>cn_stage := Gone, cn_receiving := False\<rparr>)"
  unfolding conn_ok_def by (elim conjE, intro conjI) (simp_all add: pending_def awaiting_def items_def)

lemma conn_ok_new:
  "i < wb_next_conn w \<Longrightarrow> stage \<noteq> Awaiting \<Longrightarrow> conn_ok w i (new_conn tok attached stage)"
  unfolding conn_ok_def by (intro conjI) (simp_all add: new_conn_def pending_def awaiting_def items_def)

lemma remove_entry_ok:
  assumes "web_ok w"
  shows "web_ok (set_entry tok None w)"
proof -
  have "conn_ok (set_entry tok None w) i c = conn_ok w i c" "task_ok (set_entry tok None w) u t = task_ok w u t"
    "entry_ok (set_entry tok None w) u s = entry_ok w u s" for i c u t s
    by (simp_all add: conn_ok_def task_ok_def entry_ok_def in_flight_def subscribed_def cong: option.case_cong)
  with assms show ?thesis
    by (auto simp: web_ok_def timers_ok_def fresh_ok_def split: if_splits)
qed

lemma gone_ok:
  assumes ok: "web_ok w" and c: "wb_conns w i = Some c" and none: "wb_tasks w (cn_token c) = None"
  shows "web_ok (set_conn i (c\<lparr>cn_stage := Gone, cn_receiving := False\<rparr>) w)" (is "web_ok (set_conn i ?c w)")
proof -
  have table: "wb_table w (cn_token c) = None"
  proof (rule ccontr)
    assume "wb_table w (cn_token c) \<noteq> None"
    then obtain s where "wb_table w (cn_token c) = Some s" by auto
    from web_okD(3) [OF ok this] none show False by (simp add: entry_ok_def)
  qed
  have flight: "in_flight (set_conn i ?c w) tok = in_flight w tok" if "tok \<noteq> cn_token c" for tok
    unfolding in_flight_def by (rule ex_cong1) (use c that in auto)
  have sub: "subscribed w tok st j \<Longrightarrow> tok \<noteq> cn_token c \<Longrightarrow> subscribed (set_conn i ?c w) tok st j" for tok st j
    using c by (auto simp: subscribed_def)
  have "conn_ok (set_conn i ?c w) j d" if "wb_conns (set_conn i ?c w) j = Some d" for j d
  proof (cases "j = i")
    case True
    with that have "conn_ok w j d" using conn_ok_gone web_okD(1) [OF ok c] by auto
    then show ?thesis by (rule conn_ok_frame) simp_all
  next
    case False
    with that have "conn_ok w j d" using web_okD(1) [OF ok] by simp
    then show ?thesis by (rule conn_ok_frame) simp_all
  qed
  moreover have "task_ok (set_conn i ?c w) tok t" if "wb_tasks w tok = Some t" for tok t
    using web_okD(2) [OF ok that] sub c that none by (fastforce simp: task_ok_def)
  moreover have "entry_ok (set_conn i ?c w) tok s" if "wb_table w tok = Some s" for tok s
  proof -
    have tok: "tok \<noteq> cn_token c"
      using that table by auto
    show ?thesis
      using web_okD(3) [OF ok that] flight [OF tok] c tok
      by (auto simp: entry_ok_def split: option.splits)
  qed
  ultimately show ?thesis
    using web_okD(4,5) [OF ok] fresh_set_conn [OF c, of ?c]
    by (simp add: web_ok_def timers_ok_def fresh_ok_def)
qed

lemma forward_end_ok:
  assumes ok: "web_ok w" and "forward_end tok w = Some w'"
  shows "web_ok w'"
proof -
  have w': "w' = set_task tok None (set_entry tok None w)"
    using assms(2) by (simp add: forward_end_def split: if_splits)
  let ?v = "set_entry tok None w"
  have v: "web_ok ?v" by (rule remove_entry_ok [OF ok])
  have "conn_ok (set_task tok None ?v) i c" if "conn_ok ?v i c" for i c
    using that by (auto simp: conn_ok_def)
  moreover have "task_ok (set_task tok None ?v) u t = task_ok ?v u t" for u t
    by (simp add: task_ok_def subscribed_def)
  moreover have "entry_ok (set_task tok None ?v) u s" if "wb_table ?v u = Some s" for u s
    using web_okD(3) [OF v that] that by (auto simp: entry_ok_def in_flight_def split: if_splits option.splits)
  ultimately show ?thesis
    using v by (auto simp: w' web_ok_def timers_ok_def fresh_ok_def split: if_splits)
qed

lemma notify_ok:
  assumes ok: "web_ok w"
  shows "web_ok (notify reason active w)"
proof (cases active)
  case (Some i)
  show ?thesis
  proof (cases "wb_conns w i")
    case c: (Some c)
    have "moves_on c (c\<lparr>cn_close := Some reason\<rparr>)"
      using web_okD(1) [OF ok c]
      by (auto simp: moves_on_def items_def pending_def awaiting_def holds_def conn_ok_def)
    with Some c moves_on_ok [OF ok c] show ?thesis by (simp add: notify_def)
  qed (use Some ok in \<open>simp add: notify_def\<close>)
qed (simp add: notify_def ok)

lemma in_flight_new:
  "wb_conns w' = (wb_conns w)(i \<mapsto> c) \<Longrightarrow> wb_conns w i = None \<Longrightarrow> in_flight w u \<Longrightarrow> in_flight w' u"
  unfolding in_flight_def by (metis fun_upd_other option.distinct(1))

lemma attach_begin_ok:
  assumes ok: "web_ok w" and "attach_begin tok w = Some (i, w')"
  shows "web_ok w'"
proof -
  from assms(2) obtain s where s: "wb_table w tok = Some s" and i: "i = wb_next_conn w"
    and w': "w' = set_conn i (new_conn tok True Sending)
      (set_entry tok (Some (s\<lparr>wn_timer := None\<rparr>)) (abort_timer (wn_timer s) w)\<lparr>wb_next_conn := i + 1\<rparr>)"
    by (auto simp: attach_begin_def Let_def split: option.splits)
  have new: "wb_conns w i = None"
    using web_okD(1) [OF ok, of i] by (cases "wb_conns w i") (auto simp: conn_ok_def i)
  have old: "\<not> fresh_token tok w"
    using web_okD(5) [OF ok] s by (auto simp: fresh_ok_def)
  have fields: "wb_conns w' = (wb_conns w)(i \<mapsto> new_conn tok True Sending)" "wb_tasks w' = wb_tasks w"
    "wb_table w' = (wb_table w)(tok \<mapsto> s\<lparr>wn_timer := None\<rparr>)" "wb_output w' = wb_output w"
    "wb_next_conn w' = i + 1" "wb_woken w' = wb_woken w" "wb_next_timer w' = wb_next_timer w"
    "wb_sleeping w' = filter (\<lambda>p. Some (fst p) \<noteq> wn_timer s) (wb_sleeping w)"
    by (simp_all add: w')
  have fresh: "fresh_token u w' \<longleftrightarrow> fresh_token u w" for u
    using old new by (auto simp: fresh_token_def fields new_conn_def)
  have flight: "in_flight w u \<Longrightarrow> in_flight w' u" for u
    using in_flight_new [OF fields(1) new] .
  have flight_tok: "in_flight w' tok"
    unfolding in_flight_def fields by (intro exI [of _ i]) (simp add: new_conn_def pending_def)
  have sub: "subscribed w u st j \<Longrightarrow> subscribed w' u st j" for u st j
    using new by (auto simp: subscribed_def fields)
  have keep: "(k, u) \<in> set (all_timers w')" if "(k, u) \<in> set (all_timers w)" "u \<noteq> tok" for k u
  proof -
    have "wn_timer s \<noteq> Some k"
    proof
      assume "wn_timer s = Some k"
      then have "(k, tok) \<in> set (all_timers w)"
        using web_okD(3) [OF ok s] by (simp add: entry_ok_def)
      from timer_keys [OF web_okD(4) [OF ok] that(1) this] that(2) show False by simp
    qed
    with that(1) show ?thesis by (auto simp: all_timers_def fields)
  qed
  have "conn_ok w' j d" if "wb_conns w' j = Some d" for j d
  proof (cases "j = i")
    case True
    with that show ?thesis by (auto simp: fields intro!: conn_ok_new)
  next
    case False
    with that have "conn_ok w j d" using web_okD(1) [OF ok] by (simp add: fields)
    then show ?thesis by (rule conn_ok_frame) (simp_all add: fields i)
  qed
  moreover have "task_ok w' u t" if "wb_tasks w' u = Some t" for u t
    using web_okD(2) [OF ok, of u t] that sub new by (fastforce simp: task_ok_def fields)
  moreover have "entry_ok w' u r" if "wb_table w' u = Some r" for u r
  proof (cases "u = tok")
    case True
    with that web_okD(3) [OF ok s] flight_tok new show ?thesis
      by (auto simp: entry_ok_def fields split: option.splits)
  next
    case False
    with that have r: "wb_table w u = Some r" by (simp add: fields)
    from web_okD(3) [OF ok r] flight [of u] new keep False show ?thesis
      by (auto simp: entry_ok_def fields split: option.splits)
  qed
  moreover have "timers_ok w'"
  proof -
    have "distinct (map fst (all_timers w'))"
      using web_okD(4) [OF ok] by (auto simp: timers_ok_def all_timers_def fields filter_distinct_map)
    moreover have "set (all_timers w') \<subseteq> set (all_timers w)" "set (wb_sleeping w') \<subseteq> set (wb_sleeping w)"
      by (auto simp: all_timers_def fields)
    moreover have "(k, tok) \<notin> set (wb_sleeping w')" for k
      using web_okD(4) [OF ok] s by (auto simp: timers_ok_def fields)
    ultimately show ?thesis
      using web_okD(4) [OF ok] unfolding timers_ok_def fresh
      by (auto simp: fields)
  qed
  moreover have "fresh_ok w'"
    using web_okD(5) [OF ok] old by (auto simp: fresh_ok_def fresh fields)
  ultimately show ?thesis by (simp add: web_ok_def)
qed

lemma create_ok:
  assumes ok: "web_ok w" and fresh_tok: "fresh_token tok w"
  shows "web_ok (snd (create tok sid w))" (is "web_ok ?w")
proof -
  let ?i = "wb_next_conn w"
  have fields: "wb_conns ?w = (wb_conns w)(?i \<mapsto> new_conn tok False Live)"
    "wb_tasks ?w = (wb_tasks w)(tok \<mapsto> \<lparr>ft_scrollback = [], ft_active = Some ?i, ft_commands = [], ft_started = False\<rparr>)"
    "wb_table ?w = (wb_table w)(tok \<mapsto> \<lparr>wn_sid = sid, wn_owner = Some ?i, wn_timer = None\<rparr>)"
    "wb_output ?w = wb_output w" "wb_next_conn ?w = ?i + 1" "wb_sleeping ?w = wb_sleeping w"
    "wb_woken ?w = wb_woken w" "wb_next_timer ?w = wb_next_timer w"
    by (simp_all add: create_def Let_def)
  have new: "wb_conns w ?i = None"
    using web_okD(1) [OF ok, of ?i] by (cases "wb_conns w ?i") (auto simp: conn_ok_def)
  have fresh: "fresh_token u ?w \<longleftrightarrow> fresh_token u w \<and> u \<noteq> tok" for u
    using new by (auto simp: fresh_token_def fields new_conn_def)
  have flight: "in_flight w u \<Longrightarrow> in_flight ?w u" for u
    using in_flight_new [OF fields(1) new] .
  have tokens: "wb_conns w j = Some d \<Longrightarrow> cn_token d \<noteq> tok" for j d
    using fresh_tok by (auto simp: fresh_token_def)
  have none: "wb_output w tok = []" "wb_table w tok = None"
    using web_okD(5) [OF ok] fresh_tok by (auto simp: fresh_ok_def)
  have timers: "(k, u) \<in> set (all_timers w) \<Longrightarrow> u \<noteq> tok" for k u
    using web_okD(4) [OF ok] fresh_tok by (auto simp: timers_ok_def)
  have "conn_ok ?w j d" if "wb_conns ?w j = Some d" for j d
  proof (cases "j = ?i")
    case True
    with that show ?thesis by (auto simp: fields intro!: conn_ok_new)
  next
    case False
    with that have d: "wb_conns w j = Some d" by (simp add: fields)
    from web_okD(1) [OF ok d] tokens [OF d] show ?thesis
      unfolding conn_ok_def fields by (elim conjE, intro conjI) simp_all
  qed
  moreover have "task_ok ?w u t" if "wb_tasks ?w u = Some t" for u t
  proof (cases "u = tok")
    case True
    with that show ?thesis
      by (auto simp: task_ok_def fields none subscribed_def new_conn_def pending_def awaiting_def items_def)
  next
    case False
    have "subscribed w u st j \<Longrightarrow> subscribed ?w u st j" for st j
      using new by (auto simp: subscribed_def fields)
    with False web_okD(2) [OF ok, of u t] that new show ?thesis by (fastforce simp: task_ok_def fields)
  qed
  moreover have "entry_ok ?w u r" if "wb_table ?w u = Some r" for u r
  proof (cases "u = tok")
    case True
    with that show ?thesis by (auto simp: entry_ok_def fields new_conn_def holds_def)
  next
    case False
    with that have r: "wb_table w u = Some r" by (simp add: fields)
    from web_okD(3) [OF ok r] flight [of u] new False show ?thesis
      by (auto simp: entry_ok_def fields all_timers_def split: option.splits)
  qed
  moreover have "timers_ok ?w"
    using web_okD(4) [OF ok] timers unfolding timers_ok_def fresh all_timers_def fields by auto
  moreover have "fresh_ok ?w"
    using web_okD(5) [OF ok] by (auto simp: fresh_ok_def fresh fields)
  ultimately show ?thesis by (simp add: web_ok_def)
qed

lemma timer_wake_ok:
  assumes ok: "web_ok w" and "timer_wake k w = Some w'"
  shows "web_ok w'"
proof -
  from assms(2) obtain tok where tok: "map_of (wb_sleeping w) k = Some tok"
    and w': "w' = w\<lparr>wb_sleeping := filter (\<lambda>p. fst p \<noteq> k) (wb_sleeping w), wb_woken := (k, tok) # wb_woken w\<rparr>"
    by (auto simp: timer_wake_def split: option.splits)
  have mem: "(k, tok) \<in> set (wb_sleeping w)"
    using tok by (rule map_of_SomeD)
  have d: "distinct (map fst (wb_sleeping w @ wb_woken w))"
    using web_okD(4) [OF ok] by (simp add: timers_ok_def all_timers_def)
  have same: "set (all_timers w') = set (all_timers w)"
    using mem timer_keys [OF web_okD(4) [OF ok], of k] by (auto simp: all_timers_def w')
  have "distinct (map fst (all_timers w'))"
  proof -
    have "k \<notin> fst ` set (wb_woken w)"
      using d mem by force
    with d show ?thesis by (auto simp: all_timers_def w' filter_distinct_map)
  qed
  with web_okD(4) [OF ok] same have "timers_ok w'"
    unfolding timers_ok_def by (auto simp: w' fresh_token_def)
  moreover have "conn_ok w' i c = conn_ok w i c" "task_ok w' u t = task_ok w u t" "fresh_ok w' = fresh_ok w" for i c u t
    by (simp_all add: w' conn_ok_def task_ok_def subscribed_def fresh_ok_def fresh_token_def)
  moreover have "entry_ok w' u s = entry_ok w u s" for u s
    using same by (simp add: entry_ok_def in_flight_def w' cong: option.case_cong)
  ultimately show ?thesis
    using ok by (simp add: web_ok_def) (simp add: w')
qed

lemma timer_remove_ok:
  assumes ok: "web_ok w" and "timer_remove k w = Some w'"
  shows "web_ok w'"
proof -
  from assms(2) obtain tok where tok: "map_of (wb_woken w) k = Some tok"
    and w': "w' = set_entry tok None (w\<lparr>wb_woken := filter (\<lambda>p. fst p \<noteq> k) (wb_woken w)\<rparr>)"
    by (auto simp: timer_remove_def split: option.splits)
  have sub: "set (all_timers w') \<subseteq> set (all_timers w)"
    by (auto simp: all_timers_def w')
  have keep: "(l, u) \<in> set (all_timers w')" if "(l, u) \<in> set (all_timers w)" "u \<noteq> tok" for l u
    using that map_of_SomeD [OF tok] timer_keys [OF web_okD(4) [OF ok] that(1), of tok]
    by (auto simp: all_timers_def w')
  have "distinct (map fst (all_timers w'))"
    using web_okD(4) [OF ok] by (auto simp: timers_ok_def all_timers_def w' filter_distinct_map)
  with web_okD(4) [OF ok] sub have "timers_ok w'"
    unfolding timers_ok_def by (auto simp: w' fresh_token_def)
  moreover have "conn_ok w' i c = conn_ok w i c" "task_ok w' u t = task_ok w u t" for i c u t
    by (simp_all add: w' conn_ok_def task_ok_def subscribed_def)
  moreover have "fresh_ok w'"
    using web_okD(5) [OF ok] by (auto simp: fresh_ok_def fresh_token_def w')
  moreover have "entry_ok w' u s" if "wb_table w u = Some s" "u \<noteq> tok" for u s
    using web_okD(3) [OF ok that(1)] keep that(2)
    by (auto simp: entry_ok_def in_flight_def w' split: option.splits)
  ultimately show ?thesis
    using ok by (auto simp: web_ok_def) (simp_all add: w' split: if_splits)
qed

lemma attach_send_ok:
  assumes ok: "web_ok w" and "attach_send i w = Some w'"
  shows "web_ok w'"
proof -
  from assms(2) obtain c where c: "wb_conns w i = Some c" "cn_stage c = Sending"
    by (auto simp: attach_send_def split: option.splits if_splits)
  note c_ok = web_okD(1) [OF ok c(1)]
  show ?thesis
  proof (cases "wb_tasks w (cn_token c)")
    case None
    with assms(2) c gone_ok [OF ok c(1) None] show ?thesis by (simp add: attach_send_def)
  next
    case (Some t)
    let ?t = "t\<lparr>ft_commands := ft_commands t @ [i]\<rparr>" and ?c = "c\<lparr>cn_stage := Awaiting\<rparr>"
    have w': "w' = set_task (cn_token c) (Some ?t) (set_conn i ?c w)"
      using assms(2) c Some by (simp add: attach_send_def split: if_splits)
    have old: "pending c" "\<not> awaiting c" "cn_reply c = None"
      using c c_ok by (auto simp: pending_def awaiting_def conn_ok_def)
    have stages: "awaiting ?c" "pending ?c" "items ?c = items c" "\<not> holds c"
      using old c by (simp_all add: awaiting_def pending_def items_def holds_def)
    have flight: "in_flight w' u = in_flight w u" for u
      using in_flight_set_conn [OF c(1), of ?c u] stages(2) old(1) by (simp add: in_flight_def w')
    have idle: "i \<notin> set (ft_commands u)" if "wb_tasks w tok = Some u" for tok u
      using web_okD(2) [OF ok that] c(1) old(2) by (auto simp: task_ok_def)
    have sub: "subscribed w u st j \<Longrightarrow> subscribed w' u st j" for u st j
      using c(1) old(1) by (auto simp: subscribed_def w')
    have "conn_ok w' j d" if "wb_conns w' j = Some d" for j d
    proof (cases "j = i")
      case True
      with that c_ok old stages show ?thesis by (auto simp: conn_ok_def w')
    next
      case False
      with that have "wb_conns w j = Some d" by (simp add: w')
      from web_okD(1) [OF ok this] Some show ?thesis
        unfolding conn_ok_def by (elim conjE, intro conjI) (simp_all add: w')
    qed
    moreover have "task_ok w' u t'" if "wb_tasks w' u = Some t'" for u t'
    proof (cases "u = cn_token c")
      case True
      with that have "t' = ?t" by (simp add: w')
      with web_okD(2) [OF ok Some] sub idle [OF Some] stages(1) True show ?thesis
        by (fastforce simp: task_ok_def w')
    next
      case False
      with that have t': "wb_tasks w u = Some t'" by (simp add: w')
      from web_okD(2) [OF ok t'] sub idle [OF t'] show ?thesis
        by (fastforce simp: task_ok_def w')
    qed
    moreover have "entry_ok w' u s" if "wb_table w u = Some s" for u s
      using web_okD(3) [OF ok that] flight [of u] c(1) stages(4)
      by (auto simp: entry_ok_def w' split: option.splits)
    moreover have "timers_ok w'" "fresh_ok w'"
      using web_okD(4,5) [OF ok] fresh_set_conn [OF c(1), of ?c] Some
      by (auto simp: timers_ok_def fresh_ok_def w')
    ultimately show ?thesis by (auto simp: web_ok_def w')
  qed
qed

lemma attach_return_ok:
  assumes ok: "web_ok w" and "attach_return i w = Some (r, w')"
  shows "web_ok w'"
proof -
  from assms(2) obtain c where c: "wb_conns w i = Some c" "cn_stage c = Awaiting"
    by (auto simp: attach_return_def split: option.splits if_splits)
  note c_ok = web_okD(1) [OF ok c(1)]
  consider "cn_reply c = Some True" "w' = set_conn i (c\<lparr>cn_stage := Live\<rparr>) w"
    | "cn_reply c = Some False" "w' = set_conn i (c\<lparr>cn_stage := Gone, cn_receiving := False\<rparr>) w"
    | "wb_tasks w (cn_token c) = None" "w' = set_conn i (c\<lparr>cn_stage := Gone, cn_receiving := False\<rparr>) w"
    using assms(2) c by (auto simp: attach_return_def split: option.splits if_splits bool.splits)
  then show ?thesis
  proof cases
    case 1
    have "moves_on c (c\<lparr>cn_stage := Live\<rparr>)"
      using 1(1) c(2) by (simp add: moves_on_def items_def pending_def awaiting_def holds_def)
    with 1(2) moves_on_ok [OF ok c(1)] show ?thesis by simp
  next
    case 2
    have "moves_on c (c\<lparr>cn_stage := Gone, cn_receiving := False\<rparr>)"
      using 2(1) c(2) by (simp add: moves_on_def items_def pending_def awaiting_def holds_def)
    with 2(2) moves_on_ok [OF ok c(1)] show ?thesis by simp
  next
    case 3
    with gone_ok [OF ok c(1)] show ?thesis by simp
  qed
qed

lemma live_moves_on:
  "cn_stage c = Live \<Longrightarrow> cn_stage c' = Live \<Longrightarrow> cn_token c' = cn_token c \<Longrightarrow> items c' = items c
    \<Longrightarrow> length (cn_queue c') \<le> length (cn_queue c) \<Longrightarrow> moves_on c c'"
  by (simp add: moves_on_def pending_def awaiting_def holds_def)

lemma read_output_ok:
  assumes ok: "web_ok w" and "read_output i w = Some w'"
  shows "web_ok w'"
proof -
  from assms(2) obtain c x q where c: "wb_conns w i = Some c" "cn_stage c = Live" "cn_queue c = x # q"
    and w': "w' = set_conn i (c\<lparr>cn_queue := q, cn_read := cn_read c @ [x]\<rparr>) w"
    by (auto simp: read_output_def split: option.splits if_splits list.splits)
  have "moves_on c (c\<lparr>cn_queue := q, cn_read := cn_read c @ [x]\<rparr>)"
    using c by (intro live_moves_on) (simp_all add: items_def)
  with moves_on_ok [OF ok c(1)] w' show ?thesis by simp
qed

lemma stop_reading_ok:
  assumes ok: "web_ok w" and "stop_reading i w = Some w'"
  shows "web_ok w'"
proof -
  from assms(2) obtain c where c: "wb_conns w i = Some c" "cn_stage c = Live"
    and w': "w' = set_conn i (c\<lparr>cn_receiving := False\<rparr>) w"
    by (auto simp: stop_reading_def split: option.splits if_splits)
  have "moves_on c (c\<lparr>cn_receiving := False\<rparr>)"
    using c by (intro live_moves_on) (simp_all add: items_def)
  with moves_on_ok [OF ok c(1)] w' show ?thesis by simp
qed

lemma finish_ok:
  assumes ok: "web_ok w" and "finish i w = Some w'"
  shows "web_ok w'"
proof -
  from assms(2) obtain c where c: "wb_conns w i = Some c" "cn_stage c = Live"
    by (auto simp: finish_def split: option.splits if_splits)
  let ?c = "c\<lparr>cn_stage := Gone, cn_receiving := False\<rparr>"
  let ?v = "set_conn i ?c w"
  have w': "w' = detach (cn_token c) i ?v"
    using assms(2) c by (simp add: finish_def)
  have stages: "\<not> pending c" "\<not> awaiting c" "\<not> pending ?c" "\<not> awaiting ?c" "items ?c = items c"
    using c by (simp_all add: awaiting_def pending_def items_def)
  have flight: "in_flight ?v u = in_flight w u" for u
    using in_flight_set_conn [OF c(1), of ?c u] stages by simp
  have sub: "subscribed w u st j \<Longrightarrow> subscribed ?v u st j" for u st j
    using c(1) stages by (auto simp: subscribed_def)
  have conns: "conn_ok ?v j d" if "wb_conns ?v j = Some d" for j d
  proof (cases "j = i")
    case True
    with that conn_ok_gone [OF web_okD(1) [OF ok c(1)]] have "conn_ok w j d" by auto
    then show ?thesis by (rule conn_ok_frame) simp_all
  next
    case False
    with that web_okD(1) [OF ok] have "conn_ok w j d" by simp
    then show ?thesis by (rule conn_ok_frame) simp_all
  qed
  have tasks: "task_ok ?v u t" if "wb_tasks w u = Some t" for u t
    using web_okD(2) [OF ok that] sub c(1) stages(2) by (fastforce simp: task_ok_def)
  have others: "entry_ok ?v u s" if "wb_table w u = Some s" "wn_owner s \<noteq> Some i" for u s
    using web_okD(3) [OF ok that(1)] flight [of u] c(1) that(2)
    by (auto simp: entry_ok_def split: option.splits)
  have rest: "timers_ok ?v" "fresh_ok ?v"
    using web_okD(4,5) [OF ok] fresh_set_conn [OF c(1), of ?c] by (auto simp: timers_ok_def fresh_ok_def)
  have owned: "u = cn_token c" if "wb_table w u = Some s" "wn_owner s = Some i" for u s
    using web_okD(3) [OF ok that(1)] c(1) that(2) by (auto simp: entry_ok_def)
  show ?thesis
  proof (cases "\<exists>s. wb_table w (cn_token c) = Some s \<and> wn_owner s = Some i")
    case False
    then have "w' = ?v"
      by (auto simp: w' detach_def split: option.splits)
    moreover have "entry_ok ?v u s" if "wb_table w u = Some s" for u s
    proof -
      have "wn_owner s \<noteq> Some i"
        using owned [OF that] that False by blast
      with others that show ?thesis by blast
    qed
    ultimately show ?thesis
      using conns tasks rest unfolding web_ok_def by simp
  next
    case True
    then obtain s where s: "wb_table w (cn_token c) = Some s" "wn_owner s = Some i" by blast
    let ?k = "wb_next_timer w" and ?s = "s\<lparr>wn_owner := None, wn_timer := Some (wb_next_timer w)\<rparr>"
    have w'': "w' = set_entry (cn_token c) (Some ?s)
        (?v\<lparr>wb_next_timer := ?k + 1, wb_sleeping := (?k, cn_token c) # wb_sleeping w\<rparr>)"
      using s by (simp add: w' detach_def Let_def)
    have fresh: "fresh_token u w' = fresh_token u ?v" for u
      by (simp add: fresh_token_def w'')
    have not_fresh: "\<not> fresh_token (cn_token c) ?v"
      using rest(2) s by (auto simp: fresh_ok_def)
    have all: "all_timers w' = (?k, cn_token c) # all_timers w"
      by (simp add: all_timers_def w'')
    have "k < ?k" if "(k, u) \<in> set (all_timers w)" for k u
      using web_okD(4) [OF ok] that unfolding timers_ok_def by blast
    then have "?k \<notin> fst ` set (all_timers w)"
      by fastforce
    moreover have "(k, cn_token c) \<notin> set (wb_sleeping w)" for k
      using web_okD(4) [OF ok] s by (auto simp: timers_ok_def)
    ultimately have "timers_ok w'"
      using rest(1) not_fresh unfolding timers_ok_def fresh all by (auto simp: w'' less_Suc_eq)
    moreover have "conn_ok w' j d" if "conn_ok ?v j d" for j d
      by (rule conn_ok_frame [OF that]) (simp_all add: w'')
    moreover have "task_ok w' u t = task_ok ?v u t" for u t
      by (simp add: task_ok_def subscribed_def w'')
    moreover have "entry_ok w' u r" if "wb_table w' u = Some r" for u r
    proof (cases "u = cn_token c")
      case True
      with that web_okD(3) [OF ok s(1)] show ?thesis by (auto simp: entry_ok_def w'' all_timers_def)
    next
      case False
      with that have r: "wb_table w u = Some r" by (simp add: w'')
      with owned False have "wn_owner r \<noteq> Some i" by blast
      have "wb_tasks w' = wb_tasks ?v" "wb_conns w' = wb_conns ?v" "in_flight w' u = in_flight ?v u"
        by (simp_all add: in_flight_def w'')
      with others [OF r \<open>wn_owner r \<noteq> Some i\<close>] all show ?thesis
        by (auto simp: entry_ok_def split: option.splits)
    qed
    moreover have "fresh_ok w'"
      using rest(2) not_fresh unfolding fresh_ok_def fresh by (auto simp: w'')
    ultimately show ?thesis
      using conns tasks by (auto simp: web_ok_def) (auto simp: w'')
  qed
qed

text \<open>Everything but the entry of one session.\<close>

definition web_ok_except :: "string \<Rightarrow> web \<Rightarrow> bool" where
  "web_ok_except tok w \<longleftrightarrow>
     (\<forall>i c. wb_conns w i = Some c \<longrightarrow> conn_ok w i c)
   \<and> (\<forall>u t. wb_tasks w u = Some t \<longrightarrow> task_ok w u t)
   \<and> (\<forall>u s. u \<noteq> tok \<longrightarrow> wb_table w u = Some s \<longrightarrow> entry_ok w u s)
   \<and> timers_ok w \<and> fresh_ok w"

text \<open>The task has answered the first command: its connection is no longer pending.\<close>

lemma answer_ok:
  assumes ok: "web_ok w" and t: "wb_tasks w tok = Some t" "ft_commands t = i # rest" "ft_started t"
    and c: "wb_conns w i = Some c" "cn_token c' = tok" "\<not> pending c'" "cn_stage c' = Awaiting"
    "items c' = replay (ft_scrollback t)" "length (cn_queue c') \<le> OUTPUT_CHUNKS"
    and t': "t' = t\<lparr>ft_commands := rest, ft_active := a\<rparr>" "a = ft_active t \<or> a = Some i"
  shows "web_ok_except tok (set_task tok (Some t') (set_conn i c' w))" (is "web_ok_except tok ?w")
proof -
  note t_ok = web_okD(2) [OF ok t(1)]
  have c_tok: "cn_token c = tok" "awaiting c"
    using t_ok t(2) c(1) by (auto simp: task_ok_def)
  have rest: "i \<notin> set rest" "distinct rest"
    using t_ok t(2) by (auto simp: task_ok_def)
  have c'_st: "\<not> awaiting c'"
    using c(3) by (simp add: pending_def)
  have end_of: "suffix (ft_scrollback t) (wb_output w tok)"
    using t_ok by (simp add: task_ok_def suffix_drop)
  have sub: "subscribed w u st j \<Longrightarrow> subscribed ?w u st j" for u st j
    using c(1) c_tok by (auto simp: subscribed_def pending_def)
  have sub_i: "subscribed ?w tok True i"
    using c end_of by (simp add: subscribed_def)
  have "conn_ok ?w j d" if "wb_conns ?w j = Some d" for j d
  proof (cases "j = i")
    case True
    with that have d: "d = c'" by simp
    have "sublist (item_bytes (items c')) (wb_output w tok)"
      using end_of by (simp add: c(5) suffix_imp_sublist)
    with c c'_st web_okD(1) [OF ok c(1)] True d show ?thesis
      unfolding conn_ok_def by (simp add: c(5))
  next
    case False
    with that have "wb_conns w j = Some d" by simp
    from web_okD(1) [OF ok this] False t t' show ?thesis
      unfolding conn_ok_def by (elim conjE, intro conjI) auto
  qed
  moreover have "task_ok ?w u t''" if "wb_tasks ?w u = Some t''" for u t''
  proof (cases "u = tok")
    case True
    with that have t'': "t'' = t'" by simp
    have "subscribed ?w tok True j" if "a = Some j" for j
      using t'(2) that sub_i sub t_ok t(3) by (auto simp: task_ok_def)
    moreover have "\<exists>d. wb_conns ?w j = Some d \<and> cn_token d = tok \<and> awaiting d" if "j \<in> set rest" for j
      using t_ok t(2) rest(1) that by (auto simp: task_ok_def)
    ultimately show ?thesis
      using t_ok t rest(2) t' unfolding t'' True by (simp add: task_ok_def)
  next
    case False
    with that have u: "wb_tasks w u = Some t''" by simp
    from web_okD(2) [OF ok u] sub c(1) c_tok False show ?thesis
      by (fastforce simp: task_ok_def)
  qed
  moreover have "entry_ok ?w u s" if "wb_table w u = Some s" "u \<noteq> tok" for u s
  proof -
    have "in_flight ?w u = in_flight w u"
      unfolding in_flight_def by (rule ex_cong1) (use c c_tok that in auto)
    with web_okD(3) [OF ok that(1)] c(1) c_tok that(2) show ?thesis
      by (auto simp: entry_ok_def split: option.splits)
  qed
  moreover have "timers_ok ?w" "fresh_ok ?w"
    using web_okD(4,5) [OF ok] fresh_set_conn [OF c(1), of c'] c(2) c_tok t(1)
    by (auto simp: timers_ok_def fresh_ok_def)
  ultimately show ?thesis by (simp add: web_ok_except_def)
qed

lemma install_ok:
  assumes ok: "web_ok_except tok w" and s: "wb_table w tok = Some s" "wb_tasks w tok \<noteq> None"
    "\<And>k. wn_timer s = Some k \<Longrightarrow> (k, tok) \<in> set (all_timers w)"
    and c: "wb_conns w i = Some c" "cn_token c = tok" "holds c"
  shows "web_ok (set_entry tok (Some (s\<lparr>wn_timer := None, wn_owner := Some i\<rparr>)) (abort_timer (wn_timer s) w))"
    (is "web_ok ?w")
proof -
  have timers: "timers_ok w" and others: "\<And>u r. u \<noteq> tok \<Longrightarrow> wb_table w u = Some r \<Longrightarrow> entry_ok w u r"
    using ok by (auto simp: web_ok_except_def)
  have keep: "(k, u) \<in> set (all_timers ?w)" if "(k, u) \<in> set (all_timers w)" "u \<noteq> tok" for k u
    using that timer_keys [OF timers that(1), of tok] s(3) by (auto simp: all_timers_def)
  have sub: "set (all_timers ?w) \<subseteq> set (all_timers w)"
    by (auto simp: all_timers_def)
  have "distinct (map fst (all_timers ?w))"
    using timers by (auto simp: timers_ok_def all_timers_def filter_distinct_map)
  moreover have "(k, tok) \<notin> set (wb_sleeping ?w)" for k
    using timers s(1) by (auto simp: timers_ok_def)
  ultimately have "timers_ok ?w"
    using timers sub unfolding timers_ok_def by auto
  moreover have "entry_ok ?w u r" if "wb_table w u = Some r" "u \<noteq> tok" for u r
    using others [OF that(2,1)] keep that(2)
    by (auto simp: entry_ok_def in_flight_def split: option.splits)
  moreover have "entry_ok ?w tok (s\<lparr>wn_timer := None, wn_owner := Some i\<rparr>)"
    using s(2) c by (auto simp: entry_ok_def)
  moreover have "conn_ok ?w j d = conn_ok w j d" "task_ok ?w u t = task_ok w u t" for j d u t
    by (simp_all add: conn_ok_def task_ok_def subscribed_def)
  moreover have "fresh_ok ?w"
    using ok s(1) by (auto simp: web_ok_except_def fresh_ok_def)
  ultimately show ?thesis
    using ok by (simp add: web_ok_def web_ok_except_def)
qed

lemma except_ok: "web_ok_except tok w \<Longrightarrow> wb_table w tok = None \<Longrightarrow> web_ok w"
  unfolding web_ok_def web_ok_except_def by (metis option.distinct(1))

lemma notify_simps [simp]:
  "wb_table (notify r a w) = wb_table w" "wb_tasks (notify r a w) = wb_tasks w"
  "all_timers (notify r a w) = all_timers w" "wb_output (notify r a w) = wb_output w"
  "a \<noteq> Some i \<Longrightarrow> wb_conns (notify r a w) i = wb_conns w i"
  by (auto simp: notify_def split: option.splits)

text \<open>What a task finds at the head of its commands: a connection that has received nothing.\<close>

lemma head_command:
  assumes ok: "web_ok w" and t: "wb_tasks w tok = Some t" "ft_commands t = i # rest"
  obtains c where "wb_conns w i = Some c" "cn_token c = tok" "cn_stage c = Awaiting" "cn_receiving c"
    "items c = []" "cn_queue c = []" "ft_active t \<noteq> Some i"
proof -
  note t_ok = web_okD(2) [OF ok t(1)]
  obtain c where c: "wb_conns w i = Some c" "cn_token c = tok" "awaiting c"
    using t_ok t(2) by (auto simp: task_ok_def)
  have "cn_receiving c" "items c = []"
    using web_okD(1) [OF ok c(1)] c(3) by (auto simp: conn_ok_def pending_def)
  moreover have "ft_active t \<noteq> Some i"
    using t_ok c by (auto simp: task_ok_def subscribed_def pending_def)
  ultimately show thesis
    using that c by (auto simp: awaiting_def items_def)
qed

lemma scrollback_length:
  assumes "web_ok w" "wb_tasks w tok = Some t"
  shows "length (ft_scrollback t) \<le> SCROLLBACK_BYTES"
  using web_okD(2) [OF assms] by (simp add: task_ok_def)

lemma forward_attach_cases:
  assumes ok: "web_ok w" and "forward_attach tok w = Some w'"
  obtains t i rest c where "wb_tasks w tok = Some t" "ft_started t" "ft_commands t = i # rest"
    "wb_conns w i = Some c" "cn_token c = tok" "cn_stage c = Awaiting" "cn_receiving c" "items c = []" "cn_queue c = []"
    "ft_active t \<noteq> Some i"
    "(case wb_table w tok of
        None \<Rightarrow> w' = set_task tok (Some (t\<lparr>ft_commands := rest\<rparr>))
          (set_conn i (c\<lparr>cn_queue := replay (ft_scrollback t), cn_reply := Some False\<rparr>) w)
      | Some s \<Rightarrow> w' = set_entry tok (Some (s\<lparr>wn_timer := None, wn_owner := Some i\<rparr>)) (abort_timer (wn_timer s)
          (set_task tok (Some (t\<lparr>ft_commands := rest, ft_active := Some i\<rparr>))
          (set_conn i (c\<lparr>cn_queue := replay (ft_scrollback t), cn_reply := Some True\<rparr>) (notify Replaced (ft_active t) w)))))"
proof -
  from assms(2) obtain t i rest where t: "wb_tasks w tok = Some t" "ft_started t" "ft_commands t = i # rest"
    by (auto simp: forward_attach_def split: option.splits if_splits list.splits)
  obtain c where c: "wb_conns w i = Some c" "cn_token c = tok" "cn_stage c = Awaiting" "cn_receiving c"
    "items c = []" "cn_queue c = []" "ft_active t \<noteq> Some i"
    using head_command [OF ok t(1,3)] .
  show thesis
  proof (rule that [OF t(1,2,3) c])
    show "case wb_table w tok of
        None \<Rightarrow> w' = set_task tok (Some (t\<lparr>ft_commands := rest\<rparr>))
          (set_conn i (c\<lparr>cn_queue := replay (ft_scrollback t), cn_reply := Some False\<rparr>) w)
      | Some s \<Rightarrow> w' = set_entry tok (Some (s\<lparr>wn_timer := None, wn_owner := Some i\<rparr>)) (abort_timer (wn_timer s)
          (set_task tok (Some (t\<lparr>ft_commands := rest, ft_active := Some i\<rparr>))
          (set_conn i (c\<lparr>cn_queue := replay (ft_scrollback t), cn_reply := Some True\<rparr>) (notify Replaced (ft_active t) w))))"
      using assms(2) t c by (simp add: forward_attach_def Let_def split: option.splits)
  qed
qed

lemma forward_attach_ok:
  assumes ok: "web_ok w" and step: "forward_attach tok w = Some w'"
  shows "web_ok w'"
proof -
  obtain t i rest c where t: "wb_tasks w tok = Some t" "ft_started t" "ft_commands t = i # rest"
    and c: "wb_conns w i = Some c" "cn_token c = tok" "cn_stage c = Awaiting" "cn_receiving c" "items c = []"
      "cn_queue c = []" "ft_active t \<noteq> Some i"
    and w': "(case wb_table w tok of
        None \<Rightarrow> w' = set_task tok (Some (t\<lparr>ft_commands := rest\<rparr>))
          (set_conn i (c\<lparr>cn_queue := replay (ft_scrollback t), cn_reply := Some False\<rparr>) w)
      | Some s \<Rightarrow> w' = set_entry tok (Some (s\<lparr>wn_timer := None, wn_owner := Some i\<rparr>)) (abort_timer (wn_timer s)
          (set_task tok (Some (t\<lparr>ft_commands := rest, ft_active := Some i\<rparr>))
          (set_conn i (c\<lparr>cn_queue := replay (ft_scrollback t), cn_reply := Some True\<rparr>) (notify Replaced (ft_active t) w)))))"
    using forward_attach_cases [OF ok step] .
  let ?c = "\<lambda>b. c\<lparr>cn_queue := replay (ft_scrollback t), cn_reply := Some b\<rparr>"
  have fits: "length (cn_queue (?c b)) \<le> OUTPUT_CHUNKS" for b
    using replay_length [OF scrollback_length [OF ok t(1)]] by (simp add: OUTPUT_CHUNKS_def)
  have c': "cn_token (?c b) = tok" "\<not> pending (?c b)" "cn_stage (?c b) = Awaiting"
    "items (?c b) = replay (ft_scrollback t)" for b
    using c by (simp_all add: pending_def awaiting_def items_def)
  show ?thesis
  proof (cases "wb_table w tok")
    case None
    have "web_ok_except tok w'"
      using answer_ok [OF ok t(1,3,2) c(1) c' fits refl, of "ft_active t" False] w' None by simp
    moreover have "wb_table w' tok = None"
      using w' None by simp
    ultimately show ?thesis by (rule except_ok)
  next
    case (Some s)
    let ?v = "notify Replaced (ft_active t) w"
    let ?u = "set_task tok (Some (t\<lparr>ft_commands := rest, ft_active := Some i\<rparr>)) (set_conn i (?c True) ?v)"
    have v: "web_ok ?v" "wb_tasks ?v tok = Some t" "wb_conns ?v i = Some c"
      using notify_ok [OF ok] t(1) c(1,7) by simp_all
    have "web_ok_except tok ?u"
      using answer_ok [OF v(1,2) t(3,2) v(3) c' fits refl, of "Some i" True] by simp
    moreover have "wn_timer s = Some k \<Longrightarrow> (k, tok) \<in> set (all_timers ?u)" for k
      using web_okD(3) [OF ok Some] by (simp add: entry_ok_def)
    moreover have "holds (?c True)"
      using c(3) by (simp add: holds_def)
    ultimately show ?thesis
      using install_ok [of tok ?u s i "?c True"] Some w' c(2) by simp
  qed
qed

lemma forward_start_ok:
  assumes ok: "web_ok w" and step: "forward_start tok w = Some w'"
  shows "web_ok w'"
proof -
  from step obtain t where t: "wb_tasks w tok = Some t" "\<not> ft_started t"
    by (auto simp: forward_start_def split: option.splits if_splits)
  note t_ok = web_okD(2) [OF ok t(1)]
  have out: "wb_output w tok = []"
    using t_ok t(2) by (simp add: task_ok_def)
  show ?thesis
  proof (cases "ft_active t")
    case None
    with step t have w': "w' = set_task tok (Some (t\<lparr>ft_started := True\<rparr>)) w"
      by (simp add: forward_start_def)
    have sub: "subscribed w' u st j = subscribed w u st j" and out': "wb_output w' = wb_output w"
      and conns': "wb_conns w' = wb_conns w" and tasks': "wb_tasks w' = (wb_tasks w)(tok \<mapsto> t\<lparr>ft_started := True\<rparr>)" for u st j
      by (simp_all add: subscribed_def w')
    have "conn_ok w' i c" if "conn_ok w i c" for i c
      using that t by (auto simp: conn_ok_def w')
    moreover have "task_ok w' u t'" if "wb_tasks w' u = Some t'" for u t'
      using that t_ok web_okD(2) [OF ok, of u t'] None unfolding task_ok_def sub out' conns' tasks'
      by (cases "u = tok") auto
    moreover have "entry_ok w' u s" if "entry_ok w u s" for u s
      using that by (auto simp: entry_ok_def in_flight_def w' split: option.splits)
    moreover have "timers_ok w'" "fresh_ok w'"
      using web_okD(4,5) [OF ok] t(1) by (auto simp: timers_ok_def fresh_ok_def w')
    ultimately show ?thesis
      using ok by (auto simp: web_ok_def) (auto simp: w')
  next
    case (Some i)
    then have "subscribed w tok False i"
      using t_ok t(2) by (simp add: task_ok_def)
    then obtain c where c: "wb_conns w i = Some c" "cn_token c = tok" "\<not> pending c" "items c = []"
      by (auto simp: subscribed_def)
    show ?thesis
    proof (cases "cn_receiving c")
      case False
      with step t Some c forward_end_ok [OF ok] show ?thesis by (simp add: forward_start_def)
    next
      case True
      let ?c = "c\<lparr>cn_queue := cn_queue c @ [Replay_end]\<rparr>" and ?t = "t\<lparr>ft_started := True\<rparr>"
      have w': "w' = set_conn i ?c (set_task tok (Some ?t) w)"
        using step t Some c True by (simp add: forward_start_def)
      have c': "items ?c = [Replay_end]" "cn_queue ?c = [Replay_end]" "\<not> pending ?c" "\<not> awaiting ?c" "\<not> awaiting c"
        "cn_stage ?c = cn_stage c" "holds ?c = holds c"
        using c(3,4) by (auto simp: items_def pending_def awaiting_def holds_def)
      have fresh: "fresh_token u w' = fresh_token u w" for u
        using c(1) by (auto simp: fresh_token_def w')
      have "conn_ok w' j d" if "wb_conns w' j = Some d" for j d
      proof (cases "j = i")
        case True
        with that c' web_okD(1) [OF ok c(1)] show ?thesis
          by (auto simp: conn_ok_def w' OUTPUT_CHUNKS_def)
      next
        case False
        with that have "wb_conns w j = Some d" by (simp add: w')
        from web_okD(1) [OF ok this] t show ?thesis
          by (auto simp: conn_ok_def w')
      qed
      moreover have "task_ok w' u t'" if "wb_tasks w' u = Some t'" for u t'
      proof (cases "u = tok")
        case True
        with that have "t' = ?t" by (simp add: w')
        moreover have "subscribed w' tok True i"
          using c c' by (simp add: subscribed_def w' out)
        moreover have "\<exists>d. wb_conns w' j = Some d \<and> cn_token d = tok \<and> awaiting d" if "j \<in> set (ft_commands t)" for j
          using t_ok c(1) c'(5) that by (auto simp: task_ok_def w')
        ultimately show ?thesis
          using t_ok Some True by (simp add: task_ok_def) (simp add: w')
      next
        case False
        with that have u: "wb_tasks w u = Some t'" by (simp add: w')
        have "subscribed w u st j \<Longrightarrow> subscribed w' u st j" for st j
          using False c(1,2) by (auto simp: subscribed_def w')
        with web_okD(2) [OF ok u] c c'(5) show ?thesis
          by (fastforce simp: task_ok_def w')
      qed
      moreover have "entry_ok w' u s" if "wb_table w u = Some s" for u s
      proof -
        have "in_flight w' u = in_flight w u"
          using in_flight_set_conn [OF c(1), of ?c u] c(3) c'(3) by (simp add: in_flight_def w')
        with web_okD(3) [OF ok that] c(1) c'(7) show ?thesis
          by (auto simp: entry_ok_def w' split: option.splits)
      qed
      moreover have "timers_ok w'" "fresh_ok w'"
        using web_okD(4,5) [OF ok] t(1) unfolding timers_ok_def fresh_ok_def fresh by (auto simp: w')
      ultimately show ?thesis by (auto simp: web_ok_def) (auto simp: w')
    qed
  qed
qed

text \<open>Output: only its own task and the connection it is given to change.\<close>

lemma output_ok:
  assumes ok: "web_ok w" and t: "wb_tasks w tok = Some t" "ft_started t"
    and v: "wb_table v = wb_table w" "wb_next_conn v = wb_next_conn w" "wb_sleeping v = wb_sleeping w"
      "wb_woken v = wb_woken w" "wb_next_timer v = wb_next_timer w"
      "wb_output v = (wb_output w)(tok := wb_output w tok @ b)"
      "wb_tasks v = (wb_tasks w)(tok \<mapsto> t\<lparr>ft_scrollback := push_scrollback (ft_scrollback t) b, ft_active := a\<rparr>)"
    and conns: "wb_conns v = wb_conns w \<and> a = None
      \<or> (\<exists>i c. ft_active t = Some i \<and> a = Some i \<and> wb_conns w i = Some c \<and> length (cn_queue c) < OUTPUT_CHUNKS
           \<and> wb_conns v = (wb_conns w)(i \<mapsto> c\<lparr>cn_queue := cn_queue c @ [Out_data b]\<rparr>))"
  shows "web_ok v"
proof -
  note t_ok = web_okD(2) [OF ok t(1)]
  have grows: "sublist x (wb_output w u) \<Longrightarrow> sublist x (wb_output v u)" for x u
    by (auto simp: v intro: sublist_snoc)
  have active: "subscribed w tok True i" if "ft_active t = Some i" for i
    using t_ok t(2) that by (simp add: task_ok_def)
  have old: "\<exists>c'. wb_conns v j = Some c' \<and> cn_token c' = cn_token c \<and> pending c' = pending c \<and> awaiting c' = awaiting c
      \<and> holds c' = holds c \<and> (cn_token c \<noteq> tok \<or> pending c \<longrightarrow> c' = c)" if "wb_conns w j = Some c" for j c
    using conns
  proof (elim disjE exE conjE)
    fix i d assume i: "ft_active t = Some i" "wb_conns w i = Some d"
      and v': "wb_conns v = (wb_conns w)(i \<mapsto> d\<lparr>cn_queue := cn_queue d @ [Out_data b]\<rparr>)"
    have "cn_token d = tok" "\<not> pending d"
      using active [OF i(1)] i(2) by (auto simp: subscribed_def)
    then show ?thesis
      using that i v' by (cases "j = i") (auto simp: pending_def awaiting_def holds_def)
  qed (use that in simp)
  have command: "\<exists>c. wb_conns v j = Some c \<and> cn_token c = u \<and> awaiting c"
    if "task_ok w u t'" "j \<in> set (ft_commands t')" for u t' j
  proof -
    from that obtain c where "wb_conns w j = Some c" "cn_token c = u" "awaiting c"
      unfolding task_ok_def by blast
    with old [OF this(1)] show ?thesis by auto
  qed
  have new: "conn_ok v j d" if d: "wb_conns v j = Some d" for j d
  proof (cases "wb_conns w j = Some d")
    case True
    from web_okD(1) [OF ok True] grows t show ?thesis
      unfolding conn_ok_def by (elim conjE, intro conjI) (auto simp: v(2,7))
  next
    case False
    with conns d obtain c where i: "ft_active t = Some j" "wb_conns w j = Some c" "length (cn_queue c) < OUTPUT_CHUNKS"
      "d = c\<lparr>cn_queue := cn_queue c @ [Out_data b]\<rparr>"
      by (auto split: if_splits)
    have c: "cn_token c = tok" "\<not> pending c" "framed (items c)" "suffix (item_bytes (items c)) (wb_output w tok)"
      using active [OF i(1)] i(2) by (auto simp: subscribed_def)
    have d': "items d = items c @ [Out_data b]" "\<not> pending d" "\<not> awaiting d" "cn_token d = tok"
      using c i(4) by (auto simp: items_def pending_def awaiting_def)
    have "suffix (item_bytes (items d)) (wb_output v tok)"
      using c(4) by (auto simp: d' v suffix_def)
    then have "sublist (item_bytes (items d)) (wb_output v tok)"
      by (rule suffix_imp_sublist)
    then show ?thesis
      using web_okD(1) [OF ok i(2)] d' framed_data [OF c(3)] i
      unfolding conn_ok_def by (simp add: v(2))
  qed
  have flight: "in_flight w u \<Longrightarrow> in_flight v u" for u
    using old unfolding in_flight_def by metis
  have "fresh_token u v \<longleftrightarrow> fresh_token u w" for u
  proof
    assume f: "fresh_token u v"
    show "fresh_token u w"
      unfolding fresh_token_def
    proof (intro allI impI)
      fix j c assume "wb_conns w j = Some c"
      from old [OF this] f show "cn_token c \<noteq> u" by (auto simp: fresh_token_def)
    qed
  next
    assume f: "fresh_token u w"
    show "fresh_token u v"
      using conns
    proof (elim disjE exE conjE)
      fix i c assume "wb_conns w i = Some c" "wb_conns v = (wb_conns w)(i \<mapsto> c\<lparr>cn_queue := cn_queue c @ [Out_data b]\<rparr>)"
      with f show ?thesis by (auto simp: fresh_token_def)
    qed (use f in \<open>simp add: fresh_token_def\<close>)
  qed
  note fresh = this
  have "task_ok v u t'" if "wb_tasks v u = Some t'" for u t'
  proof (cases "u = tok")
    case True
    with that have t': "t' = t\<lparr>ft_scrollback := push_scrollback (ft_scrollback t) b, ft_active := a\<rparr>"
      by (simp add: v)
    have "subscribed v tok True i" if "a = Some i" for i
    proof -
      from conns that obtain c where i: "ft_active t = Some i" "wb_conns w i = Some c"
        "wb_conns v i = Some (c\<lparr>cn_queue := cn_queue c @ [Out_data b]\<rparr>)"
        by auto
      have c: "cn_token c = tok" "\<not> pending c" "framed (items c)" "suffix (item_bytes (items c)) (wb_output w tok)"
        using active [OF i(1)] i(2) by (auto simp: subscribed_def)
      have "items (c\<lparr>cn_queue := cn_queue c @ [Out_data b]\<rparr>) = items c @ [Out_data b]"
        "pending (c\<lparr>cn_queue := cn_queue c @ [Out_data b]\<rparr>) = pending c"
        by (simp_all add: items_def pending_def awaiting_def)
      with c framed_data [OF c(3)] i(3) show ?thesis
        by (auto simp: subscribed_def v suffix_def)
    qed
    then show ?thesis
      using t_ok t(2) command [OF t_ok] push_scrollback_output [of "wb_output w tok" b] unfolding t' True task_ok_def
      by (simp add: v)
  next
    case False
    with that have u: "wb_tasks w u = Some t'" by (simp add: v)
    have "subscribed w u st j \<Longrightarrow> subscribed v u st j" for st j
      using old [of j] False by (auto simp: subscribed_def v)
    then show ?thesis
      using web_okD(2) [OF ok u] command [OF web_okD(2) [OF ok u]] False by (auto simp: task_ok_def v)
  qed
  moreover have "entry_ok v u s" if "wb_table w u = Some s" for u s
  proof -
    have "\<exists>c. wb_conns v i = Some c \<and> cn_token c = u \<and> holds c" if "wn_owner s = Some i" for i
      using web_okD(3) [OF ok \<open>wb_table w u = Some s\<close>] that old [of i] by (auto simp: entry_ok_def)
    with web_okD(3) [OF ok that] flight [of u] show ?thesis
      by (auto simp: entry_ok_def v all_timers_def split: option.splits)
  qed
  moreover have "timers_ok v" "fresh_ok v"
    using web_okD(4,5) [OF ok] fresh t(1) by (auto simp: timers_ok_def fresh_ok_def v all_timers_def)
  ultimately show ?thesis
    using new v(1) by (simp add: web_ok_def)
qed

lemma forward_output_ok:
  assumes ok: "web_ok w" and step: "forward_output tok b w = Some w'"
  shows "web_ok w'"
proof -
  from step obtain t where t: "wb_tasks w tok = Some t" "ft_started t"
    by (auto simp: forward_output_def split: option.splits if_splits)
  let ?t = "t\<lparr>ft_scrollback := push_scrollback (ft_scrollback t) b\<rparr>"
  let ?w = "w\<lparr>wb_output := (wb_output w)(tok := wb_output w tok @ b)\<rparr>"
  let ?dropped = "set_task tok (Some (?t\<lparr>ft_active := None\<rparr>)) ?w"
  have dropped: "web_ok ?dropped"
    by (rule output_ok [OF ok t, of _ b None]) simp_all
  show ?thesis
  proof (cases "ft_active t")
    case None
    with step t have "w' = set_task tok (Some ?t) ?w"
      by (simp add: forward_output_def Let_def)
    moreover have "?t = ?t\<lparr>ft_active := None\<rparr>"
      using None by simp
    ultimately show ?thesis using dropped by simp
  next
    case (Some i)
    obtain c where c: "wb_conns w i = Some c"
      using web_okD(2) [OF ok t(1)] Some by (auto simp: task_ok_def subscribed_def)
    consider "w' = ?dropped" | "w' = notify Slow_consumer (Some i) ?dropped"
      | "length (cn_queue c) < OUTPUT_CHUNKS"
        "w' = set_task tok (Some ?t) (set_conn i (c\<lparr>cn_queue := cn_queue c @ [Out_data b]\<rparr>) ?w)"
      using step t Some c by (auto simp: forward_output_def Let_def split: if_splits)
    then show ?thesis
    proof cases
      case 3
      have same: "t\<lparr>ft_scrollback := x, ft_active := Some i\<rparr> = t\<lparr>ft_scrollback := x\<rparr>" for x
        using Some by (cases t) simp
      show ?thesis
        by (rule output_ok [OF ok t, of _ b "Some i"]) (use 3 Some c in \<open>simp_all add: same\<close>)
    qed (use dropped notify_ok [OF dropped] in simp_all)
  qed
qed

lemma web_step_ok:
  assumes "web_ok w" "web_step w w'"
  shows "web_ok w'"
  using assms(2,1)
proof (cases rule: web_step.cases)
  case (do_reset tok)
  with assms(1) remove_entry_ok show ?thesis by (auto simp: reset_def split: option.splits)
qed (use assms(1) in \<open>auto intro: attach_begin_ok attach_send_ok attach_return_ok create_ok timer_wake_ok timer_remove_ok
    forward_start_ok forward_attach_ok forward_output_ok forward_end_ok read_output_ok stop_reading_ok finish_ok\<close>)

lemma web_start_ok: "web_ok web_start"
  by (simp add: web_ok_def web_start_def timers_ok_def all_timers_def fresh_ok_def)

interpretation web: invariant_machine "\<lambda>w. w = web_start" web_step web_ok
  by unfold_locales (auto simp: web_start_ok intro: web_step_ok)

text \<open>The states of the gateway.\<close>

definition web_reachable :: "web \<Rightarrow> bool" where
  "web_reachable w = reach (\<lambda>w. w = web_start) web_step w"

lemma web_reachable_ok: "web_reachable w \<Longrightarrow> web_ok w"
  unfolding web_reachable_def by (rule web.inv_reach)

end
