(* ===== verification/Web_Properties.thy ===== *)
theory Web_Properties
  imports Web_Invariant "HOL-Library.Code_Target_Nat"
begin

text \<open>
  The properties of the gateway's sessions in every reachable state, and a run in which the
  expiry of a session overtakes the connection that has just come back to it.
\<close>

section \<open>Runs\<close>

lemma web_reachable_start: "web_reachable web_start"
  by (simp add: web_reachable_def reach_init)

lemma web_reachable_step: "web_reachable w \<Longrightarrow> web_step w w' \<Longrightarrow> web_reachable w'"
  unfolding web_reachable_def by (rule reach_step)

lemma web_reachable_the:
  assumes "web_reachable w" "f w \<noteq> None" "\<And>w'. f w = Some w' \<Longrightarrow> web_step w w'"
  shows "web_reachable (the (f w))"
  using assms by (auto intro: web_reachable_step)

text \<open>A session is opened, puts out a byte, is left, and its timer wakes; a reload attaches.\<close>

definition run_open :: web where
  "run_open = the (forward_output ''t'' [65] (the (forward_start ''t'' (snd (create ''t'' ''s'' web_start)))))"

definition run_left :: web where
  "run_left = the (timer_wake 0 (the (finish 1 run_open)))"

definition run_asking :: web where
  "run_asking = the (attach_send 2 (snd (the (attach_begin ''t'' run_left))))"

definition run_attached :: web where
  "run_attached = snd (the (attach_return 2 (the (forward_attach ''t'' run_asking))))"

lemma run_open_reachable: "web_reachable run_open"
proof -
  have "web_reachable (snd (create ''t'' ''s'' web_start))"
    by (intro web_reachable_step [OF web_reachable_start] do_create) (simp add: fresh_token_def web_start_def)
  moreover have "forward_start ''t'' (snd (create ''t'' ''s'' web_start)) \<noteq> None"
    "forward_output ''t'' [65] (the (forward_start ''t'' (snd (create ''t'' ''s'' web_start)))) \<noteq> None"
    by code_simp+
  ultimately show ?thesis
    unfolding run_open_def by (intro web_reachable_the [where f = "forward_output _ _"] web_reachable_the [where f = "forward_start _"])
      (auto intro: do_forward_start do_forward_output)
qed

lemma run_left_reachable: "web_reachable run_left"
proof -
  have "finish 1 run_open \<noteq> None" "timer_wake 0 (the (finish 1 run_open)) \<noteq> None"
    by code_simp+
  with run_open_reachable show ?thesis
    unfolding run_left_def by (intro web_reachable_the [where f = "timer_wake _"] web_reachable_the [where f = "finish _"])
      (auto intro: do_finish do_timer_wake)
qed

lemma run_asking_reachable: "web_reachable run_asking"
proof -
  have "attach_begin ''t'' run_left \<noteq> None" "attach_send 2 (snd (the (attach_begin ''t'' run_left))) \<noteq> None"
    by code_simp+
  moreover from this(1) have "attach_begin ''t'' run_left = Some (fst (the (attach_begin ''t'' run_left)), snd (the (attach_begin ''t'' run_left)))"
    by auto
  then have "web_reachable (snd (the (attach_begin ''t'' run_left)))"
    by (rule web_reachable_step [OF run_left_reachable do_attach_begin])
  ultimately show ?thesis
    unfolding run_asking_def by (intro web_reachable_the [where f = "attach_send _"]) (auto intro: do_attach_send)
qed

lemma run_attached_reachable: "web_reachable run_attached"
proof -
  have "forward_attach ''t'' run_asking \<noteq> None" "attach_return 2 (the (forward_attach ''t'' run_asking)) \<noteq> None"
    by code_simp+
  then have "web_reachable (the (forward_attach ''t'' run_asking))"
    "attach_return 2 (the (forward_attach ''t'' run_asking))
      = Some (fst (the (attach_return 2 (the (forward_attach ''t'' run_asking)))), run_attached)"
    using web_reachable_the [OF run_asking_reachable, of "forward_attach ''t''"] do_forward_attach
    by (auto simp: run_attached_def)
  then show ?thesis
    using web_reachable_step do_attach_return by blast
qed

section \<open>Properties\<close>

text \<open>C16: in every reachable state each session in the table has its forwarding task, and
  somebody who ends it: the connection that owns it, and then no timer is pending that would
  remove it; or, without an owner, an attach in progress or a grace timer.\<close>

theorem sessions_accounted:
  assumes "web_reachable w" "wb_table w tok = Some s"
  shows "wb_tasks w tok \<noteq> None
    \<and> (case wn_owner s of
         Some i \<Rightarrow> (\<exists>c. wb_conns w i = Some c \<and> cn_token c = tok \<and> holds c) \<and> (\<nexists>k. (k, tok) \<in> set (wb_sleeping w))
       | None \<Rightarrow> (\<exists>i c. wb_conns w i = Some c \<and> cn_token c = tok \<and> pending c)
           \<or> (\<exists>k. wn_timer s = Some k \<and> (k, tok) \<in> set (wb_sleeping w) \<union> set (wb_woken w)))"
proof -
  note ok = web_reachable_ok [OF assms(1)]
  have "(k, tok) \<in> set (wb_sleeping w) \<Longrightarrow> wn_owner s = None" for k
    using web_okD(4) [OF ok] assms(2) by (auto simp: timers_ok_def)
  with web_okD(3) [OF ok assms(2)] show ?thesis
    by (auto simp: entry_ok_def in_flight_def all_timers_def split: option.splits)
qed

theorem sessions_accounted_witness:
  "wn_owner (the (wb_table run_attached ''t'')) = Some 2 \<and> (\<nexists>k. (k, ''t'') \<in> set (wb_sleeping run_attached))"
proof -
  have s: "wb_table run_attached ''t'' = Some \<lparr>wn_sid = ''s'', wn_owner = Some 2, wn_timer = None\<rparr>"
    by code_simp
  from sessions_accounted [OF run_attached_reachable s] s show ?thesis by simp
qed

text \<open>C14: an attach to a session in the table succeeds: whatever happened before, the forwarding
  task puts the end of the session's output, at most 128 KiB of it and always complete, followed
  by one \<open>Replay_end\<close> into the empty queue of the new connection, without waiting for room; it
  makes the connection the owner and the receiver of what follows, tells the former connection to
  close and leaves no timer asleep.\<close>

theorem attach_replays:
  assumes "web_reachable w" "forward_attach tok w = Some w'" "wb_table w tok \<noteq> None"
  shows "\<exists>t i c. wb_tasks w tok = Some t \<and> hd (ft_commands t) = i \<and> wb_conns w' i = Some c
    \<and> cn_reply c = Some True \<and> cn_read c = []
    \<and> cn_queue c = map Out_data (chunks 4096 (drop (length (wb_output w tok) - 131072) (wb_output w tok))) @ [Replay_end]
    \<and> length (cn_queue c) \<le> 33
    \<and> map_option ft_active (wb_tasks w' tok) = Some (Some i)
    \<and> map_option wn_owner (wb_table w' tok) = Some (Some i)
    \<and> (\<forall>j. ft_active t = Some j \<longrightarrow> map_option cn_close (wb_conns w' j) = Some (Some Replaced))
    \<and> (\<nexists>k. (k, tok) \<in> set (wb_sleeping w'))"
proof -
  note ok = web_reachable_ok [OF assms(1)]
  obtain t i rest c where t: "wb_tasks w tok = Some t" "ft_started t" "ft_commands t = i # rest"
    and c: "wb_conns w i = Some c" "cn_token c = tok" "cn_stage c = Awaiting" "cn_receiving c" "items c = []"
      "cn_queue c = []" "ft_active t \<noteq> Some i"
    and w': "(case wb_table w tok of
        None \<Rightarrow> w' = set_task tok (Some (t\<lparr>ft_commands := rest\<rparr>))
          (set_conn i (c\<lparr>cn_queue := replay (ft_scrollback t), cn_reply := Some False\<rparr>) w)
      | Some s \<Rightarrow> w' = set_entry tok (Some (s\<lparr>wn_timer := None, wn_owner := Some i\<rparr>)) (abort_timer (wn_timer s)
          (set_task tok (Some (t\<lparr>ft_commands := rest, ft_active := Some i\<rparr>))
          (set_conn i (c\<lparr>cn_queue := replay (ft_scrollback t), cn_reply := Some True\<rparr>) (notify Replaced (ft_active t) w)))))"
    using forward_attach_cases [OF ok assms(2)] .
  obtain s where s: "wb_table w tok = Some s"
    using assms(3) by blast
  have w'': "w' = set_entry tok (Some (s\<lparr>wn_timer := None, wn_owner := Some i\<rparr>)) (abort_timer (wn_timer s)
          (set_task tok (Some (t\<lparr>ft_commands := rest, ft_active := Some i\<rparr>))
          (set_conn i (c\<lparr>cn_queue := replay (ft_scrollback t), cn_reply := Some True\<rparr>) (notify Replaced (ft_active t) w))))"
    using w' s by simp
  have sb: "ft_scrollback t = drop (length (wb_output w tok) - 131072) (wb_output w tok)"
    using web_okD(2) [OF ok t(1)] by (simp add: task_ok_def SCROLLBACK_BYTES_def)
  have "wb_sleeping (notify Replaced (ft_active t) w) = wb_sleeping w"
    by (simp add: notify_def split: option.splits)
  moreover have "(k, tok) \<in> set (wb_sleeping w) \<Longrightarrow> wn_timer s = Some k" for k
    using web_okD(4) [OF ok] s by (auto simp: timers_ok_def)
  ultimately have "(k, tok) \<notin> set (wb_sleeping w')" for k
    by (auto simp: w'')
  moreover have "map_option cn_close (wb_conns w' j) = Some (Some Replaced)" if "ft_active t = Some j" for j
    using web_okD(2) [OF ok t(1)] that c(7) by (auto simp: task_ok_def subscribed_def w'' notify_def)
  ultimately show ?thesis
    using t c replay_length [OF scrollback_length [OF ok t(1)]]
    by (auto simp: w'' replay_def REPLAY_CHUNK_def sb items_def)
qed

theorem attach_replays_witness:
  "cn_queue (the (wb_conns (the (forward_attach ''t'' run_asking)) 2)) = [Out_data [65], Replay_end]"
proof -
  have "forward_attach ''t'' run_asking \<noteq> None" and table: "wb_table run_asking ''t'' \<noteq> None"
    by code_simp+
  then have some: "forward_attach ''t'' run_asking = Some (the (forward_attach ''t'' run_asking))"
    by simp
  have t: "map_option ft_commands (wb_tasks run_asking ''t'') = Some [2]" "wb_output run_asking ''t'' = [65]"
    by code_simp+
  have "chunks 4096 [65 :: u8] = [[65]]"
    by code_simp
  with attach_replays [OF run_asking_reachable some table] t show ?thesis
    by auto
qed

text \<open>C15: no connection ever loses, repeats or reorders output: what it was given is a contiguous
  piece of what its session has put out, with exactly one \<open>Replay_end\<close> in it; the connection that
  is subscribed has been given everything up to now; no queue holds more than 128 items.\<close>

theorem connection_output_exact:
  assumes "web_reachable w" "wb_conns w i = Some c"
  shows "sublist (item_bytes (cn_read c @ cn_queue c)) (wb_output w (cn_token c))
    \<and> (cn_read c @ cn_queue c = []
       \<or> (\<exists>replayed live. cn_read c @ cn_queue c = map Out_data replayed @ Replay_end # map Out_data live))
    \<and> length (cn_queue c) \<le> 128
    \<and> (\<forall>t. wb_tasks w (cn_token c) = Some t \<longrightarrow> ft_started t \<longrightarrow> ft_active t = Some i \<longrightarrow>
         suffix (item_bytes (cn_read c @ cn_queue c)) (wb_output w (cn_token c)) \<and> Replay_end \<in> set (cn_read c @ cn_queue c))"
proof -
  note ok = web_reachable_ok [OF assms(1)]
  have "suffix (item_bytes (items c)) (wb_output w (cn_token c)) \<and> Replay_end \<in> set (items c)"
    if "wb_tasks w (cn_token c) = Some t" "ft_started t" "ft_active t = Some i" for t
    using web_okD(2) [OF ok that(1)] that assms(2) by (auto simp: task_ok_def subscribed_def framed_def)
  with web_okD(1) [OF ok assms(2)] show ?thesis
    by (simp add: conn_ok_def framed_def OUTPUT_CHUNKS_def flip: items_def)
qed

theorem connection_output_exact_witness:
  "suffix (item_bytes (cn_read (the (wb_conns run_attached 2)) @ cn_queue (the (wb_conns run_attached 2)))) [65]"
proof -
  have c: "wb_conns run_attached 2 = Some (the (wb_conns run_attached 2))"
    "cn_token (the (wb_conns run_attached 2)) = ''t''"
    by code_simp+
  have t: "wb_tasks run_attached ''t'' = Some (the (wb_tasks run_attached ''t''))"
    "ft_started (the (wb_tasks run_attached ''t''))" "ft_active (the (wb_tasks run_attached ''t'')) = Some 2"
    "wb_output run_attached ''t'' = [65]"
    by code_simp+
  from connection_output_exact [OF run_attached_reachable c(1)] c(2) t show ?thesis
    by simp
qed

text \<open>Aborting a grace timer does not stop one that is already past its sleep: there is a run
  in which a browser attaches to its session in time, the attach succeeds and the connection is
  live, and the timer then removes the session under it.\<close>

theorem expired_timer_ends_attached_session:
  "\<exists>w tok i k w'. web_reachable w \<and> map_option wn_owner (wb_table w tok) = Some (Some i)
    \<and> map_option cn_stage (wb_conns w i) = Some Live
    \<and> timer_remove k w = Some w' \<and> wb_table w' tok = None \<and> map_option cn_stage (wb_conns w' i) = Some Live"
proof (intro exI conjI)
  show "web_reachable run_attached" by (rule run_attached_reachable)
  have "timer_remove 0 run_attached \<noteq> None"
    by code_simp
  then show "timer_remove 0 run_attached = Some (the (timer_remove 0 run_attached))"
    by simp
  show "map_option wn_owner (wb_table run_attached ''t'') = Some (Some 2)"
    "map_option cn_stage (wb_conns run_attached 2) = Some Live"
    "wb_table (the (timer_remove 0 run_attached)) ''t'' = None"
    "map_option cn_stage (wb_conns (the (timer_remove 0 run_attached)) 2) = Some Live"
    by code_simp+
qed

end
