(* ===== verification/Web_Server.thy ===== *)
theory Web_Server
  imports Web_Sessions Comment_Store
begin

text \<open>
  \<^verbatim>\<open>crates/servers/web/src/main.rs\<close>: one WebSocket from its first message to its end, the
  comments endpoint and the redirect to HTTPS.  The JSON library is an argument; the WebSocket is a
  list of messages in, a list of messages out.
\<close>

section \<open>Opening\<close>

record open_request =
  op_cols :: u16
  op_rows :: u16
  op_attach_token :: "string option"
  op_fresh :: bool
  op_caps :: "string list"

record resize_request =
  rz_cols :: u16
  rz_rows :: u16

record opened_body =
  od_session_id :: string
  od_attach_token :: string
  od_attached :: bool

text \<open>The JSON bodies: what \<open>parse().ok()\<close> returns, and what \<open>Frame::json\<close> writes.\<close>

record ws_json =
  j_open :: "bytes \<Rightarrow> unit + open_request"
  j_resize :: "bytes \<Rightarrow> unit + resize_request"
  j_opened :: "opened_body \<Rightarrow> bytes"
  j_closed :: "string \<Rightarrow> bytes"

datatype ws_message = Ws_binary bytes | Ws_text string | Ws_ping | Ws_pong | Ws_close

text \<open>What is sent into the session, or done with a message.\<close>

datatype up_action = Input bytes | Resize_to u16 u16 | Ignore | Stop

datatype ws_out = Send_frame frame | Send_close nat string

text \<open>The first message has to be a binary one that holds an \<open>Open\<close>; the kind is not looked at.\<close>

definition read_open :: "ws_json \<Rightarrow> ws_message option \<Rightarrow> open_request option" where
  "read_open j msg =
     (case msg of
        Some (Ws_binary b) \<Rightarrow>
          (case decode_one b of
             None \<Rightarrow> None
           | Some f \<Rightarrow> (case frame_parse (j_open j) f of Inl _ \<Rightarrow> None | Inr req \<Rightarrow> Some req))
      | _ \<Rightarrow> None)"

text \<open>What is done before \<open>create\<close>: reset the old session, ask for it, or nothing.\<close>

datatype acquisition = Reset string | Attach string | Neither

definition acquire :: "open_request \<Rightarrow> acquisition" where
  "acquire req =
     (if op_fresh req
      then (case op_attach_token req of Some token \<Rightarrow> Reset token | None \<Rightarrow> Neither)
      else (case op_attach_token req of Some token \<Rightarrow> Attach token | None \<Rightarrow> Neither))"

text \<open>The connection, the size that the session is told, and the answer to the browser; or, where
  the connection ends, the message about it.  \<open>attach_result\<close> is the result of
  \<open>SessionStore::attach\<close>, \<open>create_result\<close> that of \<open>SessionStore::create\<close>.\<close>

definition greet ::
  "ws_json \<Rightarrow> open_request \<Rightarrow> (string \<Rightarrow> opened_body option) \<Rightarrow> (unit \<Rightarrow> string + opened_body)
     \<Rightarrow> ws_out + opened_body \<times> up_action \<times> ws_out"
where
  "greet j req attach_result create_result =
     (let attached = (case acquire req of Attach token \<Rightarrow> attach_result token | _ \<Rightarrow> None);
          conn = (case attached of Some c \<Rightarrow> Inr c | None \<Rightarrow> create_result ())
      in case conn of
           Inl e \<Rightarrow> Inl (Send_frame (frame_json (j_closed j) CLOSED e))
         | Inr c \<Rightarrow> Inr (c, Resize_to (op_cols req) (op_rows req), Send_frame (frame_json (j_opened j) OPENED c)))"

section \<open>The pumps\<close>

datatype down_event = Close_signal close_reason | Close_dropped | Output_item out_item | Output_end

definition closed_frame :: "ws_json \<Rightarrow> string \<Rightarrow> frame" where
  "closed_frame j reason = frame_json (j_closed j) CLOSED reason"

definition item_frame :: "out_item \<Rightarrow> frame" where
  "item_frame x = (case x of Out_data b \<Rightarrow> frame_data b | Replay_end \<Rightarrow> frame_replay_end)"

text \<open>One round of the writer: what is sent, and whether it goes on.  \<open>sent\<close>: whether the send of
  a data frame succeeds.\<close>

definition down_step :: "ws_json \<Rightarrow> bool \<Rightarrow> down_event \<Rightarrow> ws_out list \<times> bool" where
  "down_step j sent e =
     (case e of
        Close_signal reason \<Rightarrow>
          (case reason of
             Replaced \<Rightarrow> ([Send_close 1000 (close_message reason)], False)
           | Slow_consumer \<Rightarrow>
               ([Send_frame (closed_frame j (close_message reason)), Send_close 1008 (close_message reason)], False))
      | Close_dropped \<Rightarrow> ([], True)
      | Output_item x \<Rightarrow> ([Send_frame (item_frame x)], sent)
      | Output_end \<Rightarrow> ([Send_frame (closed_frame j ''exit'')], False))"

text \<open>The select is biased: a signal that is there comes before the next item, and once the sender
  of the signal is gone only the queue is looked at.  The state is the queue, whether its sender
  lives, and the signal channel.\<close>

datatype signal_state = Signal close_reason | Waiting | Dropped

fun next_event :: "bool \<Rightarrow> signal_state \<Rightarrow> out_item list \<Rightarrow> bool \<Rightarrow> down_event option" where
  "next_event listening (Signal r) q alive = (if listening then Some (Close_signal r)
     else (case q of x # _ \<Rightarrow> Some (Output_item x) | [] \<Rightarrow> if alive then None else Some Output_end))"
| "next_event listening Dropped q alive = (if listening then Some Close_dropped
     else (case q of x # _ \<Rightarrow> Some (Output_item x) | [] \<Rightarrow> if alive then None else Some Output_end))"
| "next_event listening Waiting q alive =
     (case q of x # _ \<Rightarrow> Some (Output_item x) | [] \<Rightarrow> if alive then None else Some Output_end)"

text \<open>The writer over a queue that gets nothing more; \<open>None\<close> in \<open>sends\<close> is a send that fails.\<close>

fun drain :: "ws_json \<Rightarrow> bool \<Rightarrow> signal_state \<Rightarrow> out_item list \<Rightarrow> bool \<Rightarrow> bool list \<Rightarrow> ws_out list" where
  "drain j listening sig q alive [] = []"
| "drain j listening sig q alive (sent # sends) =
     (case next_event listening sig q alive of
        None \<Rightarrow> []
      | Some e \<Rightarrow>
          (case down_step j sent e of
             (out, go_on) \<Rightarrow>
               out @ (if \<not> go_on then []
                 else drain j (listening \<and> e \<noteq> Close_dropped) sig
                        (case e of Output_item _ \<Rightarrow> tl q | _ \<Rightarrow> q) alive sends)))"

definition up_step :: "ws_json \<Rightarrow> ws_message \<Rightarrow> up_action" where
  "up_step j msg =
     (case msg of
        Ws_binary b \<Rightarrow>
          (case decode_one b of
             None \<Rightarrow> Ignore
           | Some f \<Rightarrow>
               if fr_kind f = DATA then Input (fr_payload f)
               else if fr_kind f = RESIZE
               then (case frame_parse (j_resize j) f of
                       Inl _ \<Rightarrow> Ignore
                     | Inr r \<Rightarrow> Resize_to (rz_cols r) (rz_rows r))
               else Ignore)
      | Ws_close \<Rightarrow> Stop
      | _ \<Rightarrow> Ignore)"

text \<open>The reader: the actions up to the end.  \<open>dead\<close>: the index of the input that finds the session
  dead, if any.\<close>

fun up_loop :: "ws_json \<Rightarrow> nat option \<Rightarrow> ws_message list \<Rightarrow> up_action list" where
  "up_loop j dead [] = []"
| "up_loop j dead (m # ms) =
     (case up_step j m of
        Stop \<Rightarrow> []
      | Ignore \<Rightarrow> up_loop j dead ms
      | Input b \<Rightarrow>
          if dead = Some 0 then []
          else Input b # up_loop j (map_option (\<lambda>k. k - 1) dead) ms
      | Resize_to c r \<Rightarrow> Resize_to c r # up_loop j dead ms)"

section \<open>The comments endpoint\<close>

record comments_params =
  cp_target :: "string option"
  cp_after_number :: "u64 option"
  cp_limit :: "u16 option"
  cp_revision :: "string option"

datatype http_reply = Http_error nat string | Http_comments public_query_response

fun http_status :: "http_reply \<Rightarrow> nat" where
  "http_status (Http_error code _) = code"
| "http_status (Http_comments _) = 200"

text \<open>\<open>ask\<close> is the request to commentd.\<close>

definition comments_handler ::
  "(public_query \<Rightarrow> string + public_query_response) \<Rightarrow> comments_params \<Rightarrow> http_reply"
where
  "comments_handler ask p =
     (case cp_target p of
        None \<Rightarrow> Http_error 400 ''target is required''
      | Some target \<Rightarrow>
          if \<not> valid_target target \<or> isl (page_limit (cp_limit p))
             \<or> 0 < (case cp_after_number p of None \<Rightarrow> 0 | Some n \<Rightarrow> n) \<and> cp_revision p = None
          then Http_error 400 ''invalid query parameters''
          else (case ask \<lparr>pq_target = target, pq_after_number = cp_after_number p, pq_limit = cp_limit p,
                          pq_revision = cp_revision p\<rparr> of
              Inr res \<Rightarrow>
                if pr_ok res then Http_comments res
                else if pr_error res = Some ''stale_revision'' then Http_error 409 ''stale_revision''
                else Http_error 400 (case pr_error res of None \<Rightarrow> ''query failed'' | Some e \<Rightarrow> e)
            | Inl _ \<Rightarrow> Http_error 503 ''comments service temporarily unavailable''))"

section \<open>The redirect\<close>

definition trim_end_matches :: "'a \<Rightarrow> 'a list \<Rightarrow> 'a list" where
  "trim_end_matches c s = rev (dropWhile (\<lambda>x. x = c) (rev s))"

definition https_location :: "string \<Rightarrow> string option \<Rightarrow> string" where
  "https_location site_url path_and_query =
     trim_end_matches (CHR ''/'') site_url @ (case path_and_query of None \<Rightarrow> ''/'' | Some v \<Rightarrow> v)"

end
