(* ===== verification/Web_Stats.thy ===== *)
theory Web_Stats
  imports Content_Manifest Stats_Facts
begin

text \<open>
  \<^verbatim>\<open>crates/servers/web/src/stats.rs\<close>: which requests of static pages are counted, and how the
  events reach statd.  The files are their metadata and contents, the clock and the queue are
  arguments.
\<close>

definition QUEUE_CAPACITY :: nat where "QUEUE_CAPACITY = 2048"
definition WARNING_INTERVAL_SECS :: nat where "WARNING_INTERVAL_SECS = 60"

section \<open>Routes\<close>

record route_binding =
  rt_target :: string
  rt_article :: string

type_synonym routes = "string \<Rightarrow> route_binding option"

text \<open>The metadata that \<open>symlink_metadata\<close> returns (or its error), and what reading yields.\<close>

record site_file =
  sf_meta :: "fs_meta option"
  sf_text :: "string option"

datatype route_error = No_metadata | Not_regular | Unreadable | Bad_json | Bad_content path_error | Duplicate_route

definition reject_symlink :: "site_file \<Rightarrow> route_error + unit" where
  "reject_symlink f =
     (case sf_meta f of
        None \<Rightarrow> Inl No_metadata
      | Some md \<Rightarrow> if fm_is_symlink md \<or> \<not> fm_is_file md then Inl Not_regular else Inr ())"

definition read_file :: "site_file \<Rightarrow> route_error + string" where
  "read_file f = (case sf_text f of None \<Rightarrow> Inl Unreadable | Some t \<Rightarrow> Inr t)"

definition lift_content :: "path_error + 'a \<Rightarrow> route_error + 'a" where
  "lift_content r = (case r of Inl e \<Rightarrow> Inl (Bad_content e) | Inr a \<Rightarrow> Inr a)"

fun routes_loop :: "(string \<Rightarrow> content_scope option) \<Rightarrow> routes \<Rightarrow> article_index_entry list \<Rightarrow> route_error + routes" where
  "routes_loop by_directory routes [] = Inr routes"
| "routes_loop by_directory routes (entry # rest) =
     and_then (lift_content (article_parse (ae_source_rel entry))) (\<lambda>article.
       case by_directory (ap_directory_rel article) of
         None \<Rightarrow> routes_loop by_directory routes rest
       | Some scope \<Rightarrow>
           if routes (ae_route entry) \<noteq> None then Inl Duplicate_route
           else routes_loop by_directory
                  (routes(ae_route entry \<mapsto> \<lparr>rt_target = cs_target scope, rt_article = ap_key article\<rparr>)) rest)"

text \<open>\<open>from_index\<close>: the JSON of the index.\<close>

definition load_routes :: "(string \<Rightarrow> article_index option) \<Rightarrow> site_file \<Rightarrow> site_file \<Rightarrow> route_error + routes" where
  "load_routes from_index index_file targets_file =
     and_then (reject_symlink index_file) (\<lambda>_.
     and_then (reject_symlink targets_file) (\<lambda>_.
     and_then (read_file index_file) (\<lambda>raw.
     and_then (case from_index raw of None \<Rightarrow> Inl Bad_json | Some i \<Rightarrow> Inr i) (\<lambda>index.
     and_then (lift_content (index_validate index)) (\<lambda>_.
     and_then (read_file targets_file) (\<lambda>targets.
     and_then (lift_content (parse_scope_manifest targets)) (\<lambda>scopes.
       routes_loop (map_of (rev (map (\<lambda>s. (cs_directory_rel s, s)) scopes))) (\<lambda>_. None) (ai_articles index))))))))"

text \<open>One tick of \<open>route_reloader\<close>: an unreadable site keeps the old routes.\<close>

definition reload :: "routes \<Rightarrow> route_error + routes \<Rightarrow> routes" where
  "reload current loaded = (case loaded of Inl _ \<Rightarrow> current | Inr updated \<Rightarrow> updated)"

definition qualifying_binding :: "routes \<Rightarrow> string \<Rightarrow> string \<Rightarrow> nat \<Rightarrow> route_binding option" where
  "qualifying_binding routes http_method path status =
     (if http_method \<noteq> ''GET'' \<or> status \<notin> {200, 304} then None else routes path)"

section \<open>Events\<close>

text \<open>\<open>Recorder::record\<close>: the queue afterwards, and whether an event was dropped.\<close>

definition static_event :: "route_binding \<Rightarrow> ip_addr \<Rightarrow> record_event" where
  "static_event b ip =
     \<lparr>re_source = Static_request, re_target = rt_target b, re_article = rt_article b, re_ip = show_ip ip\<rparr>"

definition record_request ::
  "routes \<Rightarrow> record_event list \<Rightarrow> string \<Rightarrow> string \<Rightarrow> nat \<Rightarrow> ip_addr \<Rightarrow> record_event list \<times> bool"
where
  "record_request routes queue http_method path status ip =
     (case qualifying_binding routes http_method path status of
        None \<Rightarrow> (queue, False)
      | Some b \<Rightarrow>
          if QUEUE_CAPACITY \<le> length queue then (queue, True)
          else (queue @ [static_event b ip], False))"

text \<open>\<open>track_request\<close>: a request without a peer address is not counted.\<close>

definition track_request ::
  "routes \<Rightarrow> record_event list \<Rightarrow> string \<Rightarrow> string \<Rightarrow> nat \<Rightarrow> ip_addr option \<Rightarrow> record_event list \<times> bool"
where
  "track_request routes queue http_method path status peer =
     (case peer of None \<Rightarrow> (queue, False) | Some ip \<Rightarrow> record_request routes queue http_method path status ip)"

text \<open>One round of \<open>batch_worker\<close>: the first event and those that are there after the delay, at most
  \<open>MAX_BATCH_EVENTS\<close>; \<open>arrived\<close> are the events that came meanwhile.\<close>

definition take_batch :: "record_event list \<Rightarrow> record_event list \<Rightarrow> (record_event list \<times> record_event list) option" where
  "take_batch queue arrived =
     (case queue of
        [] \<Rightarrow> None
      | first # rest \<Rightarrow>
          (let waiting = rest @ arrived
           in Some (first # take (MAX_BATCH_EVENTS - 1) waiting, drop (MAX_BATCH_EVENTS - 1) waiting)))"

text \<open>The batches of a queue that gets nothing more.\<close>

function batches :: "record_event list \<Rightarrow> record_event list list" where
  "batches queue = (case take_batch queue [] of None \<Rightarrow> [] | Some (batch, rest) \<Rightarrow> batch # batches rest)"
  by pat_completeness auto
termination
  by (relation "measure length") (auto simp: take_batch_def Let_def split: list.splits)

declare batches.simps [simp del]

section \<open>Warnings\<close>

text \<open>\<open>RateLimit::should_log\<close>: \<open>now\<close> is the time in seconds, 1 when the clock is before the epoch;
  \<open>exchanged\<close> tells whether another thread has changed the cell since it was read.\<close>

definition should_log :: "u64 \<Rightarrow> bool \<Rightarrow> u64 \<Rightarrow> bool \<times> u64" where
  "should_log now exchanged previous =
     (if previous \<noteq> 0 \<and> (if now \<le> previous then 0 else now - previous) < of_nat WARNING_INTERVAL_SECS then (False, previous)
      else if exchanged then (False, previous)
      else (True, max now 1))"

end
