(* ===== verification/Web_Composition.thy ===== *)
theory Web_Composition
  imports Web_Server Web_Stats Comment_Answers Comment_Sample "HOL-Library.Code_Target_Nat"
begin

text \<open>
  The gateway in front of the other services: the static statistics it sends pass every check of
  statd, and the comments endpoint answers as commentd would.
\<close>

section \<open>Routes that were loaded\<close>

lemma lift_content_simps [simp]: "lift_content (Inr a) = Inr a" "lift_content (Inl e) = Inl (Bad_content e)"
  by (simp_all add: lift_content_def)

lemma lift_content_Inr [simp]: "lift_content r = Inr a \<longleftrightarrow> r = Inr a"
  by (simp add: lift_content_def split: sum.splits)

text \<open>A binding comes from an article of the index and the scope it lies in.\<close>

definition bound_article :: "(string \<Rightarrow> content_scope option) \<Rightarrow> article_index_entry \<Rightarrow> route_binding \<Rightarrow> bool" where
  "bound_article by_directory e b \<longleftrightarrow>
     (\<exists>a scope. article_parse (ae_source_rel e) = Inr a \<and> by_directory (ap_directory_rel a) = Some scope
        \<and> b = \<lparr>rt_target = cs_target scope, rt_article = ap_key a\<rparr>)"

lemma routes_loop_bound:
  "routes_loop by_directory routes es = Inr routes' \<Longrightarrow> routes' path = Some b \<Longrightarrow>
     routes path = Some b \<or> (\<exists>e \<in> set es. ae_route e = path \<and> bound_article by_directory e b)"
proof (induction es arbitrary: routes)
  case (Cons e es)
  from Cons.prems(1) obtain a where a: "article_parse (ae_source_rel e) = Inr a"
    by (auto simp: result_simps)
  show ?case
  proof (cases "by_directory (ap_directory_rel a)")
    case None
    with Cons a show ?thesis by auto
  next
    case (Some scope)
    let ?b = "\<lparr>rt_target = cs_target scope, rt_article = ap_key a\<rparr>"
    have "routes_loop by_directory (routes(ae_route e \<mapsto> ?b)) es = Inr routes'"
      using Cons.prems(1) a Some by (simp split: if_splits)
    from Cons.IH [OF this Cons.prems(2)]
    have "(if path = ae_route e then b = ?b else routes path = Some b)
        \<or> (\<exists>e' \<in> set es. ae_route e' = path \<and> bound_article by_directory e' b)"
      by (auto split: if_splits)
    moreover have "bound_article by_directory e ?b"
      using a Some by (auto simp: bound_article_def)
    ultimately show ?thesis by (auto split: if_splits)
  qed
qed simp

lemma load_routes_bound:
  assumes "load_routes from_index index_file targets_file = Inr routes" "routes path = Some b"
  obtains ss where "article_segments ss" "rt_article b = path_of ss"
    "scope_directory (path_of (butlast ss))" "rt_target b = cs_target (scope_at (path_of (butlast ss)))"
    "\<exists>raw index e. sf_text index_file = Some raw \<and> from_index raw = Some index \<and> e \<in> set (ai_articles index)
       \<and> ae_source_rel e = path_of ss @ ''.md''"
proof -
  from assms(1) obtain raw index targets scopes where index: "sf_text index_file = Some raw" "from_index raw = Some index"
    and scopes: "parse_scope_manifest targets = Inr scopes"
    and loop: "routes_loop (map_of (rev (map (\<lambda>s. (cs_directory_rel s, s)) scopes))) (\<lambda>_. None) (ai_articles index) = Inr routes"
    by (auto simp: load_routes_def result_simps read_file_def split: option.splits)
  from routes_loop_bound [OF loop assms(2)] obtain e where e: "e \<in> set (ai_articles index)"
    "bound_article (map_of (rev (map (\<lambda>s. (cs_directory_rel s, s)) scopes))) e b" by auto
  then obtain a scope where a: "article_parse (ae_source_rel e) = Inr a"
    and scope: "map_of (rev (map (\<lambda>s. (cs_directory_rel s, s)) scopes)) (ap_directory_rel a) = Some scope"
    and b: "b = \<lparr>rt_target = cs_target scope, rt_article = ap_key a\<rparr>"
    by (auto simp: bound_article_def)
  from a obtain ss where ss: "article_segments ss" "ae_source_rel e = path_of ss @ ''.md''" "a = article_at ss"
    by (auto simp: article_parse_Inr)
  have "scope \<in> set scopes" "cs_directory_rel scope = path_of (butlast ss)"
    using map_of_SomeD [OF scope] ss(3) by (auto simp: article_at_def)
  moreover from this(1) obtain d where "scope_directory d" "scope = scope_at d"
    using manifest_scopes_distinct(5) [OF scopes] by blast
  ultimately have "scope_directory (path_of (butlast ss))" "scope = scope_at (path_of (butlast ss))"
    by auto
  then show thesis
    using ss index e b by (intro that [of ss]) (auto simp: article_at_def)
qed

section \<open>Their events\<close>

lemma path_of_length: "ss \<noteq> [] \<Longrightarrow> length (path_of ss) \<le> length (path_of (butlast ss)) + 1 + length (last ss)"
proof (induction "CHR ''/''" ss rule: join_with.induct)
  case (3 w v ws)
  then show ?case by (cases ws) auto
qed auto

text \<open>A file name has at most 255 bytes on the file systems the site is built on.\<close>

definition names_fit :: "article_index \<Rightarrow> bool" where
  "names_fit index \<longleftrightarrow> list_all (\<lambda>e. list_all (\<lambda>s. length s \<le> 255) (split_on (CHR ''/'') (ae_source_rel e))) (ai_articles index)"

lemma bound_event_valid:
  assumes load: "load_routes from_index index_file targets_file = Inr routes" "routes path = Some b"
    and fit: "\<And>raw index. sf_text index_file = Some raw \<Longrightarrow> from_index raw = Some index \<Longrightarrow> names_fit index"
    and ip: "canonical_ip (show_ip ip) = Inr text"
  shows "validate_event (static_event b ip)
    = Inr \<lparr>ve_source = Static_request, ve_target = rt_target b, ve_article = rt_article b, ve_ip = text\<rparr>"
proof -
  obtain ss where ss: "article_segments ss" "rt_article b = path_of ss"
    "scope_directory (path_of (butlast ss))" "rt_target b = cs_target (scope_at (path_of (butlast ss)))"
    and origin: "\<exists>raw index e. sf_text index_file = Some raw \<and> from_index raw = Some index \<and> e \<in> set (ai_articles index)
       \<and> ae_source_rel e = path_of ss @ ''.md''"
    using load_routes_bound [OF load] .
  have ne: "ss \<noteq> []"
    using ss(1) by (simp add: article_segments_def)
  have "split_on (CHR ''/'') (path_of ss @ ''.md'') = butlast ss @ [last ss @ ''.md'']"
    using split_on_append_no_sep [of "CHR ''/''" "''.md''" "path_of ss"] split_path_of [OF ss(1)] by simp
  with origin fit have "length (last ss) + 3 \<le> 255"
    by (fastforce simp: names_fit_def list_all_iff)
  moreover have "length (path_of (butlast ss)) \<le> 198"
    using ss(3) by (auto simp: scope_directory_def MAX_TARGET_LEN_def)
  ultimately have "length (path_of ss) \<le> 512"
    using path_of_length [OF ne] by simp
  moreover have "article_parse (path_of ss @ ''.md'') = Inr (article_at ss)"
    using ss(1) by (auto simp: article_parse_Inr)
  moreover have "scope_from_target (rt_target b) = Inr (scope_at (path_of (butlast ss)))"
    using ss(3,4) scope_from_target_at by simp
  moreover have "contains_article (scope_at (path_of (butlast ss))) (article_at ss)"
    by (simp add: contains_article_def article_at_def)
  ultimately show ?thesis
    using path_of_not_Nil [OF ss(1)] ip
    by (simp add: validate_event_def static_event_def ss(2) MAX_ARTICLE_KEY_LEN_def lift_path_def article_at_def)
qed

text \<open>The batches of the worker are the queue, cut into pieces that statd takes.\<close>

lemma batches_Nil [simp]: "batches [] = []"
  by (subst batches.simps) (simp add: take_batch_def)

lemma batches_Cons:
  "batches (e # q) = (e # take 255 q) # batches (drop 255 q)"
  by (subst batches.simps) (simp add: take_batch_def Let_def MAX_BATCH_EVENTS_def)

lemma batches_pieces:
  "concat (batches q) = q" "b \<in> set (batches q) \<Longrightarrow> b \<noteq> [] \<and> length b \<le> 256"
proof (induction q rule: length_induct)
  case (1 q)
  { case 1 with "1.IH" show ?case by (cases q) (auto simp: batches_Cons) next
    case 2
    show ?case
    proof (cases q)
      case (Cons e r)
      with "1.IH" [THEN spec, of "drop 255 r"] 2 show ?thesis
        by (auto simp: batches_Cons simp del: length_drop) auto
    qed (use 2 in simp) }
qed

lemma batches_members: "b \<in> set (batches q) \<Longrightarrow> set b \<subseteq> set q"
  using batches_pieces(1) [of q] by (metis UN_upper set_concat)

text \<open>The static statistics of the gateway always pass statd's checks: whatever files the
  routes were loaded from, as long as their names fit a file system, every batch that the worker
  makes of the events of requests from IPv4 readers is accepted as a whole by a working statd,
  and the batches together are the events in order.\<close>

theorem static_statistics_accepted:
  assumes "load_routes from_index index_file targets_file = Inr routes"
    "list_all names_fit (case Option.bind (sf_text index_file) from_index of None \<Rightarrow> [] | Some i \<Rightarrow> [i])"
    "list_all (\<lambda>(path, a, b, c, d). routes path \<noteq> None) requests"
    "waiting = map (\<lambda>(path, a, b, c, d). static_event (the (routes path)) (V4 a b c d)) requests"
    "represents (visitor_hash hmac secret) h db" "length h + 256 < 2 ^ 63"
  shows "concat (batches waiting) = waiting
    \<and> list_all (\<lambda>batch. fst (record_batch hmac secret quiet db batch) = Inr (length batch)) (batches waiting)"
proof -
  have valid: "\<not> isl (validate_event e)" if "e \<in> set waiting" for e
  proof -
    from that assms(3,4) obtain path a b c d r where r: "routes path = Some r" and e: "e = static_event r (V4 a b c d)"
      by (fastforce simp: list_all_iff)
    have "canonical_ip (show_ip (V4 a b c d)) = Inr (show_ip (V4 a b c d))"
      by (simp only: canonical_ip_def parse_ip_show_v4 option.case ip_addr.case)
    moreover have "names_fit index" if "sf_text index_file = Some raw" "from_index raw = Some index" for raw index
      using assms(2) that by simp
    ultimately show ?thesis
      using bound_event_valid [OF assms(1) r] e by simp
  qed
  have "fst (record_batch hmac secret quiet db batch) = Inr (length batch)" if "batch \<in> set (batches waiting)" for batch
  proof -
    have "list_all (\<lambda>e. \<not> isl (validate_event e)) batch"
      using valid batches_members [OF that] by (auto simp: list_all_iff)
    with record_batch_accepts [OF assms(5,6)] batches_pieces(2) [OF that] show ?thesis by fastforce
  qed
  with batches_pieces(1) show ?thesis by (simp add: list_all_iff)
qed

definition plain_file :: "string \<Rightarrow> site_file" where
  "plain_file text = \<lparr>sf_meta = Some (root_meta 0 0x1A4 False), sf_text = Some text\<rparr>"

definition sample_index :: "string \<Rightarrow> article_index option" where
  "sample_index raw = Some \<lparr>ai_version = 1, ai_articles =
     [\<lparr>ae_date10 = ''2024-01-02'', ae_source_rel = ''notes/a.md'', ae_key = ''notes/a'', ae_route = ''/notes/a/'', ae_title = [65]\<rparr>]\<rparr>"

theorem static_statistics_accepted_witness:
  "fst (record_batch (\<lambda>k m. m) [] quiet empty_db
     [static_event \<lparr>rt_target = ''/notes/'', rt_article = ''notes/a''\<rparr> (V4 192 0 2 1)]) = Inr 1"
proof -
  let ?routes = "[''/notes/a/'' \<mapsto> \<lparr>rt_target = ''/notes/'', rt_article = ''notes/a''\<rparr>]"
  let ?e = "static_event \<lparr>rt_target = ''/notes/'', rt_article = ''notes/a''\<rparr> (V4 192 0 2 1)"
  let ?manifest = "''notes/comment'' @ [CHR 0x09] @ ''/notes/''"
  have parsed: "article_parse ''notes/a.md'' = Inr \<lparr>ap_source_rel = ''notes/a.md'', ap_key = ''notes/a'',
      ap_route = ''/notes/a/'', ap_directory_rel = ''notes''\<rparr>"
    "parse_scope_manifest ?manifest = Inr [scope_at ''notes'']"
    "index_validate (the (sample_index [])) = Inr ()"
    "reject_symlink (plain_file t) = Inr ()" for t
    by (code_simp, code_simp, code_simp, simp add: reject_symlink_def plain_file_def root_meta_def)
  have load: "load_routes sample_index (plain_file []) (plain_file ?manifest) = Inr ?routes"
    using parsed by (simp add: load_routes_def read_file_def plain_file_def sample_index_def scope_at_def)
  have fit: "list_all names_fit (case Option.bind (sf_text (plain_file [])) sample_index of None \<Rightarrow> [] | Some i \<Rightarrow> [i])"
    by code_simp
  have "batches [?e] = [[?e]]"
    by (simp add: batches_Cons)
  with static_statistics_accepted [OF load fit, of "[(''/notes/a/'', 192, 0, 2, 1)]" "[?e]" "\<lambda>k m. m" "[]" "[]" empty_db] represents_empty
  show ?thesis by simp
qed

section \<open>The comments endpoint\<close>

text \<open>What the endpoint refuses by itself.\<close>

definition params_ok :: "comments_params \<Rightarrow> bool" where
  "params_ok p \<longleftrightarrow> (case cp_target p of None \<Rightarrow> False | Some t \<Rightarrow> valid_target t)
     \<and> \<not> isl (page_limit (cp_limit p))
     \<and> \<not> (0 < (case cp_after_number p of None \<Rightarrow> 0 | Some n \<Rightarrow> n) \<and> cp_revision p = None)"

text \<open>The comments endpoint in front of a running commentd answers 400 exactly when its own checks
  refuse the parameters, 409 exactly when the revision is not the current one, and otherwise 200
  with the current revision: commentd refuses nothing the endpoint has let through.\<close>

theorem comments_endpoint_status:
  assumes "reach (machine_init x j) (service_step x j) (Running d)" "length (st_comments (d_store d)) < 2 ^ 64"
  shows "http_status (comments_handler (\<lambda>q. Inr (public_query (d_store d) q)) p)
      = (if \<not> params_ok p then 400
         else if cp_revision p = None \<or> cp_revision p = Some (st_revision (d_store d)) then 200 else 409)"
proof (cases "params_ok p")
  case True
  then obtain t limit where t: "cp_target p = Some t" "valid_target t" and limit: "page_limit (cp_limit p) = Inr limit"
    and after: "\<not> (0 < (case cp_after_number p of None \<Rightarrow> 0 | Some n \<Rightarrow> n) \<and> cp_revision p = None)"
    unfolding params_ok_def by (cases "page_limit (cp_limit p)") (auto split: option.splits)
  let ?q = "\<lparr>pq_target = t, pq_after_number = cp_after_number p, pq_limit = cp_limit p, pq_revision = cp_revision p\<rparr>"
  have after': "(0 < (case cp_after_number p of None \<Rightarrow> 0 | Some n \<Rightarrow> n) \<and> cp_revision p = None) = False"
    using after by blast
  have ok: "log_ok x (st_comments (d_store d))"
    using service.inv_reach [OF assms(1)] by (simp add: service_ok_def daemon_ok_def)
  have guard: "query_guard (d_store d) ?q = (if cp_revision p \<noteq> None \<and> cp_revision p \<noteq> Some (st_revision (d_store d))
      then Inl ''stale_revision'' else Inr limit)"
    using t(2) limit unfolding query_guard_def by (simp add: after')
  have handler: "comments_handler (\<lambda>q. Inr (public_query (d_store d) q)) p =
      (let res = public_query (d_store d) ?q
       in if pr_ok res then Http_comments res
          else if pr_error res = Some ''stale_revision'' then Http_error 409 ''stale_revision''
          else Http_error 400 (case pr_error res of None \<Rightarrow> ''query failed'' | Some e \<Rightarrow> e))"
    using t(2) unfolding comments_handler_def t(1) option.case limit after' by (simp add: Let_def)
  show ?thesis
  proof (cases "cp_revision p = None \<or> cp_revision p = Some (st_revision (d_store d))")
    case True
    with guard have "query_guard (d_store d) ?q = Inr limit" by auto
    from public_query_page(1) [OF ok assms(2) this] True \<open>params_ok p\<close> show ?thesis
      by (simp add: handler Let_def)
  next
    case False
    with guard have "public_query (d_store d) ?q = query_error (d_store d) ''stale_revision''"
      by (simp add: public_query_refused)
    with False \<open>params_ok p\<close> show ?thesis
      by (simp add: handler query_error_def)
  qed
next
  case False
  then have "\<exists>e. comments_handler (\<lambda>q. Inr (public_query (d_store d) q)) p = Http_error 400 e"
    by (auto simp: comments_handler_def params_ok_def split: option.splits)
  with False show ?thesis by auto
qed

theorem comments_endpoint_status_witness:
  "http_status (comments_handler (\<lambda>q. Inr (public_query (d_store sample_daemon) q))
     \<lparr>cp_target = Some ''/notes/'', cp_after_number = None, cp_limit = Some 20, cp_revision = Some ''old''\<rparr>) = 409"
proof -
  let ?p = "\<lparr>cp_target = Some ''/notes/'', cp_after_number = None, cp_limit = Some 20, cp_revision = Some ''old''\<rparr>"
  have "length (st_comments (d_store sample_daemon)) < 2 ^ 64" "params_ok ?p"
    "st_revision (d_store sample_daemon) \<noteq> ''old''"
    by code_simp+
  with comments_endpoint_status [OF sample_reach] show ?thesis by simp
qed

section \<open>The end of a session\<close>

lemma drain_items:
  "length q < n \<Longrightarrow> drain j False sig q False (replicate n True)
     = map (Send_frame \<circ> item_frame) q @ [Send_frame (closed_frame j ''exit'')]"
proof (induction q arbitrary: n)
  case Nil
  then show ?case by (cases n; cases sig) (auto simp: down_step_def)
next
  case (Cons x q)
  then obtain m where "n = Suc m" "length q < m" by (cases n) auto
  with Cons.IH [of m] show ?case by (cases sig) (auto simp: down_step_def)
qed

definition sample_ws_json :: ws_json where
  "sample_ws_json = \<lparr>j_open = \<lambda>_. Inl (), j_resize = \<lambda>_. Inl (), j_opened = \<lambda>_. [], j_closed = map of_char\<rparr>"

text \<open>C17: when a session ends, a browser that keeps reading is sent everything that is still in its
  queue, in order and with the \<open>Replay_end\<close> in its place, and then one \<open>Closed\<close> with the reason
  \<open>exit\<close>; a connection that was replaced gets a plain close and nothing more.\<close>

theorem session_end_delivered:
  assumes "length q + 1 < n"
  shows "drain j True Dropped q False (replicate n True)
      = map (Send_frame \<circ> item_frame) q @ [Send_frame (closed_frame j ''exit'')]
    \<and> drain j True (Signal Replaced) q alive (replicate n True) = [Send_close 1000 ''replaced by reconnect'']"
proof -
  obtain m where "n = Suc m" "length q < m"
    using assms by (cases n) auto
  then show ?thesis by (simp add: down_step_def drain_items)
qed

theorem session_end_delivered_witness:
  "drain sample_ws_json True Dropped [Out_data [65], Replay_end] False (replicate 4 True)
     = [Send_frame (frame_data [65]), Send_frame frame_replay_end, Send_frame (closed_frame sample_ws_json ''exit'')]"
  using session_end_delivered [of "[Out_data [65], Replay_end]" 4 sample_ws_json] by (simp add: item_frame_def)

section \<open>Warnings\<close>

text \<open>After a warning there is none for a minute of a clock that does not go back.\<close>

lemma should_log_spaced:
  assumes "should_log now exchanged previous = (True, noted)" "now \<le> later" "unat later < unat noted + 60"
  shows "\<not> fst (should_log later exchanged' noted)"
proof -
  have noted: "noted = max now 1" "noted \<noteq> 0"
    using assms(1) by (auto simp: should_log_def max_def split: if_splits)
  have "later - noted < of_nat WARNING_INTERVAL_SECS" if "\<not> later \<le> noted"
  proof -
    have "unat (later - noted) = unat later - unat noted"
      using that by (simp add: unat_sub)
    then show ?thesis
      using assms(3) that by (simp add: word_less_nat_alt WARNING_INTERVAL_SECS_def)
  qed
  then show ?thesis
    using noted(2) by (auto simp: should_log_def WARNING_INTERVAL_SECS_def)
qed

end
