(* ===== verification/Jail_Session.thy ===== *)
theory Jail_Session
  imports Comment_Protocol Stats_Server Contracts
begin

text \<open>
  \<^verbatim>\<open>crates/servers/jaild/src/session.rs\<close>, \<^verbatim>\<open>watcher.rs\<close> and the connection of
  \<^verbatim>\<open>main.rs\<close>: the quota of sessions, the idle deadline, the comment FIFOs, the article
  watchers and the two tasks that carry bytes between the socket and the terminal.  System calls
  are known by their answers; times are natural numbers.
\<close>

definition SESSION_OUTPUT :: nat where "SESSION_OUTPUT = 128"
definition SESSION_INPUT :: nat where "SESSION_INPUT = 64"
definition SESSION_CONTROL :: nat where "SESSION_CONTROL = 8"
definition ACK_QUEUE :: nat where "ACK_QUEUE = 32"
definition MAX_SESSION_COMMENTS :: nat where "MAX_SESSION_COMMENTS = 8"

section \<open>Idle sessions\<close>

record idle_deadline =
  id_timeout :: nat
  id_deadline :: nat

definition new_deadline :: "nat \<Rightarrow> nat \<Rightarrow> idle_deadline" where
  "new_deadline timeout now = \<lparr>id_timeout = timeout, id_deadline = now + timeout\<rparr>"

definition refresh_on_input :: "idle_deadline \<Rightarrow> bytes \<Rightarrow> nat \<Rightarrow> idle_deadline" where
  "refresh_on_input d b now = (if b \<noteq> [] then d\<lparr>id_deadline := now + id_timeout d\<rparr> else d)"

section \<open>The quota\<close>

record quota =
  qt_max_total :: nat
  qt_max_per_ip :: nat

record manager =
  mg_table :: "(string \<times> ip_addr) list"
  mg_next :: nat

datatype quota_error = Server_full | Too_many_from_ip

text \<open>\<open>format!("{:08x}")\<close>.\<close>

definition hex8 :: "nat \<Rightarrow> string" where
  "hex8 n = (let s = show_hex n in replicate (8 - length s) (CHR ''0'') @ s)"

definition admit :: "quota \<Rightarrow> ip_addr \<Rightarrow> manager \<Rightarrow> (quota_error + string) \<times> manager" where
  "admit q peer m =
     (let sid = hex8 (mg_next m); m = m\<lparr>mg_next := mg_next m + 1\<rparr>
      in if qt_max_total q \<le> length (mg_table m) then (Inl Server_full, m)
         else if qt_max_per_ip q \<le> length (filter (\<lambda>e. snd e = peer) (mg_table m)) then (Inl Too_many_from_ip, m)
         else (Inr sid, m\<lparr>mg_table := (sid, peer) # filter (\<lambda>e. fst e \<noteq> sid) (mg_table m)\<rparr>))"

text \<open>A failed spawn and the end of the pump take the session out of the table.\<close>

definition release :: "string \<Rightarrow> manager \<Rightarrow> manager" where
  "release sid m = m\<lparr>mg_table := filter (\<lambda>e. fst e \<noteq> sid) (mg_table m)\<rparr>"

definition create_session :: "quota \<Rightarrow> ip_addr \<Rightarrow> 'e option \<Rightarrow> manager \<Rightarrow> (quota_error + 'e + string) \<times> manager" where
  "create_session q peer spawn_error m =
     (case admit q peer m of
        (Inl e, m) \<Rightarrow> (Inl e, m)
      | (Inr sid, m) \<Rightarrow>
          (case spawn_error of
             Some e \<Rightarrow> (Inr (Inl e), release sid m)
           | None \<Rightarrow> (Inr (Inr sid), m)))"

definition no_sessions :: manager where
  "no_sessions = \<lparr>mg_table = [], mg_next = 1\<rparr>"

inductive session_step :: "quota \<Rightarrow> manager \<Rightarrow> manager \<Rightarrow> bool" for q where
  session_admit: "session_step q m (snd (admit q peer m))"
| session_release: "session_step q m (release sid m)"

section \<open>The comment FIFOs\<close>

text \<open>A reader keeps the bytes of the write in progress, or that they are too many.\<close>

record fifo_buffer =
  fb_payload :: bytes
  fb_overflow :: bool

definition empty_buffer :: fifo_buffer where
  "empty_buffer = \<lparr>fb_payload = [], fb_overflow = False\<rparr>"

definition buffer_fifo_bytes :: "bytes \<Rightarrow> fifo_buffer \<Rightarrow> fifo_buffer" where
  "buffer_fifo_bytes b f =
     (if fb_overflow f then f
      else if MAX_COMMENT_BYTES + 2 < length (fb_payload f) + length b
      then \<lparr>fb_payload = [], fb_overflow = True\<rparr>
      else f\<lparr>fb_payload := fb_payload f @ b\<rparr>)"

text \<open>The answers of the reads until the FIFO is empty; \<open>False\<close>: a read failed.\<close>

datatype read_answer = Got bytes | Read_failed

fun drain_fifo :: "read_answer list \<Rightarrow> fifo_buffer \<Rightarrow> bool \<times> fifo_buffer" where
  "drain_fifo [] f = (True, f)"
| "drain_fifo (Got b # rest) f =
     (if b = [] then (True, f) else drain_fifo rest (buffer_fifo_bytes b f))"
| "drain_fifo (Read_failed # rest) f = (False, f)"

datatype fifo_out = Ack string | Submission string ustr

definition too_long :: fifo_out where
  "too_long = Ack ''Comment not submitted: comment exceeds 512 bytes''"

text \<open>The trailing LF or CRLF of the write.\<close>

definition chomp :: "bytes \<Rightarrow> bytes" where
  "chomp raw =
     (if raw \<noteq> [] \<and> last raw = 10
      then (let raw = butlast raw in if raw \<noteq> [] \<and> last raw = 13 then butlast raw else raw)
      else raw)"

text \<open>\<open>finalize_fifo_write\<close>: what goes out, whether the reader goes on (it does not when the worker is
  gone), and the buffer and the counter afterwards.\<close>

definition finalize_fifo_write ::
  "string \<Rightarrow> bool \<Rightarrow> nat \<Rightarrow> fifo_buffer \<Rightarrow> fifo_out list \<times> bool \<times> nat \<times> fifo_buffer"
where
  "finalize_fifo_write target worker_alive accepted f =
     (if fb_overflow f then ([too_long], True, accepted, empty_buffer)
      else if fb_payload f = [] then ([], True, accepted, f)
      else
        let raw = chomp (fb_payload f); f = f\<lparr>fb_payload := []\<rparr>
        in if MAX_COMMENT_BYTES < length raw then ([too_long], True, accepted, f)
           else case from_utf8 raw of
               None \<Rightarrow> ([Ack ''Comment not submitted: input is not valid UTF-8''], True, accepted, f)
             | Some line \<Rightarrow>
                 if \<not> accepted < MAX_SESSION_COMMENTS
                 then ([Ack ''Comment not submitted: maximum 8 comments per session''], True, accepted, f)
                 else (if worker_alive then [Submission target line] else [], worker_alive, accepted + 1, f))"

text \<open>What wakes a reader: bytes, a writer that closed, the shutdown.\<close>

datatype fifo_event = Readable "read_answer list" | Closed "read_answer list" | Shutdown "read_answer list"

text \<open>One round: what goes out, whether the reader goes on.\<close>

definition fifo_step ::
  "string \<Rightarrow> bool \<Rightarrow> fifo_event \<Rightarrow> nat \<Rightarrow> fifo_buffer \<Rightarrow> fifo_out list \<times> bool \<times> nat \<times> fifo_buffer"
where
  "fifo_step target worker_alive e accepted f =
     (case e of
        Readable reads \<Rightarrow> (case drain_fifo reads f of (ok, f) \<Rightarrow> ([], ok, accepted, f))
      | Closed reads \<Rightarrow>
          (case drain_fifo reads f of
             (ok, f) \<Rightarrow> if \<not> ok then ([], False, accepted, f)
                        else finalize_fifo_write target worker_alive accepted f)
      | Shutdown reads \<Rightarrow>
          (case finalize_fifo_write target worker_alive accepted (snd (drain_fifo reads f)) of
             (out, _, accepted, f) \<Rightarrow> (out, False, accepted, f)))"

fun fifo_reader :: "string \<Rightarrow> bool \<Rightarrow> fifo_event list \<Rightarrow> nat \<Rightarrow> fifo_buffer \<Rightarrow> fifo_out list \<times> nat" where
  "fifo_reader target worker_alive [] accepted f = ([], accepted)"
| "fifo_reader target worker_alive (e # es) accepted f =
     (case fifo_step target worker_alive e accepted f of
        (out, go_on, accepted, f) \<Rightarrow>
          if \<not> go_on then (out, accepted)
          else (case fifo_reader target worker_alive es accepted f of (out', n) \<Rightarrow> (out @ out', n)))"

text \<open>All readers of a session share the counter: each event goes to one of them.\<close>

record fifo_task =
  ff_target :: string
  ff_buffer :: fifo_buffer
  ff_running :: bool

fun fifo_session :: "bool \<Rightarrow> (nat \<times> fifo_event) list \<Rightarrow> nat \<Rightarrow> fifo_task list \<Rightarrow> fifo_out list" where
  "fifo_session worker_alive [] accepted tasks = []"
| "fifo_session worker_alive ((i, e) # es) accepted tasks =
     (if i < length tasks \<and> ff_running (tasks ! i)
      then (case fifo_step (ff_target (tasks ! i)) worker_alive e accepted (ff_buffer (tasks ! i)) of
              (out, go_on, accepted, f) \<Rightarrow>
                out @ fifo_session worker_alive es accepted
                        (tasks[i := (tasks ! i)\<lparr>ff_buffer := f, ff_running := go_on\<rparr>]))
      else fifo_session worker_alive es accepted tasks)"

text \<open>\<open>send_ack\<close> and \<open>comment_worker\<close>: the request to commentd and the notice that comes back;
  \<open>submit\<close> is commentd, \<open>None\<close> an unreachable one.\<close>

definition send_ack :: "string \<Rightarrow> string" where
  "send_ack notice = [CHR 0x0D, CHR 0x0A] @ notice @ [CHR 0x0D, CHR 0x0A]"

definition worker_notice :: "(submit_request \<Rightarrow> submit_response option) \<Rightarrow> string \<Rightarrow> string \<Rightarrow> ustr \<Rightarrow> string" where
  "worker_notice submit ip target line =
     send_ack (case submit \<lparr>sr_target = target, sr_line = line, sr_ip = ip\<rparr> of
        Some res \<Rightarrow> sp_notice res
      | None \<Rightarrow> ''Comment not submitted: comments service temporarily unavailable'')"

definition comment_worker ::
  "(submit_request \<Rightarrow> submit_response option) \<Rightarrow> string \<Rightarrow> (string \<times> ustr) list \<Rightarrow> string list"
where
  "comment_worker submit ip items = map (\<lambda>(target, line). worker_notice submit ip target line) items"

section \<open>The kernel's side of a FIFO\<close>

text \<open>What the guest does to a FIFO, and the event the reader finds: the vnode event of a close is
  kept by kqueue until it is taken, once, however many closes there were (\<open>EV_CLEAR\<close>).\<close>

datatype guest_action = Guest_write bytes | Guest_close

record fifo_kernel =
  fk_bytes :: bytes
  fk_closed :: bool

definition guest_act :: "guest_action \<Rightarrow> fifo_kernel \<Rightarrow> fifo_kernel" where
  "guest_act a k =
     (case a of
        Guest_write b \<Rightarrow> k\<lparr>fk_bytes := fk_bytes k @ b\<rparr>
      | Guest_close \<Rightarrow> k\<lparr>fk_closed := True\<rparr>)"

text \<open>The reads of a drain come in pieces of at most 1024 bytes.\<close>

definition take_event :: "bool \<Rightarrow> fifo_kernel \<Rightarrow> fifo_event \<times> fifo_kernel" where
  "take_event close_first k =
     (let reads = map Got (chunks 1024 (fk_bytes k))
      in if close_first \<and> fk_closed k then (Closed reads, \<lparr>fk_bytes = [], fk_closed = False\<rparr>)
         else (Readable reads, k\<lparr>fk_bytes := []\<rparr>))"

section \<open>Article reads\<close>

text \<open>\<open>PreparedArticleReads::run\<close>: a kernel event names a file by its index; the file is taken out, so
  that it counts once.  \<open>free\<close> is the room in the queue; nothing drains it meanwhile.\<close>

datatype vnode_event = Vnode_read nat | Vnode_error nat

fun watch_run :: "vnode_event list \<Rightarrow> (string \<times> string) option list \<Rightarrow> nat \<Rightarrow> (string \<times> string) list" where
  "watch_run [] files free = []"
| "watch_run (Vnode_error i # es) files free =
     (if list_all (\<lambda>f. f = None) files then []
      else watch_run es (if i < length files then files[i := None] else files) free)"
| "watch_run (Vnode_read i # es) files free =
     (if list_all (\<lambda>f. f = None) files then []
      else case (if i < length files then files ! i else None) of
          None \<Rightarrow> watch_run es files free
        | Some article \<Rightarrow>
            (if free = 0 then watch_run es (files[i := None]) free
             else article # watch_run es (files[i := None]) (free - 1)))"

text \<open>\<open>article_stats_worker\<close>: the events of one batch.\<close>

definition read_event :: "ip_addr \<Rightarrow> string \<times> string \<Rightarrow> record_event" where
  "read_event peer r =
     \<lparr>re_source = Terminal_read_session, re_target = fst r, re_article = snd r, re_ip = show_ip peer\<rparr>"

definition read_batch :: "ip_addr \<Rightarrow> (string \<times> string) list \<Rightarrow> record_event list \<times> (string \<times> string) list" where
  "read_batch peer waiting =
     (map (read_event peer) (take MAX_BATCH_EVENTS waiting), drop MAX_BATCH_EVENTS waiting)"

function read_batches :: "ip_addr \<Rightarrow> (string \<times> string) list \<Rightarrow> record_event list list" where
  "read_batches peer waiting =
     (if waiting = [] then []
      else (case read_batch peer waiting of (batch, rest) \<Rightarrow> batch # read_batches peer rest))"
  by pat_completeness auto
termination
  by (relation "measure (\<lambda>(_, w). length w)") (auto simp: read_batch_def MAX_BATCH_EVENTS_def)

declare read_batches.simps [simp del]

end
