(* ===== verification/Jail_Relay.thy ===== *)
theory Jail_Relay
  imports Jail_Session Proto "HOL-Library.Sublist"
begin

text \<open>
  The two tasks of a session in jaild: \<open>handle_conn\<close> of \<^verbatim>\<open>main.rs\<close>, which owns the socket, and the
  main loop of \<open>pump\<close> of \<^verbatim>\<open>session.rs\<close>, which owns the terminal.  Between them are three bounded
  channels; the acknowledgements of comments come over a fourth.  Each \<open>await\<close> is a boundary between
  two steps; a step that has to wait is \<open>None\<close>.
\<close>

section \<open>The handshake\<close>

record jail_open =
  jo_cols :: u16
  jo_rows :: u16
  jo_peer_ip :: "string option"
  jo_caps :: "string list"

definition filter_caps :: "string list \<Rightarrow> string list" where
  "filter_caps caps = filter (\<lambda>c. c \<in> set [''img-iterm2'']) caps"

text \<open>What the first receive ends with: a frame, an error, the timeout.\<close>

datatype first_frame = First frame | First_error | First_timeout

definition read_open_frame :: "(bytes \<Rightarrow> unit + jail_open) \<Rightarrow> first_frame \<Rightarrow> jail_open option" where
  "read_open_frame open_json first =
     (case first of
        First f \<Rightarrow>
          if fr_kind f = OPEN then (case frame_parse open_json f of Inr req \<Rightarrow> Some req | Inl _ \<Rightarrow> None) else None
      | First_error \<Rightarrow> None
      | First_timeout \<Rightarrow> None)"

definition open_peer :: "jail_open \<Rightarrow> ip_addr" where
  "open_peer req =
     (case jo_peer_ip req of
        None \<Rightarrow> V4 0 0 0 0
      | Some s \<Rightarrow> (case parse_ip s of Some ip \<Rightarrow> ip | None \<Rightarrow> V4 0 0 0 0))"

text \<open>The answer to the gateway and whether the relay starts; \<open>creation\<close> is \<open>SessionManager::create\<close>.\<close>

definition handshake ::
  "(bytes \<Rightarrow> unit + jail_open) \<Rightarrow> (string \<Rightarrow> bytes) \<Rightarrow> (string \<Rightarrow> bytes) \<Rightarrow> first_frame
     \<Rightarrow> (ip_addr \<Rightarrow> u16 \<Rightarrow> u16 \<Rightarrow> string list \<Rightarrow> string + string) \<Rightarrow> frame option \<times> bool"
where
  "handshake open_json closed_json opened_json first creation =
     (case read_open_frame open_json first of
        None \<Rightarrow> (None, False)
      | Some req \<Rightarrow>
          (case creation (open_peer req) (jo_cols req) (jo_rows req) (filter_caps (jo_caps req)) of
             Inl e \<Rightarrow> (Some (frame_json closed_json CLOSED e), False)
           | Inr sid \<Rightarrow> (Some (frame_json opened_json OPENED sid), True)))"

section \<open>The relay\<close>

text \<open>The handler waits in its \<open>select!\<close>, or in one of the sends it has chosen, or is over.\<close>

datatype handler = Listening | Giving bytes | Resizing "u16 \<times> u16" | Writing bytes | Farewell | Hung_up

datatype jpump = Selecting | Typing bytes | Putting bytes | Draining | Pump_over

text \<open>The last eight fields record what has gone through: input taken from the socket and written
  to the terminal, sizes asked for and set, output read from the terminal or acknowledged and sent
  on; \<open>rl_failed\<close>: a write to the terminal has failed; \<open>rl_cut\<close>: the deadline came while a piece
  of output waited for room; \<open>rl_exit\<close>: the gateway was told of the exit.\<close>

record relay =
  rl_handler :: handler
  rl_pump :: jpump
  rl_input :: "bytes list"
  rl_control :: "(u16 \<times> u16) list"
  rl_output :: "bytes list"
  rl_acks :: "bytes list"
  rl_idle :: idle_deadline
  rl_now :: nat
  rl_taken :: bytes
  rl_typed :: bytes
  rl_asked :: "(u16 \<times> u16) list"
  rl_sized :: "(u16 \<times> u16) list"
  rl_shown :: bytes
  rl_delivered :: bytes
  rl_failed :: bool
  rl_cut :: bool
  rl_exit :: bool

definition relay_start :: "nat \<Rightarrow> nat \<Rightarrow> relay" where
  "relay_start timeout now =
     \<lparr>rl_handler = Listening, rl_pump = Selecting, rl_input = [], rl_control = [], rl_output = [],
      rl_acks = [], rl_idle = new_deadline timeout now, rl_now = now, rl_taken = [], rl_typed = [],
      rl_asked = [], rl_sized = [], rl_shown = [], rl_delivered = [], rl_failed = False, rl_cut = False, rl_exit = False\<rparr>"

subsection \<open>\<open>handle_conn\<close>\<close>

text \<open>A frame, or (\<open>None\<close>) the end of the link.\<close>

definition take_frame :: "(bytes \<Rightarrow> unit + u16 \<times> u16) \<Rightarrow> frame option \<Rightarrow> relay \<Rightarrow> relay option" where
  "take_frame resize_json e r =
     (if rl_handler r \<noteq> Listening then None
      else case e of
          None \<Rightarrow> Some (r\<lparr>rl_handler := Hung_up\<rparr>)
        | Some f \<Rightarrow>
            if fr_kind f = DATA
            then Some (r\<lparr>rl_handler := Giving (fr_payload f), rl_taken := rl_taken r @ fr_payload f\<rparr>)
            else if fr_kind f = RESIZE
            then (case frame_parse resize_json f of
                Inr sz \<Rightarrow> Some (r\<lparr>rl_handler := Resizing sz, rl_asked := rl_asked r @ [sz]\<rparr>)
              | Inl _ \<Rightarrow> Some r)
            else Some r)"

text \<open>\<open>session.input.send\<close> and \<open>session.control.send\<close>: they wait for room; when the pump is over the
  first ends the connection and the second is passed over.\<close>

definition give_input :: "relay \<Rightarrow> relay option" where
  "give_input r =
     (case rl_handler r of
        Giving b \<Rightarrow>
          if rl_pump r = Pump_over then Some (r\<lparr>rl_handler := Hung_up\<rparr>)
          else if SESSION_INPUT \<le> length (rl_input r) then None
          else Some (r\<lparr>rl_handler := Listening, rl_input := rl_input r @ [b]\<rparr>)
      | _ \<Rightarrow> None)"

definition give_resize :: "relay \<Rightarrow> relay option" where
  "give_resize r =
     (case rl_handler r of
        Resizing sz \<Rightarrow>
          if rl_pump r = Pump_over then Some (r\<lparr>rl_handler := Listening\<rparr>)
          else if SESSION_CONTROL \<le> length (rl_control r) then None
          else Some (r\<lparr>rl_handler := Listening, rl_control := rl_control r @ [sz]\<rparr>)
      | _ \<Rightarrow> None)"

text \<open>\<open>output.recv\<close>: the next piece, or the end when the pump is over and nothing is left.\<close>

definition take_output :: "relay \<Rightarrow> relay option" where
  "take_output r =
     (if rl_handler r \<noteq> Listening then None
      else case rl_output r of
          b # rest \<Rightarrow> Some (r\<lparr>rl_handler := Writing b, rl_output := rest\<rparr>)
        | [] \<Rightarrow> if rl_pump r = Pump_over then Some (r\<lparr>rl_handler := Farewell\<rparr>) else None)"

text \<open>\<open>link.send\<close> returns; \<open>ok\<close>: it has sent the frame.\<close>

definition link_sent :: "bool \<Rightarrow> relay \<Rightarrow> relay option" where
  "link_sent ok r =
     (case rl_handler r of
        Writing b \<Rightarrow>
          Some (if ok then r\<lparr>rl_handler := Listening, rl_delivered := rl_delivered r @ b\<rparr>
                else r\<lparr>rl_handler := Hung_up\<rparr>)
      | Farewell \<Rightarrow> Some (r\<lparr>rl_handler := Hung_up, rl_exit := ok\<rparr>)
      | _ \<Rightarrow> None)"

subsection \<open>\<open>pump\<close>\<close>

text \<open>\<open>input.recv\<close>.  Every step of the pump that keeps the clock happens at \<open>rl_now\<close>.\<close>

definition take_input :: "relay \<Rightarrow> relay option" where
  "take_input r =
     (if rl_pump r \<noteq> Selecting then None
      else case rl_input r of
          b # rest \<Rightarrow> Some (r\<lparr>rl_pump := Typing b, rl_input := rest, rl_idle := refresh_on_input (rl_idle r) b (rl_now r)\<rparr>)
        | [] \<Rightarrow> if rl_handler r = Hung_up then Some (r\<lparr>rl_pump := Draining\<rparr>) else None)"

text \<open>\<open>write_all\<close>: the terminal takes \<open>n\<close> bytes; it has taken all; or it fails, which is passed over.\<close>

definition type_bytes :: "nat \<Rightarrow> relay \<Rightarrow> relay option" where
  "type_bytes n r =
     (case rl_pump r of
        Typing b \<Rightarrow>
          if b \<noteq> [] \<and> n \<le> length b
          then Some (r\<lparr>rl_pump := Typing (drop n b), rl_typed := rl_typed r @ take n b\<rparr>)
          else None
      | _ \<Rightarrow> None)"

definition typing_done :: "relay \<Rightarrow> relay option" where
  "typing_done r = (if rl_pump r = Typing [] then Some (r\<lparr>rl_pump := Selecting\<rparr>) else None)"

definition typing_fails :: "relay \<Rightarrow> relay option" where
  "typing_fails r =
     (case rl_pump r of Typing b \<Rightarrow> Some (r\<lparr>rl_pump := Selecting, rl_failed := True\<rparr>) | _ \<Rightarrow> None)"

definition take_control :: "relay \<Rightarrow> relay option" where
  "take_control r =
     (if rl_pump r \<noteq> Selecting then None
      else case rl_control r of
          sz # rest \<Rightarrow> Some (r\<lparr>rl_control := rest, rl_sized := rl_sized r @ [sz]\<rparr>)
        | [] \<Rightarrow> if rl_handler r = Hung_up then Some (r\<lparr>rl_pump := Draining\<rparr>) else None)"

definition take_ack :: "relay \<Rightarrow> relay option" where
  "take_ack r =
     (if rl_pump r \<noteq> Selecting then None
      else case rl_acks r of
          b # rest \<Rightarrow> Some (r\<lparr>rl_pump := Putting b, rl_acks := rest, rl_shown := rl_shown r @ b\<rparr>)
        | [] \<Rightarrow> None)"

text \<open>The terminal is readable: \<open>None\<close> is its end or an error.\<close>

definition read_master :: "bytes option \<Rightarrow> relay \<Rightarrow> relay option" where
  "read_master answer r =
     (if rl_pump r \<noteq> Selecting then None
      else case answer of
          None \<Rightarrow> Some (r\<lparr>rl_pump := Draining\<rparr>)
        | Some b \<Rightarrow>
            if b \<noteq> [] \<and> length b \<le> 8192
            then Some (r\<lparr>rl_pump := Putting b, rl_shown := rl_shown r @ b\<rparr>) else None)"

text \<open>\<open>out.send\<close>: the handler drops the receiver when it is over.\<close>

definition put_output :: "relay \<Rightarrow> relay option" where
  "put_output r =
     (case rl_pump r of
        Putting b \<Rightarrow>
          if rl_handler r = Hung_up then Some (r\<lparr>rl_pump := Draining\<rparr>)
          else if SESSION_OUTPUT \<le> length (rl_output r) then None
          else Some (r\<lparr>rl_pump := Selecting, rl_output := rl_output r @ [b]\<rparr>)
      | _ \<Rightarrow> None)"

text \<open>The deadline ends the loop at each of its awaits.\<close>

definition idle_out :: "relay \<Rightarrow> relay option" where
  "idle_out r =
     (if rl_pump r \<noteq> Draining \<and> rl_pump r \<noteq> Pump_over \<and> id_deadline (rl_idle r) \<le> rl_now r
      then Some (r\<lparr>rl_pump := Draining, rl_cut := (case rl_pump r of Putting _ \<Rightarrow> True | _ \<Rightarrow> rl_cut r)\<rparr>)
      else None)"

text \<open>The final drain: acknowledgements still go out while there is room; then the clean-up, and the
  task is over and drops its ends of the channels.\<close>

definition drain_ack :: "relay \<Rightarrow> relay option" where
  "drain_ack r =
     (if rl_pump r \<noteq> Draining then None
      else case rl_acks r of
          b # rest \<Rightarrow>
            if rl_handler r = Hung_up then Some (r\<lparr>rl_acks := rest\<rparr>)
            else if SESSION_OUTPUT \<le> length (rl_output r) then None
            else Some (r\<lparr>rl_acks := rest, rl_output := rl_output r @ [b], rl_shown := rl_shown r @ b\<rparr>)
        | [] \<Rightarrow> None)"

definition pump_ends :: "relay \<Rightarrow> relay option" where
  "pump_ends r = (if rl_pump r = Draining then Some (r\<lparr>rl_pump := Pump_over\<rparr>) else None)"

text \<open>The worker sends an acknowledgement while its queue has room; time passes.\<close>

definition send_notice :: "bytes \<Rightarrow> relay \<Rightarrow> relay option" where
  "send_notice b r =
     (if rl_pump r = Pump_over \<or> ACK_QUEUE \<le> length (rl_acks r) then None
      else Some (r\<lparr>rl_acks := rl_acks r @ [b]\<rparr>))"

definition wait_until :: "nat \<Rightarrow> relay \<Rightarrow> relay option" where
  "wait_until t r = (if rl_now r \<le> t then Some (r\<lparr>rl_now := t\<rparr>) else None)"

text \<open>Every step but the deadline and the clock.\<close>

inductive relay_work :: "(bytes \<Rightarrow> unit + u16 \<times> u16) \<Rightarrow> relay \<Rightarrow> relay \<Rightarrow> bool" for rj where
  do_take_frame: "take_frame rj e r = Some r' \<Longrightarrow> relay_work rj r r'"
| do_give_input: "give_input r = Some r' \<Longrightarrow> relay_work rj r r'"
| do_give_resize: "give_resize r = Some r' \<Longrightarrow> relay_work rj r r'"
| do_take_output: "take_output r = Some r' \<Longrightarrow> relay_work rj r r'"
| do_link_sent: "link_sent ok r = Some r' \<Longrightarrow> relay_work rj r r'"
| do_take_input: "take_input r = Some r' \<Longrightarrow> relay_work rj r r'"
| do_type_bytes: "type_bytes n r = Some r' \<Longrightarrow> relay_work rj r r'"
| do_typing_done: "typing_done r = Some r' \<Longrightarrow> relay_work rj r r'"
| do_typing_fails: "typing_fails r = Some r' \<Longrightarrow> relay_work rj r r'"
| do_take_control: "take_control r = Some r' \<Longrightarrow> relay_work rj r r'"
| do_take_ack: "take_ack r = Some r' \<Longrightarrow> relay_work rj r r'"
| do_read_master: "read_master a r = Some r' \<Longrightarrow> relay_work rj r r'"
| do_put_output: "put_output r = Some r' \<Longrightarrow> relay_work rj r r'"
| do_drain_ack: "drain_ack r = Some r' \<Longrightarrow> relay_work rj r r'"
| do_pump_ends: "pump_ends r = Some r' \<Longrightarrow> relay_work rj r r'"
| do_send_notice: "send_notice b r = Some r' \<Longrightarrow> relay_work rj r r'"

inductive relay_step :: "(bytes \<Rightarrow> unit + u16 \<times> u16) \<Rightarrow> relay \<Rightarrow> relay \<Rightarrow> bool" for rj where
  working: "relay_work rj r r' \<Longrightarrow> relay_step rj r r'"
| idling: "idle_out r = Some r' \<Longrightarrow> relay_step rj r r'"
| waiting: "wait_until t r = Some r' \<Longrightarrow> relay_step rj r r'"

section \<open>The invariant of the relay\<close>

text \<open>
  The invariant of the relay between socket and terminal: what the queues hold is exactly what has
  been taken in and not yet gone out, in order, and no queue exceeds its capacity.
\<close>

lemmas relay_op_defs = take_frame_def give_input_def give_resize_def take_output_def link_sent_def
  take_input_def type_bytes_def typing_done_def typing_fails_def take_control_def take_ack_def
  read_master_def put_output_def idle_out_def drain_ack_def pump_ends_def send_notice_def wait_until_def

lemmas relay_cap_defs = SESSION_OUTPUT_def SESSION_INPUT_def SESSION_CONTROL_def ACK_QUEUE_def

lemmas relay_splits = if_splits option.splits sum.splits list.splits handler.splits jpump.splits prod.splits

fun giving :: "handler \<Rightarrow> bytes" where "giving (Giving b) = b" | "giving _ = []"
fun writing :: "handler \<Rightarrow> bytes" where "writing (Writing b) = b" | "writing _ = []"
fun resizing :: "handler \<Rightarrow> (u16 \<times> u16) list" where "resizing (Resizing s) = [s]" | "resizing _ = []"
fun typing :: "jpump \<Rightarrow> bytes" where "typing (Typing b) = b" | "typing _ = []"
fun putting :: "jpump \<Rightarrow> bytes" where "putting (Putting b) = b" | "putting _ = []"

definition in_loop :: "relay \<Rightarrow> bool" where
  "in_loop r \<longleftrightarrow> rl_pump r \<noteq> Draining \<and> rl_pump r \<noteq> Pump_over"

definition queues_ok :: "relay \<Rightarrow> bool" where
  "queues_ok r \<longleftrightarrow>
     length (rl_input r) \<le> SESSION_INPUT \<and> length (rl_control r) \<le> SESSION_CONTROL
   \<and> length (rl_output r) \<le> SESSION_OUTPUT \<and> length (rl_acks r) \<le> ACK_QUEUE"

definition input_ok :: "relay \<Rightarrow> bool" where
  "input_ok r \<longleftrightarrow> rl_failed r \<or>
     (if in_loop r
      then rl_typed r @ typing (rl_pump r) @ concat (rl_input r) @ giving (rl_handler r) = rl_taken r
      else prefix (rl_typed r) (rl_taken r))"

definition sizes_ok :: "relay \<Rightarrow> bool" where
  "sizes_ok r \<longleftrightarrow>
     (if rl_pump r \<noteq> Pump_over then rl_sized r @ rl_control r @ resizing (rl_handler r) = rl_asked r
      else prefix (rl_sized r) (rl_asked r))"

definition output_ok :: "relay \<Rightarrow> bool" where
  "output_ok r \<longleftrightarrow> rl_cut r \<or>
     (if rl_handler r = Hung_up then prefix (rl_delivered r) (rl_shown r)
      else rl_delivered r @ writing (rl_handler r) @ concat (rl_output r) @ putting (rl_pump r) = rl_shown r)"

definition ending_ok :: "relay \<Rightarrow> bool" where
  "ending_ok r \<longleftrightarrow>
     (rl_handler r = Farewell \<longrightarrow> rl_pump r = Pump_over \<and> rl_output r = [])
   \<and> (rl_exit r \<longrightarrow> rl_pump r = Pump_over \<and> rl_output r = [] \<and> rl_handler r = Hung_up
        \<and> (rl_cut r \<or> rl_delivered r = rl_shown r))"

definition relay_ok :: "relay \<Rightarrow> bool" where
  "relay_ok r \<longleftrightarrow> queues_ok r \<and> input_ok r \<and> sizes_ok r \<and> output_ok r \<and> ending_ok r"

lemmas relay_ok_defs = queues_ok_def input_ok_def sizes_ok_def output_ok_def ending_ok_def in_loop_def

lemma relay_ok_start: "relay_ok (relay_start timeout now)"
  by (simp add: relay_ok_def relay_ok_defs relay_start_def)

lemma prefix_left: "a @ b = c \<Longrightarrow> prefix a c"
  by auto

lemma take_drop_append: "take n xs @ drop n xs @ ys = xs @ ys"
  by (simp flip: append_assoc)

text \<open>First the branches of the operations, then the invariant in each.\<close>

lemma queues_ok_step: "queues_ok r \<Longrightarrow> relay_step rj r r' \<Longrightarrow> queues_ok r'"
  by (erule relay_step.cases, erule relay_work.cases)
     (auto simp: relay_op_defs split: relay_splits, simp_all add: queues_ok_def)

lemma sizes_ok_step: "sizes_ok r \<Longrightarrow> relay_step rj r r' \<Longrightarrow> sizes_ok r'"
  by (erule relay_step.cases, erule relay_work.cases)
     (auto simp: relay_op_defs split: relay_splits, auto simp: sizes_ok_def intro: prefix_left)

lemma input_ok_step: "input_ok r \<Longrightarrow> relay_step rj r r' \<Longrightarrow> input_ok r'"
  by (erule relay_step.cases, erule relay_work.cases)
     (auto simp: relay_op_defs split: relay_splits,
      auto simp: input_ok_def in_loop_def take_drop_append intro: prefix_left split: if_splits)

lemma output_ok_step: "output_ok r \<Longrightarrow> ending_ok r \<Longrightarrow> relay_step rj r r' \<Longrightarrow> output_ok r'"
  by (erule relay_step.cases, erule relay_work.cases)
     (auto simp: relay_op_defs split: relay_splits,
      auto simp: output_ok_def ending_ok_def intro: prefix_left split: if_splits)

lemma ending_ok_step: "output_ok r \<Longrightarrow> ending_ok r \<Longrightarrow> relay_step rj r r' \<Longrightarrow> ending_ok r'"
  by (erule relay_step.cases, erule relay_work.cases)
     (auto simp: relay_op_defs split: relay_splits, simp_all add: output_ok_def ending_ok_def)

lemma relay_ok_step: "relay_ok r \<Longrightarrow> relay_step rj r r' \<Longrightarrow> relay_ok r'"
  unfolding relay_ok_def
  using queues_ok_step input_ok_step sizes_ok_step output_ok_step ending_ok_step by blast

interpretation relay: invariant_machine "\<lambda>r. \<exists>timeout now. r = relay_start timeout now" "relay_step rj" relay_ok
  by unfold_locales (auto simp: relay_ok_start intro: relay_ok_step)

abbreviation relay_reachable :: "(bytes \<Rightarrow> unit + u16 \<times> u16) \<Rightarrow> relay \<Rightarrow> bool" where
  "relay_reachable rj \<equiv> reach (\<lambda>r. \<exists>timeout now. r = relay_start timeout now) (relay_step rj)"

lemmas relay_reachable_ok = relay.inv_reach

section \<open>Full in both directions\<close>

text \<open>The handler holds a piece of input that has no room, and so does not read output; the loop of
  the pump holds a piece of output that has no room, and so does not read input.\<close>

definition full_both_ways :: "relay \<Rightarrow> bool" where
  "full_both_ways r \<longleftrightarrow>
     (\<exists>b. rl_handler r = Giving b) \<and> SESSION_INPUT \<le> length (rl_input r)
   \<and> (\<exists>b. rl_pump r = Putting b) \<and> SESSION_OUTPUT \<le> length (rl_output r)"

lemma full_both_ways_stays:
  assumes "full_both_ways r" "relay_work rj r r' \<or> wait_until t r = Some r'"
  shows "full_both_ways r' \<and> rl_typed r' = rl_typed r \<and> rl_delivered r' = rl_delivered r
    \<and> id_deadline (rl_idle r') = id_deadline (rl_idle r)"
  using assms(2)
proof
  assume "relay_work rj r r'"
  then show ?thesis using assms(1)
    by (cases rule: relay_work.cases)
       (auto simp: relay_op_defs full_both_ways_def split: relay_splits)
qed (use assms(1) in \<open>auto simp: wait_until_def full_both_ways_def split: if_splits\<close>)

end
