(* ===== verification/Jail_Session_Facts.thy ===== *)
theory Jail_Session_Facts
  imports Jail_Session
begin

text \<open>
  The quota as an invariant of the session table, and what a FIFO reader makes of the writes of a
  guest, however the kernel cuts them into reads.
\<close>

section \<open>Session ids\<close>

definition hex_value :: "string \<Rightarrow> nat" where
  "hex_value s = digits_value 16 (map (\<lambda>c. the (to_digit 16 c)) s)"

lemma to_digit_hex: "d < 16 \<Longrightarrow> to_digit 16 (digit_char d) = Some d"
  by (auto simp: to_digit_def Let_def)

lemma digits_value_zeros: "digits_value 16 (replicate k 0 @ ds) = digits_value 16 ds"
  by (induction k) (simp_all add: digits_value_def)

lemma hex_value_hex8: "hex_value (hex8 n) = n"
proof -
  have "map (\<lambda>c. the (to_digit 16 c)) (map digit_char (digits 16 n)) = digits 16 n"
    using digits_less [of 16 _ n] by (auto simp: to_digit_hex intro: map_idI)
  moreover have "the (to_digit 16 (CHR ''0'')) = 0" by code_simp
  ultimately show ?thesis
    by (simp add: hex_value_def hex8_def Let_def show_hex_def digits_value_zeros digits_value_digits comp_def)
qed

lemma hex8_inject: "hex8 m = hex8 n \<longleftrightarrow> m = n"
  by (metis hex_value_hex8)

section \<open>The quota\<close>

definition from_ip :: "ip_addr \<Rightarrow> manager \<Rightarrow> (string \<times> ip_addr) list" where
  "from_ip peer m = filter (\<lambda>e. snd e = peer) (mg_table m)"

definition quota_ok :: "quota \<Rightarrow> manager \<Rightarrow> bool" where
  "quota_ok q m \<longleftrightarrow>
     length (mg_table m) \<le> qt_max_total q
   \<and> (\<forall>peer. length (from_ip peer m) \<le> qt_max_per_ip q)
   \<and> distinct (map fst (mg_table m))
   \<and> (\<forall>sid \<in> fst ` set (mg_table m). \<exists>k < mg_next m. sid = hex8 k)"

lemma quota_ok_start: "quota_ok q no_sessions"
  by (simp add: quota_ok_def no_sessions_def from_ip_def)

lemma new_sid_fresh: "quota_ok q m \<Longrightarrow> hex8 (mg_next m) \<notin> fst ` set (mg_table m)"
  by (auto simp: quota_ok_def hex8_inject)

lemma admit_table:
  assumes "quota_ok q m"
  shows "mg_table (snd (admit q peer m)) =
    (if length (mg_table m) < qt_max_total q \<and> length (from_ip peer m) < qt_max_per_ip q
     then (hex8 (mg_next m), peer) # mg_table m else mg_table m)"
proof -
  have "filter (\<lambda>e. fst e \<noteq> hex8 (mg_next m)) (mg_table m) = mg_table m"
    using new_sid_fresh [OF assms] by (auto simp: filter_id_conv image_iff)
  then show ?thesis by (auto simp: admit_def from_ip_def Let_def)
qed

lemma admit_next: "mg_next (snd (admit q peer m)) = mg_next m + 1"
  by (auto simp: admit_def Let_def)

lemma admit_result:
  "fst (admit q peer m) =
    (if qt_max_total q \<le> length (mg_table m) then Inl Server_full
     else if qt_max_per_ip q \<le> length (from_ip peer m) then Inl Too_many_from_ip
     else Inr (hex8 (mg_next m)))"
  by (simp add: admit_def from_ip_def Let_def)

lemma quota_ok_admit:
  assumes "quota_ok q m"
  shows "quota_ok q (snd (admit q peer m))"
proof -
  note fresh = new_sid_fresh [OF assms]
  have "\<forall>p. length (from_ip p (snd (admit q peer m))) \<le> qt_max_per_ip q"
    using assms by (auto simp: quota_ok_def from_ip_def admit_table [OF assms])
  then show ?thesis
    using assms fresh
    by (auto simp: quota_ok_def admit_table [OF assms] admit_next less_Suc_eq)
qed

lemma quota_ok_release:
  assumes "quota_ok q m"
  shows "quota_ok q (release sid m)"
proof -
  have "length (from_ip p (release sid m)) \<le> qt_max_per_ip q" for p
  proof -
    have "from_ip p (release sid m) = filter (\<lambda>e. fst e \<noteq> sid) (from_ip p m)"
      by (simp add: from_ip_def release_def conj_commute)
    with assms show ?thesis by (auto simp: quota_ok_def intro: order_trans [OF length_filter_le])
  qed
  moreover have "distinct (map fst (filter P (mg_table m)))" for P
    using assms by (simp add: quota_ok_def distinct_map_filter)
  moreover have "length (filter P (mg_table m)) \<le> qt_max_total q" for P
    using assms by (auto simp: quota_ok_def intro: order_trans [OF length_filter_le])
  ultimately show ?thesis
    using assms by (auto simp: quota_ok_def release_def)
qed

interpretation sessions: invariant_machine "\<lambda>m. m = no_sessions" "session_step q" "quota_ok q"
  by unfold_locales
     (auto simp: quota_ok_start elim!: session_step.cases intro: quota_ok_admit quota_ok_release)

lemmas sessions_reachable = sessions.inv_reach

section \<open>One write, one verdict\<close>

text \<open>What the documentation promises of a write: the whole of it, less the line end, is one comment.\<close>

definition verdict :: "string \<Rightarrow> bytes \<Rightarrow> nat \<Rightarrow> fifo_out list \<times> nat" where
  "verdict target b accepted =
     (if b = [] then ([], accepted)
      else if MAX_COMMENT_BYTES < length (chomp b) then ([too_long], accepted)
      else case from_utf8 (chomp b) of
          None \<Rightarrow> ([Ack ''Comment not submitted: input is not valid UTF-8''], accepted)
        | Some line \<Rightarrow>
            if accepted < MAX_SESSION_COMMENTS then ([Submission target line], accepted + 1)
            else ([Ack ''Comment not submitted: maximum 8 comments per session''], accepted))"

text \<open>The buffer after the bytes \<open>p\<close>.\<close>

definition buffered :: "bytes \<Rightarrow> fifo_buffer" where
  "buffered p =
     (if MAX_COMMENT_BYTES + 2 < length p then \<lparr>fb_payload = [], fb_overflow = True\<rparr>
      else \<lparr>fb_payload = p, fb_overflow = False\<rparr>)"

lemma buffered_Nil: "buffered [] = empty_buffer"
  by (simp add: buffered_def empty_buffer_def)

lemma buffer_fifo_bytes_buffered: "buffer_fifo_bytes b (buffered p) = buffered (p @ b)"
  by (simp add: buffer_fifo_bytes_def buffered_def)

lemma drain_fifo_buffered:
  "\<forall>b \<in> set bs. b \<noteq> [] \<Longrightarrow> drain_fifo (map Got bs) (buffered p) = (True, buffered (p @ concat bs))"
  by (induction bs arbitrary: p) (simp_all add: buffer_fifo_bytes_buffered)

lemma chomp_length: "length b \<le> length (chomp b) + 2"
  by (auto simp: chomp_def Let_def)

lemma finalize_buffered:
  "finalize_fifo_write target True accepted (buffered p)
     = (fst (verdict target p accepted), True, snd (verdict target p accepted), empty_buffer)"
proof (cases "MAX_COMMENT_BYTES + 2 < length p")
  case True
  moreover from True chomp_length [of p] have "MAX_COMMENT_BYTES < length (chomp p)" by simp
  ultimately show ?thesis
    by (auto simp: finalize_fifo_write_def buffered_def verdict_def)
next
  case False
  then show ?thesis
    by (simp add: finalize_fifo_write_def buffered_def verdict_def empty_buffer_def Let_def split: option.split)
qed

text \<open>The events of one write: reads as they come, then the close, at which the rest is read.\<close>

definition write_events :: "bytes list list \<Rightarrow> bytes list \<Rightarrow> fifo_event list" where
  "write_events early rest = map (\<lambda>bs. Readable (map Got bs)) early @ [Closed (map Got rest)]"

lemma fifo_reader_early:
  assumes "\<forall>bs \<in> set early. \<forall>b \<in> set bs. b \<noteq> []"
  shows "fifo_reader target True (map (\<lambda>bs. Readable (map Got bs)) early @ es) accepted (buffered p)
    = fifo_reader target True es accepted (buffered (p @ concat (map concat early)))"
  using assms
  by (induction early arbitrary: p) (simp_all add: fifo_step_def drain_fifo_buffered)

lemma fifo_reader_write:
  assumes "\<forall>bs \<in> set early. \<forall>b \<in> set bs. b \<noteq> []" "\<forall>b \<in> set rest. b \<noteq> []"
    and "concat (map concat early) @ concat rest = w"
  shows "fifo_reader target True (write_events early rest @ es) accepted empty_buffer
    = (case verdict target w accepted of
        (out, n) \<Rightarrow> (case fifo_reader target True es n empty_buffer of (out', n') \<Rightarrow> (out @ out', n')))"
  using fifo_reader_early [OF assms(1), of target "Closed (map Got rest) # es" accepted "[]"] assms(2,3)
  by (simp add: write_events_def buffered_Nil fifo_step_def drain_fifo_buffered finalize_buffered
      case_prod_unfold)

text \<open>The submissions never exceed the room in the counter.\<close>

definition submissions :: "fifo_out list \<Rightarrow> fifo_out list" where
  "submissions out = filter (\<lambda>x. case x of Submission _ _ \<Rightarrow> True | Ack _ \<Rightarrow> False) out"

lemma submissions_simps [simp]:
  "submissions [] = []" "submissions (Ack a # out) = submissions out"
  "submissions (Submission t l # out) = Submission t l # submissions out"
  "submissions (out @ out') = submissions out @ submissions out'"
  by (simp_all add: submissions_def)

lemma finalize_count:
  assumes "finalize_fifo_write target alive accepted f = (out, go_on, n, f')" "accepted \<le> MAX_SESSION_COMMENTS"
  shows "accepted + length (submissions out) \<le> n \<and> n \<le> MAX_SESSION_COMMENTS"
  using assms by (auto simp: finalize_fifo_write_def Let_def too_long_def split: if_splits option.splits)

lemma fifo_step_count:
  assumes "fifo_step target alive e accepted f = (out, go_on, n, f')" "accepted \<le> MAX_SESSION_COMMENTS"
  shows "accepted + length (submissions out) \<le> n \<and> n \<le> MAX_SESSION_COMMENTS"
  using assms
  by (auto simp: fifo_step_def split: fifo_event.splits prod.splits if_splits dest!: finalize_count)

lemma fifo_session_count:
  "accepted \<le> MAX_SESSION_COMMENTS \<Longrightarrow>
   accepted + length (submissions (fifo_session alive es accepted tasks)) \<le> MAX_SESSION_COMMENTS"
proof (induction alive es accepted tasks rule: fifo_session.induct)
  case (2 alive i e es accepted tasks)
  show ?case
  proof (cases "i < length tasks \<and> ff_running (tasks ! i)")
    case True
    obtain out go_on n f where s:
      "fifo_step (ff_target (tasks ! i)) alive e accepted (ff_buffer (tasks ! i)) = (out, go_on, n, f)"
      by (metis prod_cases4)
    from fifo_step_count [OF s "2.prems"] "2.IH"(1) [OF True s [symmetric] refl refl]
    show ?thesis using True s by simp
  next
    case False
    with "2.IH"(2) [OF False "2.prems"] show ?thesis by auto
  qed
qed simp

section \<open>Batches of reads\<close>

lemma read_batches_concat: "concat (read_batches peer waiting) = map (read_event peer) waiting"
proof (induction peer waiting rule: read_batches.induct)
  case (1 peer waiting)
  have "map f (take n xs) @ map f (drop n xs) = map f xs" for f :: "string \<times> string \<Rightarrow> record_event" and n xs
    by (metis append_take_drop_id map_append)
  with 1 show ?case
    by (subst read_batches.simps) (auto simp: read_batch_def)
qed

lemma read_batches_length:
  "batch \<in> set (read_batches peer waiting) \<Longrightarrow> batch \<noteq> [] \<and> length batch \<le> MAX_BATCH_EVENTS"
proof (induction peer waiting rule: read_batches.induct)
  case (1 peer waiting)
  then show ?case
    by (subst (asm) read_batches.simps)
       (auto simp: read_batch_def MAX_BATCH_EVENTS_def split: if_splits)
qed

end
