(* ===== verification/Jail_Properties.thy ===== *)
theory Jail_Properties
  imports Jail_Relay Jail_Session_Facts
begin

text \<open>
  What jaild owes a session: the quota, the comments written to a FIFO, and the relay between the
  gateway and the terminal.
\<close>

section \<open>The quota\<close>

text \<open>C21: at every moment no more sessions are open than the quota allows, in all and for each
  address; no two have the same id; and a session is admitted exactly when there is room, under an id
  that none of the open ones has, and without touching them.\<close>

theorem quota_holds:
  assumes "reach (\<lambda>m. m = no_sessions) (session_step q) m"
  shows "length (mg_table m) \<le> qt_max_total q
    \<and> length (filter (\<lambda>e. snd e = ip) (mg_table m)) \<le> qt_max_per_ip q
    \<and> distinct (map fst (mg_table m))
    \<and> (case admit q ip m of
         (Inr sid, m') \<Rightarrow>
           length (mg_table m) < qt_max_total q
         \<and> length (filter (\<lambda>e. snd e = ip) (mg_table m)) < qt_max_per_ip q
         \<and> sid \<notin> fst ` set (mg_table m) \<and> mg_table m' = (sid, ip) # mg_table m
       | (Inl Server_full, m') \<Rightarrow> length (mg_table m) = qt_max_total q \<and> mg_table m' = mg_table m
       | (Inl Too_many_from_ip, m') \<Rightarrow>
           length (filter (\<lambda>e. snd e = ip) (mg_table m)) = qt_max_per_ip q \<and> mg_table m' = mg_table m)"
proof -
  have ok: "quota_ok q m" using assms by (rule sessions_reachable)
  obtain r m' where a: "admit q ip m = (r, m')" by force
  note fresh = new_sid_fresh [OF ok]
  show ?thesis
    using ok a admit_result [of q ip m] admit_table [OF ok, of ip] fresh
    by (auto simp: quota_ok_def from_ip_def split: if_splits intro: antisym)
qed

definition two_readers :: manager where
  "two_readers = snd (admit \<lparr>qt_max_total = 5, qt_max_per_ip = 1\<rparr> (V4 10 0 0 2)
     (snd (admit \<lparr>qt_max_total = 5, qt_max_per_ip = 1\<rparr> (V4 10 0 0 1) no_sessions)))"

theorem quota_holds_witness:
  "length (filter (\<lambda>e. snd e = V4 10 0 0 2) (mg_table two_readers)) \<le> 1
    \<and> mg_table two_readers = [(''00000002'', V4 10 0 0 2), (''00000001'', V4 10 0 0 1)]"
proof -
  have "reach (\<lambda>m. m = no_sessions) (session_step \<lparr>qt_max_total = 5, qt_max_per_ip = 1\<rparr>) two_readers"
    unfolding two_readers_def by (blast intro: reach_init reach_step session_admit)
  from quota_holds [OF this, of "V4 10 0 0 2"]
  have "length (filter (\<lambda>e. snd e = V4 10 0 0 2) (mg_table two_readers)) \<le> 1" by simp
  moreover have "mg_table two_readers = [(''00000002'', V4 10 0 0 2), (''00000001'', V4 10 0 0 1)]"
    by code_simp
  ultimately show ?thesis by blast
qed

section \<open>Comments through a FIFO\<close>

text \<open>The verdicts on a sequence of writes.\<close>

fun verdicts :: "string \<Rightarrow> bytes list \<Rightarrow> nat \<Rightarrow> fifo_out list \<times> nat" where
  "verdicts target [] accepted = ([], accepted)"
| "verdicts target (w # ws) accepted =
     (case verdict target w accepted of
        (out, n) \<Rightarrow> (case verdicts target ws n of (out', n') \<Rightarrow> (out @ out', n')))"

definition written :: "bytes list list \<times> bytes list \<Rightarrow> bytes" where
  "written w = concat (map concat (fst w)) @ concat (snd w)"

text \<open>C23: when every close is noticed before the next write, each write is judged by its own bytes,
  however they were cut into reads: it is one submission of the bytes less the line end, or one
  notice that it is too long, not UTF-8 or beyond eight comments.\<close>

theorem fifo_writes_exact:
  assumes "\<forall>w \<in> set ws. (\<forall>bs \<in> set (fst w). \<forall>b \<in> set bs. b \<noteq> []) \<and> (\<forall>b \<in> set (snd w). b \<noteq> [])"
  shows "fifo_reader target True (concat (map (\<lambda>w. write_events (fst w) (snd w)) ws)) accepted empty_buffer
    = verdicts target (map written ws) accepted"
  using assms
proof (induction ws arbitrary: accepted)
  case (Cons w ws)
  then show ?case
    using fifo_reader_write [of "fst w" "snd w" "written w" target
        "concat (map (\<lambda>w. write_events (fst w) (snd w)) ws)" accepted]
    by (simp add: written_def case_prod_unfold)
qed simp

theorem fifo_writes_exact_witness:
  "fifo_reader ''posts'' True
     (concat (map (\<lambda>w. write_events (fst w) (snd w)) [([[[104], [105]]], [[10]]), ([], [[111, 107, 13, 10]])]))
     7 empty_buffer
   = ([Submission ''posts'' [104, 105], Ack ''Comment not submitted: maximum 8 comments per session''], 8)"
  by (subst fifo_writes_exact, simp, code_simp)

text \<open>But a close that comes before the reader has taken the event of the one before leaves one
  event for both: two comments written in quick succession become one submission, although each write
  is documented to be one.\<close>

theorem quick_writes_merge:
  assumes "from_utf8 a = Some u" "from_utf8 b = Some v" "a \<noteq> []" "b \<noteq> []" "length a + length b < MAX_COMMENT_BYTES"
    and "accepted + 1 < MAX_SESSION_COMMENTS" "last b \<noteq> 13" "last a \<noteq> 13"
    and "k = fold guest_act [Guest_write (a @ [10]), Guest_close, Guest_write (b @ [10]), Guest_close]
               \<lparr>fk_bytes = [], fk_closed = False\<rparr>"
  shows "fst (verdicts target [a @ [10], b @ [10]] accepted) = [Submission target u, Submission target v]
    \<and> fifo_reader target True [fst (take_event True k)] accepted empty_buffer
        = ([Submission target (u @ [10] @ v)], accepted + 1)
    \<and> snd (take_event True k) = \<lparr>fk_bytes = [], fk_closed = False\<rparr>"
proof -
  have chomp: "chomp (x @ [10]) = x" if "x \<noteq> []" "last x \<noteq> 13" for x
    using that by (simp add: chomp_def)
  have lf: "from_utf8 [10] = Some [10]" by code_simp
  have joined: "from_utf8 (a @ [10] @ b) = Some (u @ [10] @ v)"
    using from_utf8_append [OF assms(1) from_utf8_append [OF lf assms(2)]] by simp
  have k: "k = \<lparr>fk_bytes = (a @ [10] @ b) @ [10], fk_closed = True\<rparr>"
    using assms(9) by (simp add: guest_act_def)
  define cs where "cs = chunks 1024 ((a @ [10] @ b) @ [10])"
  have cs: "\<forall>c \<in> set cs. c \<noteq> []" "concat cs = (a @ [10] @ b) @ [10]"
    by (auto simp: cs_def concat_chunks dest: chunk_length)
  have take: "take_event True k = (Closed (map Got cs), \<lparr>fk_bytes = [], fk_closed = False\<rparr>)"
    by (simp add: take_event_def k cs_def)
  have "fifo_reader target True (write_events [] cs @ []) accepted empty_buffer
      = verdict target ((a @ [10] @ b) @ [10]) accepted"
    by (subst fifo_reader_write [where w = "(a @ [10] @ b) @ [10]"]) (use cs in \<open>simp_all split: prod.split\<close>)
  moreover have "verdict target ((a @ [10] @ b) @ [10]) accepted = ([Submission target (u @ [10] @ v)], accepted + 1)"
    using assms(3-8) chomp [of "a @ [10] @ b"] joined by (simp add: verdict_def)
  moreover have "fst (verdicts target [a @ [10], b @ [10]] accepted) = [Submission target u, Submission target v]"
    using assms chomp [of a] chomp [of b] by (simp add: verdict_def)
  ultimately show ?thesis by (simp add: take write_events_def)
qed

theorem quick_writes_merge_witness:
  "fifo_reader ''posts'' True
     [fst (take_event True (fold guest_act [Guest_write [104, 105, 10], Guest_close, Guest_write [111, 107, 10], Guest_close]
        \<lparr>fk_bytes = [], fk_closed = False\<rparr>))] 0 empty_buffer
   = ([Submission ''posts'' [104, 105, 10, 111, 107]], 1)"
proof -
  have "from_utf8 [104, 105] = Some [104, 105]" "from_utf8 [111, 107] = Some [111, 107]" by code_simp+
  from quick_writes_merge [OF this _ _ _ _ _ _ refl, of 0 "''posts''"] show ?thesis
    by (simp add: MAX_COMMENT_BYTES_def MAX_SESSION_COMMENTS_def)
qed

text \<open>No sequence of events makes the readers of one session submit more than eight comments.\<close>

theorem eight_submissions:
  "length (submissions (fifo_session alive es 0 tasks)) \<le> 8"
  using fifo_session_count [of 0 alive es tasks] by (simp add: MAX_SESSION_COMMENTS_def)

section \<open>The relay\<close>

definition chatting :: "nat \<Rightarrow> nat \<Rightarrow> nat \<Rightarrow> relay" where
  "chatting k n m =
     (relay_start 3600 0)\<lparr>rl_output := replicate n [97], rl_shown := replicate k 97,
        rl_input := replicate m [98], rl_taken := replicate m 98\<rparr>"

lemma relay_do: "relay_reachable rj r \<Longrightarrow> relay_work rj r r' \<Longrightarrow> relay_reachable rj r'"
  by (rule reach_step) (auto intro: working)

lemma chatting_0: "relay_reachable rj (chatting 0 0 0)"
  by (rule reach_init) (auto simp: chatting_def relay_start_def)

lemma output_fills:
  assumes "n \<le> 128"
  shows "relay_reachable rj (chatting n n 0)"
  using assms
proof (induction n)
  case (Suc n)
  then have r: "relay_reachable rj (chatting n n 0)" by simp
  have "read_master (Some [97]) (chatting n n 0)
      = Some ((chatting (Suc n) n 0)\<lparr>rl_pump := Putting [97]\<rparr>)"
    by (simp add: read_master_def chatting_def relay_start_def replicate_append_same)
  from relay_do [OF r do_read_master [OF this]] show ?case
    apply (rule relay_do)
    apply (rule do_put_output)
    using Suc.prems
    by (simp add: put_output_def chatting_def relay_start_def replicate_append_same SESSION_OUTPUT_def)
qed (rule chatting_0)

lemma input_fills:
  assumes "m \<le> 64"
  shows "relay_reachable rj ((chatting 129 128 m)\<lparr>rl_pump := Putting [97]\<rparr>)"
  using assms
proof (induction m)
  case 0
  have "relay_reachable rj (chatting 128 128 0)" by (rule output_fills) simp
  then show ?case
    apply (rule relay_do)
    apply (rule do_read_master [where a = "Some [97]"])
    apply (simp add: read_master_def chatting_def relay_start_def)
    apply (simp add: eval_nat_numeral replicate_append_same)
    done
next
  case (Suc m)
  then have r: "relay_reachable rj ((chatting 129 128 m)\<lparr>rl_pump := Putting [97]\<rparr>)" by simp
  have "take_frame rj (Some (frame_data [98])) ((chatting 129 128 m)\<lparr>rl_pump := Putting [97]\<rparr>)
      = Some ((chatting 129 128 m)\<lparr>rl_pump := Putting [97], rl_handler := Giving [98], rl_taken := replicate (Suc m) 98\<rparr>)"
    by (simp add: take_frame_def chatting_def relay_start_def replicate_append_same frame_data_def)
  from relay_do [OF r do_take_frame [OF this]] show ?case
    apply (rule relay_do)
    apply (rule do_give_input)
    using Suc.prems
    by (simp add: give_input_def chatting_def relay_start_def replicate_append_same SESSION_INPUT_def)
qed



text \<open>The two tasks can block each other.  There is a reachable state, with input and output still
  to be carried, in which nothing that happens before the deadline moves a byte in either direction:
  the handler waits for room in the input queue and so does not read output, the pump waits for room
  in the output queue and so does not read input (and does not refresh the deadline).\<close>

theorem relay_deadlocks:
  "\<exists>r. relay_reachable rj r \<and> rl_typed r \<noteq> rl_taken r \<and> rl_delivered r \<noteq> rl_shown r
     \<and> id_deadline (rl_idle r) = 3600
     \<and> (\<forall>r'. steps (\<lambda>a b. relay_work rj a b \<or> (\<exists>t. wait_until t a = Some b)) r r' \<longrightarrow>
          rl_typed r' = rl_typed r \<and> rl_delivered r' = rl_delivered r \<and> id_deadline (rl_idle r') = 3600)"
proof -
  define r0 where "r0 = (chatting 129 128 64)\<lparr>rl_pump := Putting [97]\<rparr>"
  define r where "r = r0\<lparr>rl_handler := Giving [98], rl_taken := replicate 64 98 @ [98]\<rparr>"
  have "relay_reachable rj r0" unfolding r0_def by (rule input_fills) simp
  moreover have "take_frame rj (Some (frame_data [98])) r0 = Some r"
    by (simp add: take_frame_def r_def r0_def chatting_def relay_start_def frame_data_def)
  ultimately have "relay_reachable rj r" by (blast intro: relay_do do_take_frame)
  moreover have r: "full_both_ways r" "rl_typed r = []" "rl_delivered r = []" "id_deadline (rl_idle r) = 3600"
    by (simp_all add: full_both_ways_def r_def r0_def chatting_def relay_start_def new_deadline_def
        SESSION_INPUT_def SESSION_OUTPUT_def)
  have later: "full_both_ways r' \<and> rl_typed r' = [] \<and> rl_delivered r' = [] \<and> id_deadline (rl_idle r') = 3600"
    if "steps (\<lambda>a b. relay_work rj a b \<or> (\<exists>t. wait_until t a = Some b)) r r'" for r'
    using that unfolding steps_def
  proof (induction rule: rtranclp_induct)
    case (step a b)
    then obtain t where "relay_work rj a b \<or> wait_until t a = Some b" by blast
    with full_both_ways_stays [of a rj b t] step.IH show ?case by simp
  qed (use r in simp)
  moreover have "rl_taken r \<noteq> []" "rl_shown r \<noteq> []"
    by (simp_all add: r_def r0_def chatting_def)
  ultimately show ?thesis using r(2,3,4) by (intro exI [of _ r]) auto
qed

theorem relay_deadlocks_witness:
  "\<exists>r. relay_reachable (\<lambda>_. Inl ()) r \<and> rl_typed r \<noteq> rl_taken r \<and> rl_delivered r \<noteq> rl_shown r
     \<and> id_deadline (rl_idle r) = 3600"
  using relay_deadlocks [of "\<lambda>_. Inl ()"] by blast

end
