(* ===== verification/Jail_Snapshot.thy ===== *)
theory Jail_Snapshot
  imports Stats_Server Comment_Protocol Content_Manifest
begin

text \<open>
  \<^verbatim>\<open>crates/servers/jaild/src/jail.rs\<close>, what is prepared before a session's shell is forked: the
  comments and the statistics that are frozen into the jail, and the files that are opened in it.
  Paths are relative to the jail's root.  The JSON and date libraries are arguments.
\<close>

unbundle bit_operations_syntax

datatype jail_error = Bail string | Bad_content path_error | Bad_comments visible_error | Panics string

section \<open>The comments\<close>

record snapshot_line =
  sl_number :: u64
  sl_target :: string
  sl_author :: ustr
  sl_date10 :: string
  sl_text :: ustr
  sl_reply_to :: "visible_reply option"

definition lift_view :: "visible_error + 'a \<Rightarrow> jail_error + 'a" where
  "lift_view r = (case r of Inl e \<Rightarrow> Inl (Bad_comments e) | Inr a \<Rightarrow> Inr a)"

definition lift_path_error :: "path_error + 'a \<Rightarrow> jail_error + 'a" where
  "lift_path_error r = (case r of Inl e \<Rightarrow> Inl (Bad_content e) | Inr a \<Rightarrow> Inr a)"

definition comment_line :: "(snapshot_line \<Rightarrow> bytes) \<Rightarrow> visible_comment \<Rightarrow> jail_error + bytes" where
  "comment_line to_json c =
     (if length (vc_created_at c) < 10 then Inl (Bail ''commentd created_at too short'')
      else Inr (to_json \<lparr>sl_number = vc_number c, sl_target = vc_target c, sl_author = vc_author c,
             sl_date10 = take 10 (vc_created_at c), sl_text = vc_text c, sl_reply_to = vc_reply_to c\<rparr> @ [10]))"

definition snapshot_bytes :: "(snapshot_line \<Rightarrow> bytes) \<Rightarrow> comment list \<Rightarrow> jail_error + bytes" where
  "snapshot_bytes to_json comments =
     and_then (lift_view (visible_comments comments)) (\<lambda>visible.
     and_then (try_map (comment_line to_json) visible) (\<lambda>lines. Inr (concat lines)))"

fun count_loop :: "(string \<Rightarrow> u64 option) \<Rightarrow> comment list \<Rightarrow> jail_error + (string \<Rightarrow> u64 option)" where
  "count_loop counts [] = Inr counts"
| "count_loop counts (c # cs) =
     (case checked_add (case counts (cm_target c) of None \<Rightarrow> 0 | Some n \<Rightarrow> n) 1 of
        None \<Rightarrow> Inl (Bail ''approved comment count overflow'')
      | Some n \<Rightarrow> count_loop (counts(cm_target c \<mapsto> n)) cs)"

definition approved_counts :: "comment list \<Rightarrow> jail_error + (string \<Rightarrow> u64 option)" where
  "approved_counts comments =
     and_then (lift_view (visible_comments comments)) (\<lambda>_. count_loop (\<lambda>_. None) comments)"

section \<open>Files of the jail\<close>

text \<open>A link knows whether it leads to something.\<close>

datatype node_kind = Directory | Regular bytes | Fifo | Link bool | Other_node

record node =
  nd_kind :: node_kind
  nd_uid :: nat
  nd_gid :: nat
  nd_mode :: u32

type_synonym jail_fs = "string \<Rightarrow> node option"

fun is_regular :: "node_kind \<Rightarrow> bool" where
  "is_regular (Regular _) = True" | "is_regular _ = False"

definition path_exists :: "jail_fs \<Rightarrow> string \<Rightarrow> bool" where
  "path_exists fs p = (case fs p of None \<Rightarrow> False | Some n \<Rightarrow> nd_kind n \<noteq> Link False)"

text \<open>\<open>validate_root_dir\<close>, and the same check on a file.\<close>

definition validate_trusted_dir :: "jail_fs \<Rightarrow> string \<Rightarrow> jail_error + unit" where
  "validate_trusted_dir fs p =
     (case fs p of
        None \<Rightarrow> Inl (Bail ''validate root-owned directory'')
      | Some n \<Rightarrow>
          if nd_kind n \<noteq> Directory \<or> nd_uid n \<noteq> 0 \<or> nd_mode n AND 0x12 \<noteq> 0
          then Inl (Bail ''must be a root-owned, group/other non-writable real directory'') else Inr ())"

definition read_trusted :: "jail_fs \<Rightarrow> string \<Rightarrow> jail_error + bytes" where
  "read_trusted fs p =
     (case fs p of
        None \<Rightarrow> Inl (Bail ''read'')
      | Some n \<Rightarrow>
          (case nd_kind n of
             Regular b \<Rightarrow>
               if nd_uid n \<noteq> 0 \<or> nd_mode n AND 0x12 \<noteq> 0
               then Inl (Bail ''must be a root-owned, group/other non-writable regular file'') else Inr b
           | _ \<Rightarrow> Inl (Bail ''must be a root-owned, group/other non-writable regular file'')))"

definition read_targets :: "(bytes \<Rightarrow> string option) \<Rightarrow> jail_fs \<Rightarrow> string \<Rightarrow> jail_error + content_scope list" where
  "read_targets utf8 fs p =
     and_then (read_trusted fs p) (\<lambda>b.
       case utf8 b of
         None \<Rightarrow> Inl (Bail ''stream did not contain valid UTF-8'')
       | Some text \<Rightarrow> lift_path_error (parse_scope_manifest text))"

definition read_article_index ::
  "(bytes \<Rightarrow> article_index option) \<Rightarrow> jail_fs \<Rightarrow> string \<Rightarrow> jail_error + article_index"
where
  "read_article_index from_json fs p =
     and_then (read_trusted fs p) (\<lambda>b.
       case from_json b of
         None \<Rightarrow> Inl (Bail ''parse article index'')
       | Some index \<Rightarrow> and_then (lift_path_error (index_validate index)) (\<lambda>_. Inr index))"

section \<open>The articles of each scope\<close>

text \<open>A \<open>BTreeMap\<close> is the list of its entries, in the order of the keys.\<close>

definition push_article :: "string \<Rightarrow> string \<Rightarrow> (string \<times> string list) list \<Rightarrow> jail_error + (string \<times> string list) list" where
  "push_article target key output =
     (if target \<notin> fst ` set output then Inl (Panics ''scope target initialized'')
      else Inr (map (\<lambda>(t, keys). if t = target then (t, keys @ [key]) else (t, keys)) output))"

fun articles_loop ::
  "content_scope list \<Rightarrow> (string \<times> string list) list \<Rightarrow> article_index_entry list
     \<Rightarrow> jail_error + (string \<times> string list) list"
where
  "articles_loop scopes output [] = Inr output"
| "articles_loop scopes output (entry # rest) =
     and_then (lift_path_error (article_parse (ae_source_rel entry))) (\<lambda>article.
       case find (\<lambda>s. cs_directory_rel s = ap_directory_rel article) (rev scopes) of
         None \<Rightarrow> articles_loop scopes output rest
       | Some scope \<Rightarrow>
           and_then (push_article (cs_target scope) (ap_key article) output) (\<lambda>output.
             articles_loop scopes output rest))"

definition articles_by_target ::
  "article_index \<Rightarrow> content_scope list \<Rightarrow> jail_error + (string \<times> string list) list"
where
  "articles_by_target index scopes =
     and_then (articles_loop scopes (map (\<lambda>t. (t, [])) (sort (remdups (map cs_target scopes)))) (ai_articles index))
       (\<lambda>output. Inr (map (\<lambda>(t, keys). (t, sort keys)) output))"

definition articles_of :: "(string \<times> string list) list \<Rightarrow> string \<Rightarrow> string list" where
  "articles_of by_target t = (case map_of by_target t of None \<Rightarrow> [] | Some keys \<Rightarrow> keys)"

definition build_snapshot_request ::
  "content_scope list \<Rightarrow> (string \<times> string list) list \<Rightarrow> snapshot_target_request list option"
where
  "build_snapshot_request scopes by_target =
     (if MAX_SNAPSHOT_TARGETS < length scopes
        \<or> MAX_SNAPSHOT_ARTICLES < sum_list (map (\<lambda>(_, keys). length keys) by_target)
      then None
      else Some (map (\<lambda>s. \<lparr>tr_target = cs_target s, tr_articles = articles_of by_target (cs_target s)\<rparr>) scopes))"

section \<open>The answer of statd\<close>

definition expected_articles :: "snapshot_target_request list \<Rightarrow> string \<Rightarrow> string set option" where
  "expected_articles request = map_of (rev (map (\<lambda>t. (tr_target t, set (tr_articles t))) request))"

fun response_loop ::
  "snapshot_target_request list \<Rightarrow> string set \<Rightarrow> target_snapshot list \<Rightarrow> jail_error + unit"
where
  "response_loop request seen [] = Inr ()"
| "response_loop request seen (t # ts) =
     (case expected_articles request (ts_target t) of
        None \<Rightarrow> Inl (Bail ''statd snapshot contains unexpected target'')
      | Some expected \<Rightarrow>
          if ts_target t \<in> seen then Inl (Bail ''statd snapshot contains duplicate target'')
          else let actual = map as_article (ts_articles t)
               in if length (remdups actual) \<noteq> length actual \<or> set actual \<noteq> expected
                  then Inl (Bail ''statd snapshot article set differs for target'')
                  else response_loop request (insert (ts_target t) seen) ts)"

definition validate_stats_response ::
  "(string \<Rightarrow> bool) \<Rightarrow> snapshot_target_request list \<Rightarrow> snapshot_response \<Rightarrow> jail_error + snapshot_response"
where
  "validate_stats_response date_ok request r =
     (if \<not> ss_ok r \<or> ss_error r \<noteq> None then Inl (Bail ''statd returned an unsuccessful snapshot'')
      else if \<not> date_ok (ss_snapshot_at r) then Inl (Bail ''statd snapshot_at is not RFC3339'')
      else let n = length (remdups (map tr_target request))
           in if n \<noteq> length request \<or> length (ss_targets r) \<noteq> n
              then Inl (Bail ''statd snapshot target set differs from request'')
              else and_then (response_loop request {} (ss_targets r)) (\<lambda>_. Inr r))"

section \<open>The \<open>stat\<close> files\<close>

definition nl :: string where "nl = [CHR 0x0A]"

fun article_lines :: "article_snapshot list \<Rightarrow> string list \<Rightarrow> jail_error + string list" where
  "article_lines snapshots [] = Inr []"
| "article_lines snapshots (key # keys) =
     (case find (\<lambda>a. as_article a = key) (rev snapshots) of
        None \<Rightarrow> Inl (Panics ''validated statd article response'')
      | Some a \<Rightarrow>
          and_then (article_lines snapshots keys) (\<lambda>rest.
            Inr ((''article '' @ key @ '' terminal_read_sessions='' @ show_nat (unat (as_terminal_read_sessions a))
                  @ '' static_requests='' @ show_nat (unat (as_static_requests a)) @ nl) # rest)))"

definition stat_snapshot_bytes ::
  "content_scope \<Rightarrow> string list \<Rightarrow> u64 \<Rightarrow> string \<Rightarrow> target_snapshot option \<Rightarrow> jail_error + string"
where
  "stat_snapshot_bytes scope articles comments_approved snapshot_at stats =
     (let head = ''version 1'' @ nl @ ''target '' @ cs_target scope @ nl @ ''snapshot_at '' @ snapshot_at @ nl
            @ ''stats_status '' @ (if stats \<noteq> None then ''ok'' else ''unavailable'') @ nl;
          totals = (case stats of None \<Rightarrow> [] | Some s \<Rightarrow>
            ''terminal_read_sessions_total '' @ show_nat (unat (ts_terminal_read_sessions_total s)) @ nl
            @ ''static_requests_total '' @ show_nat (unat (ts_static_requests_total s)) @ nl
            @ ''unique_visitors_approx '' @ show_nat (unat (ts_unique_visitors_approx s)) @ nl);
          comments = ''comments_approved '' @ show_nat (unat comments_approved) @ nl
      in case stats of
           None \<Rightarrow> Inr (head @ totals @ comments)
         | Some s \<Rightarrow> and_then (article_lines (ts_articles s) articles) (\<lambda>ls. Inr (head @ totals @ comments @ concat ls)))"

text \<open>The steps of a write at which it can fail; whether the temporary file can then be removed.\<close>

datatype write_stage = Create_file | Write_file | Set_mode | Set_owner | Sync_file | Rename_file | Sync_directory

record write_fault =
  wf_stage :: "write_stage option"
  wf_removed :: bool

text \<open>Write a temporary file, rename it over the final one.  \<open>mode\<close> is its final mode; a failed write
  leaves a prefix \<open>part\<close> behind.\<close>

definition replace_file ::
  "write_fault \<Rightarrow> nat \<Rightarrow> u32 \<Rightarrow> string \<Rightarrow> string \<Rightarrow> bytes \<Rightarrow> jail_fs \<Rightarrow> (jail_error + unit) \<times> jail_fs"
where
  "replace_file w part mode temp final b fs =
     (let file = \<lparr>nd_kind = Regular b, nd_uid = 0, nd_gid = 0, nd_mode = mode\<rparr>;
          failed = (\<lambda>fs. (Inl (Bail ''write''), if wf_removed w then fs(temp := None) else fs))
      in if fs temp \<noteq> None \<or> wf_stage w = Some Create_file then failed fs
         else case wf_stage w of
             Some Write_file \<Rightarrow> failed (fs(temp \<mapsto> file\<lparr>nd_kind := Regular (take part b)\<rparr>))
           | Some Sync_directory \<Rightarrow> failed (fs(temp := None, final \<mapsto> file))
           | Some _ \<Rightarrow> failed (fs(temp \<mapsto> file))
           | None \<Rightarrow> (Inr (), fs(temp := None, final \<mapsto> file)))"

definition stat_directory_ok :: "node \<Rightarrow> bool" where
  "stat_directory_ok n \<longleftrightarrow> nd_kind n = Directory \<and> nd_uid n = 0 \<and> nd_gid n = 0 \<and> nd_mode n AND 0xFFF = 0x16D"

definition stat_file_ok :: "node \<Rightarrow> bool" where
  "stat_file_ok n \<longleftrightarrow> is_regular (nd_kind n) \<and> nd_uid n = 0 \<and> nd_gid n = 0 \<and> nd_mode n AND 0xFFF = 0x124"

definition temp_name :: "string \<Rightarrow> nat \<Rightarrow> nat \<Rightarrow> string" where
  "temp_name base pid seq = base @ show_nat pid @ ''.'' @ show_nat seq"

definition write_scope_stat ::
  "write_fault \<Rightarrow> nat \<Rightarrow> nat \<Rightarrow> nat \<Rightarrow> content_scope \<Rightarrow> bytes \<Rightarrow> jail_fs \<Rightarrow> (jail_error + unit) \<times> jail_fs"
where
  "write_scope_stat w part pid seq scope b fs =
     (let directory = cs_proc_rel scope; final = directory @ ''/stat''
      in case fs directory of
           None \<Rightarrow> (Inl (Bail ''validate scope proc directory''), fs)
         | Some d \<Rightarrow>
             if \<not> stat_directory_ok d then (Inl (Bail ''must be a root:wheel 0555 real directory''), fs)
             else if (case fs final of None \<Rightarrow> False | Some f \<Rightarrow> \<not> stat_file_ok f)
             then (Inl (Bail ''must be a root:wheel 0444 regular file''), fs)
             else replace_file w part 0x124 (temp_name (directory @ ''/.stat.tmp.'') pid seq) final b fs)"

text \<open>The loop over the scopes; \<open>faults\<close> gives each write its fault.\<close>

fun write_stats_snapshots ::
  "(nat \<Rightarrow> write_fault \<times> nat) \<Rightarrow> nat \<Rightarrow> nat \<Rightarrow> string \<Rightarrow> (string \<times> string list) list \<Rightarrow> (string \<Rightarrow> u64 option)
     \<Rightarrow> snapshot_response option \<Rightarrow> content_scope list \<Rightarrow> jail_fs \<Rightarrow> (jail_error + unit) \<times> jail_fs"
where
  "write_stats_snapshots faults pid seq now by_target counts stats [] fs = (Inr (), fs)"
| "write_stats_snapshots faults pid seq now by_target counts stats (scope # scopes) fs =
     (let target_stats = Option.bind stats (\<lambda>r. find (\<lambda>t. ts_target t = cs_target scope) (ss_targets r));
          snapshot_at = (case stats of None \<Rightarrow> now | Some r \<Rightarrow> ss_snapshot_at r)
      in case stat_snapshot_bytes scope (articles_of by_target (cs_target scope))
             (case counts (cs_target scope) of None \<Rightarrow> 0 | Some n \<Rightarrow> n) snapshot_at target_stats of
           Inl e \<Rightarrow> (Inl e, fs)
         | Inr text \<Rightarrow>
             (case write_scope_stat (fst (faults seq)) (snd (faults seq)) pid seq scope (map of_char text) fs of
                (Inl e, fs) \<Rightarrow> (Inl e, fs)
              | (Inr _, fs) \<Rightarrow> write_stats_snapshots faults pid (seq + 1) now by_target counts stats scopes fs))"

section \<open>The frozen comments\<close>

text \<open>\<open>mkdir\<close>: whether the directory can be created.\<close>

definition write_snapshot ::
  "bool \<Rightarrow> write_fault \<Rightarrow> nat \<Rightarrow> nat \<Rightarrow> nat \<Rightarrow> bytes \<Rightarrow> jail_fs \<Rightarrow> (jail_error + unit) \<times> jail_fs"
where
  "write_snapshot mkdir w part pid seq b fs =
     (case try_each (validate_trusted_dir fs) [''var'', ''var/run''] of
        Inl e \<Rightarrow> (Inl e, fs)
      | Inr _ \<Rightarrow>
          let dir = ''var/run/termblog''; final = dir @ ''/comments.jsonl'';
              created = (if path_exists fs dir then Some fs
                else if mkdir \<and> fs dir = None
                then Some (fs(dir \<mapsto> \<lparr>nd_kind = Directory, nd_uid = 0, nd_gid = 0, nd_mode = 0x1ED\<rparr>))
                else None)
          in case created of
               None \<Rightarrow> (Inl (Bail ''create''), fs)
             | Some fs \<Rightarrow>
                 (case validate_trusted_dir fs dir of
                    Inl e \<Rightarrow> (Inl e, fs)
                  | Inr _ \<Rightarrow>
                      if path_exists fs final
                        \<and> (case fs final of None \<Rightarrow> False | Some f \<Rightarrow> \<not> is_regular (nd_kind f) \<or> nd_uid f \<noteq> 0)
                      then (Inl (Bail ''comments snapshot is not a root-owned regular file''), fs)
                      else replace_file w part 0x1A4 (temp_name (dir @ ''/.comments.tmp.'') pid seq) final b fs))"

section \<open>Opening files in the guest's home\<close>

text \<open>Component by component, never through a link.\<close>

fun open_walk :: "jail_fs \<Rightarrow> (node_kind \<Rightarrow> bool) \<Rightarrow> string \<Rightarrow> string list \<Rightarrow> jail_error + string" where
  "open_walk fs wanted dir [] = Inl (Bail ''empty path'')"
| "open_walk fs wanted dir (part # parts) =
     (let p = dir @ ''/'' @ part
      in case fs p of
           None \<Rightarrow> Inl (Bail ''openat'')
         | Some n \<Rightarrow>
             if (\<exists>b. nd_kind n = Link b) then Inl (Bail ''openat'')
             else if parts = [] then (if wanted (nd_kind n) then Inr p else Inl (Bail ''not of the kind''))
             else if nd_kind n = Directory then open_walk fs wanted p parts
             else Inl (Bail ''openat''))"

definition open_home :: "jail_fs \<Rightarrow> string \<Rightarrow> jail_error + string" where
  "open_home fs home =
     (case fs home of
        Some n \<Rightarrow> if nd_kind n = Directory then Inr home else Inl (Bail ''open guest home'')
      | None \<Rightarrow> Inl (Bail ''open guest home''))"

definition open_rendered_article_at :: "jail_fs \<Rightarrow> string \<Rightarrow> string \<Rightarrow> jail_error + string" where
  "open_rendered_article_at fs home article =
     and_then (lift_path_error (article_parse (article @ ''.md''))) (\<lambda>parsed.
       if ap_key parsed \<noteq> article then Inl (Bail ''invalid rendered article key'')
       else and_then (open_home fs home) (\<lambda>dir.
         open_walk fs is_regular dir (''.rendered'' # split_on (CHR ''/'') article)))"

definition open_fifo_at :: "jail_fs \<Rightarrow> string \<Rightarrow> string \<Rightarrow> jail_error + string" where
  "open_fifo_at fs home rel =
     and_then (open_home fs home) (\<lambda>dir. open_walk fs (\<lambda>k. k = Fifo) dir (split_on (CHR ''/'') rel))"

section \<open>The shell's environment\<close>

definition env_strings :: "string \<Rightarrow> string list \<Rightarrow> string list" where
  "env_strings home caps =
     [''HOME='' @ home, ''TERM=xterm-256color'', ''PATH=/usr/local/bin:/usr/bin:/bin'']
     @ (if list_ex (\<lambda>c. c = ''img-iterm2'') caps then [''TERMBLOG_IMG=iterm2''] else [])"

end
