(* ===== verification/Jail_Snapshot_Facts.thy ===== *)
theory Jail_Snapshot_Facts
  imports Jail_Snapshot Stats_Facts
begin

text \<open>
  The articles of each scope, the request to statd that is made of them, and the answers that
  jaild accepts: what statd answers is accepted, and what is accepted can be written.
\<close>

section \<open>The articles of each scope\<close>

definition entry_path :: "article_index_entry \<Rightarrow> article_path" where
  "entry_path e = projr (article_parse (ae_source_rel e))"

lemma entry_path:
  assumes "entry_ok e"
  shows "article_parse (ae_source_rel e) = Inr (entry_path e)" "ap_key (entry_path e) = ae_key e"
    "article_parse (ae_key e @ ''.md'') = Inr (entry_path e)"
proof -
  from assms obtain ss where ss: "article_segments ss" "ae_source_rel e = path_of ss @ ''.md''" "ae_key e = path_of ss"
    by (auto simp: entry_ok_def)
  then have "article_parse (ae_source_rel e) = Inr (article_at ss)" by (auto simp: article_parse_Inr)
  with ss show "article_parse (ae_source_rel e) = Inr (entry_path e)" "ap_key (entry_path e) = ae_key e"
    "article_parse (ae_key e @ ''.md'') = Inr (entry_path e)"
    by (simp_all add: entry_path_def article_at_def)
qed

definition scope_of :: "content_scope list \<Rightarrow> article_index_entry \<Rightarrow> content_scope option" where
  "scope_of scopes e = find (\<lambda>s. cs_directory_rel s = ap_directory_rel (entry_path e)) (rev scopes)"

lemma scope_of_Some:
  "scope_of scopes e = Some s \<Longrightarrow> s \<in> set scopes \<and> contains_article s (entry_path e)"
  by (auto simp: scope_of_def find_Some_iff contains_article_def) (metis nth_mem set_rev length_rev)

definition keys_in :: "content_scope list \<Rightarrow> string \<Rightarrow> article_index_entry list \<Rightarrow> string list" where
  "keys_in scopes t es = map ae_key (filter (\<lambda>e. map_option cs_target (scope_of scopes e) = Some t) es)"

lemma articles_loop_Inr:
  assumes "\<forall>e \<in> set es. entry_ok e" "set ts = cs_target ` set scopes"
  shows "articles_loop scopes (map (\<lambda>t. (t, f t)) ts) es = Inr (map (\<lambda>t. (t, f t @ keys_in scopes t es)) ts)"
  using assms(1)
proof (induction es arbitrary: f)
  case (Cons e es)
  then have e: "entry_ok e" and IH: "articles_loop scopes (map (\<lambda>t. (t, g t)) ts) es
      = Inr (map (\<lambda>t. (t, g t @ keys_in scopes t es)) ts)" for g
    by simp_all
  note path = entry_path [OF e]
  show ?case
  proof (cases "scope_of scopes e")
    case None
    then show ?thesis
      using IH [of f] path by (simp add: lift_path_error_def scope_of_def [symmetric] keys_in_def)
  next
    case (Some s)
    then have "cs_target s \<in> set ts" using scope_of_Some [OF Some] assms(2) by simp
    then have "push_article (cs_target s) (ae_key e) (map (\<lambda>t. (t, f t)) ts)
        = Inr (map (\<lambda>t. (t, if t = cs_target s then f t @ [ae_key e] else f t)) ts)"
      by (auto simp: push_article_def image_iff)
    then show ?thesis
      using IH [of "\<lambda>t. if t = cs_target s then f t @ [ae_key e] else f t"] path Some
      by (auto simp: lift_path_error_def scope_of_def [symmetric] keys_in_def)
  qed
qed (simp add: keys_in_def)

text \<open>What the two validated files give.\<close>

definition site_files :: "content_scope list \<Rightarrow> article_index \<Rightarrow> bool" where
  "site_files scopes index \<longleftrightarrow>
     (\<exists>manifest. parse_scope_manifest manifest = Inr scopes) \<and> index_validate index = Inr ()"

lemma scopes_distinct: "site_files scopes index \<Longrightarrow> distinct (map cs_target scopes)"
  by (auto simp: site_files_def dest: manifest_scopes_distinct(3))

lemma scope_target: "site_files scopes index \<Longrightarrow> s \<in> set scopes \<Longrightarrow> scope_from_target (cs_target s) = Inr s"
  unfolding site_files_def by (metis manifest_scopes_distinct(5) scope_from_target_at)

lemma entries:
  assumes "site_files scopes index"
  shows "\<forall>e \<in> set (ai_articles index). entry_ok e" "distinct (map ae_key (ai_articles index))"
  using assms by (auto simp: site_files_def index_validate_Inr)

lemma by_target:
  assumes "site_files scopes index"
  shows "articles_by_target index scopes
     = Inr (map (\<lambda>t. (t, sort (keys_in scopes t (ai_articles index)))) (sort (map cs_target scopes)))"
  using articles_loop_Inr [OF entries(1) [OF assms], of "sort (map cs_target scopes)" scopes "\<lambda>_. []"] scopes_distinct [OF assms]
  by (simp add: articles_by_target_def distinct_remdups_id comp_def case_prod_unfold)

lemma articles_of_by_target:
  assumes "site_files scopes index" "articles_by_target index scopes = Inr by_t" "s \<in> set scopes"
  shows "articles_of by_t (cs_target s) = sort (keys_in scopes (cs_target s) (ai_articles index))"
  using assms by (auto simp: by_target [OF assms(1)] articles_of_def map_of_map_restrict restrict_map_def)

lemma keys_in_distinct: "site_files scopes index \<Longrightarrow> distinct (keys_in scopes t (ai_articles index))"
  using entries(2) [of scopes index] by (simp add: keys_in_def distinct_map_filter)

lemma keys_in_ok:
  assumes site: "site_files scopes index" and s: "s \<in> set scopes"
    and k: "k \<in> set (keys_in scopes (cs_target s) (ai_articles index))" "length k \<le> MAX_ARTICLE_KEY_LEN"
  shows "snapshot_key_ok s k"
proof -
  from k(1) obtain e s' where e: "e \<in> set (ai_articles index)" "scope_of scopes e = Some s'"
    "cs_target s' = cs_target s" "k = ae_key e"
    by (auto simp: keys_in_def)
  from scope_of_Some [OF e(2)] have s': "s' \<in> set scopes" "contains_article s' (entry_path e)" by simp_all
  with scope_target [OF site s] scope_target [OF site s'(1)] e(3) have "s' = s" by simp
  moreover from entries(1) [OF site] e(1) have ok: "entry_ok e" by blast
  moreover have "k \<noteq> []"
    using ok e(4) by (auto simp: entry_ok_def dest: path_of_not_Nil)
  ultimately show ?thesis
    using entry_path [OF ok] e(4) s'(2) k(2) by (auto simp: snapshot_key_ok_def)
qed

lemma request_accepted:
  assumes site: "site_files scopes index" and by_t: "articles_by_target index scopes = Inr by_t"
    and request: "build_snapshot_request scopes by_t = Some request"
    and short: "\<forall>e \<in> set (ai_articles index). length (ae_key e) \<le> MAX_ARTICLE_KEY_LEN"
  shows "map tr_target request = map cs_target scopes"
    and "list_all snapshot_target_ok request"
    and "validate_snapshot_request request = Inr (sort_key tr_target (map sort_articles request))"
proof -
  from request have req: "request = map (\<lambda>s. \<lparr>tr_target = cs_target s, tr_articles = articles_of by_t (cs_target s)\<rparr>) scopes"
    and limits: "length scopes \<le> MAX_SNAPSHOT_TARGETS" "sum_list (map (\<lambda>(_, keys). length keys) by_t) \<le> MAX_SNAPSHOT_ARTICLES"
    by (auto simp: build_snapshot_request_def split: if_splits)
  show targets: "map tr_target request = map cs_target scopes" by (simp add: req)
  have "length k \<le> MAX_ARTICLE_KEY_LEN" if "k \<in> set (keys_in scopes t (ai_articles index))" for k t
    using that short by (auto simp: keys_in_def)
  then show ok: "list_all snapshot_target_ok request"
    using articles_of_by_target [OF site by_t] scope_target [OF site] keys_in_ok [OF site] keys_in_distinct [OF site]
    by (auto simp: req list_all_iff snapshot_target_ok_def)
  let ?n = "\<lambda>t. length (keys_in scopes t (ai_articles index))"
  have "map (\<lambda>s. length (articles_of by_t (cs_target s))) scopes = map ?n (map cs_target scopes)"
    using articles_of_by_target [OF site by_t] by simp
  also have "sum_list \<dots> = sum_list (map ?n (sort (map cs_target scopes)))"
    using scopes_distinct [OF site] by (simp add: sum_list_distinct_conv_sum_set del: map_map)
  also have "map ?n (sort (map cs_target scopes)) = map (\<lambda>(_, keys). length keys) by_t"
    using by_t by (auto simp: by_target [OF site])
  finally have "sum_list (map (length \<circ> tr_articles) request) \<le> MAX_SNAPSHOT_ARTICLES"
    using limits(2) by (simp add: req comp_def)
  then show "validate_snapshot_request request = Inr (sort_key tr_target (map sort_articles request))"
    using ok limits(1) scopes_distinct [OF site] targets by (simp add: validate_snapshot_request_Inr req comp_def)
qed

section \<open>Answers\<close>

lemma expected_articles_Some:
  assumes "distinct (map tr_target request)" "t \<in> set request"
  shows "expected_articles request (tr_target t) = Some (set (tr_articles t))"
  using assms by (auto simp: expected_articles_def distinct_map rev_map [symmetric] comp_def
      intro!: map_of_is_SomeI)

lemma response_loop_Inr:
  "response_loop request seen ts = Inr u \<longleftrightarrow>
     (\<forall>t \<in> set ts. expected_articles request (ts_target t) = Some (as_article ` set (ts_articles t))
        \<and> distinct (map as_article (ts_articles t)))
     \<and> distinct (map ts_target ts) \<and> ts_target ` set ts \<inter> seen = {}"
proof (induction ts arbitrary: seen)
  case (Cons t ts)
  have "length (remdups (map as_article (ts_articles t))) = length (map as_article (ts_articles t))
      \<longleftrightarrow> distinct (map as_article (ts_articles t))"
    by (metis length_remdups_card_conv card_distinct distinct_card)
  with Cons show ?case by (auto simp: Let_def split: option.split)
qed simp

text \<open>What statd answers is accepted.\<close>

lemma statd_answer_accepted:
  assumes "represents hash h db" "snapshot now io db request = Inr r"
    and "date_ok now"
  shows "validate_stats_response date_ok request r = Inr r"
proof -
  note snap = snapshot_Inr [OF assms(1,2)]
  have r: "ss_ok r" "ss_error r = None" "ss_snapshot_at r = now"
    using assms(2) by (auto simp: snapshot_def result_simps split: option.splits)
  have "expected_articles request (tr_target t) = Some (set (tr_articles t)) \<and> distinct (tr_articles t)"
    if "t \<in> set request" for t
    using expected_articles_Some [OF snap(2) that] snap(3) that by (auto simp: list_all_iff snapshot_target_ok_def)
  then have "response_loop request {} (ss_targets r) = Inr ()"
    using snap(2)
    by (auto simp: response_loop_Inr snap(1) target_view_def article_view_def comp_def image_image
        distinct_map inj_on_def dest: arg_cong [where f = tr_target])
  then show ?thesis
    using assms(3) r snap(2) by (simp add: validate_stats_response_def snap(1) distinct_remdups_id)
qed

text \<open>What is accepted can be written.\<close>

lemma article_lines_Inr:
  "set keys \<subseteq> as_article ` set snapshots \<Longrightarrow> \<exists>ls. article_lines snapshots keys = Inr ls"
proof (induction keys)
  case (Cons key keys)
  then obtain ls where "article_lines snapshots keys = Inr ls" by auto
  moreover obtain a where "find (\<lambda>a. as_article a = key) (rev snapshots) = Some a"
    using Cons.prems by (cases "find (\<lambda>a. as_article a = key) (rev snapshots)") (auto simp: find_None_iff)
  ultimately show ?case by simp
qed simp

lemma response_target:
  assumes "validate_stats_response date_ok request r = Inr r'" "t \<in> set request" "distinct (map tr_target request)"
  shows "\<exists>s \<in> set (ss_targets r). find (\<lambda>s. ts_target s = tr_target t) (ss_targets r) = Some s
    \<and> as_article ` set (ts_articles s) = set (tr_articles t)"
proof -
  from assms(1) have loop: "response_loop request {} (ss_targets r) = Inr ()"
    and len: "length (ss_targets r) = length request"
    by (auto simp: validate_stats_response_def Let_def result_simps split: if_splits)
  have targets: "ts_target ` set (ss_targets r) \<subseteq> tr_target ` set request"
  proof
    fix x assume "x \<in> ts_target ` set (ss_targets r)"
    then have "x \<in> dom (expected_articles request)" using loop by (auto simp: response_loop_Inr)
    then show "x \<in> tr_target ` set request"
      by (auto simp: expected_articles_def dom_map_of_conv_image_fst image_image)
  qed
  have "card (ts_target ` set (ss_targets r)) = card (tr_target ` set request)"
    using loop len assms(3) by (simp add: response_loop_Inr distinct_card flip: set_map)
  with targets have "ts_target ` set (ss_targets r) = tr_target ` set request"
    by (intro card_subset_eq) auto
  with assms(2) have "tr_target t \<in> ts_target ` set (ss_targets r)" by simp
  then obtain s where s: "find (\<lambda>s. ts_target s = tr_target t) (ss_targets r) = Some s"
    by (cases "find (\<lambda>s. ts_target s = tr_target t) (ss_targets r)") (auto simp: find_None_iff)
  then have "s \<in> set (ss_targets r)" "ts_target s = tr_target t"
    by (auto simp: find_Some_iff)
  with s loop expected_articles_Some [OF assms(3,2)] show ?thesis
    by (auto simp: response_loop_Inr)
qed

section \<open>The write of a file\<close>

text \<open>Whatever fails, the final file is the old one or the new one, and no other file changes except
  the temporary one.\<close>

lemma replace_file_atomic:
  assumes "replace_file w part mode temp final b fs = (r, fs')" "temp \<noteq> final"
  shows "fs' final \<in> {fs final, Some \<lparr>nd_kind = Regular b, nd_uid = 0, nd_gid = 0, nd_mode = mode\<rparr>}
    \<and> (r = Inr () \<longrightarrow> fs' = fs(temp := None, final \<mapsto> \<lparr>nd_kind = Regular b, nd_uid = 0, nd_gid = 0, nd_mode = mode\<rparr>))
    \<and> (\<forall>p. p \<noteq> temp \<longrightarrow> p \<noteq> final \<longrightarrow> fs' p = fs p)"
  using assms by (auto simp: replace_file_def Let_def split: if_splits option.splits write_stage.splits)

end
