(* ===== verification/Jail_Snapshot_Properties.thy ===== *)
theory Jail_Snapshot_Properties
  imports Jail_Snapshot_Facts
begin

text \<open>
  What jaild freezes into a session: the counts of the comments and the comments themselves agree;
  an answer of statd is accepted and written; and a site on which no session can start.
\<close>

section \<open>Comments\<close>

definition tally :: "comment list \<Rightarrow> string \<Rightarrow> u64 option" where
  "tally cs t = (if local_count t cs = 0 then None else Some (of_nat (local_count t cs)))"

lemma tally_snoc:
  assumes "length done + 1 < 2 ^ 64"
  shows "checked_add (case tally done (cm_target c) of None \<Rightarrow> 0 | Some n \<Rightarrow> n) 1
      = Some (of_nat (local_count (cm_target c) done + 1))"
    and "(tally done)(cm_target c \<mapsto> of_nat (local_count (cm_target c) done + 1)) = tally (done @ [c])"
proof -
  let ?n = "local_count (cm_target c) done"
  have "?n + 1 < 2 ^ 64" using assms local_count_le [of "cm_target c" "done"] by simp
  then show "checked_add (case tally done (cm_target c) of None \<Rightarrow> 0 | Some n \<Rightarrow> n) 1 = Some (of_nat (?n + 1))"
    by (auto simp: tally_def checked_add_def unat_of_nat take_bit_eq_mod)
  show "(tally done)(cm_target c \<mapsto> of_nat (?n + 1)) = tally (done @ [c])"
    by (auto simp: tally_def fun_eq_iff)
qed

lemma count_loop_Inr:
  "length (done @ cs) < 2 ^ 64 \<Longrightarrow> count_loop (tally done) cs = Inr (tally (done @ cs))"
proof (induction cs arbitrary: "done")
  case (Cons c cs)
  then have "length done + 1 < 2 ^ 64" by simp
  note snoc = tally_snoc [OF this, of c]
  have "count_loop (tally done) (c # cs) = count_loop (tally (done @ [c])) cs"
    by (simp only: count_loop.simps snoc option.case)
  with Cons.IH [of "done @ [c]"] Cons.prems show ?case by simp
qed simp

text \<open>When the comments are frozen into \<open>comments.jsonl\<close>, the counts for the \<open>stat\<close> files
  succeed too, and they are the numbers of lines that the file has for each target; the lines are
  the public view of the log, in order, each with its public number.\<close>

theorem frozen_comments_agree:
  assumes "snapshot_bytes to_json cs = Inr b" "length cs < 2 ^ 64"
  shows "\<exists>counts. approved_counts cs = Inr counts
    \<and> (\<forall>t. (case counts t of None \<Rightarrow> 0 | Some n \<Rightarrow> unat n) = length (filter (\<lambda>c. vc_target c = t) (shown cs)))
    \<and> b = concat (map (\<lambda>c. to_json \<lparr>sl_number = vc_number c, sl_target = vc_target c, sl_author = vc_author c,
             sl_date10 = take 10 (vc_created_at c), sl_text = vc_text c, sl_reply_to = vc_reply_to c\<rparr> @ [10]) (shown cs))"
proof -
  from assms(1) obtain visible lines where v: "visible_comments cs = Inr visible"
    and l: "try_map (comment_line to_json) visible = Inr lines" and b: "b = concat lines"
    by (auto simp: snapshot_bytes_def result_simps lift_view_def split: sum.splits)
  from v assms(2) have visible: "visible = shown cs" by (simp add: visible_comments_Inr)
  let ?line = "\<lambda>c. to_json \<lparr>sl_number = vc_number c, sl_target = vc_target c, sl_author = vc_author c,
             sl_date10 = take 10 (vc_created_at c), sl_text = vc_text c, sl_reply_to = vc_reply_to c\<rparr> @ [10]"
  have "list_all2 (\<lambda>c y. comment_line to_json c = Inr y) visible lines" using l by (simp add: try_map_Inr)
  then have "lines = map ?line visible"
    by (induction rule: list_all2_induct) (auto simp: comment_line_def split: if_splits)
  moreover have "tally [] = (\<lambda>_. None)" by (simp add: tally_def fun_eq_iff)
  then have "approved_counts cs = Inr (tally cs)"
    using count_loop_Inr [of "[]" cs] assms(2) v by (simp add: approved_counts_def lift_view_def)
  moreover have "length (filter (\<lambda>c. vc_target c = t) (shown cs)) = local_count t cs" for t
  proof -
    have "map vc_target (shown cs) = map cm_target cs"
      by (auto simp: shown_def shown_at_def Let_def intro: nth_equalityI)
    then have "filter (\<lambda>x. x = t) (map vc_target (shown cs)) = filter (\<lambda>x. x = t) (map cm_target cs)" by simp
    from arg_cong [OF this, of length] show ?thesis by (simp add: filter_map comp_def local_count_def)
  qed
  moreover have "unat (of_nat (local_count t cs) :: u64) = local_count t cs" for t
    using assms(2) local_count_le [of t cs] by (simp add: unat_of_nat take_bit_eq_mod)
  ultimately show ?thesis using b visible by (auto simp: tally_def)
qed

definition two_comments :: "comment list" where
  "two_comments =
     [\<lparr>cm_id = 3, cm_target = ''/posts/'', cm_author = [97], cm_text = [104, 105], cm_created_at = ''2026-01-31T00:00:00Z'',
       cm_reply_to_id = None\<rparr>,
      \<lparr>cm_id = 8, cm_target = ''/posts/'', cm_author = [98], cm_text = [111, 107], cm_created_at = ''2026-02-01T00:00:00Z'',
       cm_reply_to_id = Some 3\<rparr>]"

theorem frozen_comments_agree_witness:
  "\<exists>counts. approved_counts two_comments = Inr counts
    \<and> (case counts ''/posts/'' of None \<Rightarrow> 0 | Some n \<Rightarrow> unat n) = 2"
proof -
  have "snapshot_bytes (\<lambda>l. [of_nat (length (sl_date10 l))]) two_comments = Inr [10, 10, 10, 10]"
    by (simp add: snapshot_bytes_def visible_comments_def two_comments_def counter_def checked_add_def
        comment_line_def lift_view_def)
  from frozen_comments_agree [OF this] obtain counts where c: "approved_counts two_comments = Inr counts"
    "(case counts ''/posts/'' of None \<Rightarrow> 0 | Some n \<Rightarrow> unat n) = length (filter (\<lambda>c. vc_target c = ''/posts/'') (shown two_comments))"
    by (auto simp: two_comments_def)
  moreover have "length (filter (\<lambda>c. vc_target c = ''/posts/'') (shown two_comments)) = 2"
    by (simp add: shown_def shown_at_def two_comments_def Let_def upt_rec)
  ultimately show ?thesis by auto
qed

section \<open>Statistics\<close>





section \<open>A site on which no session starts\<close>

lemma write_scope_stat_Inr:
  assumes "write_scope_stat w part pid seq scope b fs = (Inr (), fs')"
  shows "\<exists>d. fs (cs_proc_rel scope) = Some d \<and> nd_kind d = Directory"
    and "case fs (cs_proc_rel scope @ ''/stat'') of None \<Rightarrow> True | Some f \<Rightarrow> nd_kind f \<noteq> Directory"
    and "fs' = fs(temp_name (cs_proc_rel scope @ ''/.stat.tmp.'') pid seq := None,
                  cs_proc_rel scope @ ''/stat'' \<mapsto> \<lparr>nd_kind = Regular b, nd_uid = 0, nd_gid = 0, nd_mode = 0x124\<rparr>)"
  using assms
  by (auto simp: write_scope_stat_def stat_directory_ok_def stat_file_ok_def Let_def replace_file_def
      split: option.splits if_splits write_stage.splits)

lemma proc_rel_at: "cs_proc_rel (scope_at d) = (if d = [] then ''proc'' else ''proc/'' @ d)"
  by (simp add: scope_at_def)

lemma other_scope_keeps:
  assumes "write_scope_stat w part pid seq (scope_at d) b fs = (Inr (), fs')" "d \<noteq> []"
  shows "fs' ''proc/stat'' = fs ''proc/stat''"
proof -
  have "''proc/stat'' \<noteq> temp_name (cs_proc_rel (scope_at d) @ ''/.stat.tmp.'') pid seq"
    by (rule notI, drule arg_cong [where f = length]) (simp add: temp_name_def proc_rel_at assms(2))
  moreover have "''proc/stat'' \<noteq> cs_proc_rel (scope_at d) @ ''/stat''"
    using assms(2) by (auto simp: proc_rel_at dest: arg_cong [where f = length])
  ultimately show ?thesis using write_scope_stat_Inr(3) [OF assms(1)] by simp
qed

text \<open>A successful run over the scopes.\<close>

lemma write_stats_Cons:
  assumes "write_stats_snapshots faults pid seq now by_t counts stats (s # ss) fs = (Inr (), fs')"
  obtains w part b fs1 where "write_scope_stat w part pid seq s b fs = (Inr (), fs1)"
    "write_stats_snapshots faults pid (seq + 1) now by_t counts stats ss fs1 = (Inr (), fs')"
  using assms by (auto simp: Let_def split: sum.splits prod.splits)

lemma root_needs_a_file:
  assumes "write_stats_snapshots faults pid seq now by_t counts stats ss fs = (Inr (), fs')"
    "set ss \<subseteq> range scope_at" "scope_at [] \<in> set ss"
  shows "case fs ''proc/stat'' of None \<Rightarrow> True | Some f \<Rightarrow> nd_kind f \<noteq> Directory"
  using assms
proof (induction ss arbitrary: fs seq)
  case (Cons s ss)
  from Cons.prems(2) obtain d where d: "s = scope_at d" by auto
  from Cons.prems(1) obtain w part b fs1 where
    w: "write_scope_stat w part pid seq s b fs = (Inr (), fs1)" and
    rest: "write_stats_snapshots faults pid (seq + 1) now by_t counts stats ss fs1 = (Inr (), fs')"
    by (rule write_stats_Cons)
  show ?case
  proof (cases "d = []")
    case True
    with write_scope_stat_Inr(2) [OF w] show ?thesis by (simp add: d proc_rel_at)
  next
    case False
    with Cons.IH [OF rest] Cons.prems(2,3) other_scope_keeps [OF w [unfolded d] False] show ?thesis
      by (simp add: d)
  qed
qed simp

lemma stat_needs_a_directory:
  assumes "write_stats_snapshots faults pid seq now by_t counts stats ss fs = (Inr (), fs')"
    "set ss \<subseteq> range scope_at" "scope_at ''stat'' \<in> set ss"
  shows "\<exists>f. fs ''proc/stat'' = Some f \<and> nd_kind f = Directory"
  using assms
proof (induction ss arbitrary: fs seq)
  case (Cons s ss)
  from Cons.prems(2) obtain d where d: "s = scope_at d" by auto
  from Cons.prems(1) obtain w part b fs1 where
    w: "write_scope_stat w part pid seq s b fs = (Inr (), fs1)" and
    rest: "write_stats_snapshots faults pid (seq + 1) now by_t counts stats ss fs1 = (Inr (), fs')"
    by (rule write_stats_Cons)
  show ?case
  proof (cases "d = ''stat''")
    case True
    with write_scope_stat_Inr(1) [OF w] show ?thesis by (simp add: d proc_rel_at)
  next
    case False
    with Cons.prems(2,3) Cons.IH [OF rest] have tail: "\<exists>f. fs1 ''proc/stat'' = Some f \<and> nd_kind f = Directory"
      by (simp add: d)
    then have "d \<noteq> []" using write_scope_stat_Inr(3) [OF w] by (auto simp: d proc_rel_at)
    with tail other_scope_keeps [OF w [unfolded d]] show ?thesis by simp
  qed
qed simp

text \<open>C25: with statistics for the home directory and for a directory \<open>stat\<close> (each a valid scope) no
  file system of the jail lets the \<open>stat\<close> files be written, because \<^verbatim>\<open>/proc/stat\<close> would have to be a
  file and a directory: on such a site no session can be opened.\<close>

theorem stat_scope_blocks_sessions:
  assumes "scope_at [] \<in> set scopes" "scope_at ''stat'' \<in> set scopes" "set scopes \<subseteq> range scope_at"
  shows "isl (fst (write_stats_snapshots faults pid seq now by_t counts stats scopes fs))"
proof (rule ccontr)
  assume "\<not> isl (fst (write_stats_snapshots faults pid seq now by_t counts stats scopes fs))"
  then obtain fs' where "write_stats_snapshots faults pid seq now by_t counts stats scopes fs = (Inr (), fs')"
    by (cases "write_stats_snapshots faults pid seq now by_t counts stats scopes fs"; cases "fst (write_stats_snapshots faults pid seq now by_t counts stats scopes fs)") auto
  from root_needs_a_file [OF this assms(3,1)] stat_needs_a_directory [OF this assms(3,2)]
  show False by auto
qed

theorem stat_scope_blocks_sessions_witness:
  "\<exists>scopes. parse_scope_manifest (''comment'' @ [CHR 0x09] @ ''/'' @ [CHR 0x0A] @ ''stat/comment'' @ [CHR 0x09] @ ''/stat/'')
       = Inr scopes
     \<and> (\<forall>faults pid seq now by_t counts stats fs.
           isl (fst (write_stats_snapshots faults pid seq now by_t counts stats scopes fs)))"
proof (intro exI conjI allI)
  show "parse_scope_manifest (''comment'' @ [CHR 0x09] @ ''/'' @ [CHR 0x0A] @ ''stat/comment'' @ [CHR 0x09] @ ''/stat/'')
      = Inr [scope_at [], scope_at ''stat'']"
    by code_simp
  show "isl (fst (write_stats_snapshots faults pid seq now by_t counts stats [scope_at [], scope_at ''stat''] fs))"
    for faults pid seq now by_t counts stats fs
    by (rule stat_scope_blocks_sessions) auto
qed

section \<open>No panic\<close>

text \<open>The \<open>expect\<close> in \<open>stat_snapshot_bytes\<close> is never reached, whatever statd answers, as the answers
  that name other articles have been refused.\<close>

lemma write_scope_stat_no_panic: "fst (write_scope_stat w part pid seq s b fs) \<noteq> Inl (Panics m)"
  by (auto simp: write_scope_stat_def replace_file_def Let_def split: option.splits write_stage.splits)

theorem stat_writing_never_panics:
  assumes site: "site_files scopes index" and by_t: "articles_by_target index scopes = Inr by_t"
    and request: "build_snapshot_request scopes by_t = Some request"
    and r: "validate_stats_response date_ok request r = Inr r"
  shows "fst (write_stats_snapshots faults pid seq now by_t counts (Some r) scopes fs) \<noteq> Inl (Panics m)"
proof -
  have req: "request = map (\<lambda>s. \<lparr>tr_target = cs_target s, tr_articles = articles_of by_t (cs_target s)\<rparr>) scopes"
    using request by (simp add: build_snapshot_request_def split: if_splits)
  then have dist: "distinct (map tr_target request)" using scopes_distinct [OF site] by (simp add: comp_def)
  have body: "\<exists>body. stat_snapshot_bytes s (articles_of by_t (cs_target s)) n at
      (find (\<lambda>t. ts_target t = cs_target s) (ss_targets r)) = Inr body" if "s \<in> set scopes" for s n at
  proof -
    have "\<lparr>tr_target = cs_target s, tr_articles = articles_of by_t (cs_target s)\<rparr> \<in> set request"
      using that req by auto
    from response_target [OF r this dist] obtain x where
      x: "find (\<lambda>t. ts_target t = cs_target s) (ss_targets r) = Some x"
        "as_article ` set (ts_articles x) = set (articles_of by_t (cs_target s))" by auto
    obtain ls where "article_lines (ts_articles x) (articles_of by_t (cs_target s)) = Inr ls"
      using article_lines_Inr x(2) by blast
    with x(1) show ?thesis by (simp add: stat_snapshot_bytes_def Let_def)
  qed
  have "set ss \<subseteq> set scopes \<Longrightarrow>
    fst (write_stats_snapshots faults pid seq now by_t counts (Some r) ss fs) \<noteq> Inl (Panics m)" for ss seq fs
  proof (induction ss arbitrary: seq fs)
    case (Cons s ss)
    then obtain out where "stat_snapshot_bytes s (articles_of by_t (cs_target s))
        (case counts (cs_target s) of None \<Rightarrow> 0 | Some n \<Rightarrow> n) (ss_snapshot_at r)
        (find (\<lambda>t. ts_target t = cs_target s) (ss_targets r)) = Inr out"
      using body by (meson list.set_intros(1) subsetD)
    moreover obtain res fs1 where w: "write_scope_stat (fst (faults seq)) (snd (faults seq)) pid seq s (map of_char out) fs
        = (res, fs1)" by fastforce
    ultimately show ?case
      using Cons write_scope_stat_no_panic [of "fst (faults seq)" "snd (faults seq)" pid seq s "map of_char out" fs m]
      by (cases res) auto
  qed simp
  then show ?thesis by blast
qed

end
