(* ===== verification/Config.thy ===== *)
theory Config
  imports Rust_Text
begin

text \<open>
  \<^verbatim>\<open>crates/config/src/lib.rs\<close>: the configuration all programs share, its defaults and the check that
  \<open>load\<close> makes after the TOML library has read the file.  Strings are ASCII here.
\<close>

section \<open>The tables\<close>

record stats_config =
  sc_socket :: string
  sc_data_dir :: string
  sc_request_timeout_ms :: nat

record comments_config =
  cc_public_socket :: string
  cc_private_socket :: string
  cc_data_dir :: string
  cc_targets_file :: string
  cc_session_drain_ms :: nat

record tls_config =
  tc_enabled :: bool
  tc_listen :: string
  tc_domains :: "string list"
  tc_contacts :: "string list"
  tc_cache_dir :: string
  tc_production :: bool

record web_config =
  wc_listen :: string
  wc_static_dir :: string
  wc_site_url :: "string option"
  wc_site_title :: string
  wc_tls :: tls_config

record ssh_config =
  hc_listen :: string
  hc_user :: string
  hc_host_key :: string

record session_config =
  nc_max_total :: nat
  nc_max_per_ip :: nat
  nc_idle_timeout_secs :: nat
  nc_hard_lifetime_secs :: nat

record jail_config =
  jc_socket :: string
  jc_template :: string
  jc_dataset_prefix :: string
  jc_disk_quota :: string
  jc_path_prefix :: string
  jc_memory :: string
  jc_vmemory :: string
  jc_maxproc :: nat
  jc_openfiles :: nat
  jc_pcpu :: nat
  jc_zsh :: string
  jc_guest_user :: string

record config =
  cf_web :: web_config
  cf_ssh :: ssh_config
  cf_session :: session_config
  cf_jail :: jail_config
  cf_comments :: comments_config
  cf_stats :: stats_config

section \<open>Defaults\<close>

definition default_stats :: stats_config where
  "default_stats = \<lparr>sc_socket = ''/var/run/termblog-statd.sock'', sc_data_dir = ''/var/db/termblog-statd'',
     sc_request_timeout_ms = 250\<rparr>"

definition default_comments :: comments_config where
  "default_comments = \<lparr>cc_public_socket = ''/var/run/commentd-public.sock'',
     cc_private_socket = ''/var/run/commentd-private.sock'', cc_data_dir = ''/var/db/termblog-commentd'',
     cc_targets_file = ''/usr/local/share/termblog/comment-targets.tsv'', cc_session_drain_ms = 1000\<rparr>"

definition default_tls :: tls_config where
  "default_tls = \<lparr>tc_enabled = False, tc_listen = ''0.0.0.0:3443'', tc_domains = [], tc_contacts = [],
     tc_cache_dir = ''acme-cache'', tc_production = False\<rparr>"

definition default_web :: web_config where
  "default_web = \<lparr>wc_listen = ''0.0.0.0:8080'', wc_static_dir = ''frontend/dist'', wc_site_url = None,
     wc_site_title = ''~yzs'', wc_tls = default_tls\<rparr>"

definition default_ssh :: ssh_config where
  "default_ssh = \<lparr>hc_listen = ''0.0.0.0:2222'', hc_user = ''blog'', hc_host_key = ''/var/db/termblog/ssh_host_ed25519''\<rparr>"

definition default_session :: session_config where
  "default_session = \<lparr>nc_max_total = 64, nc_max_per_ip = 3, nc_idle_timeout_secs = 15 * 60, nc_hard_lifetime_secs = 7200\<rparr>"

definition default_jail :: jail_config where
  "default_jail = \<lparr>jc_socket = ''/var/run/termblog.sock'', jc_template = ''zroot/jails/template@release'',
     jc_dataset_prefix = ''zroot/jails/s-'', jc_disk_quota = ''4M'', jc_path_prefix = ''/jails'', jc_memory = ''128M'',
     jc_vmemory = ''512M'', jc_maxproc = 32, jc_openfiles = 256, jc_pcpu = 25, jc_zsh = ''/usr/local/bin/zsh'',
     jc_guest_user = ''guest''\<rparr>"

definition default_config :: config where
  "default_config = \<lparr>cf_web = default_web, cf_ssh = default_ssh, cf_session = default_session, cf_jail = default_jail,
     cf_comments = default_comments, cf_stats = default_stats\<rparr>"

section \<open>The check\<close>

text \<open>\<open>Path\<close>s are compared by their components: repeated and trailing slashes do not matter, nor does
  a dot between two of them.\<close>

definition is_absolute :: "string \<Rightarrow> bool" where
  "is_absolute p \<longleftrightarrow> take 1 p = ''/''"

definition path_components :: "string \<Rightarrow> bool \<times> string list" where
  "path_components p =
     (let cs = filter (\<lambda>c. c \<noteq> []) (split_on (CHR ''/'') p)
      in (is_absolute p,
          (if \<not> is_absolute p \<and> cs \<noteq> [] \<and> hd cs = ''.'' then [''.''] else []) @ filter (\<lambda>c. c \<noteq> ''.'') cs))"

definition same_path :: "string \<Rightarrow> string \<Rightarrow> bool" where
  "same_path p q \<longleftrightarrow> path_components p = path_components q"

definition has_space :: "string \<Rightarrow> bool" where
  "has_space = list_ex (\<lambda>c. is_whitespace (of_char c))"

definition validate_tls :: "web_config \<Rightarrow> string + unit" where
  "validate_tls w =
     (let tls = wc_tls w
      in if \<not> tc_enabled tls then Inr ()
         else if wc_listen w = tc_listen tls then Inl ''web HTTP and HTTPS listen addresses must be different''
         else if tc_domains tls = [] then Inl ''web TLS requires at least one ACME domain''
         else if list_ex (\<lambda>d. d = [] \<or> strip_prefix ''*.'' d \<noteq> None \<or> list_ex (\<lambda>c. c \<in> set ''/:'') d \<or> has_space d) (tc_domains tls)
         then Inl ''web TLS domains must be plain non-wildcard DNS names''
         else if list_ex (\<lambda>c. strip_prefix ''mailto:'' c = None \<or> length c \<le> 7) (tc_contacts tls)
         then Inl ''web TLS contacts must be non-empty mailto: URLs''
         else if \<not> is_absolute (tc_cache_dir tls) then Inl ''web TLS cache_dir must be an absolute path''
         else case wc_site_url w of
             None \<Rightarrow> Inl ''web TLS requires web.site_url''
           | Some url \<Rightarrow>
               (case strip_prefix ''https://'' url of
                  None \<Rightarrow> Inl ''web.site_url must use https:// when TLS is enabled''
                | Some authority \<Rightarrow>
                    if authority = [] \<or> list_ex (\<lambda>c. c \<in> set ''/?#'') authority \<or> has_space authority
                    then Inl ''web.site_url must be an HTTPS origin without a trailing path'' else Inr ()))"

definition validate_comments :: "jail_config \<Rightarrow> comments_config \<Rightarrow> string + unit" where
  "validate_comments j c =
     (if \<not> is_absolute (cc_public_socket c) \<or> \<not> is_absolute (cc_private_socket c)
        \<or> \<not> is_absolute (cc_data_dir c) \<or> \<not> is_absolute (cc_targets_file c)
      then Inl ''comments socket, data_dir, and targets_file must be absolute paths''
      else if same_path (cc_public_socket c) (cc_private_socket c)
      then Inl ''comments public and private sockets cannot be identical''
      else if same_path (cc_public_socket c) (jc_socket j) \<or> same_path (cc_private_socket c) (jc_socket j)
      then Inl ''comments socket cannot be identical to jail socket''
      else if cc_session_drain_ms c = 0 then Inl ''comments drain timeout must be greater than 0''
      else Inr ())"

definition validate_stats :: "jail_config \<Rightarrow> comments_config \<Rightarrow> stats_config \<Rightarrow> string + unit" where
  "validate_stats j c s =
     (if \<not> is_absolute (sc_socket s) \<or> \<not> is_absolute (sc_data_dir s)
      then Inl ''stats socket and data_dir must be absolute paths''
      else if list_ex (same_path (sc_socket s)) [jc_socket j, cc_public_socket c, cc_private_socket c]
      then Inl ''stats socket cannot be identical to another service socket''
      else if same_path (sc_data_dir s) (cc_data_dir c)
      then Inl ''stats and comments data directories cannot be identical''
      else if sc_request_timeout_ms s = 0 then Inl ''stats request timeout must be greater than 0''
      else Inr ())"

definition validate_config :: "config \<Rightarrow> string + unit" where
  "validate_config cfg =
     (if nc_idle_timeout_secs (cf_session cfg) = 0 then Inl ''session idle timeout must be greater than 0''
      else if jc_openfiles (cf_jail cfg) < 20 then Inl ''jail openfiles limit must be at least 20 (_POSIX_OPEN_MAX)''
      else and_then (validate_tls (cf_web cfg)) (\<lambda>_.
        and_then (validate_comments (cf_jail cfg) (cf_comments cfg)) (\<lambda>_.
          validate_stats (cf_jail cfg) (cf_comments cfg) (cf_stats cfg))))"

text \<open>\<open>Config::load\<close>: \<open>file\<close> is what is at the path, \<open>None\<close> where nothing is, and the inner option
  is what cannot be read.\<close>

definition load_config :: "(string \<Rightarrow> string + config) \<Rightarrow> string option option \<Rightarrow> string + config" where
  "load_config toml file =
     and_then (case file of
         None \<Rightarrow> Inr default_config
       | Some None \<Rightarrow> Inl ''read config''
       | Some (Some s) \<Rightarrow> (case toml s of Inl e \<Rightarrow> Inl ''parse config'' | Inr cfg \<Rightarrow> Inr cfg)) (\<lambda>cfg.
       and_then (validate_config cfg) (\<lambda>_. Inr cfg))"

section \<open>What an accepted configuration guarantees\<close>

text \<open>The four sockets and the two data directories are pairwise different, and no timeout is zero.\<close>

lemma validate_config_separates:
  assumes "validate_config cfg = Inr u"
  shows "\<not> same_path (cc_public_socket (cf_comments cfg)) (cc_private_socket (cf_comments cfg))"
    "\<not> same_path (cc_public_socket (cf_comments cfg)) (jc_socket (cf_jail cfg))"
    "\<not> same_path (cc_private_socket (cf_comments cfg)) (jc_socket (cf_jail cfg))"
    "\<forall>p \<in> {jc_socket (cf_jail cfg), cc_public_socket (cf_comments cfg), cc_private_socket (cf_comments cfg)}.
       \<not> same_path (sc_socket (cf_stats cfg)) p"
    "\<not> same_path (sc_data_dir (cf_stats cfg)) (cc_data_dir (cf_comments cfg))"
    "0 < nc_idle_timeout_secs (cf_session cfg)" "0 < cc_session_drain_ms (cf_comments cfg)"
    "0 < sc_request_timeout_ms (cf_stats cfg)" "20 \<le> jc_openfiles (cf_jail cfg)"
  using assms
  by (auto simp: validate_config_def validate_comments_def validate_stats_def result_simps split: if_splits)

lemma default_accepted: "load_config toml None = Inr default_config"
proof -
  have "validate_config default_config = Inr ()" by code_simp
  then show ?thesis by (simp add: load_config_def)
qed

end
