(* ===== verification/Jail_Lifecycle.thy ===== *)
theory Jail_Lifecycle
  imports Config
begin

text \<open>
  \<^verbatim>\<open>crates/servers/jaild/src/jail.rs\<close>, the commands: the life of a session's jail from \<open>spawn_sync\<close> to
  \<open>cleanup_sync\<close>, and what a restart reclaims.  The operating system is a function from what has
  been done so far to the answer of the next action, so that every theorem holds for every
  behaviour of the commands; the log records the actions with their answers.
\<close>

section \<open>Actions and answers\<close>

text \<open>\<open>Prepare\<close> stands for the file part of \<open>spawn_inner\<close> (the reads and writes below the jail's
  root, and \<open>openpty\<close>); it runs no command.\<close>

datatype action = Run string "string list" | Is_dir string | Create_dir_all string | Remove_dir string
  | Read_dir string | Prepare string | Fork | Set_nonblocking | Sleep

datatype command_answer = Not_executed | Exited bool string | Names "string list"

type_synonym log = "(action \<times> command_answer) list"
type_synonym env = "log \<Rightarrow> action \<Rightarrow> command_answer"

definition act :: "env \<Rightarrow> action \<Rightarrow> log \<Rightarrow> command_answer \<times> log" where
  "act env a l = (let r = env l a in (r, l @ [(a, r)]))"

fun succeeded :: "command_answer \<Rightarrow> bool" where
  "succeeded (Exited ok _) = ok" | "succeeded _ = False"

definition run :: "env \<Rightarrow> string \<Rightarrow> string list \<Rightarrow> log \<Rightarrow> bool \<times> log" where
  "run env prog args l = (case act env (Run prog args) l of (r, l) \<Rightarrow> (succeeded r, l))"

section \<open>Names\<close>

definition dataset_of :: "jail_config \<Rightarrow> string \<Rightarrow> string" where
  "dataset_of cfg sid = jc_dataset_prefix cfg @ sid"

definition path_of_jail :: "jail_config \<Rightarrow> string \<Rightarrow> string" where
  "path_of_jail cfg sid = jc_path_prefix cfg @ ''/s-'' @ sid"

definition name_of_jail :: "string \<Rightarrow> string" where
  "name_of_jail sid = ''s-'' @ sid"

definition text_lines :: "string \<Rightarrow> string list" where
  "text_lines = lines_of (CHR 0x0A) (CHR 0x0D)"

definition trim_string :: "string \<Rightarrow> string" where
  "trim_string = trim_by (\<lambda>c. is_whitespace (of_char c))"

definition ascii_whitespace :: "char \<Rightarrow> bool" where
  "ascii_whitespace c \<longleftrightarrow> c \<in> set [CHR 0x20, CHR 0x09, CHR 0x0A, CHR 0x0C, CHR 0x0D]"

text \<open>\<open>parent_dataset\<close>.\<close>

definition parent_dataset :: "string \<Rightarrow> string" where
  "parent_dataset name =
     (let p = rev (dropWhile (\<lambda>c. c = CHR ''/'') (rev name))
      in case rsplit_once (CHR ''/'') p of Some (parent, _) \<Rightarrow> parent | None \<Rightarrow> p)"

definition all_digits :: "string \<Rightarrow> bool" where
  "all_digits s \<longleftrightarrow> s \<noteq> [] \<and> list_all is_ascii_digit s"

definition is_retired_template_dataset :: "string \<Rightarrow> string \<Rightarrow> bool" where
  "is_retired_template_dataset template candidate \<longleftrightarrow>
     (case Option.bind (strip_prefix template candidate) (strip_prefix ''.old'') of
        None \<Rightarrow> False
      | Some rest \<Rightarrow> rest = [] \<or> (case strip_prefix ''-'' rest of None \<Rightarrow> False | Some stamp \<Rightarrow> all_digits stamp))"

definition is_retired_template_base_dataset :: "string \<Rightarrow> string \<Rightarrow> bool" where
  "is_retired_template_base_dataset template candidate \<longleftrightarrow>
     (case strip_prefix (template @ ''-base.old-'') candidate of
        None \<Rightarrow> False
      | Some serial \<Rightarrow>
          (case split_on (CHR ''-'') serial of [stamp, pid] \<Rightarrow> all_digits stamp \<and> all_digits pid | _ \<Rightarrow> False))"

definition is_session_jail_name :: "string \<Rightarrow> bool" where
  "is_session_jail_name name \<longleftrightarrow>
     (case strip_prefix ''s-'' name of
        None \<Rightarrow> False
      | Some sid \<Rightarrow> length sid = 8 \<and> list_all (\<lambda>c. is_ascii_digit c \<or> c \<in> set ''abcdef'') sid)"

text \<open>The set is returned in its order.\<close>

definition session_rctl_jail_names :: "string \<Rightarrow> string list" where
  "session_rctl_jail_names rules =
     sort (remdups (concat (map (\<lambda>line.
       case Option.bind (strip_prefix ''jail:'' line) (split_once (CHR '':'')) of
         None \<Rightarrow> [] | Some (name, _) \<Rightarrow> if is_session_jail_name name then [name] else []) (text_lines rules))))"

section \<open>Jails and their limits\<close>

definition jails_listed :: "string \<Rightarrow> string list" where
  "jails_listed out = filter (\<lambda>n. n \<noteq> []) (map trim_string (text_lines out))"

definition jls :: action where "jls = Run ''jls'' [''-d'', ''name'']"

definition running_jail_names :: "env \<Rightarrow> log \<Rightarrow> string list option \<times> log" where
  "running_jail_names env l =
     (case act env jls l of
        (r, l) \<Rightarrow> (case r of Exited True out \<Rightarrow> Some (jails_listed out) | _ \<Rightarrow> None, l))"

text \<open>At most forty looks, with a pause between two; \<open>None\<close>: a query failed.\<close>

fun wait_loop :: "env \<Rightarrow> string \<Rightarrow> nat \<Rightarrow> log \<Rightarrow> bool option \<times> log" where
  "wait_loop env name 0 l = (Some False, l)"
| "wait_loop env name (Suc n) l =
     (case running_jail_names env l of
        (None, l) \<Rightarrow> (None, l)
      | (Some names, l) \<Rightarrow>
          if name \<notin> set names then (Some True, l)
          else wait_loop env name n (if 0 < n then snd (act env Sleep l) else l))"

definition wait_for_jail_removal :: "env \<Rightarrow> string \<Rightarrow> log \<Rightarrow> bool option \<times> log" where
  "wait_for_jail_removal env name = wait_loop env name 40"

definition rctl_remove :: "string \<Rightarrow> action" where
  "rctl_remove name = Run ''rctl'' [''-r'', ''jail:'' @ name]"

text \<open>\<open>None\<close>: an error; otherwise whether there were rules.\<close>

definition clear_rctl_rules :: "env \<Rightarrow> string \<Rightarrow> log \<Rightarrow> bool option \<times> log" where
  "clear_rctl_rules env name l =
     (case act env (Run ''rctl'' [''jail:'' @ name]) l of
        (Exited True out, l) \<Rightarrow>
          if list_all ascii_whitespace out then (Some False, l)
          else (case act env (rctl_remove name) l of (r, l) \<Rightarrow> (if succeeded r then Some True else None, l))
      | (_, l) \<Rightarrow> (None, l))"

section \<open>Reclaiming\<close>

fun destroy_matching :: "env \<Rightarrow> (string \<Rightarrow> bool) \<Rightarrow> string list \<Rightarrow> log \<Rightarrow> log" where
  "destroy_matching env retired [] l = l"
| "destroy_matching env retired (d # ds) l =
     (if \<not> retired d then destroy_matching env retired ds l
      else destroy_matching env retired ds (snd (run env ''zfs'' [''destroy'', ''-r'', d] l)))"

definition zfs_list :: "string \<Rightarrow> action" where
  "zfs_list parent = Run ''zfs'' [''list'', ''-H'', ''-o'', ''name'', ''-r'', parent]"

definition cleanup_retired_templates :: "env \<Rightarrow> jail_config \<Rightarrow> log \<Rightarrow> log" where
  "cleanup_retired_templates env cfg l =
     (case split_once (CHR ''@'') (jc_template cfg) of
        None \<Rightarrow> l
      | Some (template, snapshot) \<Rightarrow>
          if template = [] \<or> snapshot = [] then l
          else case act env (zfs_list (parent_dataset template)) l of
              (Exited True out, l) \<Rightarrow>
                (let listed = text_lines out
                 in destroy_matching env (is_retired_template_base_dataset template) listed
                      (destroy_matching env (is_retired_template_dataset template) listed l))
            | (_, l) \<Rightarrow> l)"

definition cleanup_sync :: "env \<Rightarrow> jail_config \<Rightarrow> string \<Rightarrow> log \<Rightarrow> log" where
  "cleanup_sync env cfg sid l =
     (let l = snd (run env ''umount'' [''-f'', path_of_jail cfg sid @ ''/dev''] l);
          l = snd (run env ''jail'' [''-r'', name_of_jail sid] l);
          l = (case wait_for_jail_removal env (name_of_jail sid) l of
                 (Some True, l) \<Rightarrow> snd (clear_rctl_rules env (name_of_jail sid) l)
               | (_, l) \<Rightarrow> l);
          l = snd (run env ''zfs'' [''destroy'', ''-f'', dataset_of cfg sid] l);
          l = snd (act env (Remove_dir (path_of_jail cfg sid)) l)
      in cleanup_retired_templates env cfg l)"

fun orphan_loop :: "env \<Rightarrow> string list \<Rightarrow> string list \<Rightarrow> log \<Rightarrow> nat \<times> log" where
  "orphan_loop env running [] l = (0, l)"
| "orphan_loop env running (name # names) l =
     (if name \<in> set running then orphan_loop env running names l
      else case running_jail_names env l of
          (None, l) \<Rightarrow> (case orphan_loop env running names l of (n, l) \<Rightarrow> (n + 1, l))
        | (Some current, l) \<Rightarrow>
            if name \<in> set current then orphan_loop env running names l
            else (case clear_rctl_rules env name l of
                (cleared, l) \<Rightarrow>
                  (case orphan_loop env running names l of
                     (n, l) \<Rightarrow> (if cleared = None then n + 1 else n, l))))"

definition cleanup_orphaned_session_rctl_rules :: "env \<Rightarrow> log \<Rightarrow> bool \<times> log" where
  "cleanup_orphaned_session_rctl_rules env l =
     (case running_jail_names env l of
        (None, l) \<Rightarrow> (False, l)
      | (Some running, l) \<Rightarrow>
          (case act env (Run ''rctl'' []) l of
             (Exited True out, l) \<Rightarrow>
               (case orphan_loop env running (session_rctl_jail_names out) l of (n, l) \<Rightarrow> (n = 0, l))
           | (_, l) \<Rightarrow> (False, l)))"

text \<open>\<open>sweep\<close>: the left-over sessions, the empty mount points, the orphaned limits, the templates.\<close>

definition residual_sid :: "jail_config \<Rightarrow> string \<Rightarrow> string option" where
  "residual_sid cfg line =
     (case strip_prefix (jc_dataset_prefix cfg) line of
        None \<Rightarrow> None
      | Some sid \<Rightarrow> if sid = [] \<or> CHR ''/'' \<in> set sid \<or> CHR ''@'' \<in> set sid then None else Some sid)"

fun sweep_sessions :: "env \<Rightarrow> jail_config \<Rightarrow> string list \<Rightarrow> log \<Rightarrow> log" where
  "sweep_sessions env cfg [] l = l"
| "sweep_sessions env cfg (line # ls) l =
     (case residual_sid cfg line of
        None \<Rightarrow> sweep_sessions env cfg ls l
      | Some sid \<Rightarrow> sweep_sessions env cfg ls (cleanup_sync env cfg sid l))"

definition stale_mount :: "jail_config \<Rightarrow> string \<Rightarrow> bool" where
  "stale_mount cfg name \<longleftrightarrow>
     (let leaf = map_option (\<lambda>(dataset, _). last (split_on (CHR ''/'') dataset)) (split_once (CHR ''@'') (jc_template cfg))
      in list_all is_ascii_hexdigit name
       \<or> (case strip_prefix ''s-'' name of None \<Rightarrow> False | Some s \<Rightarrow> list_all is_ascii_hexdigit s)
       \<or> (case leaf of None \<Rightarrow> False | Some t \<Rightarrow> name = t @ ''.new'' \<or> name = t @ ''-base.new''))"

fun remove_mounts :: "env \<Rightarrow> jail_config \<Rightarrow> string list \<Rightarrow> log \<Rightarrow> log" where
  "remove_mounts env cfg [] l = l"
| "remove_mounts env cfg (name # names) l =
     remove_mounts env cfg names
       (if stale_mount cfg name then snd (act env (Remove_dir (jc_path_prefix cfg @ ''/'' @ name)) l) else l)"

definition sweep :: "env \<Rightarrow> jail_config \<Rightarrow> log \<Rightarrow> log" where
  "sweep env cfg l =
     (case act env (zfs_list (parent_dataset (jc_dataset_prefix cfg))) l of
        (Exited True out, l) \<Rightarrow>
          (let l = sweep_sessions env cfg (text_lines out) l;
               l = (case act env (Read_dir (jc_path_prefix cfg)) l of
                      (Names names, l) \<Rightarrow> remove_mounts env cfg names l | (_, l) \<Rightarrow> l);
               l = snd (cleanup_orphaned_session_rctl_rules env l)
           in cleanup_retired_templates env cfg l)
      | (_, l) \<Rightarrow> snd (cleanup_orphaned_session_rctl_rules env l))"

section \<open>Opening a session\<close>

text \<open>A sequence that stops at the first action that fails.\<close>

fun run_all :: "env \<Rightarrow> action list \<Rightarrow> log \<Rightarrow> bool \<times> log" where
  "run_all env [] l = (True, l)"
| "run_all env (a # as) l =
     (case act env a l of (r, l) \<Rightarrow> if succeeded r then run_all env as l else (False, l))"

definition limits :: "jail_config \<Rightarrow> string list" where
  "limits cfg =
     [''memoryuse:deny='' @ jc_memory cfg, ''vmemoryuse:deny='' @ jc_vmemory cfg,
      ''maxproc:deny='' @ show_nat (jc_maxproc cfg), ''pcpu:deny='' @ show_nat (jc_pcpu cfg)]"

definition jail_parameters :: "jail_config \<Rightarrow> nat \<Rightarrow> string \<Rightarrow> string list" where
  "jail_parameters cfg osreldate sid =
     [''-c'', ''name='' @ name_of_jail sid, ''path='' @ path_of_jail cfg sid, ''host.hostname=blog'', ''persist'',
      ''ip4=disable'', ''ip6=disable'', ''enforce_statfs=2'', ''children.max=0'', ''allow.raw_sockets=0'',
      ''allow.chflags=0'', ''allow.mount=0'',
      (if 1500000 \<le> osreldate then ''allow.quotas=0'' else ''allow.quotactl=0''),
      ''allow.socket_af=0'', ''allow.sysvipc=0'', ''allow.mlock=0'']"

definition rctl_add :: "jail_config \<Rightarrow> string \<Rightarrow> action list" where
  "rctl_add cfg sid = map (\<lambda>limit. Run ''rctl'' [''-a'', ''jail:'' @ name_of_jail sid @ '':'' @ limit]) (limits cfg)"

definition clone_actions :: "jail_config \<Rightarrow> string \<Rightarrow> action list" where
  "clone_actions cfg sid =
     [Run ''zfs'' [''clone'', jc_template cfg, dataset_of cfg sid],
      Run ''zfs'' [''set'', ''readonly=off'', dataset_of cfg sid],
      Run ''zfs'' [''set'', ''quota='' @ jc_disk_quota cfg, dataset_of cfg sid],
      Run ''zfs'' [''set'', ''mountpoint='' @ path_of_jail cfg sid, dataset_of cfg sid]]"

definition devfs_mount :: "jail_config \<Rightarrow> string \<Rightarrow> action" where
  "devfs_mount cfg sid = Run ''mount'' [''-t'', ''devfs'', ''-o'', ''ruleset=4'', ''devfs'', path_of_jail cfg sid @ ''/dev'']"

text \<open>The number that \<open>jls\<close> prints has to parse.\<close>

definition parse_i32 :: "string \<Rightarrow> int option" where
  "parse_i32 s =
     (let (negative, ds) = (case strip_prefix ''-'' s of
            Some t \<Rightarrow> (True, t)
          | None \<Rightarrow> (False, case strip_prefix ''+'' s of Some t \<Rightarrow> t | None \<Rightarrow> s));
          n = int (digits_value 10 (map (\<lambda>c. of_char c - 48) ds));
          v = (if negative then - n else n)
      in if all_digits ds \<and> - (2 ^ 31) \<le> v \<and> v < 2 ^ 31 then Some v else None)"

definition jail_jid :: "env \<Rightarrow> string \<Rightarrow> log \<Rightarrow> int option \<times> log" where
  "jail_jid env name l =
     (case act env (Run ''jls'' [''-j'', name, ''jid'']) l of
        (Exited True out, l) \<Rightarrow> (parse_i32 (trim_string out), l)
      | (_, l) \<Rightarrow> (None, l))"

text \<open>\<open>spawn_inner\<close>: whether the shell has been handed out.  The mount and the devfs mount may fail.\<close>

definition spawn_inner :: "env \<Rightarrow> jail_config \<Rightarrow> nat \<Rightarrow> string \<Rightarrow> log \<Rightarrow> bool \<times> log" where
  "spawn_inner env cfg osreldate sid l =
     (case run_all env (clone_actions cfg sid) l of
        (False, l) \<Rightarrow> (False, l)
      | (True, l) \<Rightarrow>
          (case run_all env [Is_dir (path_of_jail cfg sid), Create_dir_all (path_of_jail cfg sid @ ''/dev'')]
                  (snd (run env ''zfs'' [''mount'', dataset_of cfg sid] l)) of
             (False, l) \<Rightarrow> (False, l)
           | (True, l) \<Rightarrow>
               (case run_all env [Run ''jail'' (jail_parameters cfg osreldate sid)]
                       (snd (act env (devfs_mount cfg sid) l)) of
                  (False, l) \<Rightarrow> (False, l)
                | (True, l) \<Rightarrow>
                    (case jail_jid env (name_of_jail sid) l of
                       (None, l) \<Rightarrow> (False, l)
                     | (Some jid, l) \<Rightarrow>
                         run_all env (rctl_add cfg sid @ [Prepare (path_of_jail cfg sid), Fork, Set_nonblocking]) l))))"

datatype spawn_result = Spawned | Refused | Spawn_failed

text \<open>\<open>spawn_sync\<close>: a refusal comes before anything is created, a failure is cleaned up.\<close>

definition spawn_sync :: "env \<Rightarrow> jail_config \<Rightarrow> nat \<Rightarrow> string \<Rightarrow> log \<Rightarrow> spawn_result \<times> log" where
  "spawn_sync env cfg osreldate sid l =
     (case running_jail_names env l of
        (None, l) \<Rightarrow> (Refused, l)
      | (Some running, l) \<Rightarrow>
          if name_of_jail sid \<in> set running then (Refused, l)
          else (case clear_rctl_rules env (name_of_jail sid) l of
              (None, l) \<Rightarrow> (Refused, l)
            | (Some _, l) \<Rightarrow>
                (case spawn_inner env cfg osreldate sid l of
                   (True, l) \<Rightarrow> (Spawned, l)
                 | (False, l) \<Rightarrow> (Spawn_failed, cleanup_sync env cfg sid l))))"

section \<open>The guest's account, the device rules\<close>

text \<open>\<open>guest_ids\<close> on the text of the jail's \<^verbatim>\<open>/etc/passwd\<close>: the first line of the user decides.\<close>

definition parse_u32 :: "string \<Rightarrow> nat option" where
  "parse_u32 s =
     (let ds = (case strip_prefix ''+'' s of Some t \<Rightarrow> t | None \<Rightarrow> s);
          v = digits_value 10 (map (\<lambda>c. of_char c - 48) ds)
      in if all_digits ds \<and> v < 2 ^ 32 then Some v else None)"

fun guest_ids :: "string \<Rightarrow> string list \<Rightarrow> string + nat \<times> nat \<times> string" where
  "guest_ids user [] = Inl ''no user found in jail template''"
| "guest_ids user (line # rest) =
     (let f = split_on (CHR '':'') line
      in if 7 \<le> length f \<and> f ! 0 = user
         then (case parse_u32 (f ! 2) of
                 None \<Rightarrow> Inl ''parse guest uid''
               | Some uid \<Rightarrow>
                   (case parse_u32 (f ! 3) of
                      None \<Rightarrow> Inl ''parse guest gid''
                    | Some gid \<Rightarrow> Inr (uid, gid, if 9 \<le> length f then f ! 8 else f ! 5)))
         else guest_ids user rest)"

definition devfs_rules :: "string list list" where
  "devfs_rules =
     [''rule'', ''-s'', ''4'', ''add'', ''hide'']
     # map (\<lambda>d. [''rule'', ''-s'', ''4'', ''add'', ''path'', d, ''unhide''])
         [''null'', ''zero'', ''random'', ''urandom'', ''fd'', ''stdin'', ''stdout'', ''stderr'']"

definition ensure_devfs_ruleset :: "env \<Rightarrow> log \<Rightarrow> bool \<times> log" where
  "ensure_devfs_ruleset env l = run_all env (map (Run ''devfs'') devfs_rules) l"

end
