(* ===== verification/Jail_Lifecycle_Facts.thy ===== *)
theory Jail_Lifecycle_Facts
  imports Jail_Lifecycle
begin

text \<open>
  Facts about the logs of jaild's commands: resource limits are lifted only from jails that a look
  at the list of jails did not show, and a sequence of actions stops at the first failure.
\<close>

lemma snd_act [simp]: "snd (act env a l) = l @ [(a, env l a)]"
  by (simp add: act_def Let_def)

lemma fst_act [simp]: "fst (act env a l) = env l a"
  by (simp add: act_def Let_def)

lemma act_eq: "act env a l = (env l a, l @ [(a, env l a)])"
  by (simp add: act_def Let_def)

lemma run_eq: "run env prog args l = (succeeded (env l (Run prog args)), l @ [(Run prog args, env l (Run prog args))])"
  by (simp add: run_def act_eq)

section \<open>Limits and jails\<close>

text \<open>The last look did not show the jail, and none of its name has been created since.\<close>

definition look :: "string \<Rightarrow> bool \<Rightarrow> action \<times> command_answer \<Rightarrow> bool" where
  "look name absent e =
     (case e of (a, r) \<Rightarrow>
        if a = jls then (case r of Exited True out \<Rightarrow> name \<notin> set (jails_listed out) | _ \<Rightarrow> absent)
        else (case a of
            Run prog args \<Rightarrow> if prog = ''jail'' \<and> take 2 args = [''-c'', ''name='' @ name] then False else absent
          | _ \<Rightarrow> absent))"

definition seen_absent :: "string \<Rightarrow> log \<Rightarrow> bool" where
  "seen_absent name = foldl (look name) False"

lemma seen_absent_snoc [simp]: "seen_absent name (l @ [e]) = look name (seen_absent name l) e"
  by (simp add: seen_absent_def)

lemma rctl_remove_inject [simp]: "rctl_remove m = rctl_remove n \<longleftrightarrow> m = n"
  by (simp add: rctl_remove_def)

definition guarded :: "log \<Rightarrow> bool" where
  "guarded l \<longleftrightarrow> (\<forall>i < length l. \<forall>name. fst (l ! i) = rctl_remove name \<longrightarrow> seen_absent name (take i l))"

lemma guarded_Nil [simp]: "guarded []"
  by (simp add: guarded_def)

lemma guarded_snoc: "guarded (l @ [e]) \<longleftrightarrow> guarded l \<and> (\<forall>name. fst e = rctl_remove name \<longrightarrow> seen_absent name l)"
  by (auto simp: guarded_def nth_append less_Suc_eq)

lemma guarded_snoc2:
  "guarded (l @ [e, f]) \<longleftrightarrow> guarded l \<and> (\<forall>name. fst e = rctl_remove name \<longrightarrow> seen_absent name l)
     \<and> (\<forall>name. fst f = rctl_remove name \<longrightarrow> look name (seen_absent name l) e)"
  using guarded_snoc [of "l @ [e]" f] guarded_snoc [of l e] by simp

text \<open>An action other than the removal of limits.\<close>

lemma guarded_other [simp]: "\<forall>name. a \<noteq> rctl_remove name \<Longrightarrow> guarded (l @ [(a, r)]) \<longleftrightarrow> guarded l"
  by (simp add: guarded_snoc)

lemma not_rctl_remove [simp]:
  "Run prog args = rctl_remove n \<longleftrightarrow> prog = ''rctl'' \<and> args = [''-r'', ''jail:'' @ n]"
  "jls \<noteq> rctl_remove n" "zfs_list p \<noteq> rctl_remove n" "devfs_mount cfg sid \<noteq> rctl_remove n"
  "Is_dir p \<noteq> rctl_remove n" "Create_dir_all p \<noteq> rctl_remove n" "Remove_dir p \<noteq> rctl_remove n"
  "Read_dir p \<noteq> rctl_remove n" "Prepare p \<noteq> rctl_remove n" "Fork \<noteq> rctl_remove n"
  "Set_nonblocking \<noteq> rctl_remove n" "Sleep \<noteq> rctl_remove n"
  by (auto simp: rctl_remove_def jls_def zfs_list_def devfs_mount_def)

lemma running_jail_names_log:
  assumes "running_jail_names env l = (r, l')"
  shows "l' = l @ [(jls, env l jls)]" "r = Some names \<Longrightarrow> seen_absent name l' \<longleftrightarrow> name \<notin> set names"
  using assms by (auto simp: running_jail_names_def act_eq look_def split: command_answer.splits bool.splits)

lemma guarded_running: "running_jail_names env l = (r, l') \<Longrightarrow> guarded l' \<longleftrightarrow> guarded l"
  using running_jail_names_log(1) by fastforce

lemma guarded_wait_loop:
  "wait_loop env name n l = (r, l') \<Longrightarrow> guarded l \<Longrightarrow> guarded l' \<and> (r = Some True \<longrightarrow> seen_absent name l')"
proof (induction n arbitrary: l)
  case (Suc n)
  obtain q l1 where q: "running_jail_names env l = (q, l1)" by force
  with Suc.prems(2) have g: "guarded l1" using guarded_running by blast
  show ?case
  proof (cases q)
    case None
    with Suc.prems(1) q g show ?thesis by auto
  next
    case (Some names)
    show ?thesis
    proof (cases "name \<in> set names")
      case True
      with Suc.prems(1) q Some g show ?thesis
        by (intro Suc.IH [of "if 0 < n then snd (act env Sleep l1) else l1"]) (auto split: if_splits)
    next
      case False
      with Suc.prems(1) q Some g running_jail_names_log(2) [OF q Some] show ?thesis by auto
    qed
  qed
qed auto

lemma guarded_clear:
  assumes "guarded l" "seen_absent name l"
  shows "guarded (snd (clear_rctl_rules env name l))"
proof -
  have "look name (seen_absent name l) (Run ''rctl'' [''jail:'' @ name], r)" for r
    using assms(2) by (simp add: look_def jls_def)
  with assms show ?thesis
    by (auto simp: clear_rctl_rules_def act_eq guarded_snoc2 split: command_answer.splits bool.splits)
qed

lemma guarded_destroy: "guarded l \<Longrightarrow> guarded (destroy_matching env retired ds l)"
  by (induction ds arbitrary: l) (auto simp: run_eq)

lemma guarded_templates: "guarded l \<Longrightarrow> guarded (cleanup_retired_templates env cfg l)"
  by (auto simp: cleanup_retired_templates_def act_eq Let_def intro!: guarded_destroy
      split: option.splits prod.splits command_answer.splits bool.splits)

lemma guarded_cleanup:
  assumes "guarded l"
  shows "guarded (cleanup_sync env cfg sid l)"
proof -
  define l1 where "l1 = snd (run env ''jail'' [''-r'', name_of_jail sid] (snd (run env ''umount'' [''-f'', path_of_jail cfg sid @ ''/dev''] l)))"
  obtain r l2 where w: "wait_for_jail_removal env (name_of_jail sid) l1 = (r, l2)" by force
  have "guarded l1" using assms by (simp add: l1_def run_eq guarded_snoc2)
  with w have l2: "guarded l2" "r = Some True \<Longrightarrow> seen_absent (name_of_jail sid) l2"
    using guarded_wait_loop by (auto simp: wait_for_jail_removal_def)
  define l3 where "l3 = (case r of Some True \<Rightarrow> snd (clear_rctl_rules env (name_of_jail sid) l2) | _ \<Rightarrow> l2)"
  have "guarded l3" using l2 guarded_clear by (auto simp: l3_def split: option.split bool.split)
  moreover have "cleanup_sync env cfg sid l = cleanup_retired_templates env cfg
      (snd (act env (Remove_dir (path_of_jail cfg sid)) (snd (run env ''zfs'' [''destroy'', ''-f'', dataset_of cfg sid] l3))))"
    using w by (auto simp: cleanup_sync_def Let_def l1_def l3_def split: option.splits bool.splits)
  ultimately show ?thesis by (simp add: run_eq guarded_templates guarded_snoc2)
qed

lemma guarded_orphans: "guarded l \<Longrightarrow> guarded (snd (orphan_loop env running names l))"
proof (induction names arbitrary: l)
  case (Cons name names)
  show ?case
  proof (cases "name \<in> set running")
    case False
    obtain q l1 where q: "running_jail_names env l = (q, l1)" by force
    with Cons.prems have g: "guarded l1" using guarded_running by blast
    show ?thesis
    proof (cases q)
      case None
      with False q Cons.IH [OF g] show ?thesis by (auto split: prod.splits)
    next
      case (Some current)
      obtain c l2 where c: "clear_rctl_rules env name l1 = (c, l2)" by force
      have "guarded l2" if "name \<notin> set current"
        using guarded_clear [OF g, of name env] running_jail_names_log(2) [OF q Some] that c by simp
      with False q Some c Cons.IH [of l1] Cons.IH [of l2] g show ?thesis by (auto split: prod.splits)
    qed
  qed (use Cons in simp)
qed simp

lemma guarded_orphaned: "guarded l \<Longrightarrow> guarded (snd (cleanup_orphaned_session_rctl_rules env l))"
proof -
  assume g: "guarded l"
  obtain q l1 where q: "running_jail_names env l = (q, l1)" by force
  with g have "guarded l1" using guarded_running by blast
  then have "guarded (l1 @ [(Run ''rctl'' [], r)])" for r by simp
  from guarded_orphans [OF this] q \<open>guarded l1\<close> show ?thesis
    by (auto simp: cleanup_orphaned_session_rctl_rules_def act_eq split: option.splits command_answer.splits bool.splits prod.splits)
      (metis snd_conv)+
qed

lemma guarded_sweep_sessions: "guarded l \<Longrightarrow> guarded (sweep_sessions env cfg ls l)"
  by (induction ls arbitrary: l) (auto intro: guarded_cleanup split: option.split)

lemma guarded_mounts: "guarded l \<Longrightarrow> guarded (remove_mounts env cfg names l)"
  by (induction names arbitrary: l) auto

lemma guarded_sweep: "guarded l \<Longrightarrow> guarded (sweep env cfg l)"
  by (auto simp: sweep_def act_eq Let_def intro!: guarded_templates guarded_orphaned guarded_mounts guarded_sweep_sessions
      split: command_answer.splits bool.splits)

lemma guarded_run_all: "\<forall>a \<in> set as. \<forall>n. a \<noteq> rctl_remove n \<Longrightarrow> guarded l \<Longrightarrow> guarded (snd (run_all env as l))"
  by (induction as arbitrary: l) (auto simp: act_eq)

end
