(* ===== verification/Jail_Lifecycle_Properties.thy ===== *)
theory Jail_Lifecycle_Properties
  imports Jail_Lifecycle_Facts "HOL-Library.Code_Target_Nat"
begin

text \<open>
  The three promises of the commands: limits are not lifted from a jail that may be alive, no shell
  is forked outside a limited jail, and a session that failed or ended leaves nothing behind.
\<close>

section \<open>Limits outlive the jail\<close>

lemma spawn_actions_keep [simp]:
  "\<forall>a \<in> set (clone_actions cfg sid). \<forall>n. a \<noteq> rctl_remove n"
  "\<forall>a \<in> set (rctl_add cfg sid). \<forall>n. a \<noteq> rctl_remove n"
  by (auto simp: clone_actions_def rctl_add_def)

lemma guarded_run_all_eq:
  "run_all env as l = (ok, l') \<Longrightarrow> guarded l \<Longrightarrow> \<forall>a \<in> set as. \<forall>n. a \<noteq> rctl_remove n \<Longrightarrow> guarded l'"
  using guarded_run_all [of as l env] by simp

lemma guarded_spawn_inner:
  assumes "guarded l"
  shows "guarded (snd (spawn_inner env cfg osr sid l))"
proof -
  obtain ok1 l1 where 1: "run_all env (clone_actions cfg sid) l = (ok1, l1)" by force
  define l2 where "l2 = snd (run env ''zfs'' [''mount'', dataset_of cfg sid] l1)"
  obtain ok3 l3 where 3: "run_all env [Is_dir (path_of_jail cfg sid), Create_dir_all (path_of_jail cfg sid @ ''/dev'')] l2
      = (ok3, l3)" by force
  define l4 where "l4 = snd (act env (devfs_mount cfg sid) l3)"
  obtain ok5 l5 where 5: "run_all env [Run ''jail'' (jail_parameters cfg osr sid)] l4 = (ok5, l5)" by force
  obtain jid l6 where 6: "jail_jid env (name_of_jail sid) l5 = (jid, l6)" by force
  obtain ok7 l7 where 7: "run_all env (rctl_add cfg sid @ [Prepare (path_of_jail cfg sid), Fork, Set_nonblocking]) l6
      = (ok7, l7)" by force
  have g1: "guarded l1" using 1 assms by (rule guarded_run_all_eq) simp
  then have "guarded l2" by (simp add: l2_def run_eq)
  with 3 have g3: "guarded l3" by (rule guarded_run_all_eq) simp
  then have "guarded l4" by (simp add: l4_def)
  with 5 have g5: "guarded l5" by (rule guarded_run_all_eq) simp
  with 6 have g6: "guarded l6" by (auto simp: jail_jid_def act_eq split: command_answer.splits bool.splits)
  with 7 have "guarded l7" by (rule guarded_run_all_eq) (auto simp: rctl_add_def)
  with 1 3 5 6 7 g1 g3 g5 g6 show ?thesis
    by (simp add: spawn_inner_def l2_def l4_def split: bool.split option.split)
qed

lemma guarded_spawn:
  assumes "guarded l"
  shows "guarded (snd (spawn_sync env cfg osr sid l))"
proof -
  obtain q l1 where q: "running_jail_names env l = (q, l1)" by force
  with assms have g1: "guarded l1" using guarded_running by blast
  obtain c l2 where c: "clear_rctl_rules env (name_of_jail sid) l1 = (c, l2)" by force
  have g2: "guarded l2" if "q = Some names" "name_of_jail sid \<notin> set names" for names
    using guarded_clear [OF g1, of "name_of_jail sid" env] running_jail_names_log(2) [OF q] that c by simp
  obtain ok l3 where i: "spawn_inner env cfg osr sid l2 = (ok, l3)" by force
  have "guarded l3" if "guarded l2" using guarded_spawn_inner [OF that, of env cfg osr sid] i by simp
  with q c i g1 g2 guarded_cleanup show ?thesis
    by (auto simp: spawn_sync_def split: option.split bool.split)
qed

text \<open>What jaild does over its life: a sweep, then sessions that are opened and cleaned up in any order.\<close>

datatype jail_operation = Sweep | Spawn nat string | Cleanup string

fun perform :: "env \<Rightarrow> jail_config \<Rightarrow> jail_operation list \<Rightarrow> log \<Rightarrow> log" where
  "perform env cfg [] l = l"
| "perform env cfg (Sweep # ops) l = perform env cfg ops (sweep env cfg l)"
| "perform env cfg (Spawn osr sid # ops) l = perform env cfg ops (snd (spawn_sync env cfg osr sid l))"
| "perform env cfg (Cleanup sid # ops) l = perform env cfg ops (cleanup_sync env cfg sid l)"

lemma guarded_perform: "guarded l \<Longrightarrow> guarded (perform env cfg ops l)"
  by (induction env cfg ops l rule: perform.induct)
     (simp_all add: guarded_sweep guarded_spawn guarded_cleanup)

text \<open>C19: whatever the commands answer, the resource limits of a jail are removed only when the last
  successful look at the list of jails, dying ones included, did not show it and no jail of that name
  has been created since.\<close>

theorem limits_outlive_the_jail:
  "\<forall>i < length (perform env cfg ops []). \<forall>name.
     fst (perform env cfg ops [] ! i) = rctl_remove name
       \<longrightarrow> seen_absent name (take i (perform env cfg ops []))"
  using guarded_perform [of "[]" env cfg ops] by (simp add: guarded_def)

definition sample_config :: jail_config where
  "sample_config = default_jail\<lparr>jc_template := ''z/t@r'', jc_dataset_prefix := ''z/s-'', jc_path_prefix := ''/j'',
     jc_memory := ''64M''\<rparr>"

definition rules_left :: env where
  "rules_left l a = (if a = jls then Exited True [] else Exited True ''x'')"

theorem limits_outlive_the_jail_witness:
  "seen_absent ''s-7'' (take 4 (perform rules_left sample_config [Cleanup ''7''] []))
    \<and> fst (perform rules_left sample_config [Cleanup ''7''] [] ! 4) = rctl_remove ''s-7''"
proof -
  have "4 < length (perform rules_left sample_config [Cleanup ''7''] [])"
    "fst (perform rules_left sample_config [Cleanup ''7''] [] ! 4) = rctl_remove ''s-7''"
    by code_simp+
  with limits_outlive_the_jail [of rules_left sample_config "[Cleanup ''7'']"] show ?thesis by blast
qed

section \<open>No shell outside a limited jail\<close>

lemma run_all_log:
  "run_all env as l = (ok, l') \<Longrightarrow>
   \<exists>es. l' = l @ es \<and> map fst es = take (length es) as \<and> (\<forall>e \<in> set (butlast es). succeeded (snd e))
      \<and> (ok \<longrightarrow> length es = length as \<and> (\<forall>e \<in> set es. succeeded (snd e)))"
proof (induction as arbitrary: l)
  case (Cons a as)
  show ?case
  proof (cases "succeeded (env l a)")
    case True
    with Cons.prems have "run_all env as (l @ [(a, env l a)]) = (ok, l')" by (simp add: act_eq)
    from Cons.IH [OF this] obtain es where es: "l' = (l @ [(a, env l a)]) @ es" "map fst es = take (length es) as"
      "\<forall>e \<in> set (butlast es). succeeded (snd e)" "ok \<longrightarrow> length es = length as \<and> (\<forall>e \<in> set es. succeeded (snd e))"
      by blast
    with True show ?thesis by (intro exI [of _ "(a, env l a) # es"]) auto
  next
    case False
    with Cons.prems show ?thesis by (intro exI [of _ "[(a, env l a)]"]) (auto simp: act_eq)
  qed
qed simp

definition done_in :: "log \<Rightarrow> action \<Rightarrow> bool" where
  "done_in l a \<longleftrightarrow> (\<exists>r. (a, r) \<in> set l \<and> succeeded r)"

lemma done_in_append [simp]: "done_in (l @ m) a \<longleftrightarrow> done_in l a \<or> done_in m a"
  by (auto simp: done_in_def)

text \<open>Done since the log was \<open>l\<close>.\<close>

definition done_since :: "log \<Rightarrow> log \<Rightarrow> action \<Rightarrow> bool" where
  "done_since l m a \<longleftrightarrow> (\<exists>es. m = l @ es \<and> done_in es a)"

lemma run_all_done:
  assumes "run_all env as l1 = (True, l')" "a \<in> set as" "l1 = l @ es1"
  shows "done_since l l' a"
proof -
  from run_all_log [OF assms(1)] obtain es where es: "l' = l1 @ es" "map fst es = as" "\<forall>e \<in> set es. succeeded (snd e)"
    by auto
  with assms(2) have "done_in es a" by (force simp: done_in_def)
  with es(1) assms(3) show ?thesis by (auto simp: done_since_def)
qed

text \<open>What confines a shell: a clone of its own with a quota, a jail without network or privileges,
  and the limits on memory, processes and processor time.\<close>

definition confinement :: "jail_config \<Rightarrow> nat \<Rightarrow> string \<Rightarrow> action list" where
  "confinement cfg osr sid =
     clone_actions cfg sid @ [Run ''jail'' (jail_parameters cfg osr sid)] @ rctl_add cfg sid"

definition no_fork :: "log \<Rightarrow> bool" where
  "no_fork l \<longleftrightarrow> Fork \<notin> fst ` set l"

lemma no_fork_simps [simp]:
  "no_fork []" "no_fork (l @ m) \<longleftrightarrow> no_fork l \<and> no_fork m" "no_fork (e # l) \<longleftrightarrow> fst e \<noteq> Fork \<and> no_fork l"
  by (auto simp: no_fork_def)

lemma no_fork_map: "no_fork l \<longleftrightarrow> Fork \<notin> set (map fst l)"
  by (simp add: no_fork_def)

lemma all_done_in:
  assumes "map fst xs = as" "\<forall>x \<in> set xs. succeeded (snd x)" "a \<in> set as"
  shows "done_in xs a"
  using assms by (fastforce simp: done_in_def)

text \<open>The entries that an operation appends.\<close>

definition extends :: "log \<Rightarrow> log \<Rightarrow> bool" where
  "extends l l' \<longleftrightarrow> (\<exists>es. l' = l @ es \<and> no_fork es)"

lemma extends_refl [intro, simp]: "extends l l"
  by (auto simp: extends_def)

lemma extends_trans: "extends l m \<Longrightarrow> extends m n \<Longrightarrow> extends l n"
  by (auto simp: extends_def)

lemma extends_act: "a \<noteq> Fork \<Longrightarrow> extends l (l @ [(a, r)])"
  by (auto simp: extends_def)

lemma extends_done: "extends m n \<Longrightarrow> done_since l m a \<Longrightarrow> done_since l n a"
  by (fastforce simp: extends_def done_since_def)

lemma extends_run_all: "run_all env as l = (ok, l') \<Longrightarrow> Fork \<notin> set as \<Longrightarrow> extends l l'"
proof -
  assume "run_all env as l = (ok, l')" and no: "Fork \<notin> set as"
  from run_all_log [OF this(1)] obtain es where es: "l' = l @ es" "map fst es = take (length es) as" by blast
  then have "no_fork es" using no by (metis no_fork_def set_map in_set_takeD)
  with es show ?thesis by (auto simp: extends_def)
qed

lemma extends_two: "a \<noteq> Fork \<Longrightarrow> b \<noteq> Fork \<Longrightarrow> extends l (l @ [(a, r), (b, s)])"
  by (auto simp: extends_def)

lemma extends_running: "running_jail_names env l = (q, l') \<Longrightarrow> extends l l'"
  using running_jail_names_log(1) by (fastforce simp: jls_def intro: extends_act)

lemma extends_clear: "clear_rctl_rules env name l = (q, l') \<Longrightarrow> extends l l'"
  by (auto simp: clear_rctl_rules_def act_eq rctl_remove_def intro!: extends_act extends_two
      split: command_answer.splits bool.splits if_splits)

lemma append_same_length: "xs @ u # us = ys @ v # vs \<Longrightarrow> length xs = length ys \<Longrightarrow> xs = ys \<and> u = v \<and> us = vs"
  by simp

text \<open>Where the fork is, everything that confines the shell has been done.\<close>

lemma spawn_inner_fork:
  assumes "spawn_inner env cfg osr sid l = (ok, l')"
  obtains (none) "extends l l'"
  | (fork) m r es where "extends l m" "l' = m @ (Fork, r) # es" "no_fork es"
      "\<forall>a \<in> set (confinement cfg osr sid). done_since l m a"
proof -
  obtain ok1 l1 where 1: "run_all env (clone_actions cfg sid) l = (ok1, l1)" by force
  define l2 where "l2 = snd (run env ''zfs'' [''mount'', dataset_of cfg sid] l1)"
  obtain ok3 l3 where 3: "run_all env [Is_dir (path_of_jail cfg sid), Create_dir_all (path_of_jail cfg sid @ ''/dev'')] l2
      = (ok3, l3)" by force
  define l4 where "l4 = snd (act env (devfs_mount cfg sid) l3)"
  obtain ok5 l5 where 5: "run_all env [Run ''jail'' (jail_parameters cfg osr sid)] l4 = (ok5, l5)" by force
  obtain jid l6 where 6: "jail_jid env (name_of_jail sid) l5 = (jid, l6)" by force
  have e1: "extends l l1" using extends_run_all [OF 1] by (simp add: clone_actions_def)
  have e2: "extends l1 l2" by (simp add: l2_def run_eq extends_act)
  have e3: "extends l2 l3" using extends_run_all [OF 3] by simp
  have e4: "extends l3 l4" by (simp add: l4_def devfs_mount_def extends_act)
  have e5: "extends l4 l5" using extends_run_all [OF 5] by simp
  have e6: "extends l5 l6" using 6 by (auto simp: jail_jid_def act_eq intro: extends_act split: command_answer.splits bool.splits)
  have all: "extends l l1" "extends l l3" "extends l l5" "extends l l6"
    using e1 e2 e3 e4 e5 e6 by (meson extends_trans)+
  have late: "extends l1 l6" using e2 e3 e4 e5 e6 by (meson extends_trans)
  show thesis
  proof (cases "ok1 \<and> ok3 \<and> ok5 \<and> jid \<noteq> None")
    case False
    with assms 1 3 5 6 all show thesis
      by (intro none) (auto simp: spawn_inner_def l2_def l4_def split: bool.splits option.splits)
  next
    case True
    then obtain j where oks: "ok1" "ok3" "ok5" "jid = Some j" by auto
    let ?as = "rctl_add cfg sid @ [Prepare (path_of_jail cfg sid), Fork, Set_nonblocking]"
    have run: "run_all env ?as l6 = (ok, l')"
      using assms 1 3 5 6 oks by (simp add: spawn_inner_def l2_def l4_def)
    from run_all_log [OF this] obtain es where es: "l' = l6 @ es" "map fst es = take (length es) ?as"
      "\<forall>e \<in> set (butlast es). succeeded (snd e)" by blast
    have len: "length (rctl_add cfg sid) = 4" by (simp add: rctl_add_def limits_def)
    show thesis
    proof (cases "length es \<le> 5")
      case True
      then have "take (length es) ?as = take (length es) (rctl_add cfg sid @ [Prepare (path_of_jail cfg sid)])"
        using len by (simp add: take_Cons')
      with es(2) have "fst ` set es \<subseteq> set (rctl_add cfg sid @ [Prepare (path_of_jail cfg sid)])"
        by (metis set_map set_take_subset)
      then have "no_fork es" by (auto simp: no_fork_def rctl_add_def)
      with es(1) all(4) show thesis by (intro none) (meson extends_def extends_trans)
    next
      case False
      then obtain xs e ys where split: "es = xs @ e # ys" and xs: "length xs = 5"
        using id_take_nth_drop [of 5 es] by (metis length_take min.absorb2 nat_le_linear not_le order.strict_implies_order)
      have "map fst xs @ fst e # map fst ys = take (6 + length ys) ?as"
        using es(2) xs by (simp add: split)
      also have "\<dots> = (rctl_add cfg sid @ [Prepare (path_of_jail cfg sid)]) @ Fork # take (length ys) [Set_nonblocking]"
        using len by simp
      finally have both: "map fst xs @ fst e # map fst ys =
        (rctl_add cfg sid @ [Prepare (path_of_jail cfg sid)]) @ Fork # take (length ys) [Set_nonblocking]" .
      have "length (map fst xs) = length (rctl_add cfg sid @ [Prepare (path_of_jail cfg sid)])"
        using xs len by simp
      from append_same_length [OF both this]
      have fsts: "map fst xs = rctl_add cfg sid @ [Prepare (path_of_jail cfg sid)]" "fst e = Fork"
        "map fst ys = take (length ys) [Set_nonblocking]" by blast+
      have "\<forall>x \<in> set xs. succeeded (snd x)" using es(3) by (simp add: split butlast_append split: if_splits)
      then have "done_in xs a" if "a \<in> set (rctl_add cfg sid)" for a
        using that by (intro all_done_in [OF fsts(1)]) simp_all
      moreover have "done_since l l6 a" if "a \<in> set (clone_actions cfg sid)" for a
        using run_all_done [of env "clone_actions cfg sid" l l1 a l "[]"] 1 oks(1) that extends_done [OF late] by simp
      moreover obtain es4 where "l4 = l @ es4"
        using extends_trans [OF all(2) e4] by (auto simp: extends_def)
      then have "done_since l l6 (Run ''jail'' (jail_parameters cfg osr sid))"
        using run_all_done [OF 5 [unfolded eqTrueI [OF oks(3)]]] extends_done [OF e6] by simp
      moreover obtain es6 where "l6 = l @ es6" using all(4) by (auto simp: extends_def)
      ultimately have "\<forall>a \<in> set (confinement cfg osr sid). done_since l (l6 @ xs) a"
        by (auto simp: confinement_def done_since_def)
      moreover have "no_fork xs" by (simp add: no_fork_map fsts(1)) (auto simp: rctl_add_def)
      then have "extends l (l6 @ xs)" using all(4) by (meson extends_def extends_trans)
      moreover have "no_fork ys" by (simp add: no_fork_map fsts(3) take_Cons')
      moreover have "l' = (l6 @ xs) @ (Fork, snd e) # ys" using es(1) split fsts(2) by (cases e) simp
      ultimately show thesis by (intro fork) 
    qed
  qed
qed

lemma extends_wait: "wait_loop env name n l = (q, l') \<Longrightarrow> extends l l'"
proof (induction n arbitrary: l)
  case (Suc n)
  obtain r l1 where r: "running_jail_names env l = (r, l1)" by force
  note e1 = extends_running [OF r]
  show ?case
  proof (cases r)
    case None
    with Suc.prems r e1 show ?thesis by simp
  next
    case (Some names)
    have "extends l1 (if 0 < n then snd (act env Sleep l1) else l1)" by (auto intro: extends_act)
    with Suc.IH [of "if 0 < n then snd (act env Sleep l1) else l1"] Suc.prems r Some e1 show ?thesis
      by (auto split: if_splits dest: extends_trans intro: extends_trans)
  qed
qed simp

lemma extends_destroy: "extends l (destroy_matching env retired ds l)"
  by (induction ds arbitrary: l) (auto simp: run_eq intro: extends_trans [OF extends_act])

lemma extends_templates: "extends l (cleanup_retired_templates env cfg l)"
proof -
  have "extends (l @ [(zfs_list p, r)]) (destroy_matching env P ds (destroy_matching env Q ds (l @ [(zfs_list p, r)])))"
    for p r P Q ds
    using extends_destroy extends_trans by blast
  moreover have "extends l (l @ [(zfs_list p, r)])" for p r by (simp add: zfs_list_def extends_act)
  ultimately have *: "extends l (l @ [(zfs_list p, r)])"
    "extends l (destroy_matching env P ds (destroy_matching env Q ds (l @ [(zfs_list p, r)])))" for p r P Q ds
    using extends_trans by blast+
  show ?thesis
    by (auto simp: cleanup_retired_templates_def act_eq Let_def *
        split: option.splits prod.splits command_answer.splits bool.splits)
qed

lemma extends_cleanup: "extends l (cleanup_sync env cfg sid l)"
proof -
  define l1 where "l1 = snd (run env ''jail'' [''-r'', name_of_jail sid] (snd (run env ''umount'' [''-f'', path_of_jail cfg sid @ ''/dev''] l)))"
  obtain r l2 where w: "wait_for_jail_removal env (name_of_jail sid) l1 = (r, l2)" by force
  define l3 where "l3 = (case r of Some True \<Rightarrow> snd (clear_rctl_rules env (name_of_jail sid) l2) | _ \<Rightarrow> l2)"
  define l4 where "l4 = snd (act env (Remove_dir (path_of_jail cfg sid)) (snd (run env ''zfs'' [''destroy'', ''-f'', dataset_of cfg sid] l3)))"
  have "extends l l1" by (simp add: l1_def run_eq extends_two)
  moreover have "extends l1 l2" using w by (simp add: wait_for_jail_removal_def extends_wait)
  moreover have "extends l2 l3"
    by (cases "clear_rctl_rules env (name_of_jail sid) l2")
       (auto simp: l3_def split: option.split bool.split intro: extends_clear)
  moreover have "extends l3 l4" by (simp add: l4_def run_eq extends_two)
  moreover have "cleanup_sync env cfg sid l = cleanup_retired_templates env cfg l4"
    using w by (auto simp: cleanup_sync_def Let_def l1_def l3_def l4_def split: option.splits bool.splits)
  ultimately show ?thesis using extends_templates extends_trans by metis
qed

lemma extends_append: "extends (l @ es) l' \<Longrightarrow> \<exists>fs. l' = l @ es @ fs \<and> no_fork fs"
  by (auto simp: extends_def)

text \<open>A fork among the entries that \<open>spawn_sync\<close> adds is the one of \<open>spawn_inner\<close>.\<close>

lemma fork_position:
  assumes "no_fork xs" "no_fork ys" "m @ (Fork, r) # ys = n @ (Fork, s) # zs" "m = l @ xs" "length l \<le> length n"
  shows "n = m"
proof -
  have "Fork \<notin> set (map fst xs)" "Fork \<notin> set (map fst ys)" using assms(1,2) by (simp_all add: no_fork_map)
  moreover have "take (length l) (m @ (Fork, r) # ys) = take (length l) (n @ (Fork, s) # zs)"
    using assms(3) by simp
  then have "take (length l) n = l" using assms(4,5) by simp
  then obtain k where n: "n = l @ k" by (metis append_take_drop_id)
  with assms(3,4) have "xs @ (Fork, r) # ys = k @ (Fork, s) # zs" by simp
  then obtain us where "xs = k @ us \<and> us @ (Fork, r) # ys = (Fork, s) # zs \<or> xs @ us = k \<and> (Fork, r) # ys = us @ (Fork, s) # zs"
    unfolding append_eq_append_conv2 by blast
  ultimately have "k = xs" by (cases us) auto
  with n assms(4) show ?thesis by simp
qed

text \<open>C18: whatever the commands answer, when \<open>spawn_sync\<close> forks, then before that, in this very call,
  the clone was made writable under its quota and mounted, the jail was created with all its
  restrictions, and the four limits were set, each with success.\<close>

theorem no_unconfined_fork:
  assumes "snd (spawn_sync env cfg osr sid l) = m @ (Fork, r) # rest" "length l \<le> length m"
  shows "\<forall>a \<in> set (confinement cfg osr sid). done_in (drop (length l) m) a"
proof -
  obtain q l1 where q: "running_jail_names env l = (q, l1)" by force
  obtain c l2 where c: "clear_rctl_rules env (name_of_jail sid) l1 = (c, l2)" by force
  obtain ok l3 where i: "spawn_inner env cfg osr sid l2 = (ok, l3)" by force
  have l2: "extends l l2" using extends_running [OF q] extends_clear [OF c] by (rule extends_trans)
  have no: "\<not> extends l (snd (spawn_sync env cfg osr sid l))"
  proof
    assume "extends l (snd (spawn_sync env cfg osr sid l))"
    then obtain es where es: "m @ (Fork, r) # rest = l @ es" "no_fork es" using assms(1) by (auto simp: extends_def)
    then have "Fork \<in> set (map fst es)" using assms(2) by (auto simp: append_eq_append_conv2)
    with es(2) show False by (simp add: no_fork_map)
  qed
  define l4 where "l4 = (if ok then l3 else cleanup_sync env cfg sid l3)"
  have l4: "extends l3 l4" using extends_cleanup by (auto simp: l4_def)
  have result: "snd (spawn_sync env cfg osr sid l) = l4"
    using no q c i l2 extends_running [OF q] by (auto simp: spawn_sync_def l4_def split: option.splits if_splits)
  from i show ?thesis
  proof (cases rule: spawn_inner_fork)
    case none
    with no result l2 l4 have False using extends_trans by metis
    then show ?thesis ..
  next
    case (fork m' r' es)
    obtain es1 where es1: "l2 = l @ es1" "no_fork es1" using l2 by (auto simp: extends_def)
    obtain es2 where es2: "m' = l2 @ es2" "no_fork es2" using fork(1) by (auto simp: extends_def)
    obtain es3 where es3: "l4 = l3 @ es3" "no_fork es3" using l4 by (auto simp: extends_def)
    have "m' @ (Fork, r') # (es @ es3) = m @ (Fork, r) # rest"
      using assms(1) result es3(1) fork(2) by simp
    then have "m = m'"
      by (rule fork_position [of "es1 @ es2" "es @ es3" m' r' m r rest l, rotated 2])
         (use es1 es2 es3 fork(3) assms(2) in simp_all)
    show ?thesis
    proof
      fix a assume "a \<in> set (confinement cfg osr sid)"
      then have "done_since l2 m' a" using fork(4) by blast
      with es1 es2 \<open>m = m'\<close> show "done_in (drop (length l) m) a" by (auto simp: done_since_def)
    qed
  qed
qed

definition all_well :: env where
  "all_well l a = (if a = jls then Exited True [] else Exited True ''7'')"

theorem no_unconfined_fork_witness:
  "Run ''rctl'' [''-a'', ''jail:s-7:memoryuse:deny=64M''] \<in> set (confinement sample_config 1500000 ''7'')
    \<and> done_in (take 18 (snd (spawn_sync all_well sample_config 1500000 ''7'' [])))
        (Run ''rctl'' [''-a'', ''jail:s-7:memoryuse:deny=64M''])"
proof -
  let ?l = "snd (spawn_sync all_well sample_config 1500000 ''7'' [])"
  have fork: "?l ! 18 = (Fork, Exited True ''7'')" and len: "18 < length ?l" by code_simp+
  have conf: "Run ''rctl'' [''-a'', ''jail:s-7:memoryuse:deny=64M''] \<in> set (confinement sample_config 1500000 ''7'')"
    by code_simp
  have "?l = take 18 ?l @ (Fork, Exited True ''7'') # drop (Suc 18) ?l"
    using id_take_nth_drop [OF len] fork by simp
  from no_unconfined_fork [OF this] conf show ?thesis by simp
qed

end
