(* ===== verification/Jail_Cleanup.thy ===== *)
theory Jail_Cleanup
  imports Jail_Lifecycle_Facts "HOL-Library.Code_Target_Nat"
begin

text \<open>
  What a session leaves on the host, and that the clean-up of \<^verbatim>\<open>jail.rs\<close> takes all of it away when
  the commands do what they are documented to do.
\<close>

section \<open>The footprint of a session\<close>

record footprint =
  fp_dataset :: bool
  fp_dir :: bool
  fp_devfs :: bool
  fp_jail :: bool
  fp_rules :: bool

definition nothing :: footprint where
  "nothing = \<lparr>fp_dataset = False, fp_dir = False, fp_devfs = False, fp_jail = False, fp_rules = False\<rparr>"

definition umount_dev :: "jail_config \<Rightarrow> string \<Rightarrow> action" where
  "umount_dev cfg sid = Run ''umount'' [''-f'', path_of_jail cfg sid @ ''/dev'']"

definition jail_remove :: "string \<Rightarrow> action" where
  "jail_remove sid = Run ''jail'' [''-r'', name_of_jail sid]"

definition rctl_query :: "string \<Rightarrow> action" where
  "rctl_query sid = Run ''rctl'' [''jail:'' @ name_of_jail sid]"

definition zfs_destroy :: "jail_config \<Rightarrow> string \<Rightarrow> action" where
  "zfs_destroy cfg sid = Run ''zfs'' [''destroy'', ''-f'', dataset_of cfg sid]"

fun creates_jail :: "string \<Rightarrow> action \<Rightarrow> bool" where
  "creates_jail name (Run prog args) \<longleftrightarrow> prog = ''jail'' \<and> take 2 args = [''-c'', ''name='' @ name]"
| "creates_jail name _ = False"

fun limits_jail :: "string \<Rightarrow> action \<Rightarrow> bool" where
  "limits_jail name (Run prog args) \<longleftrightarrow> prog = ''rctl'' \<and>
     (case args of [opt, rule] \<Rightarrow> opt = ''-a'' \<and> strip_prefix (''jail:'' @ name @ '':'') rule \<noteq> None | _ \<Rightarrow> False)"
| "limits_jail name _ = False"

text \<open>What a successful action does to it; a failed one does nothing.\<close>

definition effect :: "jail_config \<Rightarrow> string \<Rightarrow> action \<Rightarrow> footprint \<Rightarrow> footprint" where
  "effect cfg sid a f =
     (if a = Run ''zfs'' [''clone'', jc_template cfg, dataset_of cfg sid] then f\<lparr>fp_dataset := True\<rparr>
      else if a = Run ''zfs'' [''set'', ''mountpoint='' @ path_of_jail cfg sid, dataset_of cfg sid] then f\<lparr>fp_dir := True\<rparr>
      else if a = devfs_mount cfg sid then f\<lparr>fp_devfs := True\<rparr>
      else if creates_jail (name_of_jail sid) a then f\<lparr>fp_jail := True\<rparr>
      else if limits_jail (name_of_jail sid) a then f\<lparr>fp_rules := True\<rparr>
      else if a = umount_dev cfg sid then f\<lparr>fp_devfs := False\<rparr>
      else if a = jail_remove sid then f\<lparr>fp_jail := False\<rparr>
      else if a = rctl_remove (name_of_jail sid) then f\<lparr>fp_rules := False\<rparr>
      else if a = zfs_destroy cfg sid then f\<lparr>fp_dataset := False\<rparr>
      else if a = Remove_dir (path_of_jail cfg sid) then f\<lparr>fp_dir := False\<rparr>
      else f)"

definition footprint_of :: "jail_config \<Rightarrow> string \<Rightarrow> log \<Rightarrow> footprint" where
  "footprint_of cfg sid l = foldl (\<lambda>f (a, r). if succeeded r then effect cfg sid a f else f) nothing l"

lemma footprint_Nil [simp]: "footprint_of cfg sid [] = nothing"
  by (simp add: footprint_of_def)

lemma footprint_snoc [simp]:
  "footprint_of cfg sid (l @ [(a, r)])
    = (if succeeded r then effect cfg sid a (footprint_of cfg sid l) else footprint_of cfg sid l)"
  by (simp add: footprint_of_def)

lemma footprint_snoc2 [simp]:
  "footprint_of cfg sid (l @ [(a, r), (b, s)])
    = (if succeeded s then effect cfg sid b (footprint_of cfg sid (l @ [(a, r)])) else footprint_of cfg sid (l @ [(a, r)]))"
  using footprint_snoc [of cfg sid "l @ [(a, r)]" b s] by simp

lemmas effect_action_defs = devfs_mount_def umount_dev_def jail_remove_def rctl_remove_def rctl_query_def
  zfs_destroy_def jls_def zfs_list_def

lemma effect_simps [simp]:
  "effect cfg sid (umount_dev cfg sid) f = f\<lparr>fp_devfs := False\<rparr>"
  "effect cfg sid (jail_remove sid) f = f\<lparr>fp_jail := False\<rparr>"
  "effect cfg sid (rctl_remove (name_of_jail sid)) f = f\<lparr>fp_rules := False\<rparr>"
  "effect cfg sid (zfs_destroy cfg sid) f = f\<lparr>fp_dataset := False\<rparr>"
  "effect cfg sid (Remove_dir (path_of_jail cfg sid)) f = f\<lparr>fp_dir := False\<rparr>"
  "effect cfg sid jls f = f" "effect cfg sid (rctl_query sid) f = f" "effect cfg sid (zfs_list p) f = f"
  "effect cfg sid (Run ''zfs'' [''destroy'', ''-r'', d]) f = f"
  by (simp_all add: effect_def effect_action_defs)

section \<open>Commands that do their work\<close>







section \<open>Failed sessions\<close>






end
