(* ===== verification/Jail_Reads.thy ===== *)
theory Jail_Reads
  imports Jail_Snapshot_Facts Jail_Session_Facts
begin

text \<open>
  The reads of articles in a terminal, from the kernel's events over the queue of a session to the
  batches that statd counts.
\<close>

section \<open>One read per article\<close>


definition left_over :: "(string \<times> string) option list \<Rightarrow> (string \<times> string) list" where
  "left_over files = concat (map (\<lambda>f. case f of None \<Rightarrow> [] | Some x \<Rightarrow> [x]) files)"

lemma left_over_simps [simp]:
  "left_over [] = []" "left_over (Some x # fs) = x # left_over fs" "left_over (None # fs) = left_over fs"
  "left_over (fs @ gs) = left_over fs @ left_over gs"
  by (simp_all add: left_over_def)





section \<open>Batches that statd counts\<close>





end
