(* ===== verification/Session_Client.thy ===== *)
theory Session_Client
  imports Jail_Relay
begin

text \<open>
  \<^verbatim>\<open>crates/servers/core/src/client.rs\<close>: the handshake by which a gateway opens a session, and that it
  and the one of jaild understand each other.
\<close>

section \<open>Opening a session\<close>

text \<open>The encoder gets the token besides the fields that jaild reads (\<open>fresh\<close> is always false).\<close>

definition open_frame :: "(string option \<Rightarrow> jail_open \<Rightarrow> bytes) \<Rightarrow> string option \<Rightarrow> jail_open \<Rightarrow> frame" where
  "open_frame to_json token req = frame_json (to_json token) OPEN req"

definition client_request :: "ip_addr \<Rightarrow> u16 \<Rightarrow> u16 \<Rightarrow> string list \<Rightarrow> jail_open" where
  "client_request peer cols rows caps =
     \<lparr>jo_cols = cols, jo_rows = rows, jo_peer_ip = Some (show_ip peer), jo_caps = caps\<rparr>"

datatype session_open_error = Send_failed | Read_failed | Bad_json | Refused_with string | Unexpected_frame u8

text \<open>\<open>open_on\<close>: \<open>sent\<close> is whether the request goes out, \<open>first\<close> the first frame that comes back.\<close>

definition open_on ::
  "(bytes \<Rightarrow> unit + string) \<Rightarrow> (bytes \<Rightarrow> unit + string) \<Rightarrow> bool \<Rightarrow> frame option \<Rightarrow> session_open_error + string"
where
  "open_on opened_json closed_json sent first =
     (if \<not> sent then Inl Send_failed
      else case first of
          None \<Rightarrow> Inl Read_failed
        | Some f \<Rightarrow>
            if fr_kind f = OPENED
            then (case frame_parse opened_json f of Inl _ \<Rightarrow> Inl Bad_json | Inr sid \<Rightarrow> Inr sid)
            else if fr_kind f = CLOSED
            then (case frame_parse closed_json f of Inl _ \<Rightarrow> Inl Bad_json | Inr reason \<Rightarrow> Inl (Refused_with reason))
            else Inl (Unexpected_frame (fr_kind f)))"

text \<open>The handshake of the client with jaild: for a reader with an IPv4 address the session is
  asked for with the reader's own address and size and with the capabilities that jaild knows, and
  the client gets exactly what the creation of the session returned, its id or its reason.\<close>

theorem handshake_agrees:
  assumes "req = client_request (V4 a b c d) cols rows caps"
    and "open_json (to_json token req) = Inr req"
    and "creation (V4 a b c d) cols rows (filter_caps caps) = result"
    and "case result of Inl e \<Rightarrow> read_closed (closed_json e) = Inr e | Inr sid \<Rightarrow> read_opened (opened_json sid) = Inr sid"
  shows "open_on read_opened read_closed True
      (fst (handshake open_json closed_json opened_json (First (open_frame to_json token req)) creation))
    = (case result of Inl e \<Rightarrow> Inl (Refused_with e) | Inr sid \<Rightarrow> Inr sid)"
proof -
  have peer: "open_peer req = V4 a b c d"
    unfolding open_peer_def assms(1) client_request_def by (simp only: jail_open.simps option.case parse_ip_show_v4)
  have "read_open_frame open_json (First (open_frame to_json token req)) = Some req"
    using assms(2) by (simp add: read_open_frame_def open_frame_def frame_json_def frame_parse_def)
  moreover have "jo_cols req = cols" "jo_rows req = rows" "jo_caps req = caps"
    by (simp_all add: assms(1) client_request_def)
  ultimately show ?thesis
    using assms(3,4) peer
    by (cases result) (simp_all add: handshake_def open_on_def frame_json_def frame_parse_def kind_defs)
qed

theorem handshake_agrees_witness:
  "open_on (\<lambda>b. Inr ''00000001'') (\<lambda>b. Inr ''quota: server full'') True
     (fst (handshake (\<lambda>b. Inr (client_request (V4 192 0 2 1) 80 24 [''img-sixel''])) (\<lambda>e. [1]) (\<lambda>s. [2])
        (First (open_frame (\<lambda>t r. [3]) None (client_request (V4 192 0 2 1) 80 24 [''img-sixel''])))
        (\<lambda>ip cols rows caps. if caps = [] then Inr ''00000001'' else Inl ''caps'')))
   = Inr ''00000001''"
  by (subst handshake_agrees [where a = 192 and b = 0 and c = 2 and d = 1 and result = "Inr ''00000001''", OF refl])
     (simp_all add: filter_caps_def)

end
