(* ===== verification/Ssh_Server.thy ===== *)
theory Ssh_Server
  imports Rust_Prelude
begin

text \<open>
  The SSH gateway, \<^verbatim>\<open>crates/servers/ssh/src/lib.rs\<close>: one connection as a sequence of the events that
  the SSH library reports in, a list of actions out.
\<close>

section \<open>One connection\<close>

text \<open>\<open>clamp_winsize\<close>: from 1 to the largest 16-bit number.\<close>

definition clamp_winsize :: "u32 \<Rightarrow> u32 \<Rightarrow> u16 \<times> u16" where
  "clamp_winsize cols rows =
     (let clamp = (\<lambda>n :: u32. ucast (if n < 1 then 1 else if 0xFFFF < n then 0xFFFF else n) :: u16)
      in (clamp cols, clamp rows))"

text \<open>What the library reports; a shell request comes with what \<open>SessionClient::open\<close> returns for it,
  data with whether the session still takes it.\<close>

datatype ssh_event = Auth_none string | Auth_password string | Channel_open_session nat
  | Pty_request nat u32 u32 | Shell_request nat "string + string" | Window_change nat u32 u32
  | Channel_data nat bytes bool | Channel_eof nat | Channel_close nat | Exec_request nat | Subsystem_request nat

datatype ssh_action = Auth_accept | Auth_reject | Accept_channel nat | Channel_success nat | Channel_failure nat
  | Open_with u16 u16 | Drop_session string | Resize_session string u16 u16 | Type_into string bytes
  | Pump_to nat string | Say nat string

record ssh_handler =
  sh_user :: string
  sh_winsize :: "u16 \<times> u16"
  sh_active :: "string option"

definition new_ssh_client :: "string \<Rightarrow> ssh_handler" where
  "new_ssh_client user = \<lparr>sh_user = user, sh_winsize = (80, 24), sh_active = None\<rparr>"

definition drop_session :: "ssh_handler \<Rightarrow> ssh_action list \<times> ssh_handler" where
  "drop_session h = ((case sh_active h of None \<Rightarrow> [] | Some sid \<Rightarrow> [Drop_session sid]), h\<lparr>sh_active := None\<rparr>)"

definition check_user :: "ssh_handler \<Rightarrow> string \<Rightarrow> ssh_action" where
  "check_user h user = (if user = sh_user h then Auth_accept else Auth_reject)"

text \<open>\<open>shell_request\<close>: storing the new session drops the handle of the one before.\<close>

definition shell_request :: "nat \<Rightarrow> string + string \<Rightarrow> ssh_handler \<Rightarrow> ssh_action list \<times> ssh_handler" where
  "shell_request ch opened h =
     (case opened of
        Inr sid \<Rightarrow>
          (Open_with (fst (sh_winsize h)) (snd (sh_winsize h)) # Pump_to ch sid # fst (drop_session h) @ [Channel_success ch],
           h\<lparr>sh_active := Some sid\<rparr>)
      | Inl e \<Rightarrow>
          ([Open_with (fst (sh_winsize h)) (snd (sh_winsize h)),
            Say ch ([CHR 0x1B] @ ''[31m[cannot create session: '' @ e @ '']'' @ [CHR 0x1B] @ ''[0m'' @ [CHR 0x0D, CHR 0x0A]),
            Channel_failure ch], h))"

definition window_change_request :: "u32 \<Rightarrow> u32 \<Rightarrow> ssh_handler \<Rightarrow> ssh_action list \<times> ssh_handler" where
  "window_change_request cols rows h =
     (let sz = clamp_winsize cols rows
      in ((case sh_active h of None \<Rightarrow> [] | Some sid \<Rightarrow> [Resize_session sid (fst sz) (snd sz)]), h\<lparr>sh_winsize := sz\<rparr>))"

text \<open>\<open>data\<close>: the channel it came on is not looked at.\<close>

definition channel_data :: "bytes \<Rightarrow> bool \<Rightarrow> ssh_handler \<Rightarrow> ssh_action list \<times> ssh_handler" where
  "channel_data b taken h =
     (case sh_active h of
        None \<Rightarrow> ([], h)
      | Some sid \<Rightarrow> if taken then ([Type_into sid b], h) else drop_session h)"

definition ssh_step :: "ssh_event \<Rightarrow> ssh_handler \<Rightarrow> ssh_action list \<times> ssh_handler" where
  "ssh_step e h =
     (case e of
        Auth_none user \<Rightarrow> ([check_user h user], h)
      | Auth_password user \<Rightarrow> ([check_user h user], h)
      | Channel_open_session ch \<Rightarrow> ([Accept_channel ch], h)
      | Pty_request ch cols rows \<Rightarrow> ([Channel_success ch], h\<lparr>sh_winsize := clamp_winsize cols rows\<rparr>)
      | Shell_request ch opened \<Rightarrow> shell_request ch opened h
      | Window_change ch cols rows \<Rightarrow> window_change_request cols rows h
      | Channel_data ch b taken \<Rightarrow> channel_data b taken h
      | Channel_eof ch \<Rightarrow> drop_session h
      | Channel_close ch \<Rightarrow> drop_session h
      | Exec_request ch \<Rightarrow> ([Channel_failure ch], h)
      | Subsystem_request ch \<Rightarrow> ([Channel_failure ch], h))"

fun ssh_run :: "ssh_event list \<Rightarrow> ssh_handler \<Rightarrow> ssh_action list \<times> ssh_handler" where
  "ssh_run [] h = ([], h)"
| "ssh_run (e # es) h =
     (case ssh_step e h of (out, h) \<Rightarrow> (case ssh_run es h of (out', h) \<Rightarrow> (out @ out', h)))"

text \<open>The pump of a shell: output to its channel, then the exit status.\<close>

datatype ssh_output = Channel_bytes nat bytes | Exit_status nat nat | Closed_channel nat

fun ssh_pump :: "nat \<Rightarrow> (bytes \<times> bool) list \<Rightarrow> ssh_output list" where
  "ssh_pump ch [] = [Exit_status ch 0, Closed_channel ch]"
| "ssh_pump ch ((b, sent) # rest) = Channel_bytes ch b # (if sent then ssh_pump ch rest else [])"

lemma clamp_winsize_range:
  "0 < fst (clamp_winsize cols rows) \<and> 0 < snd (clamp_winsize cols rows)"
proof -
  have "0 < (ucast (if n < 1 then 1 else if 0xFFFF < n then 0xFFFF else n) :: u16)" for n :: u32
  proof -
    define m where "m = (if n < 1 then 1 else if 0xFFFF < n then 0xFFFF else n)"
    have m: "0 < unat m" "unat m < 2 ^ 16" by (auto simp: m_def word_less_nat_alt)
    then have "unat (ucast m :: u16) = unat m"
      by (simp add: unsigned_ucast_eq take_bit_nat_eq_self_iff)
    with m(1) have "0 < (ucast m :: u16)" by (simp add: word_less_nat_alt)
    then show ?thesis by (simp only: m_def)
  qed
  then show ?thesis by (simp add: clamp_winsize_def Let_def)
qed

text \<open>One connection keeps one session only: when a client opens a second shell on it (another
  channel of the same connection), the first session is dropped, and what is then typed in the
  first channel goes into the session of the second.\<close>

theorem second_shell_takes_over:
  "\<exists>pre. fst (ssh_run [Shell_request ch1 (Inr sid1), Shell_request ch2 (Inr sid2), Channel_data ch1 b True]
        (new_ssh_client user)) = pre @ [Drop_session sid1, Channel_success ch2, Type_into sid2 b]
      \<and> Pump_to ch1 sid1 \<in> set pre \<and> Pump_to ch2 sid2 \<in> set pre"
  by (simp add: ssh_step_def shell_request_def new_ssh_client_def drop_session_def channel_data_def)

end
