(* ===== verification/Ansi_Line.thy ===== *)
theory Ansi_Line
  imports Rust_Text
begin

text \<open>
  The inline layer of \<^verbatim>\<open>content-build\<close> (\<^verbatim>\<open>ansi.rs\<close>): styled segments, the
  greedy line breaking by display columns, and a line as text with SGR and OSC 8 sequences.
  The width of a character is a parameter: it is the crate \<^verbatim>\<open>unicode-width\<close>.
\<close>

unbundle bit_operations_syntax

section \<open>Segments\<close>

definition WIDTH :: nat where
  "WIDTH = 76"

definition BOLD :: u8 where "BOLD = 1"
definition ITALIC :: u8 where "ITALIC = 2"
definition DIM :: u8 where "DIM = 4"
definition CYAN :: u8 where "CYAN = 8"

lemmas style_bits = BOLD_def ITALIC_def DIM_def CYAN_def

definition esc :: "string \<Rightarrow> ustr" where
  "esc s = 27 # u_of s"

definition osc8_open :: "ustr \<Rightarrow> ustr" where
  "osc8_open url = esc '']8;;'' @ url @ [27, 92]"

definition OSC8_CLOSE :: ustr where
  "OSC8_CLOSE = esc '']8;;'' @ [27, 92]"

record seg =
  sg_s :: u8
  sg_t :: ustr
  sg_link :: "ustr option"

definition push_seg_link :: "seg list \<Rightarrow> u8 \<Rightarrow> ustr \<Rightarrow> ustr option \<Rightarrow> seg list" where
  "push_seg_link segs s t link =
     (if t = [] then segs
      else if segs \<noteq> [] \<and> sg_s (last segs) = s \<and> sg_link (last segs) = link
        then butlast segs @ [(last segs)\<lparr>sg_t := sg_t (last segs) @ t\<rparr>]
      else segs @ [\<lparr>sg_s = s, sg_t = t, sg_link = link\<rparr>])"

definition push_seg :: "seg list \<Rightarrow> u8 \<Rightarrow> ustr \<Rightarrow> seg list" where
  "push_seg segs s t = push_seg_link segs s t None"

section \<open>Line breaking\<close>

type_synonym atom = "u8 \<times> ustr option \<times> nat"

abbreviation atom_char :: "atom \<Rightarrow> nat" where
  "atom_char a \<equiv> snd (snd a)"

definition char_width :: "(nat \<Rightarrow> nat option) \<Rightarrow> nat \<Rightarrow> nat" where
  "char_width width c = (case width c of None \<Rightarrow> 0 | Some w \<Rightarrow> w)"

definition columns :: "(nat \<Rightarrow> nat option) \<Rightarrow> atom list \<Rightarrow> nat" where
  "columns width cur = sum_list (map (char_width width \<circ> atom_char) cur)"

definition recompute_break :: "(nat \<Rightarrow> nat option) \<Rightarrow> atom list \<Rightarrow> nat option" where
  "recompute_break width cur =
     fold (\<lambda>idx bp.
         if atom_char (cur ! idx) = 32 then Some idx
         else if idx + 1 < length cur
           \<and> (char_width width (atom_char (cur ! idx)) = 2 \<or> char_width width (atom_char (cur ! (idx + 1))) = 2)
         then Some idx else bp)
       [0..<length cur] None"

record wrapping =
  wr_lines :: "atom list list"
  wr_cur :: "atom list"
  wr_curw :: nat
  wr_break :: "nat option"

text \<open>\<open>split_off(bp + 1)\<close> panics beyond the end of the vector; that is \<open>None\<close>.\<close>

definition break_line :: "(nat \<Rightarrow> nat option) \<Rightarrow> nat option \<Rightarrow> wrapping \<Rightarrow> wrapping option" where
  "break_line width bp st =
     (case bp of
        Some bp \<Rightarrow>
          if length (wr_cur st) < bp + 1 then None
          else let rest = drop (bp + 1) (wr_cur st)
               in Some \<lparr>wr_lines = wr_lines st @ [take (bp + 1) (wr_cur st)], wr_cur = rest,
                        wr_curw = columns width rest, wr_break = recompute_break width rest\<rparr>
      | None \<Rightarrow> Some \<lparr>wr_lines = wr_lines st @ [wr_cur st], wr_cur = [], wr_curw = 0, wr_break = None\<rparr>)"

definition ends_wide :: "(nat \<Rightarrow> nat option) \<Rightarrow> atom list \<Rightarrow> bool" where
  "ends_wide width cur \<longleftrightarrow> cur \<noteq> [] \<and> char_width width (atom_char (last cur)) = 2"

definition make_room :: "(nat \<Rightarrow> nat option) \<Rightarrow> nat \<Rightarrow> nat \<Rightarrow> wrapping \<Rightarrow> wrapping option" where
  "make_room width limit w st =
     (if wr_cur st \<noteq> [] \<and> limit < wr_curw st + w
      then break_line width
             (if ends_wide width (wr_cur st) \<or> w = 2 then Some (length (wr_cur st) - 1) else wr_break st) st
      else Some st)"

definition put_atom :: "(nat \<Rightarrow> nat option) \<Rightarrow> nat \<Rightarrow> u8 \<Rightarrow> ustr option \<Rightarrow> nat \<Rightarrow> wrapping \<Rightarrow> wrapping" where
  "put_atom width w s link c st = st
     \<lparr>wr_break := (if c = 32 then Some (length (wr_cur st))
                    else if wr_cur st \<noteq> [] \<and> (ends_wide width (wr_cur st) \<or> w = 2)
                      then Some (length (wr_cur st) - 1)
                    else wr_break st),
      wr_cur := wr_cur st @ [(s, link, c)],
      wr_curw := wr_curw st + w\<rparr>"

definition wrap_char ::
  "(nat \<Rightarrow> nat option) \<Rightarrow> nat \<Rightarrow> u8 \<Rightarrow> ustr option \<Rightarrow> nat \<Rightarrow> wrapping \<Rightarrow> wrapping option"
where
  "wrap_char width limit s link c st =
     (if c = 10
      then Some \<lparr>wr_lines = wr_lines st @ [wr_cur st], wr_cur = [], wr_curw = 0, wr_break = None\<rparr>
      else let w = char_width width c
           in map_option (put_atom width w s link c) (make_room width limit w st))"

fun wrap_atoms :: "(nat \<Rightarrow> nat option) \<Rightarrow> nat \<Rightarrow> atom list \<Rightarrow> wrapping \<Rightarrow> wrapping option" where
  "wrap_atoms width limit [] st = Some st"
| "wrap_atoms width limit ((s, link, c) # atoms) st =
     (case wrap_char width limit s link c st of
        None \<Rightarrow> None | Some st \<Rightarrow> wrap_atoms width limit atoms st)"

definition seg_atoms :: "seg \<Rightarrow> atom list" where
  "seg_atoms seg = map (\<lambda>c. (sg_s seg, sg_link seg, c)) (sg_t seg)"

definition regroup :: "atom list \<Rightarrow> seg list" where
  "regroup atoms = foldl (\<lambda>line (s, link, c). push_seg_link line s [c] link) [] atoms"

definition wrap_segments :: "(nat \<Rightarrow> nat option) \<Rightarrow> seg list \<Rightarrow> nat \<Rightarrow> seg list list option" where
  "wrap_segments width segs limit =
     (case wrap_atoms width limit (concat (map seg_atoms segs))
             \<lparr>wr_lines = [], wr_cur = [], wr_curw = 0, wr_break = None\<rparr> of
        None \<Rightarrow> None
      | Some st \<Rightarrow>
          Some (map regroup (if wr_cur st \<noteq> [] then wr_lines st @ [wr_cur st] else wr_lines st)))"

section \<open>A line with its sequences\<close>

definition style_changes :: "u8 \<Rightarrow> u8 \<Rightarrow> ustr" where
  "style_changes active s =
     (let off = active AND NOT s;
          on = s AND NOT active
      in (if off AND ITALIC \<noteq> 0 then esc ''[23m'' else [])
       @ (if off AND CYAN \<noteq> 0 then esc ''[39m'' else [])
       @ (if off AND (BOLD OR DIM) \<noteq> 0
          then esc ''[22m''
             @ (if s AND BOLD \<noteq> 0 then esc ''[1m'' else [])
             @ (if s AND DIM \<noteq> 0 then esc ''[2m'' else [])
          else (if on AND BOLD \<noteq> 0 then esc ''[1m'' else [])
             @ (if on AND DIM \<noteq> 0 then esc ''[2m'' else []))
       @ (if on AND ITALIC \<noteq> 0 then esc ''[3m'' else [])
       @ (if on AND CYAN \<noteq> 0 then esc ''[36m'' else []))"

fun render_segs :: "u8 \<Rightarrow> ustr option \<Rightarrow> seg list \<Rightarrow> ustr" where
  "render_segs active active_link [] =
     (if active_link \<noteq> None then OSC8_CLOSE else []) @ (if active \<noteq> 0 then esc ''[0m'' else [])"
| "render_segs active active_link (seg # segs) =
     (if active_link \<noteq> sg_link seg \<and> active_link \<noteq> None then OSC8_CLOSE else [])
     @ style_changes active (sg_s seg)
     @ (if active_link \<noteq> sg_link seg
        then (case sg_link seg of None \<Rightarrow> [] | Some l \<Rightarrow> osc8_open l) else [])
     @ sg_t seg
     @ render_segs (sg_s seg) (sg_link seg) segs"

definition render_line :: "seg list \<Rightarrow> ustr" where
  "render_line segs = render_segs 0 None segs"

section \<open>The columns of a text with sequences\<close>

definition is_ascii_alphabetic :: "nat \<Rightarrow> bool" where
  "is_ascii_alphabetic c \<longleftrightarrow> 65 \<le> c \<and> c \<le> 90 \<or> 97 \<le> c \<and> c \<le> 122"

fun skip_osc :: "bool \<Rightarrow> ustr \<Rightarrow> ustr" where
  "skip_osc prev_esc [] = []"
| "skip_osc prev_esc (c # cs) =
     (if c = 7 \<or> prev_esc \<and> c = 92 then cs else skip_osc (c = 27) cs)"

fun skip_csi :: "ustr \<Rightarrow> ustr" where
  "skip_csi [] = []"
| "skip_csi (c # cs) = (if is_ascii_alphabetic c then cs else skip_csi cs)"

lemma skip_osc_length: "length (skip_osc p cs) \<le> length cs"
  by (induction p cs rule: skip_osc.induct) auto

lemma skip_csi_length: "length (skip_csi cs) \<le> length cs"
  by (induction cs) auto

function visible_width :: "(nat \<Rightarrow> nat option) \<Rightarrow> ustr \<Rightarrow> nat" where
  "visible_width width [] = 0"
| "visible_width width (c # cs) =
     (if c = 27
      then (case cs of
              [] \<Rightarrow> 0
            | d # ds \<Rightarrow> if d = 93 then visible_width width (skip_osc False ds) else visible_width width (skip_csi cs))
      else char_width width c + visible_width width cs)"
  by pat_completeness auto
termination
  by (relation "measure (length \<circ> snd)")
     (auto simp: less_Suc_eq_le intro: le_trans [OF skip_osc_length] le_trans [OF skip_csi_length] le_SucI skip_csi_length)

end
