(* ===== verification/Ansi_Block.thy ===== *)
theory Ansi_Block
  imports Ansi_Line
begin

text \<open>
  The block layer of \<^verbatim>\<open>ansi.rs\<close>: the tree of blocks is written as lines, and for the images
  that the reader can show the places of their boxes are noted (\<^verbatim>\<open>ImageAnchor\<close>).
  \<open>None\<close> is a panic of the line breaking.
\<close>

datatype block =
    Paragraph "seg list"
  | Heading "seg list"
  | Rule
  | Code "ustr list"
  | Quote "block list"
  | Listing bool nat "block list list"
  | Table "ustr list" "ustr list list"
  | Picture ustr ustr ustr

record img_meta =
  im_path :: string
  im_asset :: string
  im_w :: u32
  im_h :: u32

record image_anchor =
  ia_block_start :: nat
  ia_block_end :: nat
  ia_path :: string
  ia_asset :: string
  ia_w :: u32
  ia_h :: u32
  ia_indent_cols :: nat
  ia_display_cols :: nat
  ia_alt :: ustr

record indent =
  in_first :: ustr
  in_cont :: ustr
  in_width :: nat

type_synonym sheet = "ustr list \<times> image_anchor list"

definition qprefix :: "nat \<Rightarrow> ustr" where
  "qprefix q = concat (replicate q (esc ''[2m'' @ u_of ''> '' @ esc ''[22m''))"

definition dim :: "ustr \<Rightarrow> ustr" where
  "dim t = esc ''[2m'' @ t @ esc ''[22m''"

text \<open>Lines with the prefix of the first and of the others.\<close>

definition with_prefix :: "ustr \<Rightarrow> ustr \<Rightarrow> ustr list \<Rightarrow> ustr list" where
  "with_prefix pre cont ls = (case ls of [] \<Rightarrow> [] | l # ls \<Rightarrow> (pre @ l) # map ((@) cont) ls)"

definition render_text :: "(nat \<Rightarrow> nat option) \<Rightarrow> indent \<Rightarrow> seg list \<Rightarrow> sheet \<Rightarrow> sheet option" where
  "render_text width ind segs out =
     (case wrap_segments width segs (in_width ind) of
        None \<Rightarrow> None
      | Some wrapped \<Rightarrow> Some (fst out @ with_prefix (in_first ind) (in_cont ind) (map render_line wrapped), snd out))"

definition render_code :: "indent \<Rightarrow> ustr list \<Rightarrow> ustr list" where
  "render_code ind ls = with_prefix (in_first ind) (in_cont ind) (map (\<lambda>l. dim [9474] @ u_of ''   '' @ l) ls)"

fun join_cells :: "ustr list \<Rightarrow> ustr" where
  "join_cells [] = []"
| "join_cells [c] = c"
| "join_cells (c # cs) = c @ u_of '' | '' @ join_cells cs"

definition render_table :: "indent \<Rightarrow> ustr list \<Rightarrow> ustr list list \<Rightarrow> ustr list" where
  "render_table ind head rows =
     (in_first ind @ join_cells head) # (in_cont ind @ dim (u_of ''---- | ----''))
       # map (\<lambda>r. in_cont ind @ join_cells r) rows"

definition box_lines :: "(nat \<Rightarrow> nat option) \<Rightarrow> indent \<Rightarrow> ustr \<Rightarrow> ustr \<Rightarrow> ustr list option" where
  "box_lines width ind alt url =
     (let w = in_width ind;
          side = in_cont ind @ dim [9474] @ [32]
      in case wrap_segments width [\<lparr>sg_s = 0, sg_t = alt, sg_link = None\<rparr>] (w - 3) of
           None \<Rightarrow> None
         | Some alt_lines \<Rightarrow>
             (case wrap_segments width [\<lparr>sg_s = CYAN, sg_t = url, sg_link = Some url\<rparr>] (w - 3) of
                None \<Rightarrow> None
              | Some url_lines \<Rightarrow> Some
                  ([in_first ind @ dim ([9484, 9472] @ u_of '' image '' @ replicate (w - 9) 9472)]
                   @ map (\<lambda>l. side @ render_line l) alt_lines
                   @ map (\<lambda>l. side @ render_line l) url_lines
                   @ [in_cont ind @ dim (9492 # replicate (w - 1) 9472)])))"

definition render_image ::
  "(nat \<Rightarrow> nat option) \<Rightarrow> (ustr \<Rightarrow> img_meta option) \<Rightarrow> indent \<Rightarrow> ustr \<Rightarrow> ustr \<Rightarrow> ustr
     \<Rightarrow> sheet \<Rightarrow> sheet option"
where
  "render_image width img ind alt url dest out =
     (case box_lines width ind alt url of
        None \<Rightarrow> None
      | Some box \<Rightarrow> Some
          (fst out @ box,
           case img dest of
             None \<Rightarrow> snd out
           | Some m \<Rightarrow> snd out @
               [\<lparr>ia_block_start = length (fst out), ia_block_end = length (fst out @ box),
                 ia_path = im_path m, ia_asset = im_asset m, ia_w = im_w m, ia_h = im_h m,
                 ia_indent_cols = visible_width width (in_first ind), ia_display_cols = in_width ind,
                 ia_alt = alt\<rparr>]))"

text \<open>\<open>{:>3}. \<close> of an item's number, and the prefixes of the items of a list.\<close>

definition item_number :: "nat \<Rightarrow> ustr" where
  "item_number n = (let d = show_nat n in u_of (replicate (3 - length d) (CHR '' '') @ d @ ''. ''))"

definition item_lead :: "nat \<Rightarrow> nat \<Rightarrow> ustr" where
  "item_lead q level = qprefix q @ u_of (concat (replicate level ''  ''))"

definition item_indent :: "nat \<Rightarrow> nat \<Rightarrow> bool \<Rightarrow> nat \<Rightarrow> bool \<Rightarrow> indent" where
  "item_indent q level ordered number is_first =
     (let cont = item_lead q level @ u_of ''    '';
          first_prefix = item_lead q level @ (if ordered then item_number number else u_of ''  '' @ [8226, 32])
      in \<lparr>in_first = (if is_first then first_prefix else cont), in_cont = cont,
          in_width = WIDTH - (2 * q + 2 * level + 4)\<rparr>)"

function (sequential) render_block ::
  "(nat \<Rightarrow> nat option) \<Rightarrow> (ustr \<Rightarrow> img_meta option) \<Rightarrow> nat \<Rightarrow> nat \<Rightarrow> indent \<Rightarrow> block \<Rightarrow> sheet \<Rightarrow> sheet option"
and render_blocks ::
  "(nat \<Rightarrow> nat option) \<Rightarrow> (ustr \<Rightarrow> img_meta option) \<Rightarrow> nat \<Rightarrow> nat \<Rightarrow> indent \<Rightarrow> block list \<Rightarrow> sheet \<Rightarrow> sheet option"
and render_items ::
  "(nat \<Rightarrow> nat option) \<Rightarrow> (ustr \<Rightarrow> img_meta option) \<Rightarrow> nat \<Rightarrow> nat \<Rightarrow> bool \<Rightarrow> nat \<Rightarrow> block list list \<Rightarrow> sheet \<Rightarrow> sheet option"
and render_item ::
  "(nat \<Rightarrow> nat option) \<Rightarrow> (ustr \<Rightarrow> img_meta option) \<Rightarrow> nat \<Rightarrow> nat \<Rightarrow> bool \<Rightarrow> nat \<Rightarrow> bool \<Rightarrow> block list \<Rightarrow> sheet \<Rightarrow> sheet option"
where
  "render_block width img q level ind (Paragraph segs) out = render_text width ind segs out"
| "render_block width img q level ind (Heading segs) out = render_text width ind segs out"
| "render_block width img q level ind Rule out =
     Some (fst out @ [in_first ind @ dim (u_of (replicate WIDTH (CHR ''-'')))], snd out)"
| "render_block width img q level ind (Code ls) out = Some (fst out @ render_code ind ls, snd out)"
| "render_block width img q level ind (Quote inner) out =
     render_blocks width img (q + 1) level
       \<lparr>in_first = in_first ind @ qprefix 1, in_cont = in_cont ind @ qprefix 1, in_width = in_width ind - 2\<rparr> inner out"
| "render_block width img q level ind (Listing ordered start items) out =
     render_items width img q level ordered start items out"
| "render_block width img q level ind (Table head rows) out = Some (fst out @ render_table ind head rows, snd out)"
| "render_block width img q level ind (Picture alt url dest) out = render_image width img ind alt url dest out"
| "render_blocks width img q level ind [] out = Some out"
| "render_blocks width img q level ind (b # bs) out =
     (case render_block width img q level ind b out of
        None \<Rightarrow> None
      | Some out \<Rightarrow>
          render_blocks width img q level ind bs
            (case b of Quote _ \<Rightarrow> out | _ \<Rightarrow> (fst out @ [[]], snd out)))"
| "render_items width img q level ordered number [] out = Some out"
| "render_items width img q level ordered number (item # items) out =
     (case render_item width img q level ordered number True item out of
        None \<Rightarrow> None
      | Some out \<Rightarrow> render_items width img q level ordered (number + 1) items out)"
| "render_item width img q level ordered number is_first [] out = Some out"
| "render_item width img q level ordered number is_first (b # bs) out =
     (case render_block width img q (level + 1) (item_indent q level ordered number is_first) b out of
        None \<Rightarrow> None
      | Some out \<Rightarrow> render_item width img q level ordered number False bs out)"

  by pat_completeness auto
termination
  by (relation "measure (\<lambda>x. case x of
        Inl (Inl (width, img, q, level, ind, b, out)) \<Rightarrow> size b
      | Inl (Inr (width, img, q, level, ind, bs, out)) \<Rightarrow> size_list size bs
      | Inr (Inl (width, img, q, level, ordered, number, items, out)) \<Rightarrow> size_list (size_list size) items
      | Inr (Inr (width, img, q, level, ordered, number, is_first, bs, out)) \<Rightarrow> size_list size bs)")
     (auto split: block.splits)

fun pop_empty :: "'a list list \<Rightarrow> 'a list list" where
  "pop_empty [] = []"
| "pop_empty (l # ls) = (case pop_empty ls of [] \<Rightarrow> if l = [] then [] else [l] | ls' \<Rightarrow> l # ls')"

definition render_blocks_ansi ::
  "(nat \<Rightarrow> nat option) \<Rightarrow> (ustr \<Rightarrow> img_meta option) \<Rightarrow> block list \<Rightarrow> (ustr list \<times> image_anchor list) option"
where
  "render_blocks_ansi width img blocks =
     map_option (\<lambda>(ls, anchors). (pop_empty ls, anchors))
       (render_blocks width img 0 0 \<lparr>in_first = [], in_cont = [], in_width = WIDTH\<rparr> blocks ([], []))"

definition ansi_text :: "ustr list \<Rightarrow> ustr" where
  "ansi_text ls = join_with 10 ls @ [10]"

end
