(* ===== verification/Ansi_Wrap.thy ===== *)
theory Ansi_Wrap
  imports Ansi_Line
begin

text \<open>
  What the line breaking keeps: the characters with their styles and links, the width of the
  lines, and the places where a line may end.
\<close>

text \<open>What the crate documents of the widths: at most two columns, and one for printable ASCII.\<close>

definition widths_ok :: "(nat \<Rightarrow> nat option) \<Rightarrow> bool" where
  "widths_ok width \<longleftrightarrow> (\<forall>c. char_width width c \<le> 2 \<and> (32 \<le> c \<and> c < 127 \<longrightarrow> char_width width c = 1))"

definition wide :: "(nat \<Rightarrow> nat option) \<Rightarrow> atom \<Rightarrow> bool" where
  "wide width a \<longleftrightarrow> char_width width (atom_char a) = 2"

definition may_break :: "(nat \<Rightarrow> nat option) \<Rightarrow> atom \<Rightarrow> atom \<Rightarrow> bool" where
  "may_break width a b \<longleftrightarrow> atom_char a = 32 \<or> wide width a \<or> wide width b"

definition unbreakable :: "(nat \<Rightarrow> nat option) \<Rightarrow> atom list \<Rightarrow> bool" where
  "unbreakable width l \<longleftrightarrow> (\<forall>i. Suc i < length l \<longrightarrow> \<not> may_break width (l ! i) (l ! Suc i))"

text \<open>Two lines that came from one: they part where a break is allowed, or the first has no such place.\<close>

definition joint :: "(nat \<Rightarrow> nat option) \<Rightarrow> atom list \<Rightarrow> atom list \<Rightarrow> bool" where
  "joint width l m \<longleftrightarrow> l \<noteq> [] \<and> m \<noteq> [] \<and> (may_break width (last l) (hd m) \<or> unbreakable width l)"

definition joints :: "(nat \<Rightarrow> nat option) \<Rightarrow> atom list list \<Rightarrow> bool" where
  "joints width ls \<longleftrightarrow> (\<forall>i. Suc i < length ls \<longrightarrow> joint width (ls ! i) (ls ! Suc i))"

lemma columns_simps [simp]:
  "columns width [] = 0"
  "columns width (a # l) = char_width width (atom_char a) + columns width l"
  "columns width (l @ m) = columns width l + columns width m"
  by (simp_all add: columns_def)

lemma columns_member: "i < length l \<Longrightarrow> char_width width (atom_char (l ! i)) \<le> columns width (take (Suc i) l)"
  by (simp add: take_Suc_conv_app_nth)

lemma columns_split: "columns width (take n l) + columns width (drop n l) = columns width l"
  by (metis append_take_drop_id columns_simps(3))

lemma ends_wide_last: "ends_wide width l \<longleftrightarrow> l \<noteq> [] \<and> wide width (last l)"
  by (simp add: ends_wide_def wide_def)

section \<open>Break opportunities\<close>

definition opportunity :: "(nat \<Rightarrow> nat option) \<Rightarrow> atom list \<Rightarrow> nat \<Rightarrow> bool" where
  "opportunity width l i \<longleftrightarrow> atom_char (l ! i) = 32 \<or> Suc i < length l \<and> (wide width (l ! i) \<or> wide width (l ! Suc i))"

definition good_break :: "(nat \<Rightarrow> nat option) \<Rightarrow> atom list \<Rightarrow> nat option \<Rightarrow> bool" where
  "good_break width l bp \<longleftrightarrow>
     (case bp of
        None \<Rightarrow> \<forall>i < length l. \<not> opportunity width l i
      | Some i \<Rightarrow> i < length l \<and> opportunity width l i
          \<and> (1 \<le> columns width (take (Suc i) l) \<or> i + 2 = length l \<and> ends_wide width l))"

lemma good_break_None: "good_break width l None \<Longrightarrow> unbreakable width l"
  by (auto simp: good_break_def opportunity_def unbreakable_def may_break_def)

lemma recompute_break_upto:
  assumes "widths_ok width" "n \<le> length l"
    and "bp = fold (\<lambda>idx bp. if atom_char (l ! idx) = 32 then Some idx
         else if idx + 1 < length l
           \<and> (char_width width (atom_char (l ! idx)) = 2 \<or> char_width width (atom_char (l ! (idx + 1))) = 2)
         then Some idx else bp) [0..<n] None"
  shows "case bp of
      None \<Rightarrow> \<forall>i < n. \<not> opportunity width l i
    | Some i \<Rightarrow> i < n \<and> opportunity width l i
        \<and> (1 \<le> columns width (take (Suc i) l) \<or> Suc i < length l \<and> wide width (l ! Suc i) \<and> (Suc i = n \<or> i + 2 = length l))"
  using assms(2,3)
proof (induction n arbitrary: bp)
  case (Suc n)
  let ?f = "\<lambda>idx bp. if atom_char (l ! idx) = 32 then Some idx
         else if idx + 1 < length l
           \<and> (char_width width (atom_char (l ! idx)) = 2 \<or> char_width width (atom_char (l ! (idx + 1))) = 2)
         then Some idx else bp"
  define old where "old = fold ?f [0..<n] None"
  have IH: "case old of
      None \<Rightarrow> \<forall>i < n. \<not> opportunity width l i
    | Some i \<Rightarrow> i < n \<and> opportunity width l i
        \<and> (1 \<le> columns width (take (Suc i) l) \<or> Suc i < length l \<and> wide width (l ! Suc i) \<and> (Suc i = n \<or> i + 2 = length l))"
    using Suc.IH [OF _ old_def] Suc.prems(1) by simp
  have bp: "bp = (if opportunity width l n then Some n else old)"
    using Suc.prems(2) by (auto simp: old_def opportunity_def wide_def)
  have n: "n < length l" using Suc.prems(1) by simp
  show ?case
  proof (cases "opportunity width l n")
    case True
    have "char_width width (atom_char (l ! n)) \<le> columns width (take (Suc n) l)"
      using columns_member [OF n] .
    then have "1 \<le> columns width (take (Suc n) l) \<or> Suc n < length l \<and> wide width (l ! Suc n)"
      using True assms(1) by (auto simp: opportunity_def wide_def widths_ok_def)
    with True bp show ?thesis by auto
  next
    case False
    show ?thesis
    proof (cases old)
      case None
      with False bp IH show ?thesis by (auto simp: less_Suc_eq)
    next
      case (Some i)
      have "1 \<le> columns width (take (Suc i) l) \<or> Suc i < length l \<and> wide width (l ! Suc i) \<and> i + 2 = length l"
      proof (rule ccontr)
        assume "\<not> ?thesis"
        with IH Some have "Suc i = n" "wide width (l ! n)" "i + 2 \<noteq> length l" by auto
        with n have "Suc n < length l" by linarith
        with \<open>wide width (l ! n)\<close> False show False by (simp add: opportunity_def)
      qed
      with Some False bp IH show ?thesis by auto
    qed
  qed
qed simp

lemma recompute_break_good:
  assumes "widths_ok width"
  shows "good_break width l (recompute_break width l)"
proof -
  have "case recompute_break width l of
      None \<Rightarrow> \<forall>i < length l. \<not> opportunity width l i
    | Some i \<Rightarrow> i < length l \<and> opportunity width l i
        \<and> (1 \<le> columns width (take (Suc i) l) \<or> Suc i < length l \<and> wide width (l ! Suc i) \<and> (Suc i = length l \<or> i + 2 = length l))"
    by (rule recompute_break_upto [OF assms order.refl]) (simp add: recompute_break_def)
  moreover have "last l = l ! Suc i" if "i + 2 = length l" for i
    using that by (cases l rule: rev_cases) (auto simp: nth_append)
  ultimately show ?thesis
    by (fastforce simp: good_break_def ends_wide_last split: option.splits)
qed

section \<open>The invariant\<close>

definition wrap_ok :: "(nat \<Rightarrow> nat option) \<Rightarrow> nat \<Rightarrow> wrapping \<Rightarrow> bool" where
  "wrap_ok width limit st \<longleftrightarrow>
     (\<forall>l \<in> set (wr_lines st). columns width l \<le> limit)
   \<and> wr_curw st = columns width (wr_cur st) \<and> wr_curw st \<le> limit
   \<and> good_break width (wr_cur st) (wr_break st)"

definition wrapped :: "wrapping \<Rightarrow> atom list" where
  "wrapped st = concat (wr_lines st) @ wr_cur st"

text \<open>What \<open>make_room\<close> leaves: room for the next atom, and where the line was broken.\<close>

lemma make_room_ok:
  assumes width: "widths_ok width" and limit: "2 \<le> limit" and ok: "wrap_ok width limit st"
    and w: "w = char_width width c"
  shows "\<exists>st'. make_room width limit w st = Some st' \<and> wrap_ok width limit st' \<and> wrapped st' = wrapped st
    \<and> wr_curw st' + w \<le> limit
    \<and> (wr_lines st' = wr_lines st \<and> wr_cur st' = wr_cur st \<or>
       (\<exists>l. wr_lines st' = wr_lines st @ [l] \<and> l \<noteq> []
          \<and> (may_break width (last l) (hd (wr_cur st' @ [(s, link, c)])) \<or> unbreakable width l)))"
proof (cases "wr_cur st \<noteq> [] \<and> limit < wr_curw st + w")
  case False
  have "w \<le> 2" using width w by (simp add: widths_ok_def)
  with False limit have "wr_curw st + w \<le> limit" using ok by (auto simp: wrap_ok_def)
  with ok show ?thesis unfolding make_room_def if_not_P [OF False] by auto
next
  case True
  let ?cur = "wr_cur st"
  define bp where "bp = (if ends_wide width ?cur \<or> w = 2 then Some (length ?cur - 1) else wr_break st)"
  have w2: "w \<le> 2" using width w by (simp add: widths_ok_def)
  have room: "make_room width limit w st = break_line width bp st"
    using True by (simp add: make_room_def bp_def)
  show ?thesis
  proof (cases bp)
    case None
    then have "wr_break st = None" by (simp add: bp_def split: if_splits)
    then have "unbreakable width ?cur" using ok good_break_None by (auto simp: wrap_ok_def)
    moreover have "good_break width [] None" by (simp add: good_break_def)
    ultimately show ?thesis
      using None ok True w2 limit
      by (auto simp: room break_line_def wrap_ok_def wrapped_def)
  next
    case (Some i)
    have i: "i < length ?cur" and last: "1 \<le> columns width (take (Suc i) ?cur)"
      and opp: "may_break width (?cur ! i) (hd (drop (Suc i) ?cur @ [(s, link, c)]))"
      and fits: "w = 2 \<longrightarrow> drop (Suc i) ?cur = []"
    proof -
      show i: "i < length ?cur"
        using Some True ok by (auto simp: bp_def wrap_ok_def good_break_def split: if_splits)
      show "w = 2 \<longrightarrow> drop (Suc i) ?cur = []" using Some by (auto simp: bp_def)
      show "1 \<le> columns width (take (Suc i) ?cur)"
      proof (cases "ends_wide width ?cur \<or> w = 2")
        case True2: True
        then have "Suc i = length ?cur" using Some \<open>i < length ?cur\<close> by (auto simp: bp_def)
        moreover have "1 \<le> columns width ?cur" using True limit ok w2 by (auto simp: wrap_ok_def)
        ultimately show ?thesis by simp
      next
        case False
        then show ?thesis using Some ok by (auto simp: bp_def wrap_ok_def good_break_def)
      qed
      show "may_break width (?cur ! i) (hd (drop (Suc i) ?cur @ [(s, link, c)]))"
      proof (cases "ends_wide width ?cur \<or> w = 2")
        case True2: True
        then have "i = length ?cur - 1" using Some by (auto simp: bp_def)
        with True2 True w show ?thesis
          by (auto simp: may_break_def wide_def ends_wide_def last_conv_nth)
      next
        case False
        then have "opportunity width ?cur i" using Some ok by (auto simp: bp_def wrap_ok_def good_break_def)
        then show ?thesis
          by (auto simp: opportunity_def may_break_def hd_append hd_drop_conv_nth)
      qed
    qed
    let ?rest = "drop (Suc i) ?cur"
    have split: "columns width (take (Suc i) ?cur) + columns width ?rest = wr_curw st"
      using ok columns_split [of width "Suc i" ?cur] by (simp add: wrap_ok_def)
    have fit: "columns width ?rest + w \<le> limit"
    proof (cases "w = 2")
      case True
      then show ?thesis using fits limit by simp
    next
      case False
      then have "w \<le> 1" using w2 by simp
      then show ?thesis using last split ok by (auto simp: wrap_ok_def)
    qed
    have "last (take (Suc i) ?cur) = ?cur ! i"
      using i by (simp add: take_Suc_conv_app_nth)
    moreover have "take (Suc i) ?cur \<noteq> []" using i by auto
    ultimately show ?thesis
      using Some i opp split fit ok recompute_break_good [OF width, of ?rest]
      by (auto simp: room break_line_def Let_def wrap_ok_def wrapped_def not_less)
  qed
qed

lemma good_break_snoc:
  assumes width: "widths_ok width" and good: "good_break width cur bp"
  shows "good_break width (cur @ [(s, link, c)])
    (if c = 32 then Some (length cur)
     else if cur \<noteq> [] \<and> (ends_wide width cur \<or> char_width width c = 2) then Some (length cur - 1) else bp)"
proof -
  let ?a = "(s, link, c)"
  have last: "cur \<noteq> [] \<Longrightarrow> cur ! (length cur - Suc 0) = last cur" by (simp add: last_conv_nth)
  consider "c = 32" | "c \<noteq> 32" "cur \<noteq> []" "ends_wide width cur \<or> char_width width c = 2"
    | "c \<noteq> 32" "cur = [] \<or> \<not> (ends_wide width cur \<or> char_width width c = 2)" by blast
  then show ?thesis
  proof cases
    case 1
    then show ?thesis using width by (simp add: good_break_def opportunity_def widths_ok_def)
  next
    case 2
    then have "opportunity width (cur @ [?a]) (length cur - 1)"
      using last by (auto simp: opportunity_def wide_def ends_wide_def nth_append)
    moreover have "1 \<le> columns width cur \<or> ends_wide width (cur @ [?a])"
    proof (cases "ends_wide width cur")
      case True
      then have "2 \<le> columns width cur"
        by (cases cur rule: rev_cases) (auto simp: ends_wide_def)
      then show ?thesis by simp
    next
      case False
      with 2 show ?thesis by (simp add: ends_wide_def)
    qed
    ultimately show ?thesis
      using 2 by (auto simp: good_break_def)
  next
    case 3
    then have bp: "?thesis = good_break width (cur @ [?a]) bp" by auto
    have opp: "opportunity width (cur @ [?a]) i = opportunity width cur i" if "i < length cur" for i
    proof (cases "Suc i < length cur")
      case True
      then show ?thesis by (simp add: opportunity_def nth_append)
    next
      case False
      with that have "i = length cur - 1" "cur \<noteq> []" by auto
      with 3 last show ?thesis by (auto simp: opportunity_def wide_def ends_wide_def nth_append)
    qed
    show ?thesis
    proof (cases bp)
      case None
      moreover have "\<not> opportunity width (cur @ [?a]) (length cur)"
        using 3 by (simp add: opportunity_def)
      ultimately show ?thesis
        unfolding bp using good opp by (auto simp: good_break_def less_Suc_eq)
    next
      case (Some i)
      with good have i: "i < length cur" "opportunity width cur i" and
        "1 \<le> columns width (take (Suc i) cur) \<or> i + 2 = length cur \<and> ends_wide width cur"
        by (auto simp: good_break_def)
      moreover have "cur \<noteq> []" using i by auto
      ultimately have "1 \<le> columns width (take (Suc i) cur)" using 3 by auto
      with i Some opp show ?thesis unfolding bp by (simp add: good_break_def)
    qed
  qed
qed

section \<open>All characters\<close>

definition fresh_wrapping :: wrapping where
  "fresh_wrapping = \<lparr>wr_lines = [], wr_cur = [], wr_curw = 0, wr_break = None\<rparr>"

lemma wrap_char_ok:
  assumes "widths_ok width" "2 \<le> limit" "wrap_ok width limit st"
  shows "\<exists>st'. wrap_char width limit s link c st = Some st' \<and> wrap_ok width limit st'
    \<and> wrapped st' = wrapped st @ (if c = 10 then [] else [(s, link, c)])"
proof (cases "c = 10")
  case True
  then show ?thesis
    using assms(3) by (auto simp: wrap_char_def wrap_ok_def wrapped_def good_break_def)
next
  case False
  obtain st' where st': "make_room width limit (char_width width c) st = Some st'" "wrap_ok width limit st'"
      "wrapped st' = wrapped st" "wr_curw st' + char_width width c \<le> limit"
    using make_room_ok [OF assms refl] by blast
  then show ?thesis
    using False good_break_snoc [OF assms(1), of "wr_cur st'" "wr_break st'" s link c]
    by (auto simp: wrap_char_def put_atom_def wrap_ok_def wrapped_def Let_def)
qed

lemma wrap_atoms_ok:
  assumes "widths_ok width" "2 \<le> limit"
  shows "wrap_ok width limit st \<Longrightarrow> \<exists>st'. wrap_atoms width limit atoms st = Some st' \<and> wrap_ok width limit st'
    \<and> wrapped st' = wrapped st @ filter (\<lambda>a. atom_char a \<noteq> 10) atoms"
proof (induction atoms arbitrary: st)
  case (Cons a atoms)
  obtain s link c where a: "a = (s, link, c)" by (cases a)
  obtain st' where "wrap_char width limit s link c st = Some st'" "wrap_ok width limit st'"
      "wrapped st' = wrapped st @ (if c = 10 then [] else [(s, link, c)])"
    using wrap_char_ok [OF assms Cons.prems] by blast
  with Cons.IH [of st'] a show ?case by auto
qed simp

text \<open>Without a line end in the text, each line goes over into the next.\<close>

definition joined :: "(nat \<Rightarrow> nat option) \<Rightarrow> wrapping \<Rightarrow> bool" where
  "joined width st \<longleftrightarrow>
     (if wr_cur st = [] then wr_lines st = [] else joints width (wr_lines st @ [wr_cur st]))"

lemma joints_snoc:
  "joints width (ls @ [l, m]) \<longleftrightarrow> joints width (ls @ [l]) \<and> joint width l m"
proof -
  have "(\<forall>i. Suc i < length (ls @ [l, m]) \<longrightarrow> P i) \<longleftrightarrow> (\<forall>i. Suc i < length (ls @ [l]) \<longrightarrow> P i) \<and> P (length ls)" for P
    by (auto simp: less_Suc_eq)
  moreover have "(ls @ [l, m]) ! i = (ls @ [l]) ! i" "(ls @ [l, m]) ! Suc i = (ls @ [l]) ! Suc i"
    if "Suc i < length (ls @ [l])" for i
    using that by (auto simp: nth_append)
  ultimately show ?thesis
    by (auto simp: joints_def nth_append)
qed

lemma joints_one [simp]: "joints width []" "joints width [l]"
  by (simp_all add: joints_def)

lemma joint_grow: "m \<noteq> [] \<Longrightarrow> joint width l (m @ [a]) \<longleftrightarrow> joint width l m"
  by (simp add: joint_def)

lemma joints_grow:
  assumes "m \<noteq> []" "joints width (ls @ [m])"
  shows "joints width (ls @ [m @ [a]])"
proof (cases ls rule: rev_cases)
  case (snoc ls' l)
  then show ?thesis using assms joints_snoc [of width ls' l] by (simp add: joint_grow)
qed (simp add: joints_def)

text \<open>A line that is cut keeps its first atom.\<close>

lemma joints_cut:
  assumes "joints width (ls @ [l @ m])" "l \<noteq> []"
  shows "joints width (ls @ [l])"
proof (cases ls rule: rev_cases)
  case (snoc ls' k)
  then show ?thesis using assms joints_snoc [of width ls' k] by (auto simp: joint_def)
qed (simp add: joints_def)

lemma wrap_char_joined:
  assumes "widths_ok width" "2 \<le> limit" "wrap_ok width limit st" "joined width st" "c \<noteq> 10"
    and "wrap_char width limit s link c st = Some st'"
  shows "joined width st' \<and> wr_cur st' \<noteq> []"
proof -
  let ?a = "(s, link, c)"
  obtain r where r: "make_room width limit (char_width width c) st = Some r" "wrapped r = wrapped st"
      and cases: "wr_lines r = wr_lines st \<and> wr_cur r = wr_cur st \<or>
        (\<exists>l. wr_lines r = wr_lines st @ [l] \<and> l \<noteq> [] \<and> (may_break width (last l) (hd (wr_cur r @ [?a])) \<or> unbreakable width l))"
    using make_room_ok [OF assms(1-3) refl] by blast
  have st': "wr_lines st' = wr_lines r" "wr_cur st' = wr_cur r @ [?a]"
    using assms(5,6) r(1) by (auto simp: wrap_char_def put_atom_def Let_def)
  from cases show ?thesis
  proof
    assume "wr_lines r = wr_lines st \<and> wr_cur r = wr_cur st"
    then show ?thesis
      using st' assms(4) joints_grow [of "wr_cur st"] by (cases "wr_cur st = []") (simp_all add: joined_def)
  next
    assume "\<exists>l. wr_lines r = wr_lines st @ [l] \<and> l \<noteq> []
      \<and> (may_break width (last l) (hd (wr_cur r @ [?a])) \<or> unbreakable width l)"
    then obtain l where l: "wr_lines r = wr_lines st @ [l]" "l \<noteq> []"
        "may_break width (last l) (hd (wr_cur r @ [?a])) \<or> unbreakable width l" by blast
    with r(2) have cur: "wr_cur st = l @ wr_cur r" by (simp add: wrapped_def)
    with l(2) assms(4) have "joints width (wr_lines st @ [l @ wr_cur r])" by (simp add: joined_def)
    then have "joints width (wr_lines st @ [l])" using l(2) by (rule joints_cut)
    with l show ?thesis
      using joints_snoc [of width "wr_lines st" l] st' by (simp add: joined_def joint_def)
  qed
qed

lemma wrap_atoms_joined:
  assumes "widths_ok width" "2 \<le> limit"
  shows "wrap_ok width limit st \<Longrightarrow> joined width st \<Longrightarrow> \<forall>a \<in> set atoms. atom_char a \<noteq> 10
    \<Longrightarrow> wrap_atoms width limit atoms st = Some st' \<Longrightarrow> joined width st'"
proof (induction atoms arbitrary: st)
  case (Cons a atoms)
  obtain s link c where a: "a = (s, link, c)" by (cases a)
  with Cons.prems obtain st1 where st1: "wrap_char width limit s link c st = Some st1"
      "wrap_atoms width limit atoms st1 = Some st'" "c \<noteq> 10"
    by (auto split: option.splits)
  moreover have "wrap_ok width limit st1"
    using wrap_char_ok [OF assms Cons.prems(1), of s link c] st1(1) by auto
  ultimately show ?case
    using Cons.IH [of st1] Cons.prems wrap_char_joined [OF assms Cons.prems(1,2) st1(3,1)] by simp
qed simp

section \<open>Segments again\<close>

lemma seg_atoms_simps [simp]:
  "concat (map seg_atoms (push_seg_link segs s t link)) = concat (map seg_atoms segs) @ map (\<lambda>c. (s, link, c)) t"
proof -
  have "seg_atoms (l\<lparr>sg_t := sg_t l @ t\<rparr>) = seg_atoms l @ map (\<lambda>c. (sg_s l, sg_link l, c)) t" for l
    by (simp add: seg_atoms_def)
  then show ?thesis
    by (cases segs rule: rev_cases) (auto simp: push_seg_link_def seg_atoms_def)
qed

lemma regroup_snoc: "regroup (atoms @ [(s, link, c)]) = push_seg_link (regroup atoms) s [c] link"
  by (simp add: regroup_def)

lemma regroup_atoms [simp]: "concat (map seg_atoms (regroup atoms)) = atoms"
proof (induction atoms rule: rev_induct)
  case (snoc a atoms)
  then show ?case by (cases a) (simp add: regroup_snoc)
qed (simp add: regroup_def)

definition line_atoms :: "seg list \<Rightarrow> atom list" where
  "line_atoms l = concat (map seg_atoms l)"

lemma line_atoms_regroup [simp]: "line_atoms (regroup atoms) = atoms"
  by (simp add: line_atoms_def)

lemma wrap_segments_ok:
  assumes "widths_ok width" "2 \<le> limit"
  shows "\<exists>ls. wrap_segments width segs limit = Some ls
    \<and> concat (map line_atoms ls) = filter (\<lambda>a. atom_char a \<noteq> 10) (line_atoms segs)
    \<and> (\<forall>l \<in> set ls. columns width (line_atoms l) \<le> limit)
    \<and> ((\<forall>a \<in> set (line_atoms segs). atom_char a \<noteq> 10) \<longrightarrow> joints width (map line_atoms ls))"
proof -
  have start: "wrap_ok width limit fresh_wrapping" "joined width fresh_wrapping" "wrapped fresh_wrapping = []"
    by (simp_all add: fresh_wrapping_def wrap_ok_def good_break_def joined_def wrapped_def)
  obtain st where st: "wrap_atoms width limit (line_atoms segs) fresh_wrapping = Some st" "wrap_ok width limit st"
      "wrapped st = filter (\<lambda>a. atom_char a \<noteq> 10) (line_atoms segs)"
    using wrap_atoms_ok [OF assms start(1), of "line_atoms segs"] start(3) by auto
  have joined: "joined width st" if "\<forall>a \<in> set (line_atoms segs). atom_char a \<noteq> 10"
    using wrap_atoms_joined [OF assms start(1,2) that st(1)] .
  let ?ls = "if wr_cur st \<noteq> [] then wr_lines st @ [wr_cur st] else wr_lines st"
  have again: "map line_atoms (map regroup ?ls) = ?ls" by (simp add: map_idI)
  show ?thesis
  proof (intro exI conjI impI)
    show "wrap_segments width segs limit = Some (map regroup ?ls)"
      using st(1) by (simp add: wrap_segments_def line_atoms_def fresh_wrapping_def)
    show "concat (map line_atoms (map regroup ?ls)) = filter (\<lambda>a. atom_char a \<noteq> 10) (line_atoms segs)"
      unfolding again using st(3) by (cases "wr_cur st = []") (simp_all add: wrapped_def)
    show "\<forall>l \<in> set (map regroup ?ls). columns width (line_atoms l) \<le> limit"
      using st(2) by (auto simp: wrap_ok_def)
    assume "\<forall>a \<in> set (line_atoms segs). atom_char a \<noteq> 10"
    then show "joints width (map line_atoms (map regroup ?ls))"
      unfolding again using joined by (auto simp: joined_def split: if_splits)
  qed
qed

end
