(* ===== verification/Reader_Spans.thy ===== *)
theory Reader_Spans
  imports Rust_Text
begin

text \<open>
  How the reader in the jail (\<^verbatim>\<open>jailbin/src/blog/reader.rs\<close>) reads a prepared line: the spans
  of text with their style, with the SGR sequences applied and the OSC sequences dropped.
  A style is what the calls on \<^verbatim>\<open>ratatui::style::Style\<close> leave switched on.
\<close>

record text_style =
  st_bold :: bool
  st_dim :: bool
  st_italic :: bool
  st_cyan :: bool

definition default_style :: text_style where
  "default_style = \<lparr>st_bold = False, st_dim = False, st_italic = False, st_cyan = False\<rparr>"

record span =
  sp_text :: ustr
  sp_style :: text_style

definition apply_param :: "ustr \<Rightarrow> text_style \<Rightarrow> text_style" where
  "apply_param p style =
     (if p = u_of ''0'' \<or> p = [] then default_style
      else if p = u_of ''1'' then style\<lparr>st_bold := True\<rparr>
      else if p = u_of ''22'' then style\<lparr>st_bold := False, st_dim := False\<rparr>
      else if p = u_of ''2'' then style\<lparr>st_dim := True\<rparr>
      else if p = u_of ''3'' then style\<lparr>st_italic := True\<rparr>
      else if p = u_of ''23'' then style\<lparr>st_italic := False\<rparr>
      else if p = u_of ''36'' then style\<lparr>st_cyan := True\<rparr>
      else if p = u_of ''39'' then style\<lparr>st_cyan := False\<rparr>
      else style)"

text \<open>The argument is the sequence after \<^verbatim>\<open>ESC [\<close>.  The code takes the bytes of the whole sequence
  from the third to the one before the last; slicing panics (\<open>None\<close>) when there is no such range,
  and in the middle of a character.\<close>

definition apply_sgr :: "ustr \<Rightarrow> text_style \<Rightarrow> text_style option" where
  "apply_sgr body style =
     (if body = [] \<or> 1 < len_utf8 (last body) then None
      else let params = butlast body
           in Some (if params = [] then default_style
                    else fold apply_param (split_on 59 params) style))"

text \<open>Up to the final byte, which is included; no byte of a longer character is in its range.\<close>

definition csi_final :: "nat \<Rightarrow> bool" where
  "csi_final b \<longleftrightarrow> 0x40 \<le> b \<and> b \<le> 0x7e"

fun take_csi :: "ustr \<Rightarrow> ustr \<times> ustr" where
  "take_csi [] = ([], [])"
| "take_csi (b # bs) =
     (if csi_final b then ([b], bs) else (case take_csi bs of (seq, rest) \<Rightarrow> (b # seq, rest)))"

text \<open>Up to \<^verbatim>\<open>BEL\<close> or \<^verbatim>\<open>ESC \\<close>.\<close>

fun drop_osc :: "ustr \<Rightarrow> ustr" where
  "drop_osc [] = []"
| "drop_osc (b # bs) = (if b = 7 then bs else if b = 27 \<and> take 1 bs = [92] then drop 1 bs else drop_osc bs)"

definition flush :: "ustr \<Rightarrow> text_style \<Rightarrow> span list \<Rightarrow> span list" where
  "flush text style out = (if text = [] then out else out @ [\<lparr>sp_text = text, sp_style = style\<rparr>])"

lemma take_csi_length: "take_csi cs = (seq, rest) \<Longrightarrow> length rest \<le> length cs"
  by (induction cs arbitrary: seq rest) (fastforce split: if_splits prod.splits)+

lemma drop_osc_length: "length (drop_osc cs) \<le> length cs"
  by (induction cs) auto

function parse_rest :: "ustr \<Rightarrow> text_style \<Rightarrow> ustr \<Rightarrow> span list \<Rightarrow> span list option" where
  "parse_rest [] style text out = Some (flush text style out)"
| "parse_rest (c # rest) style text out =
     (if c = 27 \<and> take 1 rest = [91]
      then (case take_csi (drop 1 rest) of
              (body, rest) \<Rightarrow>
                (case apply_sgr body style of
                   None \<Rightarrow> None
                 | Some style' \<Rightarrow> parse_rest rest style' [] (flush text style out)))
      else if c = 27 \<and> take 1 rest = [93]
      then parse_rest (drop_osc (drop 1 rest)) style [] (flush text style out)
      else parse_rest rest style (text @ [c]) out)"
  by pat_completeness auto
termination
  by (relation "measure (\<lambda>(cs, style, text, out). length cs)")
     (auto simp: less_Suc_eq_le intro: le_trans [OF drop_osc_length] dest!: sym [of "(_, _)" "take_csi _"] take_csi_length)

definition parse_line :: "ustr \<Rightarrow> span list option" where
  "parse_line line = parse_rest line default_style [] []"

section \<open>What is read of a sequence\<close>

definition styled_text :: "span list \<Rightarrow> (text_style \<times> nat) list" where
  "styled_text spans = concat (map (\<lambda>sp. map (Pair (sp_style sp)) (sp_text sp)) spans)"

lemma styled_text_simps [simp]:
  "styled_text [] = []"
  "styled_text (spans @ spans') = styled_text spans @ styled_text spans'"
  "styled_text [sp] = map (Pair (sp_style sp)) (sp_text sp)"
  by (simp_all add: styled_text_def)

lemma styled_text_flush [simp]: "styled_text (flush text style out) = styled_text out @ map (Pair style) text"
  by (simp add: flush_def)

lemma take_csi_body:
  assumes "\<forall>b \<in> set bs. \<not> csi_final b" "csi_final f"
  shows "take_csi (bs @ f # rest) = (bs @ [f], rest)"
  using assms by (induction bs) auto

lemma drop_osc_text:
  assumes "7 \<notin> set l" "27 \<notin> set l"
  shows "drop_osc (l @ 27 # 92 # rest) = rest"
  using assms by (induction l) auto

text \<open>The sequences that the renderer writes.\<close>

lemma parse_sgr:
  assumes "\<forall>b \<in> set bs. \<not> csi_final b" "59 \<notin> set bs"
  shows "parse_rest (27 # 91 # bs @ 109 # rest) style text out
    = parse_rest rest (apply_param bs style) [] (flush text style out)"
proof -
  have "take_csi (bs @ 109 # rest) = (bs @ [109], rest)"
    using assms(1) by (rule take_csi_body) (simp add: csi_final_def)
  moreover have "apply_sgr (bs @ [109]) style = Some (apply_param bs style)"
    using assms(2) by (cases "bs = []") (simp_all add: apply_sgr_def len_utf8_def split_on_single apply_param_def [of "[]"])
  ultimately show ?thesis by simp
qed

lemma parse_osc:
  assumes "7 \<notin> set l" "27 \<notin> set l"
  shows "parse_rest (27 # 93 # l @ 27 # 92 # rest) style text out = parse_rest rest style [] (flush text style out)"
  using drop_osc_text [OF assms] by simp

lemma parse_text:
  assumes "27 \<notin> set t"
  shows "parse_rest (t @ rest) style text out = parse_rest rest style (text @ t) out"
  using assms by (induction t arbitrary: "text") auto

end
