(* ===== verification/Ansi_Facts.thy ===== *)
theory Ansi_Facts
  imports Ansi_Line Reader_Spans
begin

text \<open>
  What the line breaking keeps, and how the lines that are written are read again.
\<close>

section \<open>Style bits\<close>

lemma style_bit_tests:
  fixes x :: u8
  shows "x AND 1 \<noteq> 0 \<longleftrightarrow> bit x 0" "x AND 2 \<noteq> 0 \<longleftrightarrow> bit x 1"
    "x AND 4 \<noteq> 0 \<longleftrightarrow> bit x 2" "x AND 8 \<noteq> 0 \<longleftrightarrow> bit x 3"
  using and_exp_eq_0_iff_not_bit [of x 0] and_exp_eq_0_iff_not_bit [of x 1]
    and_exp_eq_0_iff_not_bit [of x 2] and_exp_eq_0_iff_not_bit [of x 3]
  by simp_all

lemma style_bit_test_5:
  fixes x :: u8
  shows "x AND 5 \<noteq> 0 \<longleftrightarrow> bit x 0 \<or> bit x 2"
proof -
  have "x AND 5 = (x AND 1) OR (x AND 4)"
    by (simp flip: bit.conj_disj_distrib)
  then show ?thesis
    using style_bit_tests(1,3) [of x] by (simp add: or_eq_0_iff)
qed

definition style_of :: "u8 \<Rightarrow> text_style" where
  "style_of s = \<lparr>st_bold = bit s 0, st_dim = bit s 2, st_italic = bit s 1, st_cyan = bit s 3\<rparr>"

lemma style_of_0 [simp]: "style_of 0 = default_style"
  by (simp add: style_of_def default_style_def)

section \<open>Reading a line that was written\<close>

text \<open>\<open>reads w st st' new\<close>: from the style \<open>st\<close>, the reader takes \<open>w\<close> in, is then in the style
  \<open>st'\<close>, and has added the styled characters \<open>new\<close>.\<close>

definition so_far :: "text_style \<Rightarrow> ustr \<Rightarrow> span list \<Rightarrow> (text_style \<times> nat) list" where
  "so_far st t out = styled_text out @ map (Pair st) t"

definition reads :: "ustr \<Rightarrow> text_style \<Rightarrow> text_style \<Rightarrow> (text_style \<times> nat) list \<Rightarrow> bool" where
  "reads w st st' new \<longleftrightarrow>
     (\<forall>rest t out. \<exists>t' out'. parse_rest (w @ rest) st t out = parse_rest rest st' t' out'
        \<and> so_far st' t' out' = so_far st t out @ new)"

lemma reads_Nil [intro, simp]: "reads [] st st []"
  by (auto simp: reads_def)

lemma reads_append:
  assumes "reads w st st' new" "reads w' st' st'' new'"
  shows "reads (w @ w') st st'' (new @ new')"
  unfolding reads_def
proof (intro allI)
  fix rest t out
  from assms(1) obtain t' out'
    where 1: "parse_rest (w @ w' @ rest) st t out = parse_rest (w' @ rest) st' t' out'"
      "so_far st' t' out' = so_far st t out @ new"
    unfolding reads_def by blast
  from assms(2) obtain t'' out''
    where "parse_rest (w' @ rest) st' t' out' = parse_rest rest st'' t'' out''"
      "so_far st'' t'' out'' = so_far st' t' out' @ new'"
    unfolding reads_def by blast
  with 1 show "\<exists>t' out'. parse_rest ((w @ w') @ rest) st t out = parse_rest rest st'' t' out'
      \<and> so_far st'' t' out' = so_far st t out @ new @ new'"
    by auto
qed

lemma reads_silent:
  assumes "reads w st st' []" "reads w' st' st'' new"
  shows "reads (w @ w') st st'' new"
  using reads_append [OF assms] by simp

lemma reads_if:
  assumes "b \<Longrightarrow> reads w st st' []" "\<not> b \<Longrightarrow> reads w' st st' []"
  shows "reads (if b then w else w') st st' []"
  using assms by simp

lemma reads_flush:
  assumes "\<And>rest t out. parse_rest (w @ rest) st t out = parse_rest rest st' [] (flush t st out)"
  shows "reads w st st' []"
  unfolding reads_def so_far_def by (intro allI exI conjI, rule assms) simp

lemma reads_text: "27 \<notin> set t \<Longrightarrow> reads t st st (map (Pair st) t)"
  unfolding reads_def so_far_def by (intro allI exI conjI, rule parse_text) simp_all

lemma reads_osc: "7 \<notin> set l \<Longrightarrow> 27 \<notin> set l \<Longrightarrow> reads (27 # 93 # l @ [27, 92]) st st []"
  using parse_osc [of l] by (intro reads_flush) (simp del: parse_rest.simps)

lemma reads_sgr:
  "\<forall>b \<in> set p. \<not> csi_final b \<Longrightarrow> 59 \<notin> set p \<Longrightarrow> reads (27 # 91 # p @ [109]) st (apply_param p st) []"
  using parse_sgr [of p] by (intro reads_flush) (simp del: parse_rest.simps)

lemma reads_esc:
  "reads (esc ''[0m'') st default_style []"
  "reads (esc ''[1m'') st (st\<lparr>st_bold := True\<rparr>) []"
  "reads (esc ''[2m'') st (st\<lparr>st_dim := True\<rparr>) []"
  "reads (esc ''[3m'') st (st\<lparr>st_italic := True\<rparr>) []"
  "reads (esc ''[22m'') st (st\<lparr>st_bold := False, st_dim := False\<rparr>) []"
  "reads (esc ''[23m'') st (st\<lparr>st_italic := False\<rparr>) []"
  "reads (esc ''[36m'') st (st\<lparr>st_cyan := True\<rparr>) []"
  "reads (esc ''[39m'') st (st\<lparr>st_cyan := False\<rparr>) []"
  using reads_sgr [of "[48]" st] reads_sgr [of "[49]" st] reads_sgr [of "[50]" st] reads_sgr [of "[51]" st]
    reads_sgr [of "[50, 50]" st] reads_sgr [of "[50, 51]" st] reads_sgr [of "[51, 54]" st] reads_sgr [of "[51, 57]" st]
  by (simp_all add: esc_def u_of_def csi_final_def apply_param_def)

lemma reads_style_changes: "reads (style_changes a s) (style_of a) (style_of s) []"
proof -
  let ?st = "\<lambda>b d i c. \<lparr>st_bold = b, st_dim = d, st_italic = i, st_cyan = c\<rparr>"
  let ?off = "a AND NOT s" and ?on = "s AND NOT a"
  note bits = style_bits style_bit_tests style_bit_test_5 bit_and_iff bit_not_iff possible_bit_def
  have 1: "reads (if ?off AND ITALIC \<noteq> 0 then esc ''[23m'' else []) (style_of a)
      (?st (bit a 0) (bit a 2) (bit a 1 \<and> bit s 1) (bit a 3)) []"
    by (rule reads_if) (use reads_esc(6) [of "style_of a"] in \<open>auto simp: style_of_def bits\<close>)
  have 2: "reads (if ?off AND CYAN \<noteq> 0 then esc ''[39m'' else [])
      (?st (bit a 0) (bit a 2) (bit a 1 \<and> bit s 1) (bit a 3))
      (?st (bit a 0) (bit a 2) (bit a 1 \<and> bit s 1) (bit a 3 \<and> bit s 3)) []"
    by (rule reads_if)
       (use reads_esc(8) [of "?st (bit a 0) (bit a 2) (bit a 1 \<and> bit s 1) (bit a 3)"] in \<open>auto simp: bits\<close>)
  have bold: "reads (if s AND BOLD \<noteq> 0 then esc ''[1m'' else []) (?st False False i c) (?st (bit s 0) False i c) []" for i c
    by (rule reads_if) (use reads_esc(2) [of "?st False False i c"] in \<open>auto simp: bits\<close>)
  have dim: "reads (if s AND DIM \<noteq> 0 then esc ''[2m'' else []) (?st b False i c) (?st b (bit s 2) i c) []" for b i c
    by (rule reads_if) (use reads_esc(3) [of "?st b False i c"] in \<open>auto simp: bits\<close>)
  have again: "reads (esc ''[22m'' @ (if s AND BOLD \<noteq> 0 then esc ''[1m'' else [])
      @ (if s AND DIM \<noteq> 0 then esc ''[2m'' else [])) (?st b d i c) (?st (bit s 0) (bit s 2) i c) []" for b d i c
    using reads_silent [OF reads_esc(5) [of "?st b d i c"]] reads_silent [OF bold dim, of i c] by simp
  have on_bold: "reads (if ?on AND BOLD \<noteq> 0 then esc ''[1m'' else []) (?st (bit a 0) d i c) (?st (bit s 0) d i c) []"
    if "bit a 0 \<longrightarrow> bit s 0" for d i c
    by (rule reads_if) (use that reads_esc(2) [of "?st (bit a 0) d i c"] in \<open>auto simp: bits\<close>)
  have on_dim: "reads (if ?on AND DIM \<noteq> 0 then esc ''[2m'' else []) (?st b (bit a 2) i c) (?st b (bit s 2) i c) []"
    if "bit a 2 \<longrightarrow> bit s 2" for b i c
    by (rule reads_if) (use that reads_esc(3) [of "?st b (bit a 2) i c"] in \<open>auto simp: bits\<close>)
  have 3: "reads (if ?off AND (BOLD OR DIM) \<noteq> 0
      then esc ''[22m'' @ (if s AND BOLD \<noteq> 0 then esc ''[1m'' else []) @ (if s AND DIM \<noteq> 0 then esc ''[2m'' else [])
      else (if ?on AND BOLD \<noteq> 0 then esc ''[1m'' else []) @ (if ?on AND DIM \<noteq> 0 then esc ''[2m'' else []))
      (?st (bit a 0) (bit a 2) i c) (?st (bit s 0) (bit s 2) i c) []" for i c
  proof (rule reads_if [OF again])
    assume "\<not> ?off AND (BOLD OR DIM) \<noteq> 0"
    then have "bit a 0 \<longrightarrow> bit s 0" "bit a 2 \<longrightarrow> bit s 2" by (auto simp: bits)
    then show "reads ((if ?on AND BOLD \<noteq> 0 then esc ''[1m'' else []) @ (if ?on AND DIM \<noteq> 0 then esc ''[2m'' else []))
        (?st (bit a 0) (bit a 2) i c) (?st (bit s 0) (bit s 2) i c) []"
      by (intro reads_silent [OF on_bold on_dim])
  qed
  have 4: "reads (if ?on AND ITALIC \<noteq> 0 then esc ''[3m'' else [])
      (?st b d (bit a 1 \<and> bit s 1) c) (?st b d (bit s 1) c) []" for b d c
    by (rule reads_if) (use reads_esc(4) [of "?st b d (bit a 1 \<and> bit s 1) c"] in \<open>auto simp: bits\<close>)
  have 5: "reads (if ?on AND CYAN \<noteq> 0 then esc ''[36m'' else [])
      (?st b d i (bit a 3 \<and> bit s 3)) (?st b d i (bit s 3)) []" for b d i
    by (rule reads_if) (use reads_esc(7) [of "?st b d i (bit a 3 \<and> bit s 3)"] in \<open>auto simp: bits\<close>)
  show ?thesis
    unfolding style_changes_def Let_def style_of_def [of s]
    by (intro reads_silent [OF 1] reads_silent [OF 2] reads_silent [OF 3] reads_silent [OF 4] 5)
qed

text \<open>Text that holds no sequence of its own.\<close>

definition plain_seg :: "seg \<Rightarrow> bool" where
  "plain_seg seg \<longleftrightarrow> 27 \<notin> set (sg_t seg)
     \<and> (case sg_link seg of None \<Rightarrow> True | Some l \<Rightarrow> 7 \<notin> set l \<and> 27 \<notin> set l)"

definition seg_text :: "seg list \<Rightarrow> (text_style \<times> nat) list" where
  "seg_text segs = concat (map (\<lambda>seg. map (Pair (style_of (sg_s seg))) (sg_t seg)) segs)"

lemma seg_text_simps [simp]:
  "seg_text [] = []"
  "seg_text (seg # segs) = map (Pair (style_of (sg_s seg))) (sg_t seg) @ seg_text segs"
  "seg_text (segs @ segs') = seg_text segs @ seg_text segs'"
  by (simp_all add: seg_text_def)

lemma reads_close: "reads OSC8_CLOSE st st []"
  using reads_osc [of "[56, 59, 59]" st] by (simp add: OSC8_CLOSE_def esc_def u_of_def)

lemma reads_open:
  assumes "7 \<notin> set l" "27 \<notin> set l"
  shows "reads (osc8_open l) st st []"
  using reads_osc [of "56 # 59 # 59 # l" st] assms by (simp add: osc8_open_def esc_def u_of_def)

lemma reads_render_segs:
  "list_all plain_seg segs \<Longrightarrow> \<exists>st. reads (render_segs a l segs) (style_of a) st (seg_text segs)"
proof (induction segs arbitrary: a l)
  case Nil
  have "reads (if l \<noteq> None then OSC8_CLOSE else []) (style_of a) (style_of a) []"
    by (rule reads_if) (simp_all add: reads_close)
  moreover have "\<exists>st. reads (if a \<noteq> 0 then esc ''[0m'' else []) (style_of a) st []"
    by (cases "a = 0") (use reads_esc(1) in auto)
  ultimately show ?case
    using reads_silent by fastforce
next
  case (Cons seg segs)
  then have seg: "plain_seg seg" by simp
  have 1: "reads (if l \<noteq> sg_link seg \<and> l \<noteq> None then OSC8_CLOSE else []) (style_of a) (style_of a) []"
    by (rule reads_if) (simp_all add: reads_close)
  have 2: "reads (if l \<noteq> sg_link seg then (case sg_link seg of None \<Rightarrow> [] | Some l \<Rightarrow> osc8_open l) else [])
      (style_of (sg_s seg)) (style_of (sg_s seg)) []"
    by (rule reads_if) (use seg in \<open>auto simp: plain_seg_def reads_open split: option.splits\<close>)
  have 3: "reads (sg_t seg) (style_of (sg_s seg)) (style_of (sg_s seg)) (map (Pair (style_of (sg_s seg))) (sg_t seg))"
    using seg by (simp add: plain_seg_def reads_text)
  obtain st where 4: "reads (render_segs (sg_s seg) (sg_link seg) segs) (style_of (sg_s seg)) st (seg_text segs)"
    using Cons by fastforce
  have "reads (render_segs a l (seg # segs)) (style_of a) st (seg_text (seg # segs))"
    unfolding render_segs.simps(2) seg_text_simps
    by (intro reads_silent [OF 1] reads_silent [OF reads_style_changes] reads_silent [OF 2] reads_append [OF 3 4])
  then show ?case ..
qed

lemma parse_render_line:
  assumes "list_all plain_seg segs"
  shows "\<exists>spans. parse_line (render_line segs) = Some spans \<and> styled_text spans = seg_text segs"
proof -
  obtain st where "reads (render_line segs) default_style st (seg_text segs)"
    using reads_render_segs [OF assms, of 0 None] by (auto simp: render_line_def)
  then obtain t' out' where "parse_rest (render_line segs @ []) default_style [] [] = parse_rest [] st t' out'"
      "so_far st t' out' = so_far default_style [] [] @ seg_text segs"
    unfolding reads_def by blast
  then show ?thesis
    by (simp add: parse_line_def so_far_def)
qed

end
