(* ===== verification/Ansi_Block_Facts.thy ===== *)
theory Ansi_Block_Facts
  imports Ansi_Block Ansi_Wrap Ansi_Facts
begin

text \<open>
  What is written for a tree of blocks whose texts hold no sequences of their own: lines that the
  reader takes in, and boxes for the images, one after the other inside the lines.
\<close>

section \<open>Plain texts\<close>

definition plain_text :: "ustr \<Rightarrow> bool" where
  "plain_text t \<longleftrightarrow> 27 \<notin> set t \<and> 13 \<notin> set t \<and> 10 \<notin> set t"

definition plain_link :: "ustr option \<Rightarrow> bool" where
  "plain_link link \<longleftrightarrow> (\<forall>l. link = Some l \<longrightarrow> plain_text l \<and> 7 \<notin> set l)"

definition plain_atom :: "atom \<Rightarrow> bool" where
  "plain_atom a \<longleftrightarrow> atom_char a \<noteq> 27 \<and> atom_char a \<noteq> 13 \<and> plain_link (fst (snd a))"

text \<open>A hard break is a line feed in a paragraph.\<close>

definition plain_run :: "seg list \<Rightarrow> bool" where
  "plain_run segs \<longleftrightarrow> (\<forall>a \<in> set (line_atoms segs). plain_atom a)"

fun plain_block :: "block \<Rightarrow> bool" where
  "plain_block (Paragraph segs) \<longleftrightarrow> plain_run segs"
| "plain_block (Heading segs) \<longleftrightarrow> plain_run segs"
| "plain_block Rule \<longleftrightarrow> True"
| "plain_block (Code ls) \<longleftrightarrow> list_all plain_text ls"
| "plain_block (Quote inner) \<longleftrightarrow> list_all plain_block inner"
| "plain_block (Listing ordered start items) \<longleftrightarrow> list_all (list_all plain_block) items"
| "plain_block (Table head rows) \<longleftrightarrow> list_all plain_text head \<and> list_all (list_all plain_text) rows"
| "plain_block (Picture alt url dest) \<longleftrightarrow> plain_text alt \<and> plain_text url \<and> 7 \<notin> set url"

text \<open>Lines that the reader takes in, and the parts of lines after which it has no style.\<close>

definition unbroken :: "ustr \<Rightarrow> bool" where
  "unbroken w \<longleftrightarrow> 10 \<notin> set w \<and> 13 \<notin> set w"

definition readable :: "ustr \<Rightarrow> bool" where
  "readable w \<longleftrightarrow> (\<exists>st new. reads w default_style st new) \<and> unbroken w"

definition neutral :: "ustr \<Rightarrow> bool" where
  "neutral w \<longleftrightarrow> (\<exists>new. reads w default_style default_style new) \<and> unbroken w"

lemma neutral_readable: "neutral w \<Longrightarrow> readable w"
  by (auto simp: neutral_def readable_def)

lemma neutral_append: "neutral v \<Longrightarrow> neutral w \<Longrightarrow> neutral (v @ w)"
  unfolding neutral_def unbroken_def by (metis Un_iff reads_append set_append)

lemma readable_append: "neutral v \<Longrightarrow> readable w \<Longrightarrow> readable (v @ w)"
  unfolding readable_def neutral_def unbroken_def by (metis Un_iff reads_append set_append)

lemma readable_parsed: "readable w \<Longrightarrow> parse_line w \<noteq> None"
  unfolding readable_def reads_def parse_line_def
  by (metis append_Nil2 option.distinct(1) parse_rest.simps(1))

lemma neutral_plain: "plain_text t \<Longrightarrow> neutral t"
  unfolding neutral_def plain_text_def unbroken_def using reads_text by blast

lemma plain_text_simps [simp]:
  "plain_text []"
  "plain_text (t @ u) \<longleftrightarrow> plain_text t \<and> plain_text u"
  "plain_text (c # t) \<longleftrightarrow> c \<noteq> 27 \<and> c \<noteq> 13 \<and> c \<noteq> 10 \<and> plain_text t"
  "plain_text (replicate n c) \<longleftrightarrow> n = 0 \<or> c \<noteq> 27 \<and> c \<noteq> 13 \<and> c \<noteq> 10"
  by (auto simp: plain_text_def)

lemma u_of_simps [simp]: "u_of [] = []" "u_of (c # s) = of_char c # u_of s" "u_of (s @ t) = u_of s @ u_of t"
  by (simp_all add: u_of_def)

lemma neutral_dim:
  assumes "plain_text t"
  shows "neutral (dim t)"
proof -
  have "reads (esc ''[2m'') default_style (default_style\<lparr>st_dim := True\<rparr>) []" by (rule reads_esc)
  moreover have "reads t (default_style\<lparr>st_dim := True\<rparr>) (default_style\<lparr>st_dim := True\<rparr>)
      (map (Pair (default_style\<lparr>st_dim := True\<rparr>)) t)"
    using assms by (intro reads_text) (simp add: plain_text_def)
  moreover have "reads (esc ''[22m'') (default_style\<lparr>st_dim := True\<rparr>) default_style []"
    using reads_esc(5) [of "default_style\<lparr>st_dim := True\<rparr>"] by (simp add: default_style_def)
  ultimately have "\<exists>new. reads (dim t) default_style default_style new"
    unfolding dim_def using reads_append by blast
  moreover have "unbroken (dim t)"
    using assms by (auto simp: unbroken_def dim_def esc_def plain_text_def)
  ultimately show ?thesis by (simp add: neutral_def)
qed

lemma neutral_concat: "\<forall>w \<in> set ws. neutral w \<Longrightarrow> neutral (concat ws)"
  by (induction ws) (auto intro: neutral_append neutral_plain)

lemma qprefix_dim: "qprefix q = concat (replicate q (dim (u_of ''> '')))"
  by (simp add: qprefix_def dim_def)

lemma neutral_qprefix: "neutral (qprefix q)"
  unfolding qprefix_dim by (rule neutral_concat) (auto intro!: neutral_dim)

section \<open>Wrapped lines\<close>

lemma regroup_no_empty: "\<forall>seg \<in> set (regroup atoms). sg_t seg \<noteq> []"
proof (induction atoms rule: rev_induct)
  case (snoc a atoms)
  then show ?case
    by (cases a) (auto simp: regroup_snoc push_seg_link_def dest: in_set_butlastD)
qed (simp add: regroup_def)

definition full_segs :: "seg list \<Rightarrow> bool" where
  "full_segs l \<longleftrightarrow> (\<forall>seg \<in> set l. sg_t seg \<noteq> [])"

lemma wrap_segments_full: "wrap_segments width segs limit = Some ls \<Longrightarrow> l \<in> set ls \<Longrightarrow> full_segs l"
  by (auto simp: wrap_segments_def full_segs_def regroup_no_empty split: option.splits if_splits)

lemma no_newline_sequences:
  "10 \<notin> set (style_changes a s)" "13 \<notin> set (style_changes a s)" "10 \<notin> set OSC8_CLOSE" "13 \<notin> set OSC8_CLOSE"
  by (auto simp: style_changes_def OSC8_CLOSE_def esc_def u_of_def Let_def)

lemma not_in_if: "x \<notin> set w \<Longrightarrow> x \<notin> set (if P then w else [])"
  by (cases P) simp_all

lemma render_segs_no_newline:
  assumes "\<forall>a \<in> set (line_atoms segs). plain_atom a \<and> atom_char a \<noteq> 10" "full_segs segs"
  shows "10 \<notin> set (render_segs act link segs) \<and> 13 \<notin> set (render_segs act link segs)"
  using assms
proof (induction segs arbitrary: act link)
  case Nil
  show ?case by (simp add: no_newline_sequences) (simp add: esc_def u_of_def)
next
  case (Cons seg segs)
  have atom: "plain_atom (sg_s seg, sg_link seg, c) \<and> c \<noteq> 10" if "c \<in> set (sg_t seg)" for c
    using Cons.prems(1) that by (force simp: line_atoms_def seg_atoms_def)
  then have atoms: "\<forall>c \<in> set (sg_t seg). c \<noteq> 10 \<and> c \<noteq> 13 \<and> plain_link (sg_link seg)"
    by (auto simp: plain_atom_def)
  moreover have "sg_t seg \<noteq> []" using Cons.prems(2) by (simp add: full_segs_def)
  ultimately have "plain_link (sg_link seg)" by (metis hd_in_set)
  then have link: "10 \<notin> set (case sg_link seg of None \<Rightarrow> [] | Some l \<Rightarrow> osc8_open l)"
      "13 \<notin> set (case sg_link seg of None \<Rightarrow> [] | Some l \<Rightarrow> osc8_open l)"
    by (auto simp: plain_link_def plain_text_def osc8_open_def esc_def u_of_def split: option.splits)
  moreover have "10 \<notin> set (render_segs (sg_s seg) (sg_link seg) segs) \<and> 13 \<notin> set (render_segs (sg_s seg) (sg_link seg) segs)"
    by (rule Cons.IH) (use Cons.prems in \<open>auto simp: line_atoms_def full_segs_def\<close>)
  moreover have "10 \<notin> set (sg_t seg)" "13 \<notin> set (sg_t seg)" using atoms by blast+
  ultimately show ?case
    using link unfolding render_segs.simps(2) set_append Un_iff
    by (intro conjI notI; elim disjE not_in_if [THEN notE, rotated]) (simp_all only: no_newline_sequences not_False_eq_True)
qed

lemma plain_line:
  assumes "\<forall>a \<in> set (line_atoms l). plain_atom a" "full_segs l"
  shows "list_all plain_seg l"
  unfolding list_all_iff
proof
  fix seg assume seg: "seg \<in> set l"
  then have "\<forall>c \<in> set (sg_t seg). plain_atom (sg_s seg, sg_link seg, c)"
    using assms(1) by (auto simp: line_atoms_def seg_atoms_def)
  moreover have "sg_t seg \<noteq> []" using assms(2) seg by (simp add: full_segs_def)
  ultimately have "27 \<notin> set (sg_t seg)" "plain_link (sg_link seg)"
    by (auto simp: plain_atom_def dest: hd_in_set)
  then show "plain_seg seg"
    by (auto simp: plain_seg_def plain_link_def plain_text_def split: option.splits)
qed

lemma readable_render_line:
  assumes "\<forall>a \<in> set (line_atoms l). plain_atom a \<and> atom_char a \<noteq> 10" "full_segs l"
  shows "readable (render_line l)"
proof -
  have "list_all plain_seg l" using plain_line assms by simp
  then have "\<exists>st new. reads (render_line l) default_style st new"
    using reads_render_segs [of l 0 None] by (auto simp: render_line_def)
  then show ?thesis
    using render_segs_no_newline [OF assms] by (simp add: readable_def unbroken_def render_line_def)
qed

text \<open>The lines of a run that was wrapped.\<close>

lemma wrapped_readable:
  assumes "widths_ok width" "2 \<le> limit" "plain_run segs"
  shows "\<exists>ls. wrap_segments width segs limit = Some ls \<and> (\<forall>l \<in> set ls. readable (render_line l))"
proof -
  obtain ls where ls: "wrap_segments width segs limit = Some ls"
      "concat (map line_atoms ls) = filter (\<lambda>a. atom_char a \<noteq> 10) (line_atoms segs)"
    using wrap_segments_ok [OF assms(1,2), of segs] by blast
  have "readable (render_line l)" if l: "l \<in> set ls" for l
  proof (rule readable_render_line)
    have "set (line_atoms l) \<subseteq> set (concat (map line_atoms ls))" using l by auto
    then show "\<forall>a \<in> set (line_atoms l). plain_atom a \<and> atom_char a \<noteq> 10"
      unfolding ls(2) using assms(3) by (auto simp: plain_run_def)
  qed (rule wrap_segments_full [OF ls(1) l])
  with ls(1) show ?thesis by blast
qed

end
