(* ===== verification/Ansi_Anchors.thy ===== *)
theory Ansi_Anchors
  imports Ansi_Block_Facts
begin

text \<open>
  The boxes of the images: each lies inside the lines, after the one before, and is indented less
  than it is wide, as long as quotes and lists are not nested too deeply.
\<close>

section \<open>Columns of the prefixes\<close>

text \<open>The columns that a part of a line takes, whatever follows it.\<close>

definition takes :: "(nat \<Rightarrow> nat option) \<Rightarrow> ustr \<Rightarrow> nat \<Rightarrow> bool" where
  "takes width w n \<longleftrightarrow> (\<forall>rest. visible_width width (w @ rest) = n + visible_width width rest)"

lemma takes_append: "takes width v m \<Longrightarrow> takes width w n \<Longrightarrow> takes width (v @ w) (m + n)"
  by (simp add: takes_def)

lemma takes_columns: "takes width w n \<Longrightarrow> visible_width width w = n"
  unfolding takes_def by (metis add.right_neutral append_Nil2 visible_width.simps(1))

lemma takes_plain: "27 \<notin> set w \<Longrightarrow> takes width w (sum_list (map (char_width width) w))"
  by (induction w) (auto simp: takes_def)

lemma takes_esc: "takes width (esc ''[2m'') 0" "takes width (esc ''[22m'') 0"
  by (simp_all add: takes_def esc_def is_ascii_alphabetic_def)

lemma ascii_columns:
  assumes "widths_ok width" "\<forall>c \<in> set w. 32 \<le> c \<and> c < 127"
  shows "sum_list (map (char_width width) w) = length w"
  using assms(2) by (induction w) (use assms(1) in \<open>auto simp: widths_ok_def\<close>)

lemma takes_ascii:
  assumes "widths_ok width" "\<forall>c \<in> set w. 32 \<le> c \<and> c < 127"
  shows "takes width w (length w)"
  using takes_plain [of w width] ascii_columns [OF assms] assms(2) by force

lemma takes_qprefix:
  assumes "widths_ok width"
  shows "takes width (qprefix q) (2 * q)"
proof (induction q)
  case (Suc q)
  have "takes width (u_of ''> '') 2"
    using takes_ascii [OF assms, of "u_of ''> ''"] by (simp add: numeral_2_eq_2)
  then have "takes width (esc ''[2m'' @ u_of ''> '' @ esc ''[22m'') (0 + (2 + 0))"
    by (intro takes_append takes_esc)
  from takes_append [OF this Suc] show ?case
    by (simp add: qprefix_def)
qed (simp add: takes_def qprefix_def)

lemma item_number_ascii:
  assumes "n < 10 ^ 10"
  shows "\<forall>c \<in> set (item_number n). 32 \<le> c \<and> c < 127" "length (item_number n) \<le> 12"
proof -
  have "\<forall>c \<in> set (show_nat n). 48 \<le> (of_char c :: nat) \<and> (of_char c :: nat) < 58"
    using digits_less [of 10 _ n] by (fastforce simp: show_nat_def)
  then show "\<forall>c \<in> set (item_number n). 32 \<le> c \<and> c < 127"
    by (fastforce simp: item_number_def Let_def u_of_def)
  have "length (show_nat n) \<le> 10"
    using digits_length [of 10 10 n] assms by (simp add: show_nat_def)
  then show "length (item_number n) \<le> 12"
    by (simp add: item_number_def Let_def u_of_def)
qed

definition indent_ok :: "(nat \<Rightarrow> nat option) \<Rightarrow> nat \<Rightarrow> indent \<Rightarrow> bool" where
  "indent_ok width d ind \<longleftrightarrow> neutral (in_first ind) \<and> neutral (in_cont ind)
     \<and> (\<exists>n \<le> 2 * d + 10. takes width (in_first ind) n) \<and> 74 - 2 * d \<le> in_width ind \<and> in_width ind \<le> 76"

lemma indent_ok_quote:
  assumes "widths_ok width" "indent_ok width d ind"
  shows "indent_ok width (Suc d)
    \<lparr>in_first = in_first ind @ qprefix 1, in_cont = in_cont ind @ qprefix 1, in_width = in_width ind - 2\<rparr>"
proof -
  obtain n where "n \<le> 2 * d + 10" "takes width (in_first ind) n" using assms(2) by (auto simp: indent_ok_def)
  then have "n + 2 \<le> 2 * Suc d + 10" "takes width (in_first ind @ qprefix 1) (n + 2)"
    using takes_append [OF _ takes_qprefix [OF assms(1), of 1]] by auto
  then show ?thesis
    using assms(2) neutral_append [OF _ neutral_qprefix]
    by (auto simp: indent_ok_def simp del: One_nat_def intro!: exI [of _ "n + 2"])
qed

lemma item_lead_ok:
  assumes "widths_ok width"
  shows "neutral (item_lead q level)" "takes width (item_lead q level) (2 * q + 2 * level)"
proof -
  have spaces: "u_of (concat (replicate level ''  '')) = replicate (2 * level) 32"
    by (induction level) (simp_all add: u_of_def)
  show "neutral (item_lead q level)"
    unfolding item_lead_def spaces by (intro neutral_append neutral_qprefix neutral_plain) simp
  show "takes width (item_lead q level) (2 * q + 2 * level)"
    unfolding item_lead_def spaces
    using takes_append [OF takes_qprefix [OF assms] takes_ascii [OF assms, of "replicate (2 * level) 32"]] by simp
qed

lemma indent_ok_item:
  assumes "widths_ok width" "number < 10 ^ 10" "q + level \<le> 15"
  shows "indent_ok width (Suc (q + level)) (item_indent q level ordered number is_first)"
proof -
  note lead = item_lead_ok [OF assms(1), of q level]
  note ascii = item_number_ascii [OF assms(2)]
  have bullet: "takes width (u_of ''  '' @ [8226, 32]) (3 + char_width width 8226)" "char_width width 8226 \<le> 2"
    using takes_plain [of "u_of ''  '' @ [8226, 32]" width] assms(1) by (simp_all add: widths_ok_def eval_nat_numeral)
  have blank: "takes width (u_of ''    '') 4"
    using takes_ascii [OF assms(1), of "u_of ''    ''"] by (simp add: eval_nat_numeral)
  have plain: "plain_text (item_number number)" "plain_text (u_of ''    '')" "plain_text (u_of ''  '' @ [8226, 32])"
    using ascii(1) by (auto simp: plain_text_def)
  let ?mark = "if is_first then if ordered then item_number number else u_of ''  '' @ [8226, 32] else u_of ''    ''"
  have "\<exists>n \<le> 12. takes width (item_number number) n"
    using takes_ascii [OF assms(1) ascii(1)] ascii(2) by blast
  moreover have "\<exists>n \<le> 12. takes width (u_of ''  '' @ [8226, 32]) n"
    using bullet by (intro exI [of _ "3 + char_width width 8226"]) simp
  moreover have "\<exists>n \<le> 12. takes width (u_of ''    '') n"
    using blank by (intro exI [of _ 4]) simp
  ultimately have "\<exists>n \<le> 12. takes width ?mark n" by simp
  then obtain n where n: "n \<le> 12" "takes width ?mark n" by blast
  have "in_first (item_indent q level ordered number is_first) = item_lead q level @ ?mark"
    by (simp add: item_indent_def Let_def)
  moreover have "neutral (item_lead q level @ ?mark)"
    using plain by (intro neutral_append lead(1) neutral_plain) (simp del: u_of_simps split: if_split)
  ultimately show ?thesis
    using takes_append [OF lead(2) n(2)] n(1) assms(3) neutral_append [OF lead(1) neutral_plain [OF plain(2)]]
    by (auto simp: indent_ok_def item_indent_def Let_def WIDTH_def intro!: exI [of _ "2 * q + 2 * level + n"])
qed

lemma indent_ok_width: "indent_ok width d ind \<Longrightarrow> d \<le> 16 \<Longrightarrow> 42 \<le> in_width ind"
  unfolding indent_ok_def by linarith

lemma indent_ok_neutral: "indent_ok width d ind \<Longrightarrow> neutral (in_first ind) \<and> neutral (in_cont ind)"
  by (simp add: indent_ok_def)

section \<open>The boxes\<close>

fun boxes_in :: "nat \<Rightarrow> nat \<Rightarrow> image_anchor list \<Rightarrow> bool" where
  "boxes_in lo hi [] \<longleftrightarrow> lo \<le> hi"
| "boxes_in lo hi (a # as) \<longleftrightarrow>
     lo \<le> ia_block_start a \<and> ia_block_start a < ia_block_end a \<and> boxes_in (ia_block_end a) hi as"

lemma boxes_in_append: "boxes_in lo mid as \<Longrightarrow> boxes_in mid hi bs \<Longrightarrow> boxes_in lo hi (as @ bs)"
proof (induction as arbitrary: lo)
  case Nil
  then show ?case by (cases bs) auto
qed simp

lemma boxes_in_pos: "boxes_in lo hi as \<Longrightarrow> a \<in> set as \<Longrightarrow> 0 < ia_block_end a"
  by (induction lo hi as rule: boxes_in.induct) auto

definition box_ok :: "(ustr \<Rightarrow> img_meta option) \<Rightarrow> image_anchor \<Rightarrow> bool" where
  "box_ok img a \<longleftrightarrow> ia_indent_cols a \<le> ia_display_cols a \<and> ia_display_cols a \<le> 76
     \<and> (\<exists>dest m. img dest = Some m \<and> ia_path a = im_path m \<and> ia_asset a = im_asset m
          \<and> ia_w a = im_w m \<and> ia_h a = im_h m)"

definition writes :: "(ustr \<Rightarrow> img_meta option) \<Rightarrow> sheet \<Rightarrow> sheet \<Rightarrow> bool" where
  "writes img out out' \<longleftrightarrow>
     (\<exists>new as. out' = (fst out @ new, snd out @ as) \<and> (\<forall>l \<in> set new. readable l)
        \<and> boxes_in (length (fst out)) (length (fst out')) as
        \<and> (\<forall>a \<in> set as. box_ok img a \<and> ia_block_end a \<le> length (fst out') \<and> fst out' ! (ia_block_end a - 1) \<noteq> []))"

lemma writes_refl: "writes img out out"
  unfolding writes_def by (rule exI [of _ "[]"], rule exI [of _ "[]"]) simp

lemma writes_trans:
  assumes "writes img out out'" "writes img out' out''"
  shows "writes img out out''"
proof -
  obtain new as where 1: "out' = (fst out @ new, snd out @ as)" "\<forall>l \<in> set new. readable l"
      "boxes_in (length (fst out)) (length (fst out')) as"
      "\<forall>a \<in> set as. box_ok img a \<and> ia_block_end a \<le> length (fst out') \<and> fst out' ! (ia_block_end a - 1) \<noteq> []"
    using assms(1) unfolding writes_def by blast
  obtain new' as' where 2: "out'' = (fst out' @ new', snd out' @ as')" "\<forall>l \<in> set new'. readable l"
      "boxes_in (length (fst out')) (length (fst out'')) as'"
      "\<forall>a \<in> set as'. box_ok img a \<and> ia_block_end a \<le> length (fst out'') \<and> fst out'' ! (ia_block_end a - 1) \<noteq> []"
    using assms(2) unfolding writes_def by blast
  have "0 < ia_block_end a" if "a \<in> set as" for a
    using boxes_in_pos [OF 1(3) that] .
  then have "ia_block_end a - 1 < length (fst out')" if "a \<in> set as" for a
    using that 1(4) by (fastforce simp: Suc_le_eq)
  then have "fst out'' ! (ia_block_end a - 1) = fst out' ! (ia_block_end a - 1)"
    if "a \<in> set as" for a
    using that 2(1) by (simp add: nth_append)
  then show ?thesis
    unfolding writes_def
    by (intro exI [of _ "new @ new'"] exI [of _ "as @ as'"])
       (use 1 2 boxes_in_append [OF 1(3) 2(3)] in auto)
qed

lemma writes_lines: "\<forall>l \<in> set new. readable l \<Longrightarrow> writes img out (fst out @ new, snd out)"
  unfolding writes_def by (rule exI [of _ new], rule exI [of _ "[]"]) simp

text \<open>At most this many quotes and lists around a block, and item numbers of at most ten digits.\<close>

fun nested :: "nat \<Rightarrow> block \<Rightarrow> bool" where
  "nested n (Quote inner) \<longleftrightarrow> (case n of 0 \<Rightarrow> False | Suc m \<Rightarrow> list_all (nested m) inner)"
| "nested n (Listing ordered start items) \<longleftrightarrow>
     (case n of 0 \<Rightarrow> False | Suc m \<Rightarrow> start + length items \<le> 10 ^ 10 \<and> list_all (list_all (nested m)) items)"
| "nested n b \<longleftrightarrow> True"

lemma readable_with_prefix:
  assumes "neutral pre" "neutral cont" "\<forall>l \<in> set ls. readable l"
  shows "\<forall>l \<in> set (with_prefix pre cont ls). readable l"
  using assms by (auto simp: with_prefix_def intro: readable_append split: list.splits)

lemma render_text_writes:
  assumes "widths_ok width" "indent_ok width d ind" "d \<le> 16" "plain_run segs"
  shows "\<exists>out'. render_text width ind segs out = Some out' \<and> writes img out out'"
proof -
  obtain ls where ls: "wrap_segments width segs (in_width ind) = Some ls" "\<forall>l \<in> set ls. readable (render_line l)"
    using wrapped_readable [OF assms(1) _ assms(4), of "in_width ind"] indent_ok_width [OF assms(2,3)] by auto
  then show ?thesis
    using assms(2) readable_with_prefix [of "in_first ind" "in_cont ind" "map render_line ls"]
    by (auto simp: render_text_def indent_ok_def intro!: writes_lines)
qed

lemma neutral_side: "neutral cont \<Longrightarrow> neutral (cont @ dim [9474] @ [32])"
  by (rule neutral_append [OF _ neutral_append [OF neutral_dim neutral_plain]]) simp_all

lemma box_lines_readable:
  assumes "widths_ok width" "indent_ok width d ind" "d \<le> 16" "plain_text alt" "plain_text url" "7 \<notin> set url"
  shows "\<exists>box. box_lines width ind alt url = Some box \<and> box \<noteq> [] \<and> last box \<noteq> [] \<and> (\<forall>l \<in> set box. readable l)"
proof -
  have w: "2 \<le> in_width ind - 3" using indent_ok_width [OF assms(2,3)] by simp
  have "plain_run [\<lparr>sg_s = 0, sg_t = alt, sg_link = None\<rparr>]" "plain_run [\<lparr>sg_s = CYAN, sg_t = url, sg_link = Some url\<rparr>]"
    using assms(4-6) by (auto simp: plain_run_def line_atoms_def seg_atoms_def plain_atom_def plain_link_def plain_text_def)
  then obtain ls ms where
    "wrap_segments width [\<lparr>sg_s = 0, sg_t = alt, sg_link = None\<rparr>] (in_width ind - 3) = Some ls"
    "wrap_segments width [\<lparr>sg_s = CYAN, sg_t = url, sg_link = Some url\<rparr>] (in_width ind - 3) = Some ms"
    "\<forall>l \<in> set ls. readable (render_line l)" "\<forall>l \<in> set ms. readable (render_line l)"
    using wrapped_readable [OF assms(1) w] by meson
  moreover have "readable (in_first ind @ dim ([9484, 9472] @ u_of '' image '' @ replicate (in_width ind - 9) 9472))"
    "readable (in_cont ind @ dim (9492 # replicate (in_width ind - 1) 9472))"
    using assms(2) by (auto simp: indent_ok_def intro!: neutral_readable neutral_append neutral_dim)
  moreover have "readable l \<Longrightarrow> readable ((in_cont ind @ dim [9474] @ [32]) @ l)" for l
    using assms(2) by (intro readable_append neutral_side) (simp add: indent_ok_def)
  moreover have "in_cont ind @ dim t \<noteq> []" for t by (simp add: dim_def esc_def)
  ultimately show ?thesis
    by (auto simp: box_lines_def Let_def)
qed

lemma render_image_writes:
  assumes "widths_ok width" "indent_ok width d ind" "d \<le> 16" "plain_text alt" "plain_text url" "7 \<notin> set url"
  shows "\<exists>out'. render_image width img ind alt url dest out = Some out' \<and> writes img out out'"
proof -
  obtain box where box: "box_lines width ind alt url = Some box" "box \<noteq> []" "last box \<noteq> []" "\<forall>l \<in> set box. readable l"
    using box_lines_readable [OF assms] by blast
  obtain n where "n \<le> 2 * d + 10" "takes width (in_first ind) n" using assms(2) by (auto simp: indent_ok_def)
  then have "visible_width width (in_first ind) \<le> in_width ind"
    using takes_columns assms(2,3) by (fastforce simp: indent_ok_def)
  then have cols: "visible_width width (in_first ind) \<le> in_width ind \<and> in_width ind \<le> 76"
    using assms(2) by (simp add: indent_ok_def)
  have end_line: "(fst out @ box) ! (length (fst out @ box) - 1) \<noteq> []"
    using box(2,3) by (cases box rule: rev_cases) (simp_all add: nth_append)
  show ?thesis
  proof (cases "img dest")
    case None
    then show ?thesis
      using box(1) writes_lines [OF box(4), of img out] by (simp add: render_image_def)
  next
    case (Some m)
    let ?a = "\<lparr>ia_block_start = length (fst out), ia_block_end = length (fst out @ box),
                 ia_path = im_path m, ia_asset = im_asset m, ia_w = im_w m, ia_h = im_h m,
                 ia_indent_cols = visible_width width (in_first ind), ia_display_cols = in_width ind,
                 ia_alt = alt\<rparr>"
    have "box_ok img ?a" using Some cols by (auto simp: box_ok_def)
    then have "writes img out (fst out @ box, snd out @ [?a])"
      unfolding writes_def
      by (intro exI [of _ box] exI [of _ "[?a]"]) (use box(2,4) end_line in simp)
    then show ?thesis using Some box(1) by (simp add: render_image_def)
  qed
qed

lemma render_code_readable:
  assumes "indent_ok width d ind" "list_all plain_text ls"
  shows "\<forall>l \<in> set (render_code ind ls). readable l"
proof -
  have "neutral (dim [9474] @ u_of ''   '' @ l)" if "plain_text l" for l
    using that by (intro neutral_append [OF neutral_dim neutral_append [OF neutral_plain neutral_plain]]) simp_all
  then show ?thesis
    unfolding render_code_def using indent_ok_neutral [OF assms(1)] assms(2)
    by (intro readable_with_prefix) (auto simp: list_all_iff intro: neutral_readable)
qed

lemma plain_join_cells: "list_all plain_text cells \<Longrightarrow> plain_text (join_cells cells)"
  by (induction cells rule: join_cells.induct) simp_all

lemma render_table_readable:
  assumes "indent_ok width d ind" "list_all plain_text head" "list_all (list_all plain_text) rows"
  shows "\<forall>l \<in> set (render_table ind head rows). readable l"
proof -
  note ind = indent_ok_neutral [OF assms(1)]
  have cells: "readable (pre @ join_cells r)" if "neutral pre" "list_all plain_text r" for pre r
    using that by (intro neutral_readable neutral_append [OF _ neutral_plain] plain_join_cells)
  have "readable (in_cont ind @ dim (u_of ''---- | ----''))"
    using ind neutral_readable neutral_append [OF _ neutral_dim, of "in_cont ind"] by simp
  then show ?thesis
    using cells ind assms(2,3) by (auto simp: render_table_def list_all_iff)
qed

section \<open>The whole tree\<close>

lemma render_writes:
  shows "widths_ok width \<and> indent_ok width (q + level) ind \<and> plain_block b \<and> nested n b \<and> q + level + n \<le> 16
      \<Longrightarrow> \<exists>out'. render_block width img q level ind b out = Some out' \<and> writes img out out'"
    and "widths_ok width \<and> indent_ok width (q + level) ind \<and> list_all plain_block bs \<and> list_all (nested n) bs
        \<and> q + level + n \<le> 16
      \<Longrightarrow> \<exists>out'. render_blocks width img q level ind bs out = Some out' \<and> writes img out out'"
    and "widths_ok width \<and> list_all (list_all plain_block) items \<and> list_all (list_all (nested n)) items
        \<and> Suc (q + level + n) \<le> 16 \<and> number + length items \<le> 10 ^ 10
      \<Longrightarrow> \<exists>out'. render_items width img q level ordered number items out = Some out' \<and> writes img out out'"
    and "widths_ok width \<and> list_all plain_block item \<and> list_all (nested n) item
        \<and> Suc (q + level + n) \<le> 16 \<and> number < 10 ^ 10
      \<Longrightarrow> \<exists>out'. render_item width img q level ordered number is_first item out = Some out' \<and> writes img out out'"
proof (induction width img q level ind b out and width img q level ind bs out
    and width img q level ordered number items out and width img q level ordered number is_first item out
    arbitrary: n and n and n and n rule: render_block_render_blocks_render_items_render_item.induct)
  case (1 width img q level ind segs out)
  then show ?case using render_text_writes [of width "q + level" ind segs out img] by simp
next
  case (2 width img q level ind segs out)
  then show ?case using render_text_writes [of width "q + level" ind segs out img] by simp
next
  case (3 width img q level ind out)
  then have "readable (in_first ind @ dim (u_of (replicate WIDTH (CHR ''-''))))"
    using indent_ok_neutral [of width "q + level" ind]
    by (intro neutral_readable neutral_append [OF _ neutral_dim]) (simp_all add: u_of_def)
  then show ?case
    using writes_lines [of "[in_first ind @ dim (u_of (replicate WIDTH (CHR ''-'')))]" img out] by simp
next
  case (4 width img q level ind ls out)
  then show ?case
    using writes_lines [OF render_code_readable, of width "q + level" ind ls img out] by simp
next
  case (5 width img q level ind inner out)
  then obtain m where "n = Suc m" "list_all (nested m) inner" by (auto split: nat.splits)
  with "5.IH" [of m] "5.prems" show ?case
    using indent_ok_quote [of width "q + level" ind] by simp
next
  case (6 width img q level ind ordered start items out)
  then obtain m where "n = Suc m" "list_all (list_all (nested m)) items" "start + length items \<le> 10 ^ 10"
    by (auto split: nat.splits)
  with "6.IH" [of m] "6.prems" show ?case by simp
next
  case (7 width img q level ind head rows out)
  then show ?case
    using writes_lines [OF render_table_readable, of width "q + level" ind head rows img out] by simp
next
  case (8 width img q level ind alt url dest out)
  then show ?case
    using render_image_writes [of width "q + level" ind alt url img dest out] by simp
next
  case (9 width img q level ind out)
  then show ?case by (simp add: writes_refl)
next
  case (10 width img q level ind b bs out)
  then obtain out1 where 1: "render_block width img q level ind b out = Some out1" "writes img out out1"
    using "10.IH"(1) [of n] by auto
  define out2 where "out2 = (case b of Quote _ \<Rightarrow> out1 | _ \<Rightarrow> (fst out1 @ [[]], snd out1))"
  have "writes img out1 out2"
    using writes_lines [of "[[]]" img out1] writes_refl [of img out1]
    by (auto simp: out2_def neutral_readable neutral_plain split: block.split)
  moreover obtain out3 where 3: "render_blocks width img q level ind bs out2 = Some out3" "writes img out2 out3"
    using "10.IH"(2) [OF 1(1), of n] "10.prems" unfolding out2_def by auto
  ultimately have "writes img out out3" using 1(2) writes_trans by metis
  moreover have "render_blocks width img q level ind (b # bs) out = render_blocks width img q level ind bs out2"
    by (simp add: 1(1) out2_def)
  ultimately show ?case using 3(1) by simp
next
  case (11 width img q level ordered number out)
  then show ?case by (simp add: writes_refl)
next
  case (12 width img q level ordered number item items out)
  then obtain out1 where 1: "render_item width img q level ordered number True item out = Some out1" "writes img out out1"
    using "12.IH"(1) [of n] by auto
  moreover obtain out2 where "render_items width img q level ordered (number + 1) items out1 = Some out2" "writes img out1 out2"
    using "12.IH"(2) [OF 1(1), of n] "12.prems" by auto
  ultimately show ?case using writes_trans by auto
next
  case (13 width img q level ordered number is_first out)
  then show ?case by (simp add: writes_refl)
next
  case (14 width img q level ordered number is_first b bs out)
  then have "indent_ok width (q + (level + 1)) (item_indent q level ordered number is_first)"
    using indent_ok_item [of width number q level ordered is_first] by simp
  with 14 obtain out1 where 1: "render_block width img q (level + 1) (item_indent q level ordered number is_first) b out
      = Some out1" "writes img out out1"
    using "14.IH"(1) [of n] by auto
  moreover obtain out2 where "render_item width img q level ordered number False bs out1 = Some out2" "writes img out1 out2"
    using "14.IH"(2) [OF 1(1), of n] "14.prems" by auto
  ultimately show ?case using writes_trans by auto
qed

text \<open>The prepared text, read again line by line.\<close>

lemma pop_empty_prefix: "\<exists>k. ls = pop_empty ls @ replicate k []"
proof (induction ls)
  case (Cons l ls)
  then obtain k where "ls = pop_empty ls @ replicate k []" by blast
  then show ?case
    by (cases "pop_empty ls"; cases l)
       (auto intro: exI [of _ "Suc k"] exI [of _ k] simp: Cons_replicate_eq)
qed simp

lemma boxes_in_shrink:
  assumes "boxes_in lo hi as" "hi' \<le> hi" "\<forall>a \<in> set as. ia_block_end a \<le> hi'" "lo \<le> hi'"
  shows "boxes_in lo hi' as"
  using assms by (induction lo hi as rule: boxes_in.induct) auto

lemma lines_of_ansi_text:
  assumes "\<forall>l \<in> set ls. unbroken l" "ls \<noteq> []"
  shows "lines_of 10 13 (ansi_text ls) = ls"
proof -
  have "ansi_text ls = concat (map (\<lambda>l. l @ [10]) ls)"
    unfolding ansi_text_def using assms(2) by (induction ls rule: join_with.induct) simp_all
  moreover have "strip_suffix [13] l = None" if "l \<in> set ls" for l
    using assms(1) that by (auto simp: unbroken_def strip_suffix_None)
  ultimately show ?thesis
    using lines_of_terminated [of ls 10 13] assms(1) by (simp add: unbroken_def del: lines_of.simps)
qed

end
