(* ===== verification/Reader_View.thy ===== *)
theory Reader_View
  imports Reader_Spans Content_Model
begin

text \<open>
  The viewport of the reader (\<^verbatim>\<open>jailbin/src/blog/reader.rs\<close>): the checks on a prepared article, the
  geometry of images in rows of the terminal, the model of rows, and what keys and changes of the
  size of the terminal do to the place where one reads.
\<close>

definition MIN_COLS :: nat where "MIN_COLS = 76"
definition PRE_COLS :: nat where "PRE_COLS = 76"

record img_anchor =
  an_block_start :: nat
  an_block_end :: nat
  an_path :: string
  an_asset :: string
  an_w :: u32
  an_h :: u32
  an_indent_cols :: nat
  an_display_cols :: nat
  an_alt :: ustr

record prepared =
  pr_lines :: "span list list"
  pr_raw :: "ustr list"
  pr_images :: "img_anchor list"

section \<open>Preflight\<close>

datatype preflight_error =
    Text_empty | Block_bounds | Block_overlap | Zero_size | Bad_columns
  | Bad_resource path_error | Asset_empty | Asset_missing

text \<open>The metadata of a file below \<^verbatim>\<open>.rendered-assets\<close>: whether it is a file, and its length.\<close>

type_synonym asset_files = "string \<Rightarrow> (bool \<times> nat) option"

definition validate_asset :: "asset_files \<Rightarrow> string \<Rightarrow> preflight_error + unit" where
  "validate_asset files asset =
     (case validate_resource_rel asset of
        Inl e \<Rightarrow> Inl (Bad_resource e)
      | Inr _ \<Rightarrow>
          (case files asset of
             Some (is_file, len) \<Rightarrow> if is_file \<and> 0 < len then Inr () else Inl Asset_empty
           | None \<Rightarrow> Inl Asset_missing))"

fun check_anchors :: "asset_files \<Rightarrow> nat \<Rightarrow> nat \<Rightarrow> img_anchor list \<Rightarrow> preflight_error + unit" where
  "check_anchors files n prev_end [] = Inr ()"
| "check_anchors files n prev_end (a # as) =
     (if \<not> (an_block_start a < an_block_end a \<and> an_block_end a \<le> n) then Inl Block_bounds
      else if an_block_start a < prev_end then Inl Block_overlap
      else if an_w a = 0 \<or> an_h a = 0 then Inl Zero_size
      else if an_display_cols a < an_indent_cols a \<or> PRE_COLS < an_display_cols a then Inl Bad_columns
      else and_then (validate_asset files (an_asset a)) (\<lambda>_. check_anchors files n (an_block_end a) as))"

text \<open>The outer \<open>None\<close> is a panic while the lines are cut into spans.\<close>

definition preflight ::
  "asset_files \<Rightarrow> ustr \<Rightarrow> img_anchor list \<Rightarrow> (preflight_error + prepared) option"
where
  "preflight files content images =
     (let raw = lines_of 10 13 content
      in if raw = [] then Some (Inl Text_empty)
         else case check_anchors files (length raw) 0 images of
           Inl e \<Rightarrow> Some (Inl e)
         | Inr _ \<Rightarrow>
             (if list_ex (\<lambda>l. parse_line l = None) raw then None
              else Some (Inr \<lparr>pr_lines = map (the \<circ> parse_line) raw, pr_raw = raw, pr_images = images\<rparr>)))"

section \<open>Geometry\<close>

definition display_height :: "img_anchor \<Rightarrow> u32 \<Rightarrow> u32" where
  "display_height a wpx = of_nat (max 1 (unat wpx * unat (an_h a) div unat (an_w a)))"

definition saturating_mul :: "u32 \<Rightarrow> u32 \<Rightarrow> u32" where
  "saturating_mul a b = of_nat (min (2 ^ 32 - 1) (unat a * unat b))"

text \<open>Columns, width in pixels, rows.\<close>

definition block_geometry :: "img_anchor \<Rightarrow> u16 \<Rightarrow> u32 \<Rightarrow> u32 \<Rightarrow> nat \<times> u32 \<times> nat" where
  "block_geometry a cols cell_w cell_h =
     (let wcols = max 1 (min (an_display_cols a) (unat cols - an_indent_cols a));
          wpx = max 1 (saturating_mul (of_nat wcols) cell_w);
          hpx = display_height a wpx
      in (wcols, wpx, max 1 ((unat hpx + unat cell_h - 1) div unat cell_h)))"

definition slice_window :: "u32 \<Rightarrow> u32 \<Rightarrow> nat \<Rightarrow> nat \<Rightarrow> u32 \<times> u32" where
  "slice_window full_hpx cell_h k vis_rows =
     (let to_display = (\<lambda>rows. of_nat (min (rows * unat cell_h) (unat full_hpx)) :: u32);
          y0 = to_display k;
          y1 = to_display (k + vis_rows)
      in if y1 \<le> y0 then ((if y0 = 0 then 0 else y0 - 1), min (max y0 1) full_hpx) else (y0, y1))"

section \<open>The model of rows\<close>

datatype item_kind = Text_row nat | Image_row nat | Alt_row nat

record model =
  md_items :: "item_kind list"
  md_block_row :: "nat list"
  md_r_rows :: "nat list"

text \<open>One image after the other; \<open>rows\<close> is what the geometry gives for an image whose payload is at
  hand, and \<open>None\<close> for one that is shown as its box.\<close>

fun build_images :: "(nat \<Rightarrow> nat option) \<Rightarrow> nat \<Rightarrow> img_anchor list \<Rightarrow> nat \<Rightarrow> model \<Rightarrow> nat \<times> model" where
  "build_images rows i [] cursor m = (cursor, m)"
| "build_images rows i (a # as) cursor m =
     (let items = md_items m @ map Text_row [cursor..<an_block_start a]
      in build_images rows (i + 1) as (an_block_end a)
           (case rows i of
              Some r \<Rightarrow> \<lparr>md_items = items @ replicate r (Image_row i) @ [Alt_row i],
                         md_block_row = md_block_row m @ [length items], md_r_rows = md_r_rows m @ [r]\<rparr>
            | None \<Rightarrow> \<lparr>md_items = items @ map Text_row [an_block_start a..<an_block_end a],
                       md_block_row = md_block_row m @ [length items], md_r_rows = md_r_rows m @ [0]\<rparr>))"

definition build_rows :: "(nat \<Rightarrow> nat option) \<Rightarrow> prepared \<Rightarrow> model" where
  "build_rows rows prep =
     (case build_images rows 0 (pr_images prep) 0 \<lparr>md_items = [], md_block_row = [], md_r_rows = []\<rparr> of
        (cursor, m) \<Rightarrow> m\<lparr>md_items := md_items m @ map Text_row [cursor..<length (pr_raw prep)]\<rparr>)"

definition anchor_line :: "model \<Rightarrow> prepared \<Rightarrow> nat \<Rightarrow> nat" where
  "anchor_line m prep scroll =
     (if scroll < length (md_items m)
      then (case md_items m ! scroll of
              Text_row line \<Rightarrow> line
            | Image_row img \<Rightarrow> (if img < length (pr_images prep) then an_block_start (pr_images prep ! img) else 0)
            | Alt_row img \<Rightarrow> (if img < length (pr_images prep) then an_block_start (pr_images prep ! img) else 0))
      else 0)"

definition at_or_after :: "prepared \<Rightarrow> nat \<Rightarrow> item_kind \<Rightarrow> bool" where
  "at_or_after prep line k =
     (case k of
        Text_row l \<Rightarrow> line \<le> l
      | Image_row img \<Rightarrow> img < length (pr_images prep) \<longrightarrow> line \<le> an_block_start (pr_images prep ! img)
      | Alt_row img \<Rightarrow> img < length (pr_images prep) \<longrightarrow> line \<le> an_block_start (pr_images prep ! img))"

definition scroll_to_line :: "model \<Rightarrow> prepared \<Rightarrow> nat \<Rightarrow> nat" where
  "scroll_to_line m prep line = length (takeWhile (\<lambda>k. \<not> at_or_after prep line k) (md_items m))"

text \<open>\<open>exit_view\<close>: the lines that stay on the screen after the end.  \<open>None\<close>: a panic.\<close>

function exit_loop :: "prepared \<Rightarrow> model \<Rightarrow> nat \<Rightarrow> nat \<Rightarrow> ustr list option" where
  "exit_loop prep m end_row i =
     (if end_row \<le> i then Some []
      else case md_items m ! i of
        Text_row line \<Rightarrow>
          if line < length (pr_raw prep)
          then map_option ((#) (pr_raw prep ! line)) (exit_loop prep m end_row (i + 1)) else None
      | Image_row img \<Rightarrow>
          if img < length (pr_images prep) \<and> img < length (md_r_rows m)
             \<and> an_block_start (pr_images prep ! img) \<le> an_block_end (pr_images prep ! img)
             \<and> an_block_end (pr_images prep ! img) \<le> length (pr_raw prep)
          then (let a = pr_images prep ! img
                in map_option ((@) (take (an_block_end a - an_block_start a) (drop (an_block_start a) (pr_raw prep))))
                     (exit_loop prep m end_row (i + max 1 (md_r_rows m ! img))))
          else None
      | Alt_row img \<Rightarrow> exit_loop prep m end_row (i + 1))"
  by pat_completeness auto
termination by (relation "measure (\<lambda>(prep, m, end_row, i). end_row - i)") auto

definition exit_view :: "prepared \<Rightarrow> model \<Rightarrow> nat \<Rightarrow> nat \<Rightarrow> ustr list option" where
  "exit_view prep m scroll rows = exit_loop prep m (min (scroll + rows) (length (md_items m))) scroll"

section \<open>Keys\<close>

datatype key_code = Key_char nat | Key_esc | Key_up | Key_down | Key_page_up | Key_page_down | Key_other

datatype key_act = Act_quit | Act_down nat | Act_up nat | Act_top | Act_bottom | Act_none

definition key_action :: "key_code \<Rightarrow> bool \<Rightarrow> key_act" where
  "key_action code control =
     (if control \<and> code = Key_char 99 then Act_quit
      else case code of
        Key_char c \<Rightarrow>
          if c = 113 then Act_quit
          else if c = 106 then Act_down 1
          else if c = 107 then Act_up 1
          else if c = 32 then Act_down 0
          else if c = 98 then Act_up 0
          else if c = 103 then Act_top
          else if c = 71 then Act_bottom
          else Act_none
      | Key_esc \<Rightarrow> Act_quit
      | Key_down \<Rightarrow> Act_down 1
      | Key_up \<Rightarrow> Act_up 1
      | Key_page_down \<Rightarrow> Act_down 0
      | Key_page_up \<Rightarrow> Act_up 0
      | Key_other \<Rightarrow> Act_none)"

definition max_scroll :: "model \<Rightarrow> nat \<Rightarrow> nat" where
  "max_scroll m rows = length (md_items m) - rows"

text \<open>The new place; \<open>None\<close> for the keys that end the reader.\<close>

definition new_scroll :: "model \<Rightarrow> nat \<Rightarrow> key_act \<Rightarrow> nat \<Rightarrow> nat option" where
  "new_scroll m rows act scroll =
     (case act of
        Act_quit \<Rightarrow> None
      | Act_down n \<Rightarrow> Some (min (scroll + (if n = 0 then rows else n)) (max_scroll m rows))
      | Act_up n \<Rightarrow> Some (scroll - (if n = 0 then rows else n))
      | Act_top \<Rightarrow> Some 0
      | Act_bottom \<Rightarrow> Some (max_scroll m rows)
      | Act_none \<Rightarrow> Some scroll)"

datatype physical = Scroll_up | Scroll_down

definition incremental_target :: "nat \<Rightarrow> nat \<Rightarrow> nat \<Rightarrow> (physical \<times> nat \<times> nat) option" where
  "incremental_target old_scroll scroll rows =
     (if rows = 0 then None
      else if old_scroll \<le> scroll \<and> scroll - old_scroll = 1 then Some (Scroll_up, scroll + (rows - 1), rows - 1)
      else if scroll \<le> old_scroll \<and> old_scroll - scroll = 1 then Some (Scroll_down, scroll, 0)
      else None)"

end
