(* ===== verification/Reader_View_Facts.thy ===== *)
theory Reader_View_Facts
  imports Reader_View
begin

text \<open>
  The rows of the model: their lines of the prepared text ascend, so that a line is found again
  after the model was built anew; and the slices of an image are its rows, one after the other.
\<close>

section \<open>Anchors that passed the checks\<close>

fun anchors_ok :: "nat \<Rightarrow> nat \<Rightarrow> img_anchor list \<Rightarrow> bool" where
  "anchors_ok n lo [] \<longleftrightarrow> lo \<le> n"
| "anchors_ok n lo (a # as) \<longleftrightarrow>
     lo \<le> an_block_start a \<and> an_block_start a < an_block_end a \<and> anchors_ok n (an_block_end a) as"

definition anchor_shape_ok :: "img_anchor \<Rightarrow> bool" where
  "anchor_shape_ok a \<longleftrightarrow> an_w a \<noteq> 0 \<and> an_h a \<noteq> 0 \<and> an_indent_cols a \<le> an_display_cols a \<and> an_display_cols a \<le> PRE_COLS"

lemma anchors_ok_le: "anchors_ok n lo as \<Longrightarrow> lo \<le> n"
  by (induction as arbitrary: lo) fastforce+

lemma check_anchors_Inr:
  assumes "lo \<le> n"
  shows "check_anchors files n lo as = Inr u \<longleftrightarrow>
    anchors_ok n lo as \<and> (\<forall>a \<in> set as. anchor_shape_ok a \<and> validate_asset files (an_asset a) = Inr ())"
  using assms
proof (induction as arbitrary: lo)
  case (Cons a as)
  have ok: "anchors_ok n (an_block_end a) as \<Longrightarrow> an_block_end a \<le> n" by (rule anchors_ok_le)
  show ?case
    using Cons.IH [of "an_block_end a"] ok
    by (cases "validate_asset files (an_asset a)") (auto simp: anchor_shape_ok_def not_less)
qed simp

section \<open>The lines of the rows\<close>

fun item_line :: "img_anchor list \<Rightarrow> item_kind \<Rightarrow> nat" where
  "item_line images (Text_row l) = l"
| "item_line images (Image_row i) = an_block_start (images ! i)"
| "item_line images (Alt_row i) = an_block_start (images ! i)"

fun image_items :: "(nat \<Rightarrow> nat option) \<Rightarrow> nat \<Rightarrow> img_anchor list \<Rightarrow> nat \<Rightarrow> nat \<Rightarrow> item_kind list" where
  "image_items rows i [] cursor n = map Text_row [cursor..<n]"
| "image_items rows i (a # as) cursor n =
     map Text_row [cursor..<an_block_start a]
     @ (case rows i of
          Some r \<Rightarrow> replicate r (Image_row i) @ [Alt_row i]
        | None \<Rightarrow> map Text_row [an_block_start a..<an_block_end a])
     @ image_items rows (i + 1) as (an_block_end a) n"

lemma build_images_items:
  "build_images rows i as cursor m = (c, m') \<Longrightarrow>
     md_items m' @ map Text_row [c..<n] = md_items m @ image_items rows i as cursor n"
  by (induction as arbitrary: i cursor m) (auto simp: Let_def split: option.splits)

lemma build_rows_items [simp]:
  "md_items (build_rows rows prep) = image_items rows 0 (pr_images prep) 0 (length (pr_raw prep))"
proof -
  obtain c m where b: "build_images rows 0 (pr_images prep) 0 \<lparr>md_items = [], md_block_row = [], md_r_rows = []\<rparr> = (c, m)"
    by fastforce
  show ?thesis
    using build_images_items [OF b, of "length (pr_raw prep)"] b by (simp add: build_rows_def)
qed

fun row_lines :: "(nat \<Rightarrow> nat option) \<Rightarrow> nat \<Rightarrow> img_anchor list \<Rightarrow> nat \<Rightarrow> nat \<Rightarrow> nat list" where
  "row_lines rows i [] cursor n = [cursor..<n]"
| "row_lines rows i (a # as) cursor n =
     [cursor..<an_block_start a]
     @ (case rows i of
          Some r \<Rightarrow> replicate (Suc r) (an_block_start a) | None \<Rightarrow> [an_block_start a..<an_block_end a])
     @ row_lines rows (i + 1) as (an_block_end a) n"

lemma image_items_lines:
  "images = pre @ as \<Longrightarrow> length pre = i \<Longrightarrow>
     map (item_line images) (image_items rows i as cursor n) = row_lines rows i as cursor n"
proof (induction as arbitrary: i pre cursor)
  case (Cons a as)
  then have "map (item_line images) (image_items rows (i + 1) as (an_block_end a) n)
      = row_lines rows (i + 1) as (an_block_end a) n"
    by (intro Cons.IH [of "pre @ [a]"]) auto
  moreover have "images ! i = a" using Cons.prems by auto
  moreover have "replicate (Suc r) x = replicate r x @ [x]" for r and x :: nat
    by (simp add: replicate_append_same)
  ultimately show ?case by (auto simp: map_idI split: option.splits)
qed (simp add: map_idI)

lemma row_lines_bounds:
  "anchors_ok n cursor as \<Longrightarrow> x \<in> set (row_lines rows i as cursor n) \<Longrightarrow> cursor \<le> x"
  by (induction as arbitrary: i cursor) (fastforce split: option.splits)+

lemma row_lines_sorted: "anchors_ok n cursor as \<Longrightarrow> sorted (row_lines rows i as cursor n)"
proof (induction as arbitrary: i cursor)
  case (Cons a as)
  then have "anchors_ok n (an_block_end a) as" and a: "cursor \<le> an_block_start a" "an_block_start a < an_block_end a"
    by simp_all
  with Cons.IH have "sorted (row_lines rows (i + 1) as (an_block_end a) n)"
    and "\<And>x. x \<in> set (row_lines rows (i + 1) as (an_block_end a) n) \<Longrightarrow> an_block_end a \<le> x"
    by (auto dest: row_lines_bounds)
  with a show ?case
    by (fastforce simp: sorted_append split: option.splits)
qed simp

lemma row_lines_mono:
  assumes "\<And>i. rows i = None \<Longrightarrow> rows' i = None"
  shows "anchors_ok n cursor as \<Longrightarrow> set (row_lines rows i as cursor n) \<subseteq> set (row_lines rows' i as cursor n)"
proof (induction as arbitrary: i cursor)
  case (Cons a as)
  then have "set (row_lines rows (i + 1) as (an_block_end a) n) \<subseteq> set (row_lines rows' (i + 1) as (an_block_end a) n)"
    by simp
  with Cons.prems assms [of i] show ?case
    by (cases "rows i"; cases "rows' i") auto
qed simp

section \<open>Finding a line again\<close>

lemma scroll_to_line_length: "scroll_to_line m prep line \<le> length (md_items m)"
  by (simp add: scroll_to_line_def length_takeWhile_le)

lemma find_again:
  assumes "sorted (map f xs)" "l \<in> f ` set xs" "\<And>x. x \<in> set xs \<Longrightarrow> P x \<longleftrightarrow> l \<le> f x"
  shows "length (takeWhile (\<lambda>x. \<not> P x) xs) < length xs \<and> f (xs ! length (takeWhile (\<lambda>x. \<not> P x) xs)) = l"
  using assms
proof (induction xs)
  case (Cons x xs)
  show ?case
  proof (cases "P x")
    case True
    then have "l \<le> f x" using Cons.prems(3) by simp
    moreover have "f x \<le> l" using Cons.prems(1,2) by auto
    ultimately show ?thesis using True by simp
  next
    case False
    then have "f x \<noteq> l" using Cons.prems(3) [of x] by auto
    then show ?thesis using False Cons by auto
  qed
qed simp

lemma image_items_index:
  assumes "images = pre @ as" "length pre = i"
  shows "k \<in> set (image_items rows i as cursor n) \<Longrightarrow>
    (case k of Text_row l \<Rightarrow> True | Image_row j \<Rightarrow> j < length images | Alt_row j \<Rightarrow> j < length images)"
  using assms
proof (induction as arbitrary: i pre cursor)
  case (Cons a as)
  then have "k \<in> set (image_items rows (i + 1) as (an_block_end a) n) \<Longrightarrow>
    (case k of Text_row l \<Rightarrow> True | Image_row j \<Rightarrow> j < length images | Alt_row j \<Rightarrow> j < length images)"
    by (intro Cons.IH [of "i + 1" _ "pre @ [a]"]) auto
  with Cons.prems show ?case by (auto split: option.splits)
qed auto

lemma built_item:
  assumes "k \<in> set (md_items (build_rows rows prep))"
  shows "at_or_after prep line k \<longleftrightarrow> line \<le> item_line (pr_images prep) k"
proof -
  have "case k of Text_row l \<Rightarrow> True | Image_row j \<Rightarrow> j < length (pr_images prep)
      | Alt_row j \<Rightarrow> j < length (pr_images prep)"
    using image_items_index [of "pr_images prep" "[]" "pr_images prep" 0] assms by simp
  then show ?thesis by (cases k) (simp_all add: at_or_after_def)
qed

lemma built_anchor_line:
  assumes "s < length (md_items (build_rows rows prep))"
  shows "anchor_line (build_rows rows prep) prep s = item_line (pr_images prep) (md_items (build_rows rows prep) ! s)"
proof -
  have "case md_items (build_rows rows prep) ! s of Text_row l \<Rightarrow> True | Image_row j \<Rightarrow> j < length (pr_images prep)
      | Alt_row j \<Rightarrow> j < length (pr_images prep)"
    using image_items_index [of "pr_images prep" "[]" "pr_images prep" 0] nth_mem [OF assms] by simp
  with assms show ?thesis
    by (cases "md_items (build_rows rows prep) ! s") (simp_all add: anchor_line_def)
qed

definition prepared_ok :: "prepared \<Rightarrow> bool" where
  "prepared_ok prep \<longleftrightarrow> anchors_ok (length (pr_raw prep)) 0 (pr_images prep)
     \<and> length (pr_lines prep) = length (pr_raw prep) \<and> (\<forall>a \<in> set (pr_images prep). anchor_shape_ok a)"

lemma preflight_ok:
  assumes "preflight files content images = Some (Inr prep)"
  shows "prepared_ok prep"
proof -
  have checked: "check_anchors files (length (lines_of 10 13 content)) 0 images = Inr ()"
    and prep: "prep = \<lparr>pr_lines = map (the \<circ> parse_line) (lines_of 10 13 content),
      pr_raw = lines_of 10 13 content, pr_images = images\<rparr>"
    using assms by (auto simp: preflight_def Let_def simp del: lines_of.simps split: if_splits sum.splits)
  show ?thesis
    using checked by (simp add: prep prepared_ok_def check_anchors_Inr del: lines_of.simps)
qed

lemma built_lines:
  assumes "prepared_ok prep"
  shows "sorted (map (item_line (pr_images prep)) (md_items (build_rows rows prep)))"
    and "(\<And>i. rows i = None \<Longrightarrow> rows' i = None) \<Longrightarrow>
      item_line (pr_images prep) ` set (md_items (build_rows rows prep))
      \<subseteq> item_line (pr_images prep) ` set (md_items (build_rows rows' prep))"
proof -
  have lines: "map (item_line (pr_images prep)) (md_items (build_rows f prep))
      = row_lines f 0 (pr_images prep) 0 (length (pr_raw prep))" for f
    using image_items_lines [of "pr_images prep" "[]" "pr_images prep" 0] by simp
  have ok: "anchors_ok (length (pr_raw prep)) 0 (pr_images prep)" using assms by (simp add: prepared_ok_def)
  show "sorted (map (item_line (pr_images prep)) (md_items (build_rows rows prep)))"
    unfolding lines by (rule row_lines_sorted [OF ok])
  assume mono: "\<And>i. rows i = None \<Longrightarrow> rows' i = None"
  have "set (map (item_line (pr_images prep)) (md_items (build_rows rows prep)))
      \<subseteq> set (map (item_line (pr_images prep)) (md_items (build_rows rows' prep)))"
    unfolding lines by (rule row_lines_mono [OF mono ok])
  then show "item_line (pr_images prep) ` set (md_items (build_rows rows prep))
      \<subseteq> item_line (pr_images prep) ` set (md_items (build_rows rows' prep))"
    unfolding set_map .
qed

lemma place_kept:
  assumes "prepared_ok prep" "\<And>i. rows i = None \<Longrightarrow> rows' i = None"
    and "s < length (md_items (build_rows rows prep))"
  shows "scroll_to_line (build_rows rows' prep) prep (anchor_line (build_rows rows prep) prep s)
      < length (md_items (build_rows rows' prep))
    \<and> anchor_line (build_rows rows' prep) prep
        (scroll_to_line (build_rows rows' prep) prep (anchor_line (build_rows rows prep) prep s))
      = anchor_line (build_rows rows prep) prep s"
proof -
  let ?m = "build_rows rows prep" and ?m' = "build_rows rows' prep" and ?f = "item_line (pr_images prep)"
  let ?l = "anchor_line ?m prep s"
  have "?l \<in> ?f ` set (md_items ?m)"
    unfolding built_anchor_line [OF assms(3)] by (rule imageI nth_mem assms(3))+
  moreover have "?f ` set (md_items ?m) \<subseteq> ?f ` set (md_items ?m')"
    by (rule built_lines(2) [OF assms(1)]) (rule assms(2))
  ultimately have "?l \<in> ?f ` set (md_items ?m')" by (rule rev_subsetD)
  then have *: "scroll_to_line ?m' prep ?l < length (md_items ?m') \<and> ?f (md_items ?m' ! scroll_to_line ?m' prep ?l) = ?l"
    unfolding scroll_to_line_def by (intro find_again built_lines(1) assms(1) built_item)
  then show ?thesis using built_anchor_line [of "scroll_to_line ?m' prep ?l" rows' prep] by presburger
qed

end
