(* ===== verification/Article_Composition.thy ===== *)
theory Article_Composition
  imports Ansi_Anchors Reader_View_Facts "HOL-Library.Code_Target_Nat"
begin

text \<open>
  What the compiler of the articles writes, the reader in the jail opens: the two programs agree on
  lines, boxes and styles.  The anchors go through a file of JSON between them (\<open>ImageAnchor\<close> is
  written, \<open>ImgAnchor\<close> with the same fields is read).
\<close>

definition read_anchor :: "image_anchor \<Rightarrow> img_anchor" where
  "read_anchor a = \<lparr>an_block_start = ia_block_start a, an_block_end = ia_block_end a, an_path = ia_path a,
     an_asset = ia_asset a, an_w = ia_w a, an_h = ia_h a, an_indent_cols = ia_indent_cols a,
     an_display_cols = ia_display_cols a, an_alt = ia_alt a\<rparr>"

lemma boxes_anchors_ok:
  assumes "boxes_in lo hi as" "lo \<le> n" "\<forall>a \<in> set as. ia_block_end a \<le> n"
  shows "anchors_ok n lo (map read_anchor as)"
  using assms by (induction lo hi as rule: boxes_in.induct) (auto simp: read_anchor_def)

lemma pop_empty_nth: "i < length ls \<Longrightarrow> ls ! i \<noteq> [] \<Longrightarrow> i < length (pop_empty ls)"
  using pop_empty_prefix [of ls]
  by (metis add_diff_inverse_nat length_append length_replicate nat_add_left_cancel_less nth_append nth_replicate)

lemma pop_empty_subset: "set (pop_empty ls) \<subseteq> set ls"
  using pop_empty_prefix [of ls] by (metis set_append sup.cobounded1)

lemma article_opens:
  assumes "widths_ok width" "list_all plain_block blocks" "list_all (nested 16) blocks"
    and "\<forall>dest m. img dest = Some m \<longrightarrow> im_w m \<noteq> 0 \<and> im_h m \<noteq> 0 \<and> validate_asset files (im_asset m) = Inr ()"
  shows "\<exists>ls anchors prep. render_blocks_ansi width img blocks = Some (ls, anchors)
    \<and> preflight files (ansi_text ls) (map read_anchor anchors) = Some (Inr prep)
    \<and> pr_raw prep = (if ls = [] then [[]] else ls) \<and> pr_images prep = map read_anchor anchors"
proof -
  let ?ind = "\<lparr>in_first = [], in_cont = [], in_width = WIDTH\<rparr>"
  have ind: "indent_ok width (0 + 0) ?ind"
    by (simp add: indent_ok_def WIDTH_def neutral_plain takes_def)
  obtain out where out: "render_blocks width img 0 0 ?ind blocks ([], []) = Some out" "writes img ([], []) out"
    using render_writes(2) [of width 0 0 ?ind blocks 16 img "([], [])"] assms(1-3) ind by auto
  then obtain all anchors where all: "out = (all, anchors)" "\<forall>l \<in> set all. readable l"
      "boxes_in 0 (length all) anchors"
      "\<forall>a \<in> set anchors. box_ok img a \<and> ia_block_end a \<le> length all \<and> all ! (ia_block_end a - 1) \<noteq> []"
    by (auto simp: writes_def)
  define ls where "ls = pop_empty all"
  define raw where "raw = (if ls = [] then [[]] else ls)"
  have ls: "\<forall>l \<in> set ls. readable l" using all(2) pop_empty_subset by (auto simp: ls_def)
  have raw: "lines_of 10 13 (ansi_text ls) = raw"
    using lines_of_ansi_text [of ls] ls
    by (cases "ls = []") (simp_all add: raw_def readable_def ansi_text_def chomp_cr_def strip_suffix_None del: lines_of.simps,
        simp add: chomp_cr_def strip_suffix_def)
  have ends: "ia_block_end a \<le> length raw" if "a \<in> set anchors" for a
  proof -
    have "0 < ia_block_end a" using boxes_in_pos [OF all(3) that] .
    then have "ia_block_end a - 1 < length ls"
      unfolding ls_def using all(4) that by (intro pop_empty_nth) auto
    then show ?thesis by (auto simp: raw_def)
  qed
  have "anchors_ok (length raw) 0 (map read_anchor anchors)"
    using boxes_anchors_ok [OF all(3)] ends by simp
  moreover have "anchor_shape_ok (read_anchor a) \<and> validate_asset files (an_asset (read_anchor a)) = Inr ()"
    if "a \<in> set anchors" for a
  proof -
    have "box_ok img a" using all(4) that by blast
    then obtain dest m where "img dest = Some m" "ia_asset a = im_asset m" "ia_w a = im_w m" "ia_h a = im_h m"
      unfolding box_ok_def by blast
    then show ?thesis
      using assms(4) all(4) that by (auto simp: anchor_shape_ok_def box_ok_def read_anchor_def PRE_COLS_def)
  qed
  ultimately have "check_anchors files (length raw) 0 (map read_anchor anchors) = Inr ()"
    by (auto simp: check_anchors_Inr)
  moreover have "parse_line l \<noteq> None" if "l \<in> set raw" for l
    using that ls neutral_readable [OF neutral_plain, of "[]"]
    by (intro readable_parsed) (auto simp: raw_def split: if_splits)
  moreover have "raw \<noteq> []" by (simp add: raw_def)
  ultimately have "preflight files (ansi_text ls) (map read_anchor anchors) = Some (Inr
      \<lparr>pr_lines = map (the \<circ> parse_line) raw, pr_raw = raw, pr_images = map read_anchor anchors\<rparr>)"
    by (auto simp: preflight_def raw list_ex_iff simp del: lines_of.simps)
  then show ?thesis
    using out(1) all(1) by (simp add: render_blocks_ansi_def ls_def raw_def)
qed

text \<open>An article whose texts hold no control sequences of their own, with images that were
  processed, and with at most sixteen quotes and lists around a block, is written without a panic;
  and the reader accepts what was written: the lines it splits the text into are the lines that
  were written, every line is cut into spans without a panic, and the boxes of the images pass all
  the checks of \<open>preflight\<close>.\<close>

theorem prepared_articles_open:
  assumes "widths_ok width" "list_all plain_block blocks" "list_all (nested 16) blocks"
    and "\<forall>dest m. img dest = Some m \<longrightarrow> im_w m \<noteq> 0 \<and> im_h m \<noteq> 0 \<and> validate_asset files (im_asset m) = Inr ()"
  shows "\<exists>ls anchors prep. render_blocks_ansi width img blocks = Some (ls, anchors)
    \<and> preflight files (ansi_text ls) (map read_anchor anchors) = Some (Inr prep)
    \<and> pr_raw prep = (if ls = [] then [[]] else ls) \<and> pr_images prep = map read_anchor anchors"
  by (rule article_opens [OF assms])

definition sample_width :: "nat \<Rightarrow> nat option" where
  "sample_width c = (if c < 32 then None else if c < 0x1100 then Some 1 else Some 2)"

lemma sample_width_ok: "widths_ok sample_width"
  by (simp add: widths_ok_def char_width_def sample_width_def)

definition sample_blocks :: "block list" where
  "sample_blocks =
     [Heading [\<lparr>sg_s = BOLD, sg_t = u_of ''On terminals'', sg_link = None\<rparr>],
      Quote [Listing True 1 [[Paragraph [\<lparr>sg_s = 0, sg_t = u_of ''One'', sg_link = None\<rparr>],
        Picture (u_of ''a screen'') (u_of ''/notes/a.png'') (u_of ''a.png'')]]]]"

lemma sample_blocks_ok: "list_all plain_block sample_blocks" "list_all (nested 16) sample_blocks"
  by (simp_all add: sample_blocks_def plain_run_def line_atoms_def seg_atoms_def plain_atom_def plain_link_def)

definition sample_image :: "ustr \<Rightarrow> img_meta option" where
  "sample_image dest = (if dest = u_of ''a.png''
     then Some \<lparr>im_path = ''notes/a.png'', im_asset = ''notes/a.png'', im_w = 640, im_h = 480\<rparr> else None)"

theorem prepared_articles_open_witness:
  "\<exists>ls anchors prep. render_blocks_ansi sample_width sample_image sample_blocks = Some (ls, anchors)
    \<and> preflight (\<lambda>a. if a = ''notes/a.png'' then Some (True, 1) else None) (ansi_text ls) (map read_anchor anchors)
      = Some (Inr prep)"
proof -
  have "validate_asset (\<lambda>a. if a = ''notes/a.png'' then Some (True, 1) else None) ''notes/a.png'' = Inr ()"
    by code_simp
  then have "\<forall>dest m. sample_image dest = Some m \<longrightarrow> im_w m \<noteq> 0 \<and> im_h m \<noteq> 0
      \<and> validate_asset (\<lambda>a. if a = ''notes/a.png'' then Some (True, 1) else None) (im_asset m) = Inr ()"
    by (auto simp: sample_image_def split: if_splits)
  then show ?thesis
    using prepared_articles_open [OF sample_width_ok sample_blocks_ok] by blast
qed

section \<open>Styles\<close>




end
