(* ===== verification/Reader_Cache.thy ===== *)
theory Reader_Cache
  imports Reader_View
begin

text \<open>
  The caches of the reader (\<^verbatim>\<open>reader.rs\<close>) and the payloads of the images (\<^verbatim>\<open>iip.rs\<close>).  Decoding,
  scaling, cropping and encoding images is the crate \<^verbatim>\<open>image\<close>, base64 another one: a record of
  functions is an argument.
\<close>

section \<open>The small LRU\<close>

record ('k, 'v) lru =
  lru_map :: "'k \<Rightarrow> 'v option"
  lru_order :: "'k list"
  lru_cap :: nat

definition lru_new :: "nat \<Rightarrow> ('k, 'v) lru" where
  "lru_new cap = \<lparr>lru_map = \<lambda>_. None, lru_order = [], lru_cap = cap\<rparr>"

definition lru_get :: "'k \<Rightarrow> ('k, 'v) lru \<Rightarrow> 'v option \<times> ('k, 'v) lru" where
  "lru_get k l =
     (if lru_map l k \<noteq> None
      then (lru_map l k, l\<lparr>lru_order := filter (\<lambda>x. x \<noteq> k) (lru_order l) @ [k]\<rparr>)
      else (None, l))"

definition lru_evict :: "('k, 'v) lru \<Rightarrow> ('k, 'v) lru" where
  "lru_evict l =
     (case lru_order l of
        [] \<Rightarrow> l
      | old # order \<Rightarrow> l\<lparr>lru_order := order, lru_map := (lru_map l)(old := None)\<rparr>)"

definition lru_insert :: "'k \<Rightarrow> 'v \<Rightarrow> ('k, 'v) lru \<Rightarrow> ('k, 'v) lru" where
  "lru_insert k v l =
     (let l = (if lru_map l k \<noteq> None then l\<lparr>lru_order := filter (\<lambda>x. x \<noteq> k) (lru_order l)\<rparr>
               else if lru_cap l \<le> length (lru_order l) then lru_evict l
               else l)
      in l\<lparr>lru_order := lru_order l @ [k], lru_map := (lru_map l)(k \<mapsto> v)\<rparr>)"

definition LRU_CAP :: nat where "LRU_CAP = 3"
definition ROW_SLICE_LRU_CAP :: nat where "ROW_SLICE_LRU_CAP = 256"
definition MAX_IIP_PAYLOAD :: nat where "MAX_IIP_PAYLOAD = 2 ^ 20"

section \<open>The image protocol\<close>

record 'i codec =
  cd_read :: "string \<Rightarrow> bytes option"
  cd_load :: "bytes \<Rightarrow> 'i option"
  cd_resize :: "'i \<Rightarrow> u32 \<Rightarrow> u32 \<Rightarrow> 'i"
  cd_crop :: "'i \<Rightarrow> u32 \<Rightarrow> u32 \<Rightarrow> 'i"
  cd_jpeg :: "'i \<Rightarrow> bytes option"
  cd_png :: "'i \<Rightarrow> bytes option"
  cd_base64 :: "bytes \<Rightarrow> string"

definition encode_dims :: "'i codec \<Rightarrow> string \<Rightarrow> bytes \<Rightarrow> string \<Rightarrow> string \<Rightarrow> string" where
  "encode_dims cd name payload w h =
     CHR 0x1B # '']1337;File=name='' @ cd_base64 cd (map of_char name) @ '';size='' @ show_nat (length payload)
     @ '';inline=1;width='' @ w @ '';height='' @ h @ '';preserveAspectRatio=0:'' @ cd_base64 cd payload @ [CHR 0x07]"

definition iip_encode :: "'i codec \<Rightarrow> string \<Rightarrow> bytes \<Rightarrow> u32 \<Rightarrow> u32 \<Rightarrow> string" where
  "iip_encode cd name payload w h =
     encode_dims cd name payload (show_nat (unat w) @ ''px'') (show_nat (unat h) @ ''px'')"

definition encode_cells :: "'i codec \<Rightarrow> string \<Rightarrow> bytes \<Rightarrow> u32 \<Rightarrow> u32 \<Rightarrow> string" where
  "encode_cells cd name payload w h = encode_dims cd name payload (show_nat (unat w)) (show_nat (unat h))"

definition encode_row :: "'i codec \<Rightarrow> string \<Rightarrow> bytes \<Rightarrow> u32 \<Rightarrow> u32 \<Rightarrow> u32 \<Rightarrow> string" where
  "encode_row cd name payload wcols height_px cell_h =
     (if max cell_h 1 \<le> height_px then encode_cells cd name payload wcols 1
      else encode_dims cd name payload (show_nat (unat wcols)) (show_nat (unat (max height_px 1)) @ ''px''))"

section \<open>Payloads\<close>

datatype payload_error = Already_degraded | Read_asset | Decode_image | Encode_image | Too_large

record 'i caches =
  ca_bytes :: "string \<Rightarrow> bytes option"
  ca_full :: "string \<times> u32 \<Rightarrow> string option"
  ca_slices :: "(string \<times> u32 \<times> u32 \<times> u32, string) lru"
  ca_row_slices :: "(string \<times> u32 \<times> nat, string) lru"
  ca_decoded :: "(string, 'i) lru"
  ca_scaled :: "(string \<times> u32, 'i) lru"
  ca_failed :: "string set"

definition no_caches :: "'i caches" where
  "no_caches = \<lparr>ca_bytes = \<lambda>_. None, ca_full = \<lambda>_. None, ca_slices = lru_new LRU_CAP,
     ca_row_slices = lru_new ROW_SLICE_LRU_CAP, ca_decoded = lru_new LRU_CAP, ca_scaled = lru_new LRU_CAP, ca_failed = {}\<rparr>"

definition load_bytes :: "'i codec \<Rightarrow> string \<Rightarrow> 'i caches \<Rightarrow> (payload_error + bytes) \<times> 'i caches" where
  "load_bytes cd asset c =
     (case ca_bytes c asset of
        Some b \<Rightarrow> (Inr b, c)
      | None \<Rightarrow>
          if asset \<in> ca_failed c then (Inl Already_degraded, c)
          else (case cd_read cd asset of
                  None \<Rightarrow> (Inl Read_asset, c)
                | Some b \<Rightarrow> (Inr b, c\<lparr>ca_bytes := (ca_bytes c)(asset \<mapsto> b)\<rparr>)))"

definition full_payload :: "'i codec \<Rightarrow> img_anchor \<Rightarrow> u32 \<Rightarrow> 'i caches \<Rightarrow> (payload_error + string) \<times> 'i caches" where
  "full_payload cd a wpx c =
     (if an_asset a \<in> ca_failed c then (Inl Already_degraded, c)
      else case ca_full c (an_asset a, wpx) of
        Some p \<Rightarrow> (Inr p, c)
      | None \<Rightarrow>
          (case load_bytes cd (an_asset a) c of
             (Inl e, c) \<Rightarrow> (Inl e, c)
           | (Inr b, c) \<Rightarrow>
               let s = iip_encode cd (an_asset a) b wpx (display_height a wpx)
               in if MAX_IIP_PAYLOAD < length s then (Inl Too_large, c)
                  else (Inr s, c\<lparr>ca_full := (ca_full c)((an_asset a, wpx) \<mapsto> s)\<rparr>)))"

definition decoded_image :: "'i codec \<Rightarrow> string \<Rightarrow> 'i caches \<Rightarrow> (payload_error + 'i) \<times> 'i caches" where
  "decoded_image cd asset c =
     (case lru_get asset (ca_decoded c) of
        (Some i, l) \<Rightarrow> (Inr i, c\<lparr>ca_decoded := l\<rparr>)
      | (None, l) \<Rightarrow>
          (case load_bytes cd asset (c\<lparr>ca_decoded := l\<rparr>) of
             (Inl e, c) \<Rightarrow> (Inl e, c)
           | (Inr b, c) \<Rightarrow>
               (case cd_load cd b of
                  None \<Rightarrow> (Inl Decode_image, c)
                | Some i \<Rightarrow> (Inr i, c\<lparr>ca_decoded := lru_insert asset i (ca_decoded c)\<rparr>))))"

definition scaled_image :: "'i codec \<Rightarrow> img_anchor \<Rightarrow> u32 \<Rightarrow> 'i caches \<Rightarrow> (payload_error + 'i) \<times> 'i caches" where
  "scaled_image cd a wpx c =
     (case lru_get (an_asset a, wpx) (ca_scaled c) of
        (Some i, l) \<Rightarrow> (Inr i, c\<lparr>ca_scaled := l\<rparr>)
      | (None, l) \<Rightarrow>
          (case decoded_image cd (an_asset a) (c\<lparr>ca_scaled := l\<rparr>) of
             (Inl e, c) \<Rightarrow> (Inl e, c)
           | (Inr i, c) \<Rightarrow>
               let scaled = cd_resize cd i wpx (display_height a wpx)
               in (Inr scaled, c\<lparr>ca_scaled := lru_insert (an_asset a, wpx) scaled (ca_scaled c)\<rparr>)))"

definition to_ascii_lowercase :: "string \<Rightarrow> string" where
  "to_ascii_lowercase = map (\<lambda>c. let v = of_char c :: nat in if 65 \<le> v \<and> v \<le> 90 then char_of (v + 32) else c)"

definition reencode_slice :: "'i codec \<Rightarrow> 'i \<Rightarrow> string \<Rightarrow> payload_error + bytes" where
  "reencode_slice cd i asset =
     (let ext = to_ascii_lowercase (last (split_on (CHR ''.'') asset));
          encoded = (if ext = ''jpg'' \<or> ext = ''jpeg'' then cd_jpeg cd i else cd_png cd i)
      in case encoded of None \<Rightarrow> Inl Encode_image | Some b \<Rightarrow> Inr b)"

definition slice_payload ::
  "'i codec \<Rightarrow> img_anchor \<Rightarrow> u32 \<Rightarrow> u32 \<Rightarrow> u32 \<Rightarrow> 'i caches \<Rightarrow> (payload_error + string) \<times> 'i caches"
where
  "slice_payload cd a wpx y0 y1 c =
     (case lru_get (an_asset a, wpx, y0, y1) (ca_slices c) of
        (Some p, l) \<Rightarrow> (Inr p, c\<lparr>ca_slices := l\<rparr>)
      | (None, l) \<Rightarrow>
          (case scaled_image cd a wpx (c\<lparr>ca_slices := l\<rparr>) of
             (Inl e, c) \<Rightarrow> (Inl e, c)
           | (Inr i, c) \<Rightarrow>
               (case reencode_slice cd (cd_crop cd i y0 (y1 - y0)) (an_asset a) of
                  Inl e \<Rightarrow> (Inl e, c)
                | Inr b \<Rightarrow>
                    let s = iip_encode cd (an_asset a) b wpx (y1 - y0)
                    in if MAX_IIP_PAYLOAD < length s then (Inl Too_large, c)
                       else (Inr s, c\<lparr>ca_slices := lru_insert (an_asset a, wpx, y0, y1) s (ca_slices c)\<rparr>))))"

definition row_payload ::
  "'i codec \<Rightarrow> img_anchor \<Rightarrow> nat \<Rightarrow> u32 \<Rightarrow> nat \<Rightarrow> u32 \<Rightarrow> 'i caches \<Rightarrow> (payload_error + string) \<times> 'i caches"
where
  "row_payload cd a wcols wpx row_offset cell_h c =
     (case lru_get (an_asset a, wpx, row_offset) (ca_row_slices c) of
        (Some p, l) \<Rightarrow> (Inr p, c\<lparr>ca_row_slices := l\<rparr>)
      | (None, l) \<Rightarrow>
          (case slice_window (display_height a wpx) cell_h row_offset 1 of
             (y0, y1) \<Rightarrow>
               (case scaled_image cd a wpx (c\<lparr>ca_row_slices := l\<rparr>) of
                  (Inl e, c) \<Rightarrow> (Inl e, c)
                | (Inr i, c) \<Rightarrow>
                    (case reencode_slice cd (cd_crop cd i y0 (y1 - y0)) (an_asset a) of
                       Inl e \<Rightarrow> (Inl e, c)
                     | Inr b \<Rightarrow>
                         let s = encode_row cd (an_asset a) b (of_nat wcols) (y1 - y0) cell_h
                         in if MAX_IIP_PAYLOAD < length s then (Inl Too_large, c)
                            else (Inr s, c\<lparr>ca_row_slices :=
                                    lru_insert (an_asset a, wpx, row_offset) s (ca_row_slices c)\<rparr>)))))"

end
