(* ===== verification/Reader_Tui.thy ===== *)
theory Reader_Tui
  imports Reader_Cache
begin

text \<open>
  The interactive part of the reader (\<^verbatim>\<open>run_tui\<close> in \<^verbatim>\<open>reader.rs\<close>): the frames it draws, the scrolling
  by one row, and the loop over the events.  What is written to the terminal is a value; the width
  of a character (the crate \<^verbatim>\<open>unicode-width\<close>) is an argument, and so is whether the terminal accepts
  what is written.
\<close>

section \<open>The model of rows with its payloads\<close>

fun payload_rows ::
  "'i codec \<Rightarrow> u16 \<Rightarrow> u32 \<Rightarrow> u32 \<Rightarrow> img_anchor list \<Rightarrow> 'i caches \<Rightarrow> nat option list \<times> 'i caches"
where
  "payload_rows cd cols cell_w cell_h [] c = ([], c)"
| "payload_rows cd cols cell_w cell_h (a # as) c =
     (case block_geometry a cols cell_w cell_h of
        (_, wpx, r) \<Rightarrow>
          (case full_payload cd a wpx c of
             (p, c) \<Rightarrow>
               (case payload_rows cd cols cell_w cell_h as c of
                  (rs, c) \<Rightarrow> ((case p of Inl _ \<Rightarrow> None | Inr _ \<Rightarrow> Some r) # rs, c))))"

definition rows_at :: "nat option list \<Rightarrow> nat \<Rightarrow> nat option" where
  "rows_at rs i = (if i < length rs then rs ! i else None)"

definition build_model :: "'i codec \<Rightarrow> prepared \<Rightarrow> u16 \<Rightarrow> u32 \<Rightarrow> u32 \<Rightarrow> 'i caches \<Rightarrow> model \<times> 'i caches" where
  "build_model cd prep cols cell_w cell_h c =
     (case payload_rows cd cols cell_w cell_h (pr_images prep) c of
        (rs, c) \<Rightarrow> (build_rows (rows_at rs) prep, c))"

section \<open>The text of a row\<close>

fun truncate_columns :: "(nat \<Rightarrow> nat) \<Rightarrow> nat \<Rightarrow> nat \<Rightarrow> ustr \<Rightarrow> ustr" where
  "truncate_columns width cols w [] = []"
| "truncate_columns width cols w (c # cs) =
     (if cols < w + width c then [] else c # truncate_columns width cols (w + width c) cs)"

definition saturating_add16 :: "u16 \<Rightarrow> u16 \<Rightarrow> u16" where
  "saturating_add16 a b = of_nat (min (2 ^ 16 - 1) (unat a + unat b))"

text \<open>The calls of \<open>set_span\<close>: the column, the span, and the columns it may take.\<close>

fun span_calls :: "(nat \<Rightarrow> nat) \<Rightarrow> u16 \<Rightarrow> u16 \<Rightarrow> span list \<Rightarrow> (u16 \<times> span \<times> u16) list" where
  "span_calls width cols x [] = []"
| "span_calls width cols x (s # ss) =
     (if cols \<le> x then []
      else (x, s, cols - x)
           # span_calls width cols (saturating_add16 x (of_nat (sum_list (map width (sp_text s))))) ss)"

definition fill_model_row :: "(nat \<Rightarrow> nat) \<Rightarrow> prepared \<Rightarrow> item_kind \<Rightarrow> u16 \<Rightarrow> u32 \<Rightarrow> u32 \<Rightarrow> (u16 \<times> span \<times> u16) list" where
  "fill_model_row width prep kind cols cell_w cell_h =
     (case kind of
        Text_row line \<Rightarrow> if line < length (pr_lines prep) then span_calls width cols 0 (pr_lines prep ! line) else []
      | Alt_row img \<Rightarrow>
          (let a = pr_images prep ! img;
               indent = of_nat (an_indent_cols a);
               n = fst (block_geometry a cols cell_w cell_h)
           in [(indent, \<lparr>sp_text = truncate_columns width n 0 (an_alt a), sp_style = default_style\<lparr>st_dim := True\<rparr>\<rparr>,
                if indent \<le> cols then cols - indent else 0)])
      | Image_row img \<Rightarrow> [])"

section \<open>Images in a frame\<close>

datatype placement = Hidden | Placed string u16 int | Degraded

definition place_image ::
  "'i codec \<Rightarrow> prepared \<Rightarrow> nat \<Rightarrow> int \<Rightarrow> u16 \<Rightarrow> u16 \<Rightarrow> u32 \<Rightarrow> u32 \<Rightarrow> 'i caches \<Rightarrow> placement \<times> 'i caches"
where
  "place_image cd prep img upper rows cols cell_w cell_h c =
     (let a = pr_images prep ! img
      in if an_asset a \<in> ca_failed c then (Degraded, c)
         else case block_geometry a cols cell_w cell_h of
           (_, wpx, r) \<Rightarrow>
             if upper + int r \<le> 0 \<or> int (unat rows) \<le> upper then (Hidden, c)
             else let k = nat (max (- upper) 0);
                      vis_rows = max 1 (min (r - k) (unat rows - nat (max upper 0)));
                      payload = (if 0 \<le> upper \<and> upper + int r \<le> int (unat rows) then full_payload cd a wpx c
                                 else case slice_window (display_height a wpx) cell_h k vis_rows of
                                   (y0, y1) \<Rightarrow> slice_payload cd a wpx y0 y1 c)
                  in case payload of
                       (Inr p, c) \<Rightarrow> (Placed p (of_nat (an_indent_cols a)) upper, c)
                     | (Inl e, c) \<Rightarrow> (Degraded, c\<lparr>ca_failed := insert (an_asset a) (ca_failed c)\<rparr>))"

text \<open>What is written to the terminal after a move of the cursor to a column and a row: the payload of
  an image, or a line of its box.\<close>

datatype drawn = Drawn_image u16 u16 string | Drawn_line u16 ustr

definition draw_image ::
  "'i codec \<Rightarrow> prepared \<Rightarrow> model \<Rightarrow> nat \<Rightarrow> u16 \<Rightarrow> u16 \<Rightarrow> u32 \<Rightarrow> u32 \<Rightarrow> nat \<Rightarrow> 'i caches \<Rightarrow> drawn list \<times> 'i caches"
where
  "draw_image cd prep m scroll cols rows cell_w cell_h img c =
     (let upper = int (md_block_row m ! img) - int scroll;
          block_h = int (md_r_rows m ! img) + 1
      in if upper + block_h \<le> 0 \<or> int (unat rows) \<le> upper then ([], c)
         else case place_image cd prep img upper rows cols cell_w cell_h c of
           (Placed payload x upper, c) \<Rightarrow>
             (let y = of_int (max upper 0) in (if y < rows then [Drawn_image x y payload] else [], c))
         | (Degraded, c) \<Rightarrow>
             (let a = pr_images prep ! img;
                  cap = min (min (nat block_h) (an_block_end a - an_block_start a)) (unat rows - nat (max upper 0))
              in (map (\<lambda>j. Drawn_line (of_int (upper + int j)) (pr_raw prep ! (an_block_start a + j))) [0..<cap], c))
         | (Hidden, c) \<Rightarrow> ([], c))"

fun draw_images ::
  "'i codec \<Rightarrow> prepared \<Rightarrow> model \<Rightarrow> nat \<Rightarrow> u16 \<Rightarrow> u16 \<Rightarrow> u32 \<Rightarrow> u32 \<Rightarrow> nat list \<Rightarrow> 'i caches \<Rightarrow> drawn list \<times> 'i caches"
where
  "draw_images cd prep m scroll cols rows cell_w cell_h [] c = ([], c)"
| "draw_images cd prep m scroll cols rows cell_w cell_h (i # imgs) c =
     (case draw_image cd prep m scroll cols rows cell_w cell_h i c of
        (ds, c) \<Rightarrow>
          (case draw_images cd prep m scroll cols rows cell_w cell_h imgs c of
             (ds', c) \<Rightarrow> (ds @ ds', c)))"

record screen_frame =
  fr_rows :: "(u16 \<times> span \<times> u16) list list"
  fr_drawn :: "drawn list"

text \<open>\<open>None\<close>: the rows from \<open>scroll\<close> on are cut from the model, which panics beyond its end.\<close>

definition draw_frame ::
  "'i codec \<Rightarrow> (nat \<Rightarrow> nat) \<Rightarrow> prepared \<Rightarrow> model \<Rightarrow> nat \<Rightarrow> u16 \<Rightarrow> u16 \<Rightarrow> u32 \<Rightarrow> u32 \<Rightarrow> 'i caches \<Rightarrow> (screen_frame \<times> 'i caches) option"
where
  "draw_frame cd width prep m scroll cols rows cell_w cell_h c =
     (let last = min (scroll + unat rows) (length (md_items m))
      in if last < scroll then None
         else case draw_images cd prep m scroll cols rows cell_w cell_h [0..<length (pr_images prep)] c of
           (ds, c) \<Rightarrow>
             Some (\<lparr>fr_rows = map (\<lambda>kind. fill_model_row width prep kind cols cell_w cell_h)
                      (take (last - scroll) (drop scroll (md_items m))),
                    fr_drawn = ds\<rparr>, c))"

section \<open>Scrolling by one row\<close>

datatype exposed_row = Exposed_cells "(u16 \<times> span \<times> u16) list" | Exposed_image string u16

datatype tui_error = Not_one_row | Row_out_of_bounds nat | Terminal_error

datatype incremental_error = Image_error string payload_error | Tui_error tui_error

definition incremental_row ::
  "'i codec \<Rightarrow> (nat \<Rightarrow> nat) \<Rightarrow> prepared \<Rightarrow> model \<Rightarrow> nat \<Rightarrow> nat \<Rightarrow> u16 \<Rightarrow> u16 \<Rightarrow> u32 \<Rightarrow> u32 \<Rightarrow> 'i caches
   \<Rightarrow> (incremental_error + physical \<times> nat \<times> exposed_row) \<times> 'i caches"
where
  "incremental_row cd width prep m old_scroll scroll cols rows cell_w cell_h c =
     (case incremental_target old_scroll scroll (unat rows) of
        None \<Rightarrow> (Inl (Tui_error Not_one_row), c)
      | Some (direction, model_row, screen_y) \<Rightarrow>
          if length (md_items m) \<le> model_row then (Inl (Tui_error (Row_out_of_bounds model_row)), c)
          else case md_items m ! model_row of
            Image_row img \<Rightarrow>
              (let a = pr_images prep ! img
               in case block_geometry a cols cell_w cell_h of
                    (wcols, wpx, _) \<Rightarrow>
                      (case row_payload cd a wcols wpx (model_row - md_block_row m ! img) cell_h c of
                         (Inl reason, c) \<Rightarrow> (Inl (Image_error (an_asset a) reason), c)
                       | (Inr p, c) \<Rightarrow> (Inr (direction, screen_y, Exposed_image p (of_nat (an_indent_cols a))), c)))
          | kind \<Rightarrow> (Inr (direction, screen_y, Exposed_cells (fill_model_row width prep kind cols cell_w cell_h)), c))"

section \<open>The loop over the events\<close>

record 'i tui =
  tui_model :: model
  tui_scroll :: nat
  tui_cols :: u16
  tui_rows :: u16
  tui_caches :: "'i caches"

datatype tui_event = Key_event bool key_code bool | Resize_event u16 u16 | Other_event

datatype tui_shown = Shown_nothing | Shown_frame screen_frame | Shown_scroll physical nat exposed_row

datatype 'i tui_result =
    Goes_on "'i tui" tui_shown
  | Quits "ustr list"
  | Hands_off nat
  | Fails tui_error
  | Panics

definition show_frame ::
  "'i codec \<Rightarrow> (nat \<Rightarrow> nat) \<Rightarrow> prepared \<Rightarrow> u32 \<Rightarrow> u32 \<Rightarrow> bool \<Rightarrow> 'i tui \<Rightarrow> 'i tui_result"
where
  "show_frame cd width prep cell_w cell_h accepts t =
     (case draw_frame cd width prep (tui_model t) (tui_scroll t) (tui_cols t) (tui_rows t) cell_w cell_h (tui_caches t) of
        None \<Rightarrow> Panics
      | Some (f, c) \<Rightarrow> if accepts then Goes_on (t\<lparr>tui_caches := c\<rparr>) (Shown_frame f) else Fails Terminal_error)"

definition scroll_by_one ::
  "'i codec \<Rightarrow> (nat \<Rightarrow> nat) \<Rightarrow> prepared \<Rightarrow> u32 \<Rightarrow> u32 \<Rightarrow> bool \<Rightarrow> nat \<Rightarrow> 'i tui \<Rightarrow> 'i tui_result"
where
  "scroll_by_one cd width prep cell_w cell_h accepts new t =
     (case incremental_row cd width prep (tui_model t) (tui_scroll t) new (tui_cols t) (tui_rows t) cell_w cell_h (tui_caches t) of
        (Inr (direction, y, row), c) \<Rightarrow>
          if accepts then Goes_on (t\<lparr>tui_scroll := new, tui_caches := c\<rparr>) (Shown_scroll direction y row)
          else Fails Terminal_error
      | (Inl (Image_error asset reason), c) \<Rightarrow>
          (let c = c\<lparr>ca_failed := insert asset (ca_failed c)\<rparr>;
               anchor = anchor_line (tui_model t) prep new
           in case build_model cd prep (tui_cols t) cell_w cell_h c of
                (m, c) \<Rightarrow>
                  show_frame cd width prep cell_w cell_h accepts
                    (t\<lparr>tui_model := m, tui_caches := c,
                       tui_scroll := min (scroll_to_line m prep anchor) (max_scroll m (unat (tui_rows t)))\<rparr>))
      | (Inl (Tui_error e), c) \<Rightarrow> Fails e)"

definition tui_key ::
  "'i codec \<Rightarrow> (nat \<Rightarrow> nat) \<Rightarrow> prepared \<Rightarrow> u32 \<Rightarrow> u32 \<Rightarrow> bool \<Rightarrow> key_act \<Rightarrow> 'i tui \<Rightarrow> 'i tui_result"
where
  "tui_key cd width prep cell_w cell_h accepts act t =
     (case new_scroll (tui_model t) (unat (tui_rows t)) act (tui_scroll t) of
        None \<Rightarrow>
          (case exit_view prep (tui_model t) (tui_scroll t) (unat (tui_rows t)) of
             None \<Rightarrow> Panics | Some view \<Rightarrow> Quits view)
      | Some new \<Rightarrow>
          if new = tui_scroll t then Goes_on t Shown_nothing
          else if incremental_target (tui_scroll t) new (unat (tui_rows t)) \<noteq> None
          then scroll_by_one cd width prep cell_w cell_h accepts new t
          else show_frame cd width prep cell_w cell_h accepts (t\<lparr>tui_scroll := new\<rparr>))"

definition tui_resize ::
  "'i codec \<Rightarrow> (nat \<Rightarrow> nat) \<Rightarrow> prepared \<Rightarrow> u32 \<Rightarrow> u32 \<Rightarrow> bool \<Rightarrow> u16 \<Rightarrow> u16 \<Rightarrow> 'i tui \<Rightarrow> 'i tui_result"
where
  "tui_resize cd width prep cell_w cell_h accepts w h t =
     (let anchor = anchor_line (tui_model t) prep (tui_scroll t)
      in if unat w < MIN_COLS then Hands_off (anchor + 1)
         else let (m, c) = (if w \<noteq> tui_cols t then build_model cd prep w cell_w cell_h (tui_caches t)
                            else (tui_model t, tui_caches t));
                  scroll = (if w \<noteq> tui_cols t then scroll_to_line m prep anchor else tui_scroll t);
                  rows = max h 1
              in show_frame cd width prep cell_w cell_h accepts
                   \<lparr>tui_model = m, tui_scroll = min scroll (max_scroll m (unat rows)),
                    tui_cols = w, tui_rows = rows, tui_caches = c\<rparr>)"

definition tui_step ::
  "'i codec \<Rightarrow> (nat \<Rightarrow> nat) \<Rightarrow> prepared \<Rightarrow> u32 \<Rightarrow> u32 \<Rightarrow> bool \<Rightarrow> tui_event \<Rightarrow> 'i tui \<Rightarrow> 'i tui_result"
where
  "tui_step cd width prep cell_w cell_h accepts ev t =
     (case ev of
        Key_event released code control \<Rightarrow>
          if released then Goes_on t Shown_nothing
          else tui_key cd width prep cell_w cell_h accepts (key_action code control) t
      | Resize_event w h \<Rightarrow> tui_resize cd width prep cell_w cell_h accepts w h t
      | Other_event \<Rightarrow> Goes_on t Shown_nothing)"

definition tui_start ::
  "'i codec \<Rightarrow> (nat \<Rightarrow> nat) \<Rightarrow> prepared \<Rightarrow> u32 \<Rightarrow> u32 \<Rightarrow> bool \<Rightarrow> u16 \<Rightarrow> u16 \<Rightarrow> 'i tui_result"
where
  "tui_start cd width prep cell_w cell_h accepts cols rows =
     (if unat cols < MIN_COLS then Hands_off 1
      else case build_model cd prep cols cell_w cell_h no_caches of
        (m, c) \<Rightarrow>
          show_frame cd width prep cell_w cell_h accepts
            \<lparr>tui_model = m, tui_scroll = 0, tui_cols = cols, tui_rows = max rows 1, tui_caches = c\<rparr>)"

end
