(* ===== verification/Reader_Exit.thy ===== *)
theory Reader_Exit
  imports Reader_View_Facts
begin

text \<open>
  What stays on the screen when the reader ends, and the slices of images.
\<close>

section \<open>The rows of an image in the model\<close>

definition image_block :: "(nat \<Rightarrow> nat option) \<Rightarrow> model \<Rightarrow> nat \<Rightarrow> nat \<Rightarrow> bool" where
  "image_block rows m k j \<longleftrightarrow>
     (\<exists>r. rows k = Some r \<and> md_r_rows m ! k = r \<and> k < length (md_r_rows m)
        \<and> md_block_row m ! k \<le> j \<and> j < md_block_row m ! k + r \<and> md_block_row m ! k + r < length (md_items m)
        \<and> (\<forall>t. md_block_row m ! k \<le> t \<and> t < md_block_row m ! k + r \<longrightarrow> md_items m ! t = Image_row k)
        \<and> md_items m ! (md_block_row m ! k + r) = Alt_row k)"

definition blocks_placed :: "(nat \<Rightarrow> nat option) \<Rightarrow> nat \<Rightarrow> model \<Rightarrow> bool" where
  "blocks_placed rows i m \<longleftrightarrow> length (md_block_row m) = i \<and> length (md_r_rows m) = i
     \<and> (\<forall>j k. j < length (md_items m) \<and> md_items m ! j = Image_row k \<longrightarrow> image_block rows m k j)
     \<and> (\<forall>k < i. md_r_rows m ! k = (case rows k of None \<Rightarrow> 0 | Some r \<Rightarrow> r)
          \<and> (0 < md_r_rows m ! k \<longrightarrow> image_block rows m k (md_block_row m ! k)))"

lemma image_block_grows:
  assumes "image_block rows m k j" "length (md_block_row m) = length (md_r_rows m)"
  shows "image_block rows \<lparr>md_items = md_items m @ xs, md_block_row = md_block_row m @ ys, md_r_rows = md_r_rows m @ zs\<rparr> k j"
  using assms by (auto simp: image_block_def nth_append)

lemma blocks_placed_text:
  assumes "blocks_placed rows i m"
  shows "blocks_placed rows i (m\<lparr>md_items := md_items m @ map Text_row ls\<rparr>)"
proof -
  have "image_block rows (m\<lparr>md_items := md_items m @ map Text_row ls\<rparr>) k j"
    if "j < length (md_items m @ map Text_row ls)" "(md_items m @ map Text_row ls) ! j = Image_row k" for j k
  proof -
    have "j < length (md_items m)" using that by (auto simp: nth_append split: if_splits)
    with that assms show ?thesis
      using image_block_grows [of rows m k j "map Text_row ls" "[]" "[]"]
      by (cases m) (auto simp: blocks_placed_def nth_append)
  qed
  moreover have "image_block rows (m\<lparr>md_items := md_items m @ map Text_row ls\<rparr>) k j"
    if "image_block rows m k j" for j k
    using image_block_grows [of rows m k j "map Text_row ls" "[]" "[]"] that assms
    by (cases m) (simp add: blocks_placed_def)
  ultimately show ?thesis using assms by (simp add: blocks_placed_def)
qed

lemma blocks_placed_known:
  assumes "blocks_placed rows i m" "k < i"
    and "m' = \<lparr>md_items = md_items m @ xs, md_block_row = md_block_row m @ ys, md_r_rows = md_r_rows m @ zs\<rparr>"
  shows "md_r_rows m' ! k = (case rows k of None \<Rightarrow> 0 | Some r \<Rightarrow> r)
    \<and> (0 < md_r_rows m' ! k \<longrightarrow> image_block rows m' k (md_block_row m' ! k))"
  using assms image_block_grows [of rows m k "md_block_row m ! k" xs ys zs]
  by (simp add: blocks_placed_def nth_append)

lemma blocks_placed_image:
  assumes "blocks_placed rows i m" "rows i = Some r"
  shows "blocks_placed rows (Suc i) \<lparr>md_items = md_items m @ replicate r (Image_row i) @ [Alt_row i],
    md_block_row = md_block_row m @ [length (md_items m)], md_r_rows = md_r_rows m @ [r]\<rparr>" (is "blocks_placed rows _ ?m")
proof -
  have "image_block rows ?m k j" if "j < length (md_items ?m)" "md_items ?m ! j = Image_row k" for j k
  proof (cases "j < length (md_items m)")
    case True
    with that assms(1) have "image_block rows m k j" by (simp add: blocks_placed_def nth_append)
    then show ?thesis using image_block_grows assms(1) by (simp add: blocks_placed_def)
  next
    case False
    have len: "length (md_block_row m) = i" "length (md_r_rows m) = i" using assms(1) by (simp_all add: blocks_placed_def)
    have row: "md_items ?m ! t = Image_row i" if "length (md_items m) \<le> t" "t < length (md_items m) + r" for t
      using that by (simp add: nth_append)
    have alt: "md_items ?m ! (length (md_items m) + r) = Alt_row i" by (simp add: nth_append)
    have j: "j < length (md_items m) + r"
    proof (rule ccontr)
      assume "\<not> j < length (md_items m) + r"
      with that(1) have "j = length (md_items m) + r" by simp
      with alt that(2) show False by simp
    qed
    with row [of j] False that(2) have "k = i" by simp
    with j False row alt len assms(2) show ?thesis
      unfolding image_block_def by (intro exI [of _ r]) (simp add: nth_append)
  qed
  moreover have "md_r_rows ?m ! k = (case rows k of None \<Rightarrow> 0 | Some r \<Rightarrow> r)
    \<and> (0 < md_r_rows ?m ! k \<longrightarrow> image_block rows ?m k (md_block_row ?m ! k))" if "k < Suc i" for k
  proof (cases "k = i")
    case False
    then show ?thesis using that by (intro blocks_placed_known [OF assms(1) _ refl]) simp
  next
    case True
    have len: "length (md_block_row m) = i" "length (md_r_rows m) = i" using assms(1) by (simp_all add: blocks_placed_def)
    have "image_block rows ?m i (length (md_items m))" if "0 < r"
      using assms(2) len that unfolding image_block_def by (intro exI [of _ r]) (auto simp: nth_append)
    then show ?thesis using True len assms(2) by (simp add: nth_append)
  qed
  ultimately show ?thesis using assms(1) by (simp add: blocks_placed_def)
qed

lemma blocks_placed_box:
  assumes "blocks_placed rows i m" "rows i = None"
  shows "blocks_placed rows (Suc i) \<lparr>md_items = md_items m @ map Text_row ls,
    md_block_row = md_block_row m @ [n], md_r_rows = md_r_rows m @ [0]\<rparr>" (is "blocks_placed rows _ ?m")
proof -
  have "image_block rows ?m k j" if "j < length (md_items ?m)" "md_items ?m ! j = Image_row k" for j k
  proof -
    have "j < length (md_items m)" using that by (auto simp: nth_append split: if_splits)
    with that assms(1) have "image_block rows m k j" by (simp add: blocks_placed_def nth_append)
    then show ?thesis using image_block_grows assms(1) by (simp add: blocks_placed_def)
  qed
  moreover have "md_r_rows ?m ! k = (case rows k of None \<Rightarrow> 0 | Some r \<Rightarrow> r)
    \<and> (0 < md_r_rows ?m ! k \<longrightarrow> image_block rows ?m k (md_block_row ?m ! k))" if "k < Suc i" for k
  proof (cases "k = i")
    case False
    then show ?thesis using that by (intro blocks_placed_known [OF assms(1) _ refl]) simp
  next
    case True
    then show ?thesis using assms by (simp add: blocks_placed_def nth_append)
  qed
  ultimately show ?thesis using assms(1) by (simp add: blocks_placed_def)
qed

lemma build_images_placed:
  "blocks_placed rows i m \<Longrightarrow> build_images rows i as cursor m = (c, m') \<Longrightarrow> blocks_placed rows (i + length as) m'"
proof (induction as arbitrary: i cursor m)
  case (Cons a as)
  let ?t = "m\<lparr>md_items := md_items m @ map Text_row [cursor..<an_block_start a]\<rparr>"
  have t: "blocks_placed rows i ?t" using Cons.prems(1) by (rule blocks_placed_text)
  show ?case
  proof (cases "rows i")
    case None
    with Cons.IH [OF blocks_placed_box [OF t None]] Cons.prems(2) show ?thesis by (simp add: Let_def)
  next
    case (Some r)
    with Cons.IH [OF blocks_placed_image [OF t Some]] Cons.prems(2) show ?thesis by (simp add: Let_def)
  qed
qed simp

lemma build_rows_placed: "blocks_placed rows (length (pr_images prep)) (build_rows rows prep)"
proof -
  obtain c m where b: "build_images rows 0 (pr_images prep) 0 \<lparr>md_items = [], md_block_row = [], md_r_rows = []\<rparr> = (c, m)"
    by fastforce
  have "blocks_placed rows 0 \<lparr>md_items = [], md_block_row = [], md_r_rows = []\<rparr>" by (simp add: blocks_placed_def)
  from build_images_placed [OF this b] show ?thesis
    using blocks_placed_text b by (simp add: build_rows_def)
qed

section \<open>What stays on the screen\<close>

text \<open>The specification: the lines of the text rows on the screen, and each box whose image begins there.\<close>

definition row_leaves :: "prepared \<Rightarrow> model \<Rightarrow> nat \<Rightarrow> ustr list" where
  "row_leaves prep m j =
     (case md_items m ! j of
        Text_row l \<Rightarrow> [pr_raw prep ! l]
      | Image_row i \<Rightarrow>
          if md_block_row m ! i = j
          then take (an_block_end (pr_images prep ! i) - an_block_start (pr_images prep ! i))
                 (drop (an_block_start (pr_images prep ! i)) (pr_raw prep))
          else []
      | Alt_row i \<Rightarrow> [])"

definition not_inside :: "model \<Rightarrow> nat \<Rightarrow> bool" where
  "not_inside m j \<longleftrightarrow> (\<forall>i. j < length (md_items m) \<and> md_items m ! j = Image_row i \<longrightarrow> md_block_row m ! i = j)"

definition texts_ok :: "prepared \<Rightarrow> model \<Rightarrow> bool" where
  "texts_ok prep m \<longleftrightarrow> (\<forall>j l. j < length (md_items m) \<and> md_items m ! j = Text_row l \<longrightarrow> l < length (pr_raw prep))
     \<and> (\<forall>a \<in> set (pr_images prep). an_block_start a \<le> an_block_end a \<and> an_block_end a \<le> length (pr_raw prep))"

lemma not_inside_next:
  assumes placed: "blocks_placed rows n m" and "not_inside m j" "j < length (md_items m)" "\<forall>i. md_items m ! j \<noteq> Image_row i"
  shows "not_inside m (Suc j)"
  unfolding not_inside_def
proof (intro allI impI)
  fix i assume i: "Suc j < length (md_items m) \<and> md_items m ! Suc j = Image_row i"
  then obtain r where r: "md_block_row m ! i \<le> Suc j" "Suc j < md_block_row m ! i + r"
      "\<forall>t. md_block_row m ! i \<le> t \<and> t < md_block_row m ! i + r \<longrightarrow> md_items m ! t = Image_row i"
    using placed unfolding blocks_placed_def image_block_def by blast
  show "md_block_row m ! i = Suc j"
  proof (rule ccontr)
    assume "md_block_row m ! i \<noteq> Suc j"
    with r have "md_items m ! j = Image_row i" by simp
    with assms(4) show False by blast
  qed
qed

lemma exit_loop_rows:
  assumes placed: "blocks_placed rows (length (pr_images prep)) m" and texts: "texts_ok prep m"
    and "end_row \<le> length (md_items m)" "not_inside m i"
  shows "exit_loop prep m end_row i = Some (concat (map (row_leaves prep m) [i..<end_row]))"
  using assms(4)
proof (induction "end_row - i" arbitrary: i rule: less_induct)
  case less
  let ?leaves = "row_leaves prep m"
  show ?case
  proof (cases "end_row \<le> i")
    case False
    then have i: "i < end_row" "i < length (md_items m)" using assms(3) by simp_all
    then have rows: "[i..<end_row] = i # [Suc i..<end_row]" by (simp add: upt_conv_Cons)
    show ?thesis
    proof (cases "md_items m ! i")
      case (Text_row l)
      then have "l < length (pr_raw prep)" using texts i(2) by (auto simp: texts_ok_def)
      moreover have "exit_loop prep m end_row (Suc i) = Some (concat (map ?leaves [Suc i..<end_row]))"
        using i Text_row by (intro less.hyps not_inside_next [OF placed less.prems]) auto
      ultimately show ?thesis
        using False Text_row by (subst exit_loop.simps) (simp add: rows row_leaves_def)
    next
      case (Alt_row k)
      then have "exit_loop prep m end_row (Suc i) = Some (concat (map ?leaves [Suc i..<end_row]))"
        using i by (intro less.hyps not_inside_next [OF placed less.prems]) auto
      then show ?thesis
        using False Alt_row by (subst exit_loop.simps) (simp add: rows row_leaves_def)
    next
      case (Image_row k)
      then have "image_block rows m k i" using placed i(2) by (simp add: blocks_placed_def)
      then obtain r where r: "md_r_rows m ! k = r" "k < length (md_r_rows m)" "md_block_row m ! k \<le> i"
          "i < md_block_row m ! k + r" "md_block_row m ! k + r < length (md_items m)"
          "\<forall>t. md_block_row m ! k \<le> t \<and> t < md_block_row m ! k + r \<longrightarrow> md_items m ! t = Image_row k"
          "md_items m ! (md_block_row m ! k + r) = Alt_row k"
        unfolding image_block_def by blast
      have start: "md_block_row m ! k = i" using less.prems Image_row i(2) by (simp add: not_inside_def)
      have k: "k < length (pr_images prep)" using r(2) placed by (simp add: blocks_placed_def)
      then have box: "an_block_start (pr_images prep ! k) \<le> an_block_end (pr_images prep ! k)"
          "an_block_end (pr_images prep ! k) \<le> length (pr_raw prep)"
        using texts by (simp_all add: texts_ok_def)
      have "not_inside m (i + r)" using r(7) start by (simp add: not_inside_def)
      then have after: "exit_loop prep m end_row (i + r) = Some (concat (map ?leaves [i + r..<end_row]))"
        using i r start by (intro less.hyps) auto
      have silent: "?leaves j = []" if "i < j" "j < i + r" for j
        using that r(6) start by (simp add: row_leaves_def)
      have "concat (map ?leaves [Suc i..<end_row]) = concat (map ?leaves [i + r..<end_row])"
      proof (cases "i + r \<le> end_row")
        case True
        then have "[Suc i..<end_row] = [Suc i..<i + r] @ [i + r..<end_row]"
          using r start upt_add_eq_append [of "Suc i" "i + r" "end_row - (i + r)"] by simp
        then show ?thesis using silent by simp
      next
        case False
        then show ?thesis using silent by simp
      qed
      then show ?thesis
        using False Image_row r(1,2) k box after start r(4)
        by (subst exit_loop.simps) (simp add: rows row_leaves_def Let_def max_def)
    qed
  qed (subst exit_loop.simps, simp)
qed

lemma built_texts_ok:
  assumes "prepared_ok prep"
  shows "texts_ok prep (build_rows rows prep)"
proof -
  have ok: "anchors_ok (length (pr_raw prep)) 0 (pr_images prep)" using assms by (simp add: prepared_ok_def)
  have "l < length (pr_raw prep)" if "Text_row l \<in> set (md_items (build_rows rows prep))" for l
  proof -
    have "Text_row l \<in> set (image_items rows i as cursor n) \<Longrightarrow> anchors_ok n cursor as \<Longrightarrow> l < n" for i as cursor n
      by (induction as arbitrary: i cursor) (fastforce dest: anchors_ok_le split: option.splits)+
    with that ok show ?thesis by simp
  qed
  moreover have "an_block_start a \<le> an_block_end a \<and> an_block_end a \<le> n"
    if "anchors_ok n lo as" "a \<in> set as" for n lo as a
    using that by (induction as arbitrary: lo) (auto dest: anchors_ok_le)
  ultimately show ?thesis
    using ok unfolding texts_ok_def by (metis nth_mem)
qed

lemma exit_view_rows:
  assumes "prepared_ok prep" "not_inside (build_rows rows prep) scroll"
  shows "exit_view prep (build_rows rows prep) scroll n
    = Some (concat (map (row_leaves prep (build_rows rows prep)) [scroll..<min (scroll + n) (length (md_items (build_rows rows prep)))]))"
  unfolding exit_view_def
  by (rule exit_loop_rows [OF build_rows_placed built_texts_ok [OF assms(1)] min.cobounded2 assms(2)])

section \<open>Slices\<close>

text \<open>The height and the number of rows of an image whose display height fits 32 bits.\<close>

definition fits :: "img_anchor \<Rightarrow> u32 \<Rightarrow> bool" where
  "fits a wpx \<longleftrightarrow> unat wpx * unat (an_h a) div unat (an_w a) < 2 ^ 32"

lemma display_height_pos: "fits a wpx \<Longrightarrow> 0 < unat (display_height a wpx)"
  by (auto simp: fits_def display_height_def unat_of_nat max_def take_bit_eq_mod)

lemma slice_window_within:
  fixes cell_h full :: u32
  assumes "0 < unat cell_h" "0 < vis" "k * unat cell_h < unat full"
  shows "(case slice_window full cell_h k vis of (y0, y1) \<Rightarrow>
      unat y0 = k * unat cell_h \<and> unat y1 = min ((k + vis) * unat cell_h) (unat full) \<and> y0 < y1)"
proof -
  have bound: "min (r * unat cell_h) (unat full) < 2 ^ 32" for r
    using unsigned_less [of full] by (auto simp: min_def)
  have un: "unat (of_nat (min (r * unat cell_h) (unat full)) :: u32) = min (r * unat cell_h) (unat full)" for r
    using bound [of r] by (simp add: unat_of_nat take_bit_eq_mod)
  let ?y0 = "of_nat (min (k * unat cell_h) (unat full)) :: u32"
  let ?y1 = "of_nat (min ((k + vis) * unat cell_h) (unat full)) :: u32"
  have "k * unat cell_h < min ((k + vis) * unat cell_h) (unat full)"
    using assms by (simp add: distrib_right)
  then have less: "?y0 < ?y1"
    using assms(3) unfolding word_less_nat_alt un by simp
  have "slice_window full cell_h k vis = (?y0, ?y1)"
    unfolding slice_window_def Let_def by (rule if_not_P) (use less in \<open>simp only: not_le\<close>)
  then show ?thesis
    using less un [of k] un [of "k + vis"] assms(3) by (simp only: prod.case) simp
qed

text \<open>The rows of an image are its slices, without a gap: the first begins at the top, each at the
  end of the one before, and the last ends at the bottom.\<close>

lemma geometry_rows:
  assumes "block_geometry a cols cell_w cell_h = (wcols, wpx, r)" "fits a wpx" "0 < unat cell_h"
  shows "0 < r" "k < r \<longleftrightarrow> k * unat cell_h < unat (display_height a wpx)"
    "unat (display_height a wpx) \<le> r * unat cell_h"
proof -
  let ?h = "unat (display_height a wpx)"
  have pos: "0 < ?h" using assms(2) by (rule display_height_pos)
  have r: "r = max 1 ((?h + unat cell_h - 1) div unat cell_h)"
    using assms(1) by (auto simp: block_geometry_def Let_def)
  have "1 \<le> (?h + unat cell_h - 1) div unat cell_h"
    using pos assms(3) by (simp add: Suc_le_eq div_greater_zero_iff)
  then have r': "r = (?h + unat cell_h - 1) div unat cell_h" using r by simp
  show "0 < r" using r by simp
  have "k < r \<longleftrightarrow> Suc k * unat cell_h \<le> ?h + unat cell_h - 1"
    unfolding r' using assms(3) by (metis Suc_le_eq less_eq_div_iff_mult_less_eq)
  then show "k < r \<longleftrightarrow> k * unat cell_h < ?h" using assms(3) pos by auto
  have "\<not> r < r" by simp
  moreover have "j < r \<longleftrightarrow> j * unat cell_h < ?h" for j
  proof -
    have "j < r \<longleftrightarrow> Suc j * unat cell_h \<le> ?h + unat cell_h - 1"
      unfolding r' using assms(3) by (metis Suc_le_eq less_eq_div_iff_mult_less_eq)
    then show ?thesis using assms(3) pos by auto
  qed
  ultimately show "?h \<le> r * unat cell_h" by (metis not_less)
qed

end
