(* ===== verification/Reader_Cache_Facts.thy ===== *)
theory Reader_Cache_Facts
  imports Reader_Cache Reader_Exit
begin

text \<open>
  The caches change nothing but the work: every payload is the one that is computed without them.
  The law of a cache that this rests on is a locale, with the LRU and the hash maps as its instances.
\<close>

section \<open>What a cache promises\<close>

definition entries :: "('c \<Rightarrow> 'k \<Rightarrow> 'v \<Rightarrow> bool) \<Rightarrow> ('k \<Rightarrow> 'v \<Rightarrow> bool) \<Rightarrow> 'c \<Rightarrow> bool" where
  "entries holds P c \<longleftrightarrow> (\<forall>k v. holds c k v \<longrightarrow> P k v)"

locale memo =
  fixes get :: "'k \<Rightarrow> 'c \<Rightarrow> 'v option \<times> 'c"
    and put :: "'k \<Rightarrow> 'v \<Rightarrow> 'c \<Rightarrow> 'c"
    and holds :: "'c \<Rightarrow> 'k \<Rightarrow> 'v \<Rightarrow> bool"
  assumes get_holds: "get k c = (Some v, c') \<Longrightarrow> holds c k v"
    and get_keeps: "get k c = (r, c') \<Longrightarrow> holds c' k' v' \<Longrightarrow> holds c k' v'"
    and put_keeps: "holds (put k v c) k' v' \<Longrightarrow> holds c k' v' \<or> k' = k \<and> v' = v"
begin

lemma hit: "entries holds P c \<Longrightarrow> get k c = (Some v, c') \<Longrightarrow> P k v"
  using get_holds by (auto simp: entries_def)

lemma entries_get: "entries holds P c \<Longrightarrow> get k c = (r, c') \<Longrightarrow> entries holds P c'"
  using get_keeps by (auto simp: entries_def)

lemma entries_put: "entries holds P c \<Longrightarrow> P k v \<Longrightarrow> entries holds P (put k v c)"
  by (auto simp: entries_def dest!: put_keeps)

end

definition lru_holds :: "('k, 'v) lru \<Rightarrow> 'k \<Rightarrow> 'v \<Rightarrow> bool" where
  "lru_holds l k v \<longleftrightarrow> lru_map l k = Some v"

lemma lru_evict_holds: "lru_holds (lru_evict l) k v \<Longrightarrow> lru_holds l k v"
  by (auto simp: lru_holds_def lru_evict_def split: list.splits if_splits)

interpretation lru_cache: memo lru_get lru_insert lru_holds
  by unfold_locales
     (auto simp: lru_get_def lru_insert_def lru_holds_def Let_def split: if_splits
       dest: lru_evict_holds [unfolded lru_holds_def])

definition map_get :: "'k \<Rightarrow> ('k \<Rightarrow> 'v option) \<Rightarrow> 'v option \<times> ('k \<Rightarrow> 'v option)" where
  "map_get k m = (m k, m)"

definition map_put :: "'k \<Rightarrow> 'v \<Rightarrow> ('k \<Rightarrow> 'v option) \<Rightarrow> 'k \<Rightarrow> 'v option" where
  "map_put k v m = m(k \<mapsto> v)"

definition map_holds :: "('k \<Rightarrow> 'v option) \<Rightarrow> 'k \<Rightarrow> 'v \<Rightarrow> bool" where
  "map_holds m k v \<longleftrightarrow> m k = Some v"

interpretation hash_cache: memo map_get map_put map_holds
  by unfold_locales (auto simp: map_get_def map_put_def map_holds_def split: if_splits)

section \<open>The LRU keeps the keys that were used last\<close>

datatype ('k, 'v) lru_use = Use_get 'k | Use_insert 'k 'v

fun lru_run :: "('k, 'v) lru_use list \<Rightarrow> ('k, 'v) lru \<times> 'k list \<Rightarrow> ('k, 'v) lru \<times> 'k list" where
  "lru_run [] (l, used) = (l, used)"
| "lru_run (Use_get k # us) (l, used) =
     (case lru_get k l of
        (Some v, l) \<Rightarrow> lru_run us (l, used @ [k])
      | (None, l) \<Rightarrow> lru_run us (l, used))"
| "lru_run (Use_insert k v # us) (l, used) = lru_run us (lru_insert k v l, used @ [k])"

definition last_of :: "nat \<Rightarrow> 'a list \<Rightarrow> 'a list" where
  "last_of n xs = drop (length xs - n) xs"

definition lru_ok :: "nat \<Rightarrow> ('k, 'v) lru \<Rightarrow> 'k list \<Rightarrow> bool" where
  "lru_ok cap l used \<longleftrightarrow> lru_cap l = cap \<and> dom (lru_map l) = set (lru_order l)
     \<and> lru_order l = last_of cap (remdups used)"

lemma remdups_snoc: "remdups (xs @ [k]) = filter (\<lambda>x. x \<noteq> k) (remdups xs) @ [k]"
  by (induction xs) auto

lemma filter_notin: "k \<notin> set xs \<Longrightarrow> filter (\<lambda>x. x \<noteq> k) xs = xs"
  by (induction xs) auto

lemma last_of_append: "last_of n (xs @ ys) = (if n \<le> length ys then last_of n ys else last_of (n - length ys) xs @ ys)"
  by (auto simp: last_of_def)

lemma last_of_snoc: "0 < n \<Longrightarrow> last_of n (xs @ [k]) = last_of (n - 1) xs @ [k]"
  by (cases n) (auto simp: last_of_def)

lemma touch_present:
  assumes "distinct r" "k \<in> set (last_of n r)"
  shows "filter (\<lambda>x. x \<noteq> k) (last_of n r) @ [k] = last_of n (filter (\<lambda>x. x \<noteq> k) r @ [k])"
proof -
  define a b where "a = take (length r - n) r" and "b = last_of n r"
  have r: "r = a @ b" by (simp add: a_def b_def last_of_def)
  have kb: "k \<in> set b" using assms(2) by (simp add: b_def)
  moreover have "k \<notin> set a" using kb assms(1) unfolding r by auto
  ultimately have k: "k \<in> set b" "k \<notin> set a" by simp_all
  obtain m where m: "length b = Suc m" using k(1) by (cases b) auto
  have len: "length (filter (\<lambda>x. x \<noteq> k) b) = m"
  proof -
    have "distinct b" using assms(1) r by simp
    with k(1) have "length (filter (\<lambda>x. x = k) b) = 1"
      by (induction b) (auto simp: filter_empty_conv filter_notin)
    then show ?thesis using m sum_length_filter_compl [of "\<lambda>x. x = k" b] by simp
  qed
  have n: "n = length b \<or> a = []" by (auto simp: a_def b_def last_of_def)
  show ?thesis
  proof (cases "a = []")
    case True
    have "length b \<le> n" by (simp add: b_def last_of_def)
    then show ?thesis using len m by (simp add: r True b_def [symmetric] last_of_def)
  next
    case False
    then have "n = length b" using n by simp
    then show ?thesis using len m k by (simp add: r b_def [symmetric] last_of_def filter_notin)
  qed
qed

lemma touch_absent:
  assumes "distinct r" "k \<notin> set (last_of n r)" "0 < n"
  shows "(if n \<le> length (last_of n r) then tl (last_of n r) else last_of n r) @ [k]
    = last_of n (filter (\<lambda>x. x \<noteq> k) r @ [k])"
proof -
  define a b where "a = take (length r - n) r" and "b = last_of n r"
  have r: "r = a @ b" by (simp add: a_def b_def last_of_def)
  have b: "filter (\<lambda>x. x \<noteq> k) b = b" using assms(2) by (simp add: b_def [symmetric] filter_notin)
  have "last_of n (filter (\<lambda>x. x \<noteq> k) r @ [k]) = last_of (n - 1) (filter (\<lambda>x. x \<noteq> k) a @ b) @ [k]"
    unfolding last_of_snoc [OF assms(3)] by (simp add: r b)
  moreover have "last_of (n - 1) (filter (\<lambda>x. x \<noteq> k) a @ b) = (if n \<le> length b then tl b else b)"
  proof (cases "n \<le> length b")
    case True
    then have "length b = n" by (simp add: b_def last_of_def)
    then show ?thesis using assms(3) by (simp add: last_of_append) (simp add: last_of_def drop_Suc)
  next
    case False
    then have "a = []" by (auto simp: a_def b_def last_of_def)
    then show ?thesis using False by (simp add: last_of_def)
  qed
  ultimately show ?thesis by (simp add: b_def [symmetric])
qed

lemma lru_ok_use:
  assumes "lru_ok cap l used" "lru_map l k \<noteq> None"
    "l' = l\<lparr>lru_order := filter (\<lambda>x. x \<noteq> k) (lru_order l) @ [k]\<rparr>"
  shows "lru_ok cap l' (used @ [k])"
proof -
  have k: "k \<in> set (lru_order l)" using assms(1,2) by (auto simp: lru_ok_def dom_def)
  then have order: "filter (\<lambda>x. x \<noteq> k) (lru_order l) @ [k] = last_of cap (remdups (used @ [k]))"
    using touch_present [of "remdups used" k cap] assms(1) by (simp add: lru_ok_def remdups_snoc del: remdups_append2)
  have set: "set (filter (\<lambda>x. x \<noteq> k) (lru_order l) @ [k]) = set (lru_order l)" using k by auto
  have "dom (lru_map l) = set (lru_order l)" "lru_cap l = cap" using assms(1) by (simp_all add: lru_ok_def)
  with order set show ?thesis unfolding lru_ok_def assms(3) by simp
qed

lemma lru_ok_insert:
  assumes "lru_ok cap l used" "0 < cap"
  shows "lru_ok cap (lru_insert k v l) (used @ [k])"
proof -
  have distinct: "distinct (lru_order l)" using assms(1) by (simp add: lru_ok_def last_of_def)
  have dom: "dom (lru_map l) = set (lru_order l)" and cap: "lru_cap l = cap" using assms(1) by (simp_all add: lru_ok_def)
  show ?thesis
  proof (cases "lru_map l k = None")
    case False
    then have "lru_insert k v l = l\<lparr>lru_order := filter (\<lambda>x. x \<noteq> k) (lru_order l) @ [k], lru_map := (lru_map l)(k \<mapsto> v)\<rparr>"
      by (simp add: lru_insert_def)
    moreover have "dom ((lru_map l)(k \<mapsto> v)) = set (filter (\<lambda>x. x \<noteq> k) (lru_order l) @ [k])"
      using False dom by auto
    moreover have "last_of cap (remdups (used @ [k])) = filter (\<lambda>x. x \<noteq> k) (lru_order l) @ [k]"
      using lru_ok_use [OF assms(1) False refl] by (simp add: lru_ok_def)
    ultimately show ?thesis unfolding lru_ok_def by (simp add: cap)
  next
    case True
    then have k: "k \<notin> set (lru_order l)" using dom by auto
    let ?rest = "if cap \<le> length (lru_order l) then tl (lru_order l) else lru_order l"
    have lo: "last_of cap (remdups used) = lru_order l" using assms(1) by (simp add: lru_ok_def)
    have order: "?rest @ [k] = last_of cap (remdups (used @ [k]))"
      using touch_absent [of "remdups used" k cap] k assms(2) unfolding lo remdups_snoc by simp
    show ?thesis
    proof (cases "cap \<le> length (lru_order l)")
      case full: True
      then obtain old rest where old: "lru_order l = old # rest" using assms(2) by (cases "lru_order l") auto
      then have "lru_insert k v l = l\<lparr>lru_order := rest @ [k], lru_map := ((lru_map l)(old := None))(k \<mapsto> v)\<rparr>"
        using True full cap by (simp add: lru_insert_def lru_evict_def)
      moreover have "dom (((lru_map l)(old := None))(k \<mapsto> v)) = set (rest @ [k])"
        using dom distinct old by auto
      moreover have "last_of cap (remdups (used @ [k])) = rest @ [k]" using order full old by simp
      ultimately show ?thesis unfolding lru_ok_def by (simp add: cap)
    next
      case False
      then have "lru_insert k v l = l\<lparr>lru_order := lru_order l @ [k], lru_map := (lru_map l)(k \<mapsto> v)\<rparr>"
        using True cap by (simp add: lru_insert_def)
      moreover have "dom ((lru_map l)(k \<mapsto> v)) = set (lru_order l @ [k])" using dom by auto
      moreover have "last_of cap (remdups (used @ [k])) = lru_order l @ [k]" using order False by simp
      ultimately show ?thesis unfolding lru_ok_def by (simp add: cap)
    qed
  qed
qed

lemma lru_run_ok:
  assumes "0 < cap"
  shows "lru_ok cap l used \<Longrightarrow> lru_run us (l, used) = (l', used') \<Longrightarrow> lru_ok cap l' used'"
proof (induction us arbitrary: l used)
  case (Cons u us)
  show ?case
  proof (cases u)
    case (Use_get k)
    show ?thesis
    proof (cases "lru_map l k")
      case None
      then show ?thesis using Cons Use_get by (simp add: lru_get_def)
    next
      case (Some v)
      then have "lru_ok cap (l\<lparr>lru_order := filter (\<lambda>x. x \<noteq> k) (lru_order l) @ [k]\<rparr>) (used @ [k])"
        by (intro lru_ok_use [OF Cons.prems(1)]) auto
      then show ?thesis using Cons.IH Cons.prems(2) Use_get Some by (simp add: lru_get_def)
    qed
  next
    case (Use_insert k v)
    then show ?thesis using Cons.IH [OF lru_ok_insert [OF Cons.prems(1) assms]] Cons.prems(2) by simp
  qed
qed simp

section \<open>Payloads without the caches\<close>

definition plain_image :: "'i codec \<Rightarrow> string \<Rightarrow> payload_error + 'i" where
  "plain_image cd asset =
     (case cd_read cd asset of
        None \<Rightarrow> Inl Read_asset
      | Some b \<Rightarrow> (case cd_load cd b of None \<Rightarrow> Inl Decode_image | Some i \<Rightarrow> Inr i))"

definition plain_scaled :: "'i codec \<Rightarrow> img_anchor \<Rightarrow> u32 \<Rightarrow> payload_error + 'i" where
  "plain_scaled cd a wpx =
     and_then (plain_image cd (an_asset a)) (\<lambda>i. Inr (cd_resize cd i wpx (display_height a wpx)))"

definition checked_size :: "string \<Rightarrow> payload_error + string" where
  "checked_size s = (if MAX_IIP_PAYLOAD < length s then Inl Too_large else Inr s)"

definition plain_full :: "'i codec \<Rightarrow> img_anchor \<Rightarrow> u32 \<Rightarrow> payload_error + string" where
  "plain_full cd a wpx =
     (case cd_read cd (an_asset a) of
        None \<Rightarrow> Inl Read_asset
      | Some b \<Rightarrow> checked_size (iip_encode cd (an_asset a) b wpx (display_height a wpx)))"

definition plain_slice :: "'i codec \<Rightarrow> img_anchor \<Rightarrow> u32 \<Rightarrow> u32 \<Rightarrow> u32 \<Rightarrow> payload_error + string" where
  "plain_slice cd a wpx y0 y1 =
     and_then (plain_scaled cd a wpx) (\<lambda>i.
     and_then (reencode_slice cd (cd_crop cd i y0 (y1 - y0)) (an_asset a)) (\<lambda>b.
     checked_size (iip_encode cd (an_asset a) b wpx (y1 - y0))))"

definition plain_row :: "'i codec \<Rightarrow> img_anchor \<Rightarrow> nat \<Rightarrow> u32 \<Rightarrow> nat \<Rightarrow> u32 \<Rightarrow> payload_error + string" where
  "plain_row cd a wcols wpx row_offset cell_h =
     (case slice_window (display_height a wpx) cell_h row_offset 1 of
        (y0, y1) \<Rightarrow>
          and_then (plain_scaled cd a wpx) (\<lambda>i.
          and_then (reencode_slice cd (cd_crop cd i y0 (y1 - y0)) (an_asset a)) (\<lambda>b.
          checked_size (encode_row cd (an_asset a) b (of_nat wcols) (y1 - y0) cell_h))))"

text \<open>All that the caches hold is what is computed without them.  The images are those of one
  article, where an asset has one size, and the cells have one size for the session.\<close>

definition wpx_of :: "u32 \<Rightarrow> nat \<Rightarrow> u32" where
  "wpx_of cell_w wcols = max 1 (saturating_mul (of_nat wcols) cell_w)"

definition caches_ok :: "'i codec \<Rightarrow> img_anchor list \<Rightarrow> u32 \<Rightarrow> u32 \<Rightarrow> 'i caches \<Rightarrow> bool" where
  "caches_ok cd images cell_w cell_h c \<longleftrightarrow>
     entries map_holds (\<lambda>k b. cd_read cd k = Some b) (ca_bytes c)
   \<and> entries map_holds (\<lambda>(k, wpx) s. \<forall>a \<in> set images. an_asset a = k \<longrightarrow> plain_full cd a wpx = Inr s) (ca_full c)
   \<and> entries lru_holds (\<lambda>(k, wpx, y0, y1) s. \<forall>a \<in> set images. an_asset a = k \<longrightarrow> plain_slice cd a wpx y0 y1 = Inr s) (ca_slices c)
   \<and> entries lru_holds (\<lambda>(k, wpx, i) s. \<forall>a \<in> set images. \<forall>wcols \<in> {1..76}.
         an_asset a = k \<and> wpx_of cell_w wcols = wpx \<longrightarrow> plain_row cd a wcols wpx i cell_h = Inr s) (ca_row_slices c)
   \<and> entries lru_holds (\<lambda>k i. plain_image cd k = Inr i) (ca_decoded c)
   \<and> entries lru_holds (\<lambda>(k, wpx) i. \<forall>a \<in> set images. an_asset a = k \<longrightarrow> plain_scaled cd a wpx = Inr i) (ca_scaled c)"

definition sizes_agree :: "img_anchor list \<Rightarrow> bool" where
  "sizes_agree images \<longleftrightarrow> (\<forall>a \<in> set images. \<forall>b \<in> set images. an_asset a = an_asset b \<longrightarrow> an_w a = an_w b \<and> an_h a = an_h b)"

lemma caches_ok_start: "caches_ok cd images cell_w cell_h no_caches"
  by (simp add: caches_ok_def no_caches_def entries_def map_holds_def lru_holds_def lru_new_def)

text \<open>An image that was given up once is refused, unless a cache still has what is asked for.\<close>

definition answered :: "bool \<Rightarrow> payload_error + 'a \<Rightarrow> payload_error + 'a \<Rightarrow> bool" where
  "answered failed r p \<longleftrightarrow> r = p \<or> failed \<and> r = Inl Already_degraded"

lemma answered_refl [simp]: "answered failed p p"
  by (simp add: answered_def)

lemma answered_failed [simp]: "answered True (Inl Already_degraded) p"
  by (simp add: answered_def)

lemma load_bytes_plain:
  assumes "caches_ok cd images cell_w cell_h c"
  shows "answered (asset \<in> ca_failed c) (fst (load_bytes cd asset c)) (case cd_read cd asset of None \<Rightarrow> Inl Read_asset | Some b \<Rightarrow> Inr b)
    \<and> caches_ok cd images cell_w cell_h (snd (load_bytes cd asset c))"
proof (cases "ca_bytes c asset")
  case None
  show ?thesis
  proof (cases "cd_read cd asset")
    case (Some b)
    then have "entries map_holds (\<lambda>k b. cd_read cd k = Some b) (map_put asset b (ca_bytes c))"
      using assms(1) by (intro hash_cache.entries_put) (simp_all add: caches_ok_def)
    with None Some assms show ?thesis by (simp add: load_bytes_def caches_ok_def map_put_def)
  qed (use None assms in \<open>simp add: load_bytes_def caches_ok_def\<close>)
next
  case (Some b)
  then have "cd_read cd asset = Some b" using assms(1) by (auto simp: caches_ok_def entries_def map_holds_def)
  with Some assms show ?thesis by (simp add: load_bytes_def)
qed

lemma decoded_image_plain:
  assumes "caches_ok cd images cell_w cell_h c"
  shows "answered (asset \<in> ca_failed c) (fst (decoded_image cd asset c)) (plain_image cd asset)
    \<and> caches_ok cd images cell_w cell_h (snd (decoded_image cd asset c))"
proof -
  obtain r l where get: "lru_get asset (ca_decoded c) = (r, l)" by fastforce
  have decoded: "entries lru_holds (\<lambda>k i. plain_image cd k = Inr i) (ca_decoded c)" using assms(1) by (simp add: caches_ok_def)
  note l = lru_cache.entries_get [OF decoded get]
  then have c: "caches_ok cd images cell_w cell_h (c\<lparr>ca_decoded := l\<rparr>)" using assms(1) by (simp add: caches_ok_def)
  show ?thesis
  proof (cases r)
    case (Some i)
    then show ?thesis
      using lru_cache.hit [OF decoded] get c by (simp add: decoded_image_def)
  next
    case None
    obtain r' c' where load: "load_bytes cd asset (c\<lparr>ca_decoded := l\<rparr>) = (r', c')" by fastforce
    then have r': "answered (asset \<in> ca_failed c) r' (case cd_read cd asset of None \<Rightarrow> Inl Read_asset | Some b \<Rightarrow> Inr b)"
        and c': "caches_ok cd images cell_w cell_h c'"
      using load_bytes_plain [OF c, of asset] by simp_all
    have "caches_ok cd images cell_w cell_h (c'\<lparr>ca_decoded := lru_insert asset i (ca_decoded c')\<rparr>)"
      if "plain_image cd asset = Inr i" for i
      using lru_cache.entries_put [of "\<lambda>k i. plain_image cd k = Inr i" "ca_decoded c'" asset i] c' that
      by (simp add: caches_ok_def)
    then show ?thesis
      using None get load r' c' by (auto simp: decoded_image_def plain_image_def answered_def split: option.splits)
  qed
qed

lemma sizes_agreeD:
  assumes "sizes_agree images" "a \<in> set images" "b \<in> set images" "an_asset b = an_asset a"
  shows "plain_scaled cd b wpx = plain_scaled cd a wpx" "plain_full cd b wpx = plain_full cd a wpx"
    "plain_slice cd b wpx y0 y1 = plain_slice cd a wpx y0 y1" "plain_row cd b n wpx k h = plain_row cd a n wpx k h"
proof -
  have h: "display_height b w = display_height a w" for w
    using assms unfolding sizes_agree_def display_height_def by metis
  show s: "plain_scaled cd b w = plain_scaled cd a w" for w by (simp add: plain_scaled_def assms(4) h)
  show "plain_full cd b wpx = plain_full cd a wpx" by (simp add: plain_full_def assms(4) h split: option.split)
  show "plain_slice cd b wpx y0 y1 = plain_slice cd a wpx y0 y1" by (simp add: plain_slice_def assms(4) s)
  show "plain_row cd b n wpx k h = plain_row cd a n wpx k h" by (simp add: plain_row_def assms(4) s h)
qed

lemma scaled_image_plain:
  assumes "caches_ok cd images cell_w cell_h c" "a \<in> set images" "sizes_agree images"
  shows "answered (an_asset a \<in> ca_failed c) (fst (scaled_image cd a wpx c)) (plain_scaled cd a wpx)
    \<and> caches_ok cd images cell_w cell_h (snd (scaled_image cd a wpx c))"
proof -
  let ?P = "\<lambda>(k, wpx) i. \<forall>a \<in> set images. an_asset a = k \<longrightarrow> plain_scaled cd a wpx = Inr i"
  obtain r l where get: "lru_get (an_asset a, wpx) (ca_scaled c) = (r, l)" by fastforce
  have scaled: "entries lru_holds ?P (ca_scaled c)" using assms(1) by (simp add: caches_ok_def)
  note l = lru_cache.entries_get [OF scaled get]
  then have c: "caches_ok cd images cell_w cell_h (c\<lparr>ca_scaled := l\<rparr>)" using assms(1) by (simp add: caches_ok_def)
  show ?thesis
  proof (cases r)
    case (Some i)
    then show ?thesis
      using lru_cache.hit [OF scaled] get c assms(2) by (auto simp: scaled_image_def)
  next
    case None
    obtain r' c' where dec: "decoded_image cd (an_asset a) (c\<lparr>ca_scaled := l\<rparr>) = (r', c')" by fastforce
    then have r': "answered (an_asset a \<in> ca_failed c) r' (plain_image cd (an_asset a))" and c': "caches_ok cd images cell_w cell_h c'"
      using decoded_image_plain [OF c, of "an_asset a"] by simp_all
    show ?thesis
    proof (cases r')
      case (Inl e)
      with r' have "e = Already_degraded \<and> an_asset a \<in> ca_failed c \<or> plain_scaled cd a wpx = Inl e"
        by (auto simp: plain_scaled_def answered_def dest: sym)
      then show ?thesis using Inl None get dec c' by (auto simp: scaled_image_def answered_def)
    next
      case (Inr i)
      define s where "s = cd_resize cd i wpx (display_height a wpx)"
      have plain: "plain_scaled cd a wpx = Inr s" using Inr r' by (auto simp: plain_scaled_def s_def answered_def dest: sym)
      then have "?P (an_asset a, wpx) s" by (auto simp: sizes_agreeD(1) [OF assms(3,2)])
      then have "caches_ok cd images cell_w cell_h (c'\<lparr>ca_scaled := lru_insert (an_asset a, wpx) s (ca_scaled c')\<rparr>)"
        using lru_cache.entries_put [of ?P "ca_scaled c'"] c' by (simp add: caches_ok_def)
      then show ?thesis using None get dec Inr plain by (simp add: scaled_image_def s_def Let_def)
    qed
  qed
qed

lemma full_payload_plain:
  assumes "caches_ok cd images cell_w cell_h c" "a \<in> set images" "sizes_agree images"
  shows "answered (an_asset a \<in> ca_failed c) (fst (full_payload cd a wpx c)) (plain_full cd a wpx)
    \<and> caches_ok cd images cell_w cell_h (snd (full_payload cd a wpx c))"
proof (cases "ca_full c (an_asset a, wpx)")
  case (Some s)
  then have "plain_full cd a wpx = Inr s"
    using assms(1,2) by (auto simp: caches_ok_def entries_def map_holds_def)
  then show ?thesis using Some assms(1,2) by (simp add: full_payload_def)
next
  case None
  let ?P = "\<lambda>(k, wpx) s. \<forall>a \<in> set images. an_asset a = k \<longrightarrow> plain_full cd a wpx = Inr s"
  obtain r' c' where load: "load_bytes cd (an_asset a) c = (r', c')" by fastforce
  then have r': "answered (an_asset a \<in> ca_failed c) r' (case cd_read cd (an_asset a) of None \<Rightarrow> Inl Read_asset | Some b \<Rightarrow> Inr b)"
      and c': "caches_ok cd images cell_w cell_h c'"
    using load_bytes_plain [OF assms(1), of "an_asset a"] by simp_all
  show ?thesis
  proof (cases "cd_read cd (an_asset a)")
    case None': None
    then show ?thesis using None load r' c' assms(1) by (auto simp: full_payload_def plain_full_def answered_def)
  next
    case (Some b)
    define s where "s = iip_encode cd (an_asset a) b wpx (display_height a wpx)"
    have plain: "plain_full cd a wpx = checked_size s" using Some by (simp add: plain_full_def s_def)
    have "caches_ok cd images cell_w cell_h (c'\<lparr>ca_full := (ca_full c')((an_asset a, wpx) \<mapsto> s)\<rparr>)"
      if "plain_full cd a wpx = Inr s"
    proof -
      have "?P (an_asset a, wpx) s" using that by (auto simp: sizes_agreeD(2) [OF assms(3,2)])
      then show ?thesis
        using hash_cache.entries_put [of ?P "ca_full c'"] c' by (simp add: caches_ok_def map_put_def)
    qed
    then show ?thesis
      using None load r' c' Some assms(1) plain by (auto simp: full_payload_def checked_size_def s_def Let_def answered_def)
  qed
qed

lemma slice_payload_plain:
  assumes "caches_ok cd images cell_w cell_h c" "a \<in> set images" "sizes_agree images"
  shows "answered (an_asset a \<in> ca_failed c) (fst (slice_payload cd a wpx y0 y1 c)) (plain_slice cd a wpx y0 y1)
    \<and> caches_ok cd images cell_w cell_h (snd (slice_payload cd a wpx y0 y1 c))"
proof -
  let ?P = "\<lambda>(k, wpx, y0, y1) s. \<forall>a \<in> set images. an_asset a = k \<longrightarrow> plain_slice cd a wpx y0 y1 = Inr s"
  obtain r l where get: "lru_get (an_asset a, wpx, y0, y1) (ca_slices c) = (r, l)" by fastforce
  have slices: "entries lru_holds ?P (ca_slices c)" using assms(1) by (simp add: caches_ok_def)
  note l = lru_cache.entries_get [OF slices get]
  then have c: "caches_ok cd images cell_w cell_h (c\<lparr>ca_slices := l\<rparr>)" using assms(1) by (simp add: caches_ok_def)
  show ?thesis
  proof (cases r)
    case (Some s)
    then show ?thesis using lru_cache.hit [OF slices] get c assms(2) by (auto simp: slice_payload_def)
  next
    case None
    obtain r' c' where sc: "scaled_image cd a wpx (c\<lparr>ca_slices := l\<rparr>) = (r', c')" by fastforce
    then have r': "answered (an_asset a \<in> ca_failed c) r' (plain_scaled cd a wpx)" and c': "caches_ok cd images cell_w cell_h c'"
      using scaled_image_plain [OF c assms(2,3), of wpx] by simp_all
    have "caches_ok cd images cell_w cell_h (c'\<lparr>ca_slices := lru_insert (an_asset a, wpx, y0, y1) s (ca_slices c')\<rparr>)"
      if "plain_slice cd a wpx y0 y1 = Inr s" for s
    proof -
      have "?P (an_asset a, wpx, y0, y1) s" using that by (auto simp: sizes_agreeD(3) [OF assms(3,2)])
      then show ?thesis using lru_cache.entries_put [of ?P "ca_slices c'"] c' by (simp add: caches_ok_def)
    qed
    then show ?thesis
      using None get sc r' c'
      by (auto simp: slice_payload_def plain_slice_def checked_size_def Let_def answered_def split: sum.splits)
  qed
qed

lemma wpx_of_inj:
  assumes "0 < unat cell_w" "76 * unat cell_w < 2 ^ 32" "m \<in> {1..76}" "n \<in> {1..76}" "wpx_of cell_w m = wpx_of cell_w n"
  shows "m = n"
proof -
  have w: "unat (wpx_of cell_w k) = k * unat cell_w" if k: "k \<in> {1..76}" for k
  proof -
    have "k * unat cell_w \<le> 76 * unat cell_w" using k by simp
    then have lt: "k * unat cell_w < 2 ^ 32" using assms(2) by linarith
    have "unat (of_nat k :: u32) = k" using k by (simp add: unat_of_nat take_bit_eq_mod)
    then have "unat (saturating_mul (of_nat k) cell_w) = k * unat cell_w"
      using lt by (simp add: saturating_mul_def unat_of_nat take_bit_eq_mod min_def)
    moreover from this have "1 \<le> saturating_mul (of_nat k) cell_w"
      using assms(1) k by (simp add: word_le_nat_alt)
    ultimately show ?thesis by (simp add: wpx_of_def max_def)
  qed
  then show ?thesis using assms by (metis mult_right_cancel less_not_refl)
qed

lemma row_payload_plain:
  assumes "caches_ok cd images cell_w cell_h c" "a \<in> set images" "sizes_agree images"
    and "0 < unat cell_w" "76 * unat cell_w < 2 ^ 32" "n \<in> {1..76}"
  shows "answered (an_asset a \<in> ca_failed c) (fst (row_payload cd a n (wpx_of cell_w n) k cell_h c)) (plain_row cd a n (wpx_of cell_w n) k cell_h)
    \<and> caches_ok cd images cell_w cell_h (snd (row_payload cd a n (wpx_of cell_w n) k cell_h c))"
proof -
  let ?wpx = "wpx_of cell_w n"
  let ?P = "\<lambda>(k, wpx, i) s. \<forall>a \<in> set images. \<forall>wcols \<in> {1..76}.
      an_asset a = k \<and> wpx_of cell_w wcols = wpx \<longrightarrow> plain_row cd a wcols wpx i cell_h = Inr s"
  obtain r l where get: "lru_get (an_asset a, ?wpx, k) (ca_row_slices c) = (r, l)" by fastforce
  have rows: "entries lru_holds ?P (ca_row_slices c)" using assms(1) by (simp add: caches_ok_def)
  note l = lru_cache.entries_get [OF rows get]
  then have c: "caches_ok cd images cell_w cell_h (c\<lparr>ca_row_slices := l\<rparr>)" using assms(1) by (simp add: caches_ok_def)
  show ?thesis
  proof (cases r)
    case (Some s)
    then show ?thesis using lru_cache.hit [OF rows] get c assms(2,6) by (auto simp: row_payload_def)
  next
    case None
    obtain r' c' where sc: "scaled_image cd a ?wpx (c\<lparr>ca_row_slices := l\<rparr>) = (r', c')" by fastforce
    then have r': "answered (an_asset a \<in> ca_failed c) r' (plain_scaled cd a ?wpx)" and c': "caches_ok cd images cell_w cell_h c'"
      using scaled_image_plain [OF c assms(2,3), of ?wpx] by simp_all
    have "caches_ok cd images cell_w cell_h (c'\<lparr>ca_row_slices := lru_insert (an_asset a, ?wpx, k) s (ca_row_slices c')\<rparr>)"
      if "plain_row cd a n ?wpx k cell_h = Inr s" for s
    proof -
      have "m = n" if "m \<in> {1..76}" "wpx_of cell_w m = ?wpx" for m
        using wpx_of_inj [OF assms(4,5) that(1) assms(6) that(2)] .
      then have "?P (an_asset a, ?wpx, k) s"
        using that by (auto simp del: atLeastAtMost_iff simp: sizes_agreeD(4) [OF assms(3,2)])
      then show ?thesis using lru_cache.entries_put [of ?P "ca_row_slices c'"] c' by (simp add: caches_ok_def)
    qed
    then show ?thesis
      using None get sc r' c'
      by (auto simp: row_payload_def plain_row_def checked_size_def Let_def answered_def split: sum.splits prod.splits)
  qed
qed

end
