(* ===== verification/Reader_Tui_Facts.thy ===== *)
theory Reader_Tui_Facts
  imports Reader_Tui Reader_Cache_Facts
begin

text \<open>
  The invariant of the loop: the model is the one of the columns, the first row on the screen lies
  where a full screen follows if there is one, and the caches hold what would be computed anew.
\<close>

section \<open>Images that were given up\<close>

lemma load_bytes_failed [simp]: "ca_failed (snd (load_bytes cd asset c)) = ca_failed c"
  by (simp add: load_bytes_def Let_def case_prod_beta split: option.split sum.split)

lemma decoded_image_failed [simp]: "ca_failed (snd (decoded_image cd asset c)) = ca_failed c"
  by (simp add: decoded_image_def Let_def case_prod_beta split: option.split sum.split)

lemma scaled_image_failed [simp]: "ca_failed (snd (scaled_image cd a wpx c)) = ca_failed c"
  by (simp add: scaled_image_def Let_def case_prod_beta split: option.split sum.split)

lemma full_payload_failed [simp]: "ca_failed (snd (full_payload cd a wpx c)) = ca_failed c"
  by (simp add: full_payload_def Let_def case_prod_beta split: option.split sum.split)

lemma slice_payload_failed [simp]: "ca_failed (snd (slice_payload cd a wpx y0 y1 c)) = ca_failed c"
  by (simp add: slice_payload_def Let_def case_prod_beta split: option.split sum.split)

lemma row_payload_failed [simp]: "ca_failed (snd (row_payload cd a n wpx k cell_h c)) = ca_failed c"
  by (simp add: row_payload_def Let_def case_prod_beta split: option.split sum.split)

section \<open>The model that belongs to the columns\<close>

definition image_wpx :: "img_anchor \<Rightarrow> u16 \<Rightarrow> u32 \<Rightarrow> u32 \<Rightarrow> u32" where
  "image_wpx a cols cell_w cell_h = fst (snd (block_geometry a cols cell_w cell_h))"

definition image_height :: "img_anchor \<Rightarrow> u16 \<Rightarrow> u32 \<Rightarrow> u32 \<Rightarrow> nat" where
  "image_height a cols cell_w cell_h = snd (snd (block_geometry a cols cell_w cell_h))"

lemma geometry_split:
  "block_geometry a cols cell_w cell_h
    = (fst (block_geometry a cols cell_w cell_h), image_wpx a cols cell_w cell_h, image_height a cols cell_w cell_h)"
  by (simp add: image_wpx_def image_height_def)

definition rows_ok :: "'i codec \<Rightarrow> u16 \<Rightarrow> u32 \<Rightarrow> u32 \<Rightarrow> string set \<Rightarrow> img_anchor list \<Rightarrow> nat option list \<Rightarrow> bool" where
  "rows_ok cd cols cell_w cell_h failed as rs \<longleftrightarrow>
     list_all2 (\<lambda>a r. case r of
       Some n \<Rightarrow> n = image_height a cols cell_w cell_h
     | None \<Rightarrow> an_asset a \<in> failed \<or> (\<exists>e. plain_full cd a (image_wpx a cols cell_w cell_h) = Inl e)) as rs"

lemma payload_rows_ok:
  assumes "payload_rows cd cols cell_w cell_h as c = (rs, c')" "set as \<subseteq> set images"
    and "sizes_agree images" "caches_ok cd images cell_w cell_h c"
  shows "rows_ok cd cols cell_w cell_h (ca_failed c) as rs \<and> caches_ok cd images cell_w cell_h c' \<and> ca_failed c' = ca_failed c"
  using assms
proof (induction as arbitrary: c rs c')
  case (Cons a as)
  let ?w = "image_wpx a cols cell_w cell_h"
  obtain p c1 where full: "full_payload cd a ?w c = (p, c1)" by fastforce
  obtain rs' c2 where rest: "payload_rows cd cols cell_w cell_h as c1 = (rs', c2)" by fastforce
  have p: "answered (an_asset a \<in> ca_failed c) p (plain_full cd a ?w)" "caches_ok cd images cell_w cell_h c1"
    using full_payload_plain [of cd images cell_w cell_h c a ?w] Cons.prems full by simp_all
  have same: "ca_failed c1 = ca_failed c" using full_payload_failed [of cd a ?w c] full by simp
  have c': "rs = (case p of Inl _ \<Rightarrow> None | Inr _ \<Rightarrow> Some (image_height a cols cell_w cell_h)) # rs'" "c' = c2"
    using Cons.prems(1) full rest geometry_split [of a cols cell_w cell_h] by (auto split: prod.splits)
  have "rows_ok cd cols cell_w cell_h (ca_failed c1) as rs' \<and> caches_ok cd images cell_w cell_h c2 \<and> ca_failed c2 = ca_failed c1"
    using Cons.IH [OF rest] Cons.prems p(2) by simp
  moreover have "(case (case p of Inl _ \<Rightarrow> None | Inr _ \<Rightarrow> Some (image_height a cols cell_w cell_h)) of
       Some n \<Rightarrow> n = image_height a cols cell_w cell_h
     | None \<Rightarrow> an_asset a \<in> ca_failed c \<or> (\<exists>e. plain_full cd a ?w = Inl e))"
    using p(1) by (auto simp: answered_def dest: sym split: sum.splits)
  ultimately show ?case using c' same by (simp add: rows_ok_def)
qed (simp add: rows_ok_def)

lemma rows_ok_more: "rows_ok cd cols cell_w cell_h f as rs \<Longrightarrow> f \<subseteq> g \<Longrightarrow> rows_ok cd cols cell_w cell_h g as rs"
  unfolding rows_ok_def by (erule list_all2_mono) (auto split: option.splits)

definition model_ok :: "'i codec \<Rightarrow> prepared \<Rightarrow> u32 \<Rightarrow> u32 \<Rightarrow> u16 \<Rightarrow> string set \<Rightarrow> model \<Rightarrow> bool" where
  "model_ok cd prep cell_w cell_h cols failed m \<longleftrightarrow>
     (\<exists>rs. m = build_rows (rows_at rs) prep \<and> rows_ok cd cols cell_w cell_h failed (pr_images prep) rs)"

lemma model_ok_more: "model_ok cd prep cw ch cols f m \<Longrightarrow> f \<subseteq> g \<Longrightarrow> model_ok cd prep cw ch cols g m"
  unfolding model_ok_def using rows_ok_more by blast

lemma build_model_ok:
  assumes "build_model cd prep cols cell_w cell_h c = (m, c')" "sizes_agree (pr_images prep)"
    and "caches_ok cd (pr_images prep) cell_w cell_h c"
  shows "model_ok cd prep cell_w cell_h cols (ca_failed c') m \<and> caches_ok cd (pr_images prep) cell_w cell_h c'
    \<and> ca_failed c' = ca_failed c"
proof -
  obtain rs c1 where r: "payload_rows cd cols cell_w cell_h (pr_images prep) c = (rs, c1)" by fastforce
  then show ?thesis
    using payload_rows_ok [OF r subset_refl assms(2,3)] assms(1) by (auto simp: build_model_def model_ok_def)
qed

section \<open>Frames\<close>

definition reader_setup :: "prepared \<Rightarrow> u32 \<Rightarrow> u32 \<Rightarrow> bool" where
  "reader_setup prep cell_w cell_h \<longleftrightarrow> prepared_ok prep \<and> sizes_agree (pr_images prep)
     \<and> 0 < unat cell_w \<and> 76 * unat cell_w < 2 ^ 32 \<and> 0 < unat cell_h"

definition image_payload :: "'i codec \<Rightarrow> img_anchor \<Rightarrow> int \<Rightarrow> nat \<Rightarrow> u32 \<Rightarrow> u32 \<Rightarrow> nat \<Rightarrow> 'i caches \<Rightarrow> (payload_error + string) \<times> 'i caches" where
  "image_payload cd a y rows wpx cell_h r c =
     (let k = nat (max (- y) 0)
      in if 0 \<le> y \<and> y + int r \<le> int rows then full_payload cd a wpx c
         else case slice_window (display_height a wpx) cell_h k (max 1 (min (r - k) (rows - nat (max y 0)))) of
           (y0, y1) \<Rightarrow> slice_payload cd a wpx y0 y1 c)"

lemma place_image_split:
  "place_image cd prep img y rows cols cell_w cell_h c =
     (let a = pr_images prep ! img; r = image_height a cols cell_w cell_h
      in if an_asset a \<in> ca_failed c then (Degraded, c)
         else if y + int r \<le> 0 \<or> int (unat rows) \<le> y then (Hidden, c)
         else case image_payload cd a y (unat rows) (image_wpx a cols cell_w cell_h) cell_h r c of
           (Inr p, c) \<Rightarrow> (Placed p (of_nat (an_indent_cols a)) y, c)
         | (Inl e, c) \<Rightarrow> (Degraded, c\<lparr>ca_failed := insert (an_asset a) (ca_failed c)\<rparr>))"
  unfolding place_image_def image_payload_def Let_def by (subst geometry_split) (simp only: prod.case)

lemma image_payload_ok:
  assumes "image_payload cd a y rows wpx cell_h r c = (p, c')" "a \<in> set images"
    and "sizes_agree images" "caches_ok cd images cell_w cell_h c"
  shows "caches_ok cd images cell_w cell_h c' \<and> ca_failed c' = ca_failed c"
proof -
  let ?k = "nat (max (- y) 0)"
  let ?win = "slice_window (display_height a wpx) cell_h ?k (max 1 (min (r - ?k) (rows - nat (max y 0))))"
  show ?thesis
  proof (cases "0 \<le> y \<and> y + int r \<le> int rows")
    case True
    then have "full_payload cd a wpx c = (p, c')" using assms(1) by (simp add: image_payload_def)
    then show ?thesis
      using full_payload_plain [OF assms(4,2,3), of wpx] full_payload_failed [of cd a wpx c] by simp
  next
    case False
    obtain y0 y1 where win: "?win = (y0, y1)" by fastforce
    have "slice_payload cd a wpx y0 y1 c = (p, c')"
      using assms(1) unfolding image_payload_def Let_def if_not_P [OF False] win prod.case .
    then show ?thesis
      using slice_payload_plain [OF assms(4,2,3), of wpx y0 y1] slice_payload_failed [of cd a wpx y0 y1 c] by simp
  qed
qed

lemma place_image_ok:
  assumes "place_image cd prep img y rows cols cell_w cell_h c = (p, c')" "img < length (pr_images prep)"
    and "sizes_agree (pr_images prep)" "caches_ok cd (pr_images prep) cell_w cell_h c"
  shows "caches_ok cd (pr_images prep) cell_w cell_h c' \<and> ca_failed c \<subseteq> ca_failed c'"
proof -
  let ?a = "pr_images prep ! img"
  have a: "?a \<in> set (pr_images prep)" using assms(2) by simp
  obtain q c1 where q: "image_payload cd ?a y (unat rows) (image_wpx ?a cols cell_w cell_h) cell_h
      (image_height ?a cols cell_w cell_h) c = (q, c1)" by fastforce
  note c1 = image_payload_ok [OF q a assms(3,4)]
  have "c' = c \<or> c' = c1 \<or> c' = c1\<lparr>ca_failed := insert (an_asset ?a) (ca_failed c1)\<rparr>"
    using assms(1) unfolding place_image_split Let_def q prod.case
    by (simp only: prod.inject split: if_splits sum.splits) blast+
  then show ?thesis using c1 assms(4) by (auto simp: caches_ok_def)
qed

definition drawing_ok :: "'i codec \<Rightarrow> prepared \<Rightarrow> u32 \<Rightarrow> u32 \<Rightarrow> 'i caches \<Rightarrow> 'i caches \<Rightarrow> bool" where
  "drawing_ok cd prep cell_w cell_h c c' \<longleftrightarrow>
     (caches_ok cd (pr_images prep) cell_w cell_h c \<longrightarrow>
        caches_ok cd (pr_images prep) cell_w cell_h c' \<and> ca_failed c \<subseteq> ca_failed c')"

lemma drawing_ok_refl: "drawing_ok cd prep cell_w cell_h c c"
  by (simp add: drawing_ok_def)

lemma drawing_ok_trans:
  "drawing_ok cd prep cw ch c c1 \<Longrightarrow> drawing_ok cd prep cw ch c1 c2 \<Longrightarrow> drawing_ok cd prep cw ch c c2"
  by (auto simp: drawing_ok_def)

lemma draw_image_ok:
  assumes "draw_image cd prep m scroll cols rows cell_w cell_h img c = (ds, c')" "img < length (pr_images prep)"
    and "sizes_agree (pr_images prep)"
  shows "drawing_ok cd prep cell_w cell_h c c'"
proof -
  let ?y = "int (md_block_row m ! img) - int scroll"
  obtain p c1 where p: "place_image cd prep img ?y rows cols cell_w cell_h c = (p, c1)" by fastforce
  have "c' = c \<or> c' = c1"
    using assms(1) p by (cases p) (auto simp: draw_image_def Let_def split: if_splits)
  then show ?thesis
    using place_image_ok [OF p assms(2,3)] by (auto simp: drawing_ok_def)
qed

lemma draw_images_ok:
  assumes "draw_images cd prep m scroll cols rows cell_w cell_h is c = (ds, c')"
    "\<forall>i \<in> set is. i < length (pr_images prep)" "sizes_agree (pr_images prep)"
  shows "drawing_ok cd prep cell_w cell_h c c'"
  using assms
proof (induction "is" arbitrary: c ds c')
  case (Cons i js)
  obtain d1 c1 where one: "draw_image cd prep m scroll cols rows cell_w cell_h i c = (d1, c1)" by fastforce
  obtain d2 c2 where rest: "draw_images cd prep m scroll cols rows cell_w cell_h js c1 = (d2, c2)" by fastforce
  have "drawing_ok cd prep cell_w cell_h c c1" using draw_image_ok [OF one] Cons.prems by simp
  moreover have "drawing_ok cd prep cell_w cell_h c1 c2" using Cons.IH [OF rest] Cons.prems by simp
  ultimately show ?case using drawing_ok_trans one rest Cons.prems(1) by auto
qed (simp add: drawing_ok_refl)

section \<open>The invariant\<close>

definition tui_ok :: "'i codec \<Rightarrow> prepared \<Rightarrow> u32 \<Rightarrow> u32 \<Rightarrow> 'i tui \<Rightarrow> bool" where
  "tui_ok cd prep cell_w cell_h t \<longleftrightarrow>
     model_ok cd prep cell_w cell_h (tui_cols t) (ca_failed (tui_caches t)) (tui_model t)
   \<and> tui_scroll t \<le> max_scroll (tui_model t) (unat (tui_rows t))
   \<and> 1 \<le> unat (tui_rows t) \<and> MIN_COLS \<le> unat (tui_cols t)
   \<and> caches_ok cd (pr_images prep) cell_w cell_h (tui_caches t)"

lemma show_frame_ok:
  assumes "tui_ok cd prep cell_w cell_h t" "sizes_agree (pr_images prep)"
  shows "case show_frame cd width prep cell_w cell_h accepts t of
      Goes_on t' s \<Rightarrow> accepts \<and> tui_ok cd prep cell_w cell_h t' \<and> drawing_ok cd prep cell_w cell_h (tui_caches t) (tui_caches t')
        \<and> t' = t\<lparr>tui_caches := tui_caches t'\<rparr> \<and> (\<exists>f. s = Shown_frame f \<and>
            draw_frame cd width prep (tui_model t) (tui_scroll t) (tui_cols t) (tui_rows t) cell_w cell_h (tui_caches t)
              = Some (f, tui_caches t'))
    | Fails e \<Rightarrow> \<not> accepts \<and> e = Terminal_error
    | _ \<Rightarrow> False"
proof -
  let ?m = "tui_model t"
  obtain ds c where d: "draw_images cd prep ?m (tui_scroll t) (tui_cols t) (tui_rows t) cell_w cell_h
      [0..<length (pr_images prep)] (tui_caches t) = (ds, c)" by fastforce
  then have c: "drawing_ok cd prep cell_w cell_h (tui_caches t) c"
    by (rule draw_images_ok) (use assms(2) in auto)
  then have "tui_ok cd prep cell_w cell_h (t\<lparr>tui_caches := c\<rparr>)"
    using assms(1) model_ok_more [of cd prep cell_w cell_h "tui_cols t" _ ?m "ca_failed c"]
    by (auto simp: tui_ok_def drawing_ok_def)
  moreover have "tui_scroll t \<le> length (md_items ?m)"
    using assms(1) unfolding tui_ok_def max_scroll_def by linarith
  ultimately show ?thesis
    using d c by (cases accepts) (auto simp: show_frame_def draw_frame_def Let_def)
qed

section \<open>Scrolling by one row\<close>

lemma image_row_index:
  assumes "model_ok cd prep cell_w cell_h cols failed m" "k < length (md_items m)" "md_items m ! k = Image_row i"
  shows "i < length (pr_images prep)"
proof -
  obtain rs where m: "m = build_rows (rows_at rs) prep" using assms(1) by (auto simp: model_ok_def)
  have placed: "blocks_placed (rows_at rs) (length (pr_images prep)) m" unfolding m by (rule build_rows_placed)
  then have "image_block (rows_at rs) m i k" using assms(2,3) by (simp add: blocks_placed_def)
  then have "i < length (md_r_rows m)" by (auto simp: image_block_def)
  then show ?thesis using placed by (simp add: blocks_placed_def)
qed

lemma geometry_columns:
  assumes "anchor_shape_ok a"
  shows "fst (block_geometry a cols cell_w cell_h) \<in> {1..76}"
    "image_wpx a cols cell_w cell_h = wpx_of cell_w (fst (block_geometry a cols cell_w cell_h))"
  using assms by (auto simp: block_geometry_def anchor_shape_ok_def PRE_COLS_def Let_def image_wpx_def wpx_of_def)

text \<open>What the row of an item shows, computed without the caches.\<close>

definition row_view ::
  "'i codec \<Rightarrow> (nat \<Rightarrow> nat) \<Rightarrow> prepared \<Rightarrow> u32 \<Rightarrow> u32 \<Rightarrow> model \<Rightarrow> u16 \<Rightarrow> nat \<Rightarrow> payload_error + exposed_row"
where
  "row_view cd width prep cell_w cell_h m cols k =
     (case md_items m ! k of
        Image_row i \<Rightarrow>
          (let a = pr_images prep ! i
           in and_then (plain_row cd a (fst (block_geometry a cols cell_w cell_h)) (image_wpx a cols cell_w cell_h)
                  (k - md_block_row m ! i) cell_h)
                (\<lambda>p. Inr (Exposed_image p (of_nat (an_indent_cols a)))))
      | kind \<Rightarrow> Inr (Exposed_cells (fill_model_row width prep kind cols cell_w cell_h)))"

lemma incremental_row_ok:
  assumes "incremental_row cd width prep m old new cols rows cell_w cell_h c = (r, c')"
    and "incremental_target old new (unat rows) = Some (d, k, y)" "k < length (md_items m)"
    and "model_ok cd prep cell_w cell_h cols failed m" "caches_ok cd (pr_images prep) cell_w cell_h c"
    and "reader_setup prep cell_w cell_h"
  shows "caches_ok cd (pr_images prep) cell_w cell_h c' \<and> ca_failed c' = ca_failed c
    \<and> (case r of
         Inr (d', y', row) \<Rightarrow> d' = d \<and> y' = y \<and> row_view cd width prep cell_w cell_h m cols k = Inr row
       | Inl (Image_error asset e) \<Rightarrow> True
       | Inl (Tui_error e) \<Rightarrow> False)"
proof (cases "\<exists>i. md_items m ! k = Image_row i")
  case False
  then show ?thesis
    using assms(1-5) by (cases "md_items m ! k") (auto simp: incremental_row_def row_view_def)
next
  case True
  then obtain i where i: "md_items m ! k = Image_row i" by blast
  let ?a = "pr_images prep ! i"
  let ?n = "fst (block_geometry ?a cols cell_w cell_h)" and ?w = "image_wpx ?a cols cell_w cell_h"
  have a: "?a \<in> set (pr_images prep)" using image_row_index [OF assms(4,3) i] by simp
  then have shape: "anchor_shape_ok ?a" using assms(6) by (auto simp: reader_setup_def prepared_ok_def)
  note wcols = geometry_columns [OF shape, of cols cell_w cell_h]
  obtain q c1 where q: "row_payload cd ?a ?n ?w (k - md_block_row m ! i) cell_h c = (q, c1)" by fastforce
  have "answered (an_asset ?a \<in> ca_failed c) q (plain_row cd ?a ?n ?w (k - md_block_row m ! i) cell_h)
      \<and> caches_ok cd (pr_images prep) cell_w cell_h c1"
    using row_payload_plain [OF assms(5) a, of ?n "k - md_block_row m ! i"] q assms(6) wcols(1)
    unfolding wcols(2) by (simp add: reader_setup_def)
  moreover have "ca_failed c1 = ca_failed c" using row_payload_failed [of cd ?a ?n ?w "k - md_block_row m ! i" cell_h c] q by simp
  moreover have "incremental_row cd width prep m old new cols rows cell_w cell_h c
      = (case q of Inl e \<Rightarrow> (Inl (Image_error (an_asset ?a) e), c1)
         | Inr p \<Rightarrow> (Inr (d, y, Exposed_image p (of_nat (an_indent_cols ?a))), c1))"
    using assms(2,3) i q geometry_split [of ?a cols cell_w cell_h]
    by (simp add: incremental_row_def Let_def case_prod_beta image_wpx_def split: sum.split)
  moreover have "plain_row cd ?a ?n ?w (k - md_block_row m ! i) cell_h = Inr p" if "q = Inr p" for p
    using calculation(1) that by (auto simp: answered_def dest: sym)
  moreover have "row_view cd width prep cell_w cell_h m cols k
      = and_then (plain_row cd ?a ?n ?w (k - md_block_row m ! i) cell_h) (\<lambda>p. Inr (Exposed_image p (of_nat (an_indent_cols ?a))))"
    using i by (simp add: row_view_def Let_def)
  ultimately show ?thesis
    using assms(1) by (cases q) auto
qed

lemma incremental_bounds:
  assumes "tui_ok cd prep cell_w cell_h t" "new \<le> max_scroll (tui_model t) (unat (tui_rows t))"
    and "incremental_target (tui_scroll t) new (unat (tui_rows t)) = Some (d, k, y)"
  shows "k < length (md_items (tui_model t))" "k = new + y" "y < unat (tui_rows t)"
    "d = Scroll_up \<and> new = Suc (tui_scroll t) \<and> Suc y = unat (tui_rows t) \<or> d = Scroll_down \<and> Suc new = tui_scroll t \<and> y = 0"
    "new + unat (tui_rows t) \<le> length (md_items (tui_model t))"
    "tui_scroll t + unat (tui_rows t) \<le> length (md_items (tui_model t))"
  using assms unfolding tui_ok_def max_scroll_def incremental_target_def
  by (auto split: if_splits)

section \<open>Events\<close>

text \<open>A frame is that of the state, drawn with the caches as they were before.\<close>

definition frame_shown :: "'i codec \<Rightarrow> (nat \<Rightarrow> nat) \<Rightarrow> prepared \<Rightarrow> u32 \<Rightarrow> u32 \<Rightarrow> 'i tui \<Rightarrow> tui_shown \<Rightarrow> bool" where
  "frame_shown cd width prep cell_w cell_h t s \<longleftrightarrow>
     (\<forall>f. s = Shown_frame f \<longrightarrow> (\<exists>c. tui_ok cd prep cell_w cell_h (t\<lparr>tui_caches := c\<rparr>)
        \<and> draw_frame cd width prep (tui_model t) (tui_scroll t) (tui_cols t) (tui_rows t) cell_w cell_h c = Some (f, tui_caches t)))"

definition result_ok :: "'i codec \<Rightarrow> (nat \<Rightarrow> nat) \<Rightarrow> prepared \<Rightarrow> u32 \<Rightarrow> u32 \<Rightarrow> bool \<Rightarrow> 'i tui_result \<Rightarrow> bool" where
  "result_ok cd width prep cell_w cell_h accepts r \<longleftrightarrow>
     (case r of
        Goes_on t s \<Rightarrow> tui_ok cd prep cell_w cell_h t \<and> frame_shown cd width prep cell_w cell_h t s
      | Fails e \<Rightarrow> \<not> accepts \<and> e = Terminal_error
      | Panics \<Rightarrow> False
      | _ \<Rightarrow> True)"

lemma frame_shown_simps [simp]:
  "frame_shown cd width prep cell_w cell_h t Shown_nothing"
  "frame_shown cd width prep cell_w cell_h t (Shown_scroll d y row)"
  by (simp_all add: frame_shown_def)

lemma show_frame_result:
  assumes "tui_ok cd prep cell_w cell_h t" "sizes_agree (pr_images prep)"
  shows "result_ok cd width prep cell_w cell_h accepts (show_frame cd width prep cell_w cell_h accepts t)"
proof (cases "show_frame cd width prep cell_w cell_h accepts t")
  case (Goes_on t' s)
  note ok = show_frame_ok [OF assms, where width = width and accepts = accepts, unfolded Goes_on tui_result.case]
  then obtain c f where t': "t' = t\<lparr>tui_caches := c\<rparr>" and f: "s = Shown_frame f"
      "draw_frame cd width prep (tui_model t) (tui_scroll t) (tui_cols t) (tui_rows t) cell_w cell_h (tui_caches t) = Some (f, c)"
    by (metis tui.select_convs(5) tui.surjective tui.update_convs(5))
  have "t\<lparr>tui_caches := tui_caches t\<rparr> = t" by simp
  then have "frame_shown cd width prep cell_w cell_h t' s"
    using assms(1) f unfolding frame_shown_def t' by (intro allI impI exI [of _ "tui_caches t"]) simp
  then show ?thesis using ok Goes_on by (simp add: result_ok_def)
qed (use show_frame_ok [OF assms, where width = width and accepts = accepts] in \<open>simp_all add: result_ok_def\<close>)

lemma rebuilt_ok:
  assumes "build_model cd prep cols cell_w cell_h c = (m, c')" "reader_setup prep cell_w cell_h"
    and "caches_ok cd (pr_images prep) cell_w cell_h c" "MIN_COLS \<le> unat cols" "1 \<le> unat rows"
  shows "tui_ok cd prep cell_w cell_h
    \<lparr>tui_model = m, tui_scroll = min s (max_scroll m (unat rows)), tui_cols = cols, tui_rows = rows, tui_caches = c'\<rparr>"
  using build_model_ok [OF assms(1) _ assms(3)] assms(2,4,5) by (auto simp: tui_ok_def reader_setup_def)

lemma scroll_by_one_ok:
  assumes "tui_ok cd prep cell_w cell_h t" "reader_setup prep cell_w cell_h"
    and "new \<le> max_scroll (tui_model t) (unat (tui_rows t))"
    and "incremental_target (tui_scroll t) new (unat (tui_rows t)) \<noteq> None"
  shows "result_ok cd width prep cell_w cell_h accepts (scroll_by_one cd width prep cell_w cell_h accepts new t)"
    and "scroll_by_one cd width prep cell_w cell_h accepts new t = Goes_on t' (Shown_scroll d y row) \<Longrightarrow>
      incremental_target (tui_scroll t) new (unat (tui_rows t)) = Some (d, new + y, y)
      \<and> t' = t\<lparr>tui_scroll := new, tui_caches := tui_caches t'\<rparr>
      \<and> row_view cd width prep cell_w cell_h (tui_model t) (tui_cols t) (new + y) = Inr row"
proof -
  let ?m = "tui_model t" and ?rows = "tui_rows t" and ?cols = "tui_cols t"
  obtain d0 k y0 where target: "incremental_target (tui_scroll t) new (unat ?rows) = Some (d0, k, y0)"
    using assms(4) by auto
  note bounds = incremental_bounds [OF assms(1,3) target]
  obtain r c where r: "incremental_row cd width prep ?m (tui_scroll t) new ?cols ?rows cell_w cell_h (tui_caches t) = (r, c)"
    by fastforce
  have t: "model_ok cd prep cell_w cell_h ?cols (ca_failed (tui_caches t)) ?m"
      "caches_ok cd (pr_images prep) cell_w cell_h (tui_caches t)"
    using assms(1) by (simp_all add: tui_ok_def)
  note row = incremental_row_ok [OF r target bounds(1) t assms(2)]
  show "result_ok cd width prep cell_w cell_h accepts (scroll_by_one cd width prep cell_w cell_h accepts new t)"
  proof (cases r)
    case (Inr x)
    then show ?thesis
      using row assms(1,3) r by (cases x) (auto simp: scroll_by_one_def result_ok_def tui_ok_def)
  next
    case (Inl e)
    then obtain asset reason where e: "e = Image_error asset reason" using row by (cases e) auto
    let ?c = "c\<lparr>ca_failed := insert asset (ca_failed c)\<rparr>"
    obtain m c' where m: "build_model cd prep ?cols cell_w cell_h ?c = (m, c')" by fastforce
    have "caches_ok cd (pr_images prep) cell_w cell_h ?c" using row by (simp add: caches_ok_def)
    note next_ok = rebuilt_ok [OF m assms(2) this, of ?rows "scroll_to_line m prep (anchor_line ?m prep new)"]
    have "MIN_COLS \<le> unat ?cols" "1 \<le> unat ?rows" "sizes_agree (pr_images prep)"
      using assms(1,2) by (simp_all add: tui_ok_def reader_setup_def)
    then have "tui_ok cd prep cell_w cell_h (t\<lparr>tui_model := m, tui_caches := c', tui_scroll :=
        min (scroll_to_line m prep (anchor_line ?m prep new)) (max_scroll m (unat ?rows))\<rparr>)"
      using next_ok by (simp add: tui_ok_def)
    from show_frame_result [OF this \<open>sizes_agree (pr_images prep)\<close>] show ?thesis
      using Inl e r m by (simp add: scroll_by_one_def Let_def)
  qed
  assume goes: "scroll_by_one cd width prep cell_w cell_h accepts new t = Goes_on t' (Shown_scroll d y row)"
  have no_scroll: "show_frame cd width prep cell_w cell_h accepts t1 \<noteq> Goes_on t2 (Shown_scroll d y row)" for t1 t2
    by (auto simp: show_frame_def split: option.splits)
  show "incremental_target (tui_scroll t) new (unat ?rows) = Some (d, new + y, y)
      \<and> t' = t\<lparr>tui_scroll := new, tui_caches := tui_caches t'\<rparr>
      \<and> row_view cd width prep cell_w cell_h ?m ?cols (new + y) = Inr row"
  proof (cases r)
    case (Inl e)
    then show ?thesis using goes r no_scroll
      by (auto simp: scroll_by_one_def Let_def split: incremental_error.splits prod.splits)
  next
    case (Inr x)
    then show ?thesis using goes r row target bounds(2)
      by (cases x) (auto simp: scroll_by_one_def split: if_splits)
  qed
qed

lemma new_scroll_bound:
  assumes "new_scroll m rows act scroll = Some new" "scroll \<le> max_scroll m rows"
  shows "new \<le> max_scroll m rows"
  using assms by (auto simp: new_scroll_def split: key_act.splits if_splits)

lemma exit_loop_answers:
  assumes placed: "blocks_placed rows (length (pr_images prep)) m" and texts: "texts_ok prep m"
    and "end_row \<le> length (md_items m)"
  shows "exit_loop prep m end_row i \<noteq> None"
proof (induction "end_row - i" arbitrary: i rule: less_induct)
  case less
  show ?case
  proof (cases "end_row \<le> i")
    case False
    then have i: "i < length (md_items m)" using assms(3) by simp
    show ?thesis
    proof (cases "md_items m ! i")
      case (Text_row l)
      then have "l < length (pr_raw prep)" using texts i by (auto simp: texts_ok_def)
      then show ?thesis using Text_row False less [of "i + 1"] by (subst exit_loop.simps) simp
    next
      case (Alt_row k)
      then show ?thesis using False less [of "i + 1"] by (subst exit_loop.simps) simp
    next
      case (Image_row k)
      then have "image_block rows m k i" using placed i by (simp add: blocks_placed_def)
      then have k: "k < length (md_r_rows m)" by (auto simp: image_block_def)
      then have k': "k < length (pr_images prep)" using placed by (simp add: blocks_placed_def)
      then have "an_block_start (pr_images prep ! k) \<le> an_block_end (pr_images prep ! k)
          \<and> an_block_end (pr_images prep ! k) \<le> length (pr_raw prep)"
        using texts by (simp add: texts_ok_def)
      moreover have "exit_loop prep m end_row (i + max 1 (md_r_rows m ! k)) \<noteq> None"
        using False by (intro less) simp
      ultimately show ?thesis using Image_row False k k' by (subst exit_loop.simps) (simp add: Let_def)
    qed
  qed (subst exit_loop.simps, simp)
qed

lemma tui_step_ok:
  assumes "tui_ok cd prep cell_w cell_h t" "reader_setup prep cell_w cell_h"
  shows "result_ok cd width prep cell_w cell_h accepts (tui_step cd width prep cell_w cell_h accepts ev t)"
proof (cases ev)
  case (Key_event released code control)
  let ?act = "key_action code control"
  have prep: "prepared_ok prep" "sizes_agree (pr_images prep)" using assms(2) by (simp_all add: reader_setup_def)
  have scroll: "tui_scroll t \<le> max_scroll (tui_model t) (unat (tui_rows t))" using assms(1) by (simp add: tui_ok_def)
  have "result_ok cd width prep cell_w cell_h accepts (tui_key cd width prep cell_w cell_h accepts ?act t)"
  proof (cases "new_scroll (tui_model t) (unat (tui_rows t)) ?act (tui_scroll t)")
    case None
    obtain rs where m: "tui_model t = build_rows (rows_at rs) prep" using assms(1) by (auto simp: tui_ok_def model_ok_def)
    have "exit_view prep (tui_model t) (tui_scroll t) (unat (tui_rows t)) \<noteq> None"
      unfolding exit_view_def m
      by (rule exit_loop_answers [OF build_rows_placed built_texts_ok [OF prep(1)]]) simp
    then show ?thesis using None by (auto simp: tui_key_def result_ok_def)
  next
    case (Some new)
    have new: "new \<le> max_scroll (tui_model t) (unat (tui_rows t))" by (rule new_scroll_bound [OF Some scroll])
    then have "tui_ok cd prep cell_w cell_h (t\<lparr>tui_scroll := new\<rparr>)" using assms(1) by (simp add: tui_ok_def)
    from show_frame_result [OF this prep(2)] show ?thesis
      using Some assms(1) scroll_by_one_ok(1) [OF assms new] by (simp add: tui_key_def result_ok_def)
  qed
  then show ?thesis using Key_event assms(1) by (simp add: tui_step_def result_ok_def)
next
  case (Resize_event w h)
  let ?anchor = "anchor_line (tui_model t) prep (tui_scroll t)"
  have one: "1 \<le> unat (max h 1)" by (simp add: max_def word_le_nat_alt)
  have prep: "sizes_agree (pr_images prep)" using assms(2) by (simp add: reader_setup_def)
  show ?thesis
  proof (cases "unat w < MIN_COLS \<or> w = tui_cols t")
    case True
    have "tui_ok cd prep cell_w cell_h \<lparr>tui_model = tui_model t, tui_scroll = min (tui_scroll t) (max_scroll (tui_model t) (unat (max h 1))),
        tui_cols = tui_cols t, tui_rows = max h 1, tui_caches = tui_caches t\<rparr>"
      using assms(1) one by (simp add: tui_ok_def)
    from show_frame_result [OF this prep] show ?thesis
      using True Resize_event by (auto simp: tui_step_def tui_resize_def Let_def result_ok_def)
  next
    case False
    obtain m c where m: "build_model cd prep w cell_w cell_h (tui_caches t) = (m, c)" by fastforce
    have "caches_ok cd (pr_images prep) cell_w cell_h (tui_caches t)" using assms(1) by (simp add: tui_ok_def)
    from show_frame_result [OF rebuilt_ok [OF m assms(2) this _ one] prep] show ?thesis
      using False Resize_event m by (simp add: tui_step_def tui_resize_def Let_def)
  qed
qed (use assms in \<open>simp add: tui_step_def result_ok_def\<close>)

lemma tui_start_ok:
  assumes "reader_setup prep cell_w cell_h"
  shows "result_ok cd width prep cell_w cell_h accepts (tui_start cd width prep cell_w cell_h accepts cols rows)"
proof (cases "unat cols < MIN_COLS")
  case False
  obtain m c where m: "build_model cd prep cols cell_w cell_h no_caches = (m, c)" by fastforce
  have one: "1 \<le> unat (max rows 1)" by (simp add: max_def word_le_nat_alt)
  have "tui_ok cd prep cell_w cell_h \<lparr>tui_model = m, tui_scroll = 0, tui_cols = cols, tui_rows = max rows 1, tui_caches = c\<rparr>"
    using rebuilt_ok [OF m assms caches_ok_start _ one, of 0] False by simp
  from show_frame_result [OF this] show ?thesis
    using False m assms by (simp add: tui_start_def reader_setup_def)
qed (simp add: tui_start_def result_ok_def)

section \<open>Reachable states\<close>

inductive tui_reaches ::
  "'i codec \<Rightarrow> (nat \<Rightarrow> nat) \<Rightarrow> prepared \<Rightarrow> u32 \<Rightarrow> u32 \<Rightarrow> 'i tui \<Rightarrow> tui_shown \<Rightarrow> bool"
  for cd width prep cell_w cell_h
where
  tui_first: "tui_start cd width prep cell_w cell_h accepts cols rows = Goes_on t s
    \<Longrightarrow> tui_reaches cd width prep cell_w cell_h t s"
| tui_next: "tui_reaches cd width prep cell_w cell_h t s
    \<Longrightarrow> tui_step cd width prep cell_w cell_h accepts ev t = Goes_on t' s'
    \<Longrightarrow> tui_reaches cd width prep cell_w cell_h t' s'"

lemma tui_reaches_ok:
  assumes "tui_reaches cd width prep cell_w cell_h t s" "reader_setup prep cell_w cell_h"
  shows "tui_ok cd prep cell_w cell_h t \<and> frame_shown cd width prep cell_w cell_h t s"
  using assms
proof induction
  case (tui_first accepts cols rows t s)
  then show ?case using tui_start_ok [of prep cell_w cell_h cd width accepts cols rows] by (simp add: result_ok_def)
next
  case (tui_next t s accepts ev t' s')
  then show ?case using tui_step_ok [of cd prep cell_w cell_h t width accepts ev] by (simp add: result_ok_def)
qed

end
