(* ===== verification/Reader_Frames.thy ===== *)
theory Reader_Frames
  imports Reader_Tui_Facts
begin

text \<open>
  What a full frame shows of the images: exactly the pixels of the rows of an image that are on the
  screen, at the first of these rows.
\<close>

definition rows_on_screen :: "model \<Rightarrow> nat \<Rightarrow> nat \<Rightarrow> nat \<Rightarrow> nat set" where
  "rows_on_screen m scroll rows i = {j. j < rows \<and> scroll + j < length (md_items m) \<and> md_items m ! (scroll + j) = Image_row i}"

text \<open>An image drawn at row \<open>y\<close> covers \<open>v\<close> rows of the screen, the rows of the image from \<open>k\<close> on.\<close>

definition covers_rows ::
  "'i codec \<Rightarrow> prepared \<Rightarrow> u32 \<Rightarrow> u32 \<Rightarrow> model \<Rightarrow> nat \<Rightarrow> u16 \<Rightarrow> u16 \<Rightarrow> nat \<Rightarrow> drawn \<Rightarrow> bool"
where
  "covers_rows cd prep cell_w cell_h m scroll cols rows i d \<longleftrightarrow>
     (\<exists>y p v k. let a = pr_images prep ! i; wpx = image_wpx a cols cell_w cell_h in
        d = Drawn_image (of_nat (an_indent_cols a)) y p \<and> 0 < v
      \<and> rows_on_screen m scroll (unat rows) i = {unat y..<unat y + v}
      \<and> scroll + unat y = md_block_row m ! i + k
      \<and> (if v = md_r_rows m ! i then plain_full cd a wpx = Inr p
         else \<exists>y0 y1. plain_slice cd a wpx y0 y1 = Inr p \<and> unat y0 = k * unat cell_h
                \<and> unat y1 = min ((k + v) * unat cell_h) (unat (display_height a wpx))))"

definition images_fit :: "'i codec \<Rightarrow> prepared \<Rightarrow> u32 \<Rightarrow> u32 \<Rightarrow> u16 \<Rightarrow> bool" where
  "images_fit cd prep cell_w cell_h cols \<longleftrightarrow>
     (\<forall>a \<in> set (pr_images prep). fits a (image_wpx a cols cell_w cell_h)
        \<and> plain_full cd a (image_wpx a cols cell_w cell_h) \<noteq> Inl Too_large)"

lemma block_on_screen:
  assumes "image_block rows m i (md_block_row m ! i)" "\<forall>j. j < length (md_items m) \<and> md_items m ! j = Image_row i \<longrightarrow> image_block rows m i j"
  shows "rows_on_screen m scroll n i =
    {j. j < n \<and> md_block_row m ! i \<le> scroll + j \<and> scroll + j < md_block_row m ! i + md_r_rows m ! i}"
proof -
  obtain r where r: "md_r_rows m ! i = r" "md_block_row m ! i + r < length (md_items m)"
      "\<And>t. md_block_row m ! i \<le> t \<Longrightarrow> t < md_block_row m ! i + r \<Longrightarrow> md_items m ! t = Image_row i"
    using assms(1) unfolding image_block_def by blast
  have inside: "md_block_row m ! i \<le> j \<and> j < md_block_row m ! i + r" if "j < length (md_items m)" "md_items m ! j = Image_row i" for j
    using assms(2) that r(1) unfolding image_block_def by blast
  show ?thesis
    unfolding rows_on_screen_def r(1) using r(2,3) inside by (intro Collect_cong) (meson order_less_trans)
qed

lemma image_payload_shown:
  assumes "image_payload cd a y rows wpx cell_h r c = (Inr p, c')" "a \<in> set images"
    and "sizes_agree images" "caches_ok cd images cell_w cell_h c"
    and "block_geometry a cols cell_w cell_h = (n, wpx, r)" "fits a wpx" "0 < unat cell_h"
    and "0 < y + int r" "y < int rows" "0 < rows"
  defines "k \<equiv> nat (max (- y) 0)"
  defines "v \<equiv> min (r - k) (rows - nat (max y 0))"
  shows "if v = r then plain_full cd a wpx = Inr p
     else \<exists>y0 y1. plain_slice cd a wpx y0 y1 = Inr p \<and> unat y0 = k * unat cell_h
            \<and> unat y1 = min ((k + v) * unat cell_h) (unat (display_height a wpx))"
proof -
  have r: "0 < r" by (rule geometry_rows(1) [OF assms(5-7)])
  have k: "k < r" using assms(8) r by (auto simp: k_def max_def)
  moreover have "nat (max y 0) < rows" using assms(9,10) by (auto simp: max_def)
  ultimately have "0 < v" and k': "nat (max y 0) < rows" by (simp_all add: v_def)
  then have v: "max 1 v = v" "0 < v" by simp_all
  have "v = r \<longleftrightarrow> k = 0 \<and> nat (max y 0) + r \<le> rows" using k k' by (auto simp: v_def min_def; arith)
  then have whole: "v = r \<longleftrightarrow> 0 \<le> y \<and> y + int r \<le> int rows" unfolding k_def by arith
  show ?thesis
  proof (cases "v = r")
    case True
    then have "full_payload cd a wpx c = (Inr p, c')" using assms(1) whole by (simp add: image_payload_def)
    then show ?thesis
      using full_payload_plain [OF assms(4,2,3), of wpx] True by (auto simp: answered_def)
  next
    case False
    obtain y0 y1 where win: "slice_window (display_height a wpx) cell_h k v = (y0, y1)" by fastforce
    have "k * unat cell_h < unat (display_height a wpx)"
      using geometry_rows(2) [OF assms(5,6,7)] k(1) by simp
    from slice_window_within [OF assms(7) v(2) this] win
    have y: "unat y0 = k * unat cell_h" "unat y1 = min ((k + v) * unat cell_h) (unat (display_height a wpx))"
      by simp_all
    have "\<not> (0 \<le> y \<and> y + int r \<le> int rows)" using False whole by simp
    then have "image_payload cd a y rows wpx cell_h r c
        = (case slice_window (display_height a wpx) cell_h k (max 1 v) of (y0, y1) \<Rightarrow> slice_payload cd a wpx y0 y1 c)"
      unfolding image_payload_def Let_def k_def v_def by (rule if_not_P)
    then have "slice_payload cd a wpx y0 y1 c = (Inr p, c')" using assms(1) by (simp only: v(1) win prod.case)
    then have "plain_slice cd a wpx y0 y1 = Inr p"
      using slice_payload_plain [OF assms(4,2,3), of wpx y0 y1] by (auto simp: answered_def)
    then show ?thesis using False y by auto
  qed
qed

text \<open>One image of a frame.\<close>

definition drawn_right ::
  "'i codec \<Rightarrow> prepared \<Rightarrow> u32 \<Rightarrow> u32 \<Rightarrow> model \<Rightarrow> nat \<Rightarrow> u16 \<Rightarrow> u16 \<Rightarrow> string set \<Rightarrow> nat \<Rightarrow> drawn list \<Rightarrow> bool"
where
  "drawn_right cd prep cell_w cell_h m scroll cols rows failed i ds \<longleftrightarrow>
     (if an_asset (pr_images prep ! i) \<in> failed then \<forall>d \<in> set ds. \<exists>y l. d = Drawn_line y l
      else if rows_on_screen m scroll (unat rows) i = {} then ds = []
      else \<exists>d. ds = [d] \<and> covers_rows cd prep cell_w cell_h m scroll cols rows i d)"

lemma unreadable_not_shown:
  assumes "cd_read cd (an_asset a) = None" "a \<in> set images" "sizes_agree images" "caches_ok cd images cell_w cell_h c"
  shows "image_payload cd a y rows wpx cell_h r c \<noteq> (Inr s, c')"
proof
  assume s: "image_payload cd a y rows wpx cell_h r c = (Inr s, c')"
  have "plain_full cd a wpx = Inl Read_asset" "plain_slice cd a wpx y0 y1 = Inl Read_asset" for y0 y1
    using assms(1) by (simp_all add: plain_full_def plain_slice_def plain_scaled_def plain_image_def)
  then have "fst (full_payload cd a wpx c) \<noteq> Inr s" "fst (slice_payload cd a wpx y0 y1 c) \<noteq> Inr s" for y0 y1
    using full_payload_plain [OF assms(4,2,3), of wpx] slice_payload_plain [OF assms(4,2,3), of wpx y0 y1]
    by (auto simp: answered_def)
  moreover have "fst (image_payload cd a y rows wpx cell_h r c) = Inr s" by (simp only: s fst_conv)
  ultimately show False
    unfolding image_payload_def Let_def case_prod_beta by (simp split: if_splits)
qed

lemma on_screen_row:
  fixes rows :: u16
  assumes "0 \<le> y" "y < int (unat rows)"
  shows "unat (of_int y :: u16) = nat y"
proof -
  have "uint rows < 2 ^ LENGTH(16)" by (rule uint_lt2p)
  also have "(2 :: int) ^ LENGTH(16) = 2 ^ 16" by simp
  finally have "y < 2 ^ 16" using assms(2) by simp
  then have "nat y < 2 ^ 16" using assms(1) by simp
  then have "unat (of_nat (nat y) :: u16) = nat y" by (simp add: unat_of_nat take_bit_eq_mod)
  then show ?thesis using assms(1) by (simp add: of_nat_nat)
qed

lemma draw_hidden:
  assumes "draw_image cd prep m scroll cols rows cell_w cell_h i c = (ds, c')"
    and "place_image cd prep i (int (md_block_row m ! i) - int scroll) rows cols cell_w cell_h c = (Hidden, c)"
  shows "ds = [] \<and> c' = c"
  using assms by (simp add: draw_image_def Let_def split: if_splits)

lemma draw_degraded:
  assumes "draw_image cd prep m scroll cols rows cell_w cell_h i c = (ds, c')"
    and "place_image cd prep i (int (md_block_row m ! i) - int scroll) rows cols cell_w cell_h c = (Degraded, c1)"
  shows "(\<forall>d \<in> set ds. \<exists>y l. d = Drawn_line y l) \<and> (ds = [] \<and> c' = c
      \<and> (int (md_block_row m ! i) - int scroll + int (md_r_rows m ! i) + 1 \<le> 0 \<or> int (unat rows) \<le> int (md_block_row m ! i) - int scroll)
    \<or> c' = c1)"
  using assms by (auto simp: draw_image_def Let_def split: if_splits)

lemma draw_placed:
  assumes "draw_image cd prep m scroll cols rows cell_w cell_h i c = (ds, c')"
    and "place_image cd prep i (int (md_block_row m ! i) - int scroll) rows cols cell_w cell_h c = (Placed s x y, c1)"
    and "\<not> (int (md_block_row m ! i) - int scroll + int (md_r_rows m ! i) \<le> 0 \<or> int (unat rows) \<le> int (md_block_row m ! i) - int scroll)"
    and "of_int (max y 0) < rows"
  shows "ds = [Drawn_image x (of_int (max y 0)) s] \<and> c' = c1"
proof -
  have "\<not> (int (md_block_row m ! i) - int scroll + (int (md_r_rows m ! i) + 1) \<le> 0 \<or> int (unat rows) \<le> int (md_block_row m ! i) - int scroll)"
    using assms(3) by linarith
  then show ?thesis using assms(1,2,4) by (simp only: draw_image_def Let_def if_False prod.case placement.case if_True prod.inject simp_thms)
qed

lemma draw_image_right:
  assumes draw: "draw_image cd prep m scroll cols rows cell_w cell_h i c = (ds, c')" and i: "i < length (pr_images prep)"
    and "model_ok cd prep cell_w cell_h cols (ca_failed c) m" "caches_ok cd (pr_images prep) cell_w cell_h c"
    and "reader_setup prep cell_w cell_h" "images_fit cd prep cell_w cell_h cols" "0 < unat rows"
  shows "drawn_right cd prep cell_w cell_h m scroll cols rows (ca_failed c') i ds"
proof -
  let ?a = "pr_images prep ! i"
  let ?w = "image_wpx ?a cols cell_w cell_h" and ?r = "image_height ?a cols cell_w cell_h"
  let ?b = "md_block_row m ! i"
  let ?y = "int ?b - int scroll"
  have a: "?a \<in> set (pr_images prep)" using i by simp
  have sizes: "sizes_agree (pr_images prep)" "0 < unat cell_h" using assms(5) by (simp_all add: reader_setup_def)
  have fit: "fits ?a ?w" "plain_full cd ?a ?w \<noteq> Inl Too_large" using assms(6) a by (simp_all add: images_fit_def)
  note geom = geometry_split [of ?a cols cell_w cell_h]
  have r: "0 < ?r" by (rule geometry_rows(1) [OF geom fit(1) sizes(2)])
  obtain rs where m: "m = build_rows (rows_at rs) prep" and rs: "rows_ok cd cols cell_w cell_h (ca_failed c) (pr_images prep) rs"
    using assms(3) by (auto simp: model_ok_def)
  have placed: "blocks_placed (rows_at rs) (length (pr_images prep)) m" unfolding m by (rule build_rows_placed)
  have row: "rows_at rs i = Some ?r \<or> rows_at rs i = None \<and> (an_asset ?a \<in> ca_failed c \<or> (\<exists>e. plain_full cd ?a ?w = Inl e))"
    using list_all2_nthD [OF rs [unfolded rows_ok_def] i] list_all2_lengthD [OF rs [unfolded rows_ok_def]] i
    by (cases "rs ! i") (auto simp: rows_at_def)
  have rows: "md_r_rows m ! i = (case rows_at rs i of None \<Rightarrow> 0 | Some r \<Rightarrow> r)"
    using placed i by (simp add: blocks_placed_def)
  obtain p c1 where p: "place_image cd prep i ?y rows cols cell_w cell_h c = (p, c1)" by fastforce
  note mono = place_image_ok [OF p i sizes(1) assms(4)]
  consider (failed) "an_asset ?a \<in> ca_failed c" | (box) "an_asset ?a \<notin> ca_failed c" "rows_at rs i = None"
    | (image) "an_asset ?a \<notin> ca_failed c" "rows_at rs i = Some ?r"
    using row by metis
  then show ?thesis
  proof cases
    case failed
    then have "p = Degraded" "c1 = c" using p by (simp_all add: place_image_split Let_def)
    then show ?thesis
      using draw_degraded [OF draw, of c1] p failed by (auto simp: drawn_right_def)
  next
    case box
    have none: "rows_on_screen m scroll (unat rows) i = {}"
    proof -
      have "md_items m ! j \<noteq> Image_row i" if "j < length (md_items m)" for j
      proof
        assume "md_items m ! j = Image_row i"
        with placed that have "image_block (rows_at rs) m i j" by (simp add: blocks_placed_def)
        with box(2) show False by (simp add: image_block_def)
      qed
      then show ?thesis by (auto simp: rows_on_screen_def)
    qed
    obtain e where e: "plain_full cd ?a ?w = Inl e" using row box by auto
    then have "cd_read cd (an_asset ?a) = None"
      using fit(2) by (auto simp: plain_full_def checked_size_def split: option.splits if_splits)
    note unreadable = unreadable_not_shown [OF this a sizes(1) assms(4)]
    obtain q c2 where q: "image_payload cd ?a ?y (unat rows) ?w cell_h ?r c = (q, c2)" by fastforce
    with unreadable obtain e' where "q = Inl e'" by (cases q) auto
    then have "p = Hidden \<and> c1 = c \<or> p = Degraded \<and> an_asset ?a \<in> ca_failed c1"
      using p box(1) q by (auto simp: place_image_split Let_def split: if_splits)
    then show ?thesis
      using draw_degraded [OF draw, of c1] draw_hidden [OF draw] p none box(1) by (auto simp: drawn_right_def)
  next
    case image
    have height: "md_r_rows m ! i = ?r" using rows image(2) by simp
    then have "image_block (rows_at rs) m i ?b" using placed i r by (simp add: blocks_placed_def)
    then have screen: "rows_on_screen m scroll (unat rows) i = {j. j < unat rows \<and> ?b \<le> scroll + j \<and> scroll + j < ?b + ?r}"
      using block_on_screen [of "rows_at rs" m i scroll "unat rows"] placed height by (simp add: blocks_placed_def)
    show ?thesis
    proof (cases "?y + int ?r \<le> 0 \<or> int (unat rows) \<le> ?y")
      case True
      then have "p = Hidden" "c1 = c" using p image(1) by (simp_all add: place_image_split Let_def)
      moreover have "?b + ?r \<le> scroll \<or> scroll + unat rows \<le> ?b" using True by arith
      then have "rows_on_screen m scroll (unat rows) i = {}" unfolding screen by auto
      ultimately show ?thesis
        using draw_hidden [OF draw] p image(1) by (simp add: drawn_right_def)
    next
      case False
      obtain q c2 where q: "image_payload cd ?a ?y (unat rows) ?w cell_h ?r c = (q, c2)" by fastforce
      show ?thesis
      proof (cases q)
        case (Inl e)
        then have "p = Degraded" "an_asset ?a \<in> ca_failed c1"
          using p q image(1) False by (auto simp: place_image_split Let_def)
        then show ?thesis
          using draw_degraded [OF draw, of c1] p False height by (simp add: drawn_right_def)
      next
        case (Inr s)
        have c2: "ca_failed c2 = ca_failed c" using image_payload_ok [OF q a sizes(1) assms(4)] by simp
        have p': "p = Placed s (of_nat (an_indent_cols ?a)) ?y" "c1 = c2"
          using p q Inr image(1) False by (auto simp: place_image_split Let_def)
        define y16 where "y16 = (of_int (max ?y 0) :: u16)"
        have hi: "0 \<le> max ?y 0" "max ?y 0 < int (unat rows)" using False assms(7) by arith+
        have y16: "unat y16 = nat (max ?y 0)" unfolding y16_def by (rule on_screen_row [OF hi])
        have "unat y16 < unat rows" unfolding y16 using hi by arith
        then have "y16 < rows" by (simp only: word_less_nat_alt)
        then have ds: "ds = [Drawn_image (of_nat (an_indent_cols ?a)) y16 s]" "c' = c1"
          using draw_placed [OF draw p [unfolded p'(1)]] False unfolding height y16_def by blast+
        define k where "k = nat (max (- ?y) 0)"
        define v where "v = min (?r - k) (unat rows - nat (max ?y 0))"
        have v: "0 < v" unfolding v_def k_def using False r assms(7) by arith
        have start: "scroll + unat y16 = ?b + k" unfolding y16 k_def by arith
        have range: "rows_on_screen m scroll (unat rows) i = {unat y16..<unat y16 + v}"
        proof (cases "scroll \<le> ?b")
          case True
          then have "k = 0" "unat y16 = ?b - scroll" unfolding k_def y16 by arith+
          then show ?thesis unfolding screen using True by (auto simp: v_def y16 [symmetric])
        next
          case False
          then have "k = scroll - ?b" "unat y16 = 0" unfolding k_def y16 by arith+
          then show ?thesis unfolding screen using False by (auto simp: v_def y16 [symmetric])
        qed
        have shown: "if v = ?r then plain_full cd ?a ?w = Inr s
            else \<exists>y0 y1. plain_slice cd ?a ?w y0 y1 = Inr s \<and> unat y0 = k * unat cell_h
              \<and> unat y1 = min ((k + v) * unat cell_h) (unat (display_height ?a ?w))"
          unfolding k_def v_def
          by (rule image_payload_shown [OF q [unfolded Inr] a sizes(1) assms(4) geom fit(1) sizes(2) _ _ assms(7)])
             (use False in arith)+
        have "covers_rows cd prep cell_w cell_h m scroll cols rows i
            (Drawn_image (of_nat (an_indent_cols ?a)) y16 s)"
          unfolding covers_rows_def Let_def height
          by (rule exI [of _ y16], rule exI [of _ s], rule exI [of _ v], rule exI [of _ k])
             (intro conjI refl v range start shown)
        moreover have "rows_on_screen m scroll (unat rows) i \<noteq> {}"
          using range v by simp
        ultimately show ?thesis using ds p' c2 image(1) by (simp add: drawn_right_def)
      qed
    qed
  qed
qed

lemma draw_images_right:
  assumes "draw_images cd prep m scroll cols rows cell_w cell_h is c = (ds, c')"
    and "\<forall>i \<in> set is. i < length (pr_images prep)"
    and "model_ok cd prep cell_w cell_h cols (ca_failed c) m" "caches_ok cd (pr_images prep) cell_w cell_h c"
    and "reader_setup prep cell_w cell_h" "images_fit cd prep cell_w cell_h cols" "0 < unat rows"
  shows "\<exists>dss. ds = concat dss \<and> list_all2 (\<lambda>i ds. \<exists>failed \<subseteq> ca_failed c'.
    drawn_right cd prep cell_w cell_h m scroll cols rows failed i ds) is dss"
  using assms
proof (induction "is" arbitrary: c ds)
  case (Cons i js)
  let ?right = "\<lambda>i ds. \<exists>failed \<subseteq> ca_failed c'. drawn_right cd prep cell_w cell_h m scroll cols rows failed i ds"
  obtain d1 c1 where one: "draw_image cd prep m scroll cols rows cell_w cell_h i c = (d1, c1)" by fastforce
  obtain d2 c2 where rest: "draw_images cd prep m scroll cols rows cell_w cell_h js c1 = (d2, c2)" by fastforce
  have ds: "ds = d1 @ d2" "c2 = c'" using one rest Cons.prems(1) by auto
  have i: "i < length (pr_images prep)" "\<forall>i \<in> set js. i < length (pr_images prep)" using Cons.prems(2) by simp_all
  have sizes: "sizes_agree (pr_images prep)" using Cons.prems(5) by (simp add: reader_setup_def)
  have c1: "caches_ok cd (pr_images prep) cell_w cell_h c1" "ca_failed c \<subseteq> ca_failed c1"
    using draw_image_ok [OF one i(1) sizes] Cons.prems(4) by (simp_all add: drawing_ok_def)
  have c': "ca_failed c1 \<subseteq> ca_failed c'"
    using draw_images_ok [OF rest i(2) sizes] c1(1) ds(2) by (simp add: drawing_ok_def)
  have "?right i d1"
    using draw_image_right [OF one i(1) Cons.prems(3-7)] c' by blast
  moreover obtain dss where "d2 = concat dss" "list_all2 ?right js dss"
    using Cons.IH [OF rest [unfolded ds(2)] i(2) model_ok_more [OF Cons.prems(3) c1(2)] c1(1) Cons.prems(5-7)] by blast
  ultimately show ?case using ds by (intro exI [of _ "d1 # dss"]) simp
qed auto

end
