(* ===== verification/Reader_Properties.thy ===== *)
theory Reader_Properties
  imports Reader_Frames "HOL-Library.Code_Target_Nat"
begin

text \<open>
  What the reader in the jail guarantees on an article that passed its checks: it does not get stuck,
  the screen shows the article whichever way it was drawn, and a change of the size keeps the place.
\<close>

definition reading :: "asset_files \<Rightarrow> ustr \<Rightarrow> img_anchor list \<Rightarrow> prepared \<Rightarrow> u32 \<Rightarrow> u32 \<Rightarrow> bool" where
  "reading files content images prep cell_w cell_h \<longleftrightarrow>
     preflight files content images = Some (Inr prep) \<and> sizes_agree images
   \<and> 0 < unat cell_w \<and> 76 * unat cell_w < 2 ^ 32 \<and> 0 < unat cell_h"

lemma reading_setup:
  assumes "reading files content images prep cell_w cell_h"
  shows "reader_setup prep cell_w cell_h" "pr_images prep = images" "pr_raw prep \<noteq> []"
proof -
  have pre: "preflight files content images = Some (Inr prep)" using assms by (simp add: reading_def)
  from pre show "pr_images prep = images" "pr_raw prep \<noteq> []"
    by (auto simp: preflight_def Let_def simp del: lines_of.simps split: if_splits sum.splits)
  with preflight_ok [OF pre] assms show "reader_setup prep cell_w cell_h"
    by (simp add: reader_setup_def reading_def)
qed

lemma reading_reaches:
  assumes "reading files content images prep cell_w cell_h" "tui_reaches cd width prep cell_w cell_h t s"
  shows "tui_ok cd prep cell_w cell_h t" "frame_shown cd width prep cell_w cell_h t s"
  using tui_reaches_ok [OF assms(2) reading_setup(1) [OF assms(1)]] by simp_all

lemma reader_starts:
  assumes "reading files content images prep cell_w cell_h" "MIN_COLS \<le> unat cols"
  shows "\<exists>t f. tui_start cd width prep cell_w cell_h True cols rows = Goes_on t (Shown_frame f)
    \<and> tui_scroll t = 0 \<and> tui_cols t = cols \<and> tui_rows t = max rows 1"
proof -
  note ok = tui_start_ok [OF reading_setup(1) [OF assms(1)], of cd width True cols rows]
  show ?thesis
    using ok assms(2) unfolding tui_start_def show_frame_def
    by (auto simp: result_ok_def split: prod.splits option.splits)
qed


definition sample_codec :: "unit codec" where
  "sample_codec = \<lparr>cd_read = \<lambda>_. Some [0], cd_load = \<lambda>_. Some (), cd_resize = \<lambda>i _ _. i, cd_crop = \<lambda>i _ _. i,
     cd_jpeg = \<lambda>_. Some [0], cd_png = \<lambda>_. Some [0], cd_base64 = \<lambda>_. ''AA==''\<rparr>"

definition sample_anchor :: img_anchor where
  "sample_anchor = \<lparr>an_block_start = 1, an_block_end = 3, an_path = ''a.png'', an_asset = ''a.png'',
     an_w = 90, an_h = 60, an_indent_cols = 0, an_display_cols = 10, an_alt = u_of ''alt''\<rparr>"

definition sample_content :: ustr where
  "sample_content = [97, 10, 98, 10, 99, 10, 100, 10, 101, 10, 102]"

definition sample_files :: asset_files where
  "sample_files _ = Some (True, 1)"

definition sample_prep :: prepared where
  "sample_prep = \<lparr>pr_lines = map (\<lambda>c. [\<lparr>sp_text = [c], sp_style = default_style\<rparr>]) [97..<103],
     pr_raw = map (\<lambda>c. [c]) [97..<103], pr_images = [sample_anchor]\<rparr>"

lemma sample_reading: "reading sample_files sample_content [sample_anchor] sample_prep 9 20"
proof -
  have "preflight sample_files sample_content [sample_anchor] = Some (Inr sample_prep)" by code_simp
  then show ?thesis by (simp add: reading_def sizes_agree_def)
qed


text \<open>C28: each full frame shows an image on exactly the rows of the screen that the model has for it:
  the picture itself when all its rows are there, else the pixels of these rows, encoded anew; and
  no image whose box is shown instead, or that is not on the screen.  The caches make no difference.
  An image whose height overflows 32 bits, or that is too large to be sent, is left out here.\<close>

theorem frames_show_images:
  assumes "reading files content images prep cell_w cell_h"
    and "tui_reaches cd width prep cell_w cell_h t (Shown_frame f)" "images_fit cd prep cell_w cell_h (tui_cols t)"
  shows "\<exists>dss. fr_drawn f = concat dss \<and> length dss = length images \<and> (\<forall>i < length images.
    \<exists>failed \<subseteq> ca_failed (tui_caches t).
      drawn_right cd prep cell_w cell_h (tui_model t) (tui_scroll t) (tui_cols t) (tui_rows t) failed i (dss ! i))"
proof -
  note prep = reading_setup [OF assms(1)]
  obtain c where c: "tui_ok cd prep cell_w cell_h (t\<lparr>tui_caches := c\<rparr>)"
      "draw_frame cd width prep (tui_model t) (tui_scroll t) (tui_cols t) (tui_rows t) cell_w cell_h c = Some (f, tui_caches t)"
    using reading_reaches(2) [OF assms(1,2)] by (auto simp: frame_shown_def)
  obtain ds c' where ds: "draw_images cd prep (tui_model t) (tui_scroll t) (tui_cols t) (tui_rows t) cell_w cell_h
      [0..<length (pr_images prep)] c = (ds, c')" by fastforce
  then have f: "fr_drawn f = ds" "c' = tui_caches t"
    using c(2) by (auto simp: draw_frame_def Let_def split: if_splits)
  obtain dss where "ds = concat dss" "list_all2 (\<lambda>i ds. \<exists>failed \<subseteq> ca_failed c'.
      drawn_right cd prep cell_w cell_h (tui_model t) (tui_scroll t) (tui_cols t) (tui_rows t) failed i ds)
      [0..<length (pr_images prep)] dss"
    using draw_images_right [OF ds _ _ _ prep(1) assms(3)] c(1) by (auto simp: tui_ok_def)
  then show ?thesis
    unfolding f prep(2) [symmetric] by (intro exI [of _ dss]) (auto simp: list_all2_conv_all_nth)
qed

theorem frames_show_images_witness:
  "\<exists>t f failed. tui_reaches sample_codec (\<lambda>_. 1) sample_prep 9 20 t (Shown_frame f) \<and> failed \<subseteq> ca_failed (tui_caches t)
    \<and> drawn_right sample_codec sample_prep 9 20 (tui_model t) 0 80 2 failed 0 (fr_drawn f)"
proof -
  obtain t f where t: "tui_start sample_codec (\<lambda>_. 1) sample_prep 9 20 True 80 2 = Goes_on t (Shown_frame f)"
      "tui_scroll t = 0" "tui_cols t = 80" "tui_rows t = 2"
    using reader_starts [OF sample_reading, of 80 sample_codec "\<lambda>_. 1" 2] by (auto simp: MIN_COLS_def)
  then have reach: "tui_reaches sample_codec (\<lambda>_. 1) sample_prep 9 20 t (Shown_frame f)" by (intro tui_first)
  have fit: "images_fit sample_codec sample_prep 9 20 (tui_cols t)"
  proof -
    have "image_wpx sample_anchor 80 9 20 = 90"
      by (simp add: image_wpx_def block_geometry_def sample_anchor_def saturating_mul_def Let_def)
    moreover have "display_height sample_anchor 90 = 60" by (simp add: display_height_def sample_anchor_def)
    moreover have "show_nat 1 = ''1''" "show_nat 60 = ''60''" "show_nat 90 = ''90''" by code_simp+
    ultimately show ?thesis
      unfolding images_fit_def t by (simp add: sample_prep_def fits_def plain_full_def sample_codec_def checked_size_def
        MAX_IIP_PAYLOAD_def iip_encode_def encode_dims_def sample_anchor_def)
  qed
  obtain failed where "failed \<subseteq> ca_failed (tui_caches t)"
      "drawn_right sample_codec sample_prep 9 20 (tui_model t) 0 80 2 failed 0 (fr_drawn f)"
    using frames_show_images [OF sample_reading reach fit] t by (auto simp: length_Suc_conv)
  with reach show ?thesis by blast
qed




definition sample_text :: prepared where
  "sample_text = sample_prep\<lparr>pr_images := []\<rparr>"

lemma sample_text_reading: "reading sample_files sample_content [] sample_text 9 20"
proof -
  have "preflight sample_files sample_content [] = Some (Inr sample_text)" by code_simp
  then show ?thesis by (simp add: reading_def sizes_agree_def)
qed


lemma image_items_nonempty:
  "anchors_ok n cursor as \<Longrightarrow> cursor < n \<Longrightarrow> image_items rows i as cursor n \<noteq> []"
  by (cases as) (auto split: option.splits)

lemma model_boxes:
  assumes "model_ok cd prep cell_w cell_h cols failed m"
  shows "\<exists>rs. m = build_rows (rows_at rs) prep
    \<and> (\<forall>i. rows_at rs i = None \<longleftrightarrow> \<not> (i < length (pr_images prep) \<and> md_r_rows m ! i \<noteq> 0))"
proof -
  obtain rs where m: "m = build_rows (rows_at rs) prep" and rs: "rows_ok cd cols cell_w cell_h failed (pr_images prep) rs"
    using assms by (auto simp: model_ok_def)
  have len: "length rs = length (pr_images prep)"
    using list_all2_lengthD [OF rs [unfolded rows_ok_def]] by simp
  have placed: "blocks_placed (rows_at rs) (length (pr_images prep)) m" unfolding m by (rule build_rows_placed)
  have "rows_at rs i = None \<longleftrightarrow> md_r_rows m ! i = 0" if i: "i < length (pr_images prep)" for i
  proof -
    have "rs ! i \<noteq> Some 0"
      using list_all2_nthD [OF rs [unfolded rows_ok_def] i] by (auto simp: image_height_def block_geometry_def Let_def)
    moreover have "md_r_rows m ! i = (case rows_at rs i of None \<Rightarrow> 0 | Some r \<Rightarrow> r)"
      using placed i by (simp add: blocks_placed_def)
    ultimately show ?thesis using i len by (auto simp: rows_at_def split: option.splits)
  qed
  then show ?thesis using m len by (intro exI [of _ rs]) (auto simp: rows_at_def)
qed

text \<open>C31: after a change of the size of the window the line of the article that was first on the screen
  is on the screen, and it is the first again unless the end of the article is reached; provided that
  no image is back that was shown as its box.\<close>

theorem resize_keeps_place:
  assumes "reading files content images prep cell_w cell_h" "tui_reaches cd width prep cell_w cell_h t s"
    and "tui_step cd width prep cell_w cell_h accepts (Resize_event w h) t = Goes_on t' s'"
    and "\<forall>i < length images. md_r_rows (tui_model t) ! i = 0 \<longrightarrow> md_r_rows (tui_model t') ! i = 0"
  shows "\<exists>k < length (md_items (tui_model t')). tui_scroll t' \<le> k \<and> k < tui_scroll t' + unat (tui_rows t')
    \<and> anchor_line (tui_model t') prep k = anchor_line (tui_model t) prep (tui_scroll t)
    \<and> (k \<noteq> tui_scroll t' \<longrightarrow> tui_scroll t' = max_scroll (tui_model t') (unat (tui_rows t')))"
proof -
  note t = reading_reaches(1) [OF assms(1,2)] and prep = reading_setup [OF assms(1)]
  have ok: "prepared_ok prep" using prep(1) by (simp add: reader_setup_def)
  define m where "m = tui_model t"
  define m' where "m' = (if w \<noteq> tui_cols t then fst (build_model cd prep w cell_w cell_h (tui_caches t)) else m)"
  define k where "k = (if w \<noteq> tui_cols t then scroll_to_line m' prep (anchor_line m prep (tui_scroll t)) else tui_scroll t)"
  have t': "tui_model t' = m'" "tui_scroll t' = min k (max_scroll m' (unat (max h 1)))" "tui_rows t' = max h 1"
    using assms(3) unfolding k_def m'_def m_def
    by (auto simp: tui_step_def tui_resize_def show_frame_def Let_def split: if_splits option.splits prod.splits)
  have t'_ok: "tui_ok cd prep cell_w cell_h t'"
    by (rule reading_reaches(1) [OF assms(1) tui_next [OF assms(2,3)]])
  have "model_ok cd prep cell_w cell_h (tui_cols t) (ca_failed (tui_caches t)) m"
    using t by (simp add: tui_ok_def m_def)
  from model_boxes [OF this] obtain rs where m: "m = build_rows (rows_at rs) prep"
      "\<forall>i. rows_at rs i = None \<longleftrightarrow> \<not> (i < length (pr_images prep) \<and> md_r_rows m ! i \<noteq> 0)"
    by blast
  have "model_ok cd prep cell_w cell_h (tui_cols t') (ca_failed (tui_caches t')) m'"
    using t'_ok unfolding tui_ok_def t'(1) by blast
  from model_boxes [OF this] obtain rs' where m': "m' = build_rows (rows_at rs') prep"
      "\<forall>i. rows_at rs' i = None \<longleftrightarrow> \<not> (i < length (pr_images prep) \<and> md_r_rows m' ! i \<noteq> 0)"
    by blast
  have "md_items m \<noteq> []"
    using ok prep(3) unfolding m(1) by (simp add: prepared_ok_def image_items_nonempty)
  then have scroll: "tui_scroll t < length (md_items m)"
    using t by (cases "md_items m") (auto simp: tui_ok_def max_scroll_def m_def)
  have k: "k < length (md_items m') \<and> anchor_line m' prep k = anchor_line m prep (tui_scroll t)"
  proof (cases "w = tui_cols t")
    case False
    have boxes: "rows_at rs i = None \<Longrightarrow> rows_at rs' i = None" for i
      using m(2) m'(2) assms(4) prep(2) by (auto simp: t' m_def)
    show ?thesis
      using place_kept [OF ok boxes scroll [unfolded m(1)]] False
      unfolding k_def m(1) m'(1) by simp
  qed (use scroll in \<open>simp add: k_def m'_def\<close>)
  have "1 \<le> unat (max h 1)" by (simp add: max_def word_le_nat_alt)
  then show ?thesis
    using k unfolding t' m_def [symmetric] by (intro exI [of _ k]) (auto simp: max_scroll_def)
qed

lemma reader_resizes:
  assumes "reading files content images prep cell_w cell_h" "tui_reaches cd width prep cell_w cell_h t s" "MIN_COLS \<le> unat w"
  shows "\<exists>t' s'. tui_step cd width prep cell_w cell_h True (Resize_event w h) t = Goes_on t' s'"
proof -
  have "result_ok cd width prep cell_w cell_h True (tui_step cd width prep cell_w cell_h True (Resize_event w h) t)"
    by (rule tui_step_ok [OF reading_reaches(1) [OF assms(1,2)] reading_setup(1) [OF assms(1)]])
  moreover have "\<not> unat w < MIN_COLS" using assms(3) by simp
  ultimately show ?thesis
    unfolding tui_step_def tui_resize_def show_frame_def
    by (auto simp: result_ok_def Let_def split: option.splits prod.splits if_splits)
qed

theorem resize_keeps_place_witness:
  "\<exists>t t' s k. tui_step sample_codec (\<lambda>_. 1) sample_text 9 20 True (Resize_event 100 1) t = Goes_on t' s
    \<and> tui_cols t = 80 \<and> k < length (md_items (tui_model t'))
    \<and> anchor_line (tui_model t') sample_text k = anchor_line (tui_model t) sample_text (tui_scroll t)"
proof -
  obtain t f where t: "tui_start sample_codec (\<lambda>_. 1) sample_text 9 20 True 80 2 = Goes_on t (Shown_frame f)" "tui_cols t = 80"
    using reader_starts [OF sample_text_reading, of 80 sample_codec "\<lambda>_. 1" 2] by (auto simp: MIN_COLS_def)
  then have reach: "tui_reaches sample_codec (\<lambda>_. 1) sample_text 9 20 t (Shown_frame f)" by (intro tui_first)
  obtain t' s' where step: "tui_step sample_codec (\<lambda>_. 1) sample_text 9 20 True (Resize_event 100 1) t = Goes_on t' s'"
    using reader_resizes [OF sample_text_reading reach, of 100 1] by (auto simp: MIN_COLS_def)
  from resize_keeps_place [OF sample_text_reading reach step] step t(2) show ?thesis by auto
qed

section \<open>Leaving\<close>

definition quits_with :: "prepared \<Rightarrow> 'i tui \<Rightarrow> ustr list \<Rightarrow> bool" where
  "quits_with prep t view \<longleftrightarrow> exit_view prep (tui_model t) (tui_scroll t) (unat (tui_rows t)) = Some view"

lemma exit_loop_inside:
  assumes placed: "blocks_placed rows (length (pr_images prep)) m" and texts: "texts_ok prep m"
    and "last_row \<le> length (md_items m)" "k < last_row" "md_items m ! k = Image_row i"
  shows "exit_loop prep m last_row k
    = Some (take (an_block_end (pr_images prep ! i) - an_block_start (pr_images prep ! i))
              (drop (an_block_start (pr_images prep ! i)) (pr_raw prep))
            @ the (exit_loop prep m last_row (k + md_r_rows m ! i)))"
proof -
  have "image_block rows m i k" using placed assms(3-5) by (simp add: blocks_placed_def)
  then have i: "i < length (md_r_rows m)" "0 < md_r_rows m ! i" by (auto simp: image_block_def)
  then have i': "i < length (pr_images prep)" using placed by (simp add: blocks_placed_def)
  then have box: "an_block_start (pr_images prep ! i) \<le> an_block_end (pr_images prep ! i)"
      "an_block_end (pr_images prep ! i) \<le> length (pr_raw prep)"
    using texts by (simp_all add: texts_ok_def)
  obtain view where view: "exit_loop prep m last_row (k + md_r_rows m ! i) = Some view"
    using exit_loop_answers [OF placed texts assms(3)] by blast
  have "max 1 (md_r_rows m ! i) = md_r_rows m ! i" using i(2) by simp
  then show ?thesis
    using assms(4,5) i(1) i' box view by (subst exit_loop.simps) (simp add: Let_def)
qed

text \<open>What stays on the screen when one leaves the reader is what was on it, the lines of the text
  and the box of each image that begins there; but when the first row on the screen lies inside an
  image, as many rows as the whole image has are skipped from there on, so that lines of the text
  that follow it, and that were on the screen, are missing.\<close>

theorem quit_leaves_screen:
  assumes "reading files content images prep cell_w cell_h" "tui_reaches cd width prep cell_w cell_h t s"
  defines "m \<equiv> tui_model t"
  defines "last_row \<equiv> min (tui_scroll t + unat (tui_rows t)) (length (md_items m))"
  shows "(not_inside m (tui_scroll t) \<longrightarrow>
      quits_with prep t (concat (map (row_leaves prep m) [tui_scroll t..<last_row])))
    \<and> (\<forall>i. md_items m ! tui_scroll t = Image_row i \<and> md_block_row m ! i < tui_scroll t
           \<and> not_inside m (tui_scroll t + md_r_rows m ! i) \<longrightarrow>
         quits_with prep t (take (an_block_end (images ! i) - an_block_start (images ! i)) (drop (an_block_start (images ! i)) (pr_raw prep))
           @ concat (map (row_leaves prep m) [tui_scroll t + md_r_rows m ! i..<last_row])))"
proof -
  note t = reading_reaches(1) [OF assms(1,2)] and prep = reading_setup [OF assms(1)]
  have ok: "prepared_ok prep" using prep(1) by (simp add: reader_setup_def)
  obtain rs where m: "m = build_rows (rows_at rs) prep" using t by (auto simp: tui_ok_def model_ok_def m_def)
  have placed: "blocks_placed (rows_at rs) (length (pr_images prep)) m" unfolding m by (rule build_rows_placed)
  have texts: "texts_ok prep m" unfolding m by (rule built_texts_ok [OF ok])
  have le: "last_row \<le> length (md_items m)" by (simp add: last_row_def)
  have "md_items m \<noteq> []" using ok prep(3) unfolding m by (simp add: prepared_ok_def image_items_nonempty)
  then have in_screen: "tui_scroll t < last_row"
    using t by (cases "md_items m") (auto simp: tui_ok_def max_scroll_def m_def last_row_def)
  have quits: "quits_with prep t view \<longleftrightarrow> exit_loop prep m last_row (tui_scroll t) = Some view" for view
    by (simp add: quits_with_def exit_view_def m_def last_row_def)
  show ?thesis
    unfolding quits prep(2) [symmetric]
    using exit_loop_rows [OF placed texts le] exit_loop_inside [OF placed texts le in_screen] by auto
qed

lemma sample_geometry: "block_geometry sample_anchor 80 9 20 = (10, 90, 3)"
  by (simp add: block_geometry_def sample_anchor_def saturating_mul_def display_height_def Let_def)

lemma sample_plain: "\<exists>p. plain_full sample_codec sample_anchor 90 = Inr p"
proof -
  have "display_height sample_anchor 90 = 60" by (simp add: display_height_def sample_anchor_def)
  moreover have "show_nat 1 = ''1''" "show_nat 60 = ''60''" "show_nat 90 = ''90''" by code_simp+
  ultimately show ?thesis
    by (simp add: plain_full_def sample_codec_def checked_size_def MAX_IIP_PAYLOAD_def iip_encode_def encode_dims_def sample_anchor_def)
qed

lemma sample_model:
  "fst (build_model sample_codec sample_prep 80 9 20 no_caches) = build_rows (rows_at [Some 3]) sample_prep"
proof -
  obtain rs c where rs: "payload_rows sample_codec 80 9 20 [sample_anchor] no_caches = (rs, c)" by fastforce
  have "rows_ok sample_codec 80 9 20 (ca_failed (no_caches :: unit caches)) [sample_anchor] rs"
    using payload_rows_ok [OF rs subset_refl _ caches_ok_start] by (simp add: sizes_agree_def)
  then have "rs = [Some 3]"
    using sample_plain by (auto simp: rows_ok_def list_all2_Cons1 no_caches_def image_wpx_def image_height_def
        sample_geometry split: option.splits)
  with rs show ?thesis by (simp add: build_model_def sample_prep_def)
qed

theorem quit_leaves_screen_witness:
  "\<exists>t s. tui_reaches sample_codec (\<lambda>_. 1) sample_prep 9 20 t s \<and> tui_scroll t = 3 \<and> tui_rows t = 5
    \<and> md_items (tui_model t) ! 5 = Text_row 3 \<and> quits_with sample_prep t [[98], [99], [101], [102]]"
proof -
  obtain t f where t: "tui_start sample_codec (\<lambda>_. 1) sample_prep 9 20 True 80 5 = Goes_on t (Shown_frame f)"
      "tui_scroll t = 0" "tui_rows t = 5"
    using reader_starts [OF sample_reading, of 80 sample_codec "\<lambda>_. 1" 5] by (auto simp: MIN_COLS_def)
  then have reach: "tui_reaches sample_codec (\<lambda>_. 1) sample_prep 9 20 t (Shown_frame f)" by (intro tui_first)
  have m: "tui_model t = build_rows (rows_at [Some 3]) sample_prep"
    using t(1) sample_model by (auto simp: tui_start_def show_frame_def MIN_COLS_def split: prod.splits option.splits)
  have built: "build_rows (rows_at [Some 3]) sample_prep
      = \<lparr>md_items = [Text_row 0, Image_row 0, Image_row 0, Image_row 0, Alt_row 0, Text_row 3, Text_row 4, Text_row 5],
         md_block_row = [1], md_r_rows = [3]\<rparr>"
    by code_simp
  let ?t = "t\<lparr>tui_scroll := 3\<rparr>"
  have prep: "reader_setup sample_prep 9 20" by (rule reading_setup(1) [OF sample_reading])
  have ok: "tui_ok sample_codec sample_prep 9 20 ?t"
    using reading_reaches(1) [OF sample_reading reach] t(3) by (simp add: tui_ok_def max_scroll_def m built)
  have bottom: "max_scroll (tui_model t) 5 = 3" by (simp add: max_scroll_def m built)
  have step: "tui_step sample_codec (\<lambda>_. 1) sample_prep 9 20 True (Key_event False (Key_char 71) False) t
      = show_frame sample_codec (\<lambda>_. 1) sample_prep 9 20 True ?t"
    using t by (simp add: tui_step_def key_action_def tui_key_def new_scroll_def incremental_target_def bottom)
  obtain t' s where t': "show_frame sample_codec (\<lambda>_. 1) sample_prep 9 20 True ?t = Goes_on t' s"
      "t' = ?t\<lparr>tui_caches := tui_caches t'\<rparr>"
    using show_frame_ok [OF ok, where width = "\<lambda>_. 1" and accepts = True] prep
    by (simp add: reader_setup_def split: tui_result.splits)
  have reach': "tui_reaches sample_codec (\<lambda>_. 1) sample_prep 9 20 t' s"
    by (rule tui_next [OF reach step [unfolded t'(1)]])
  have fields: "tui_model t' = tui_model t" "tui_scroll t' = 3" "tui_rows t' = 5"
    by (subst t'(2), simp add: t)+
  let ?m = "tui_model t'"
  have items: "md_items ?m ! 3 = Image_row 0" "md_block_row ?m ! 0 = 1" "md_r_rows ?m ! 0 = 3" "length (md_items ?m) = 8"
      "md_items ?m ! 6 = Text_row 4" "md_items ?m ! 7 = Text_row 5"
    by (simp_all add: fields m built)
  have "[6..<8 :: nat] = [6, 7]" by (simp add: upt_rec)
  then have view: "concat (map (row_leaves sample_prep ?m) [6..<8]) = [[101], [102]]"
    by (simp add: row_leaves_def items, simp add: sample_prep_def)
  have box: "take (an_block_end sample_anchor - an_block_start sample_anchor) (drop (an_block_start sample_anchor) (pr_raw sample_prep))
      = [[98], [99]]"
    by (simp add: sample_anchor_def sample_prep_def)
  have "not_inside ?m (3 + 3)" by (simp add: not_inside_def items)
  then have "quits_with sample_prep t' [[98], [99], [101], [102]]"
    using quit_leaves_screen [OF sample_reading reach'] items view box by (simp add: fields(2,3))
  with reach' fields show ?thesis by (intro exI [of _ t'] exI [of _ s]) (simp add: m built)
qed

section \<open>The caches\<close>

text \<open>The small cache always holds the keys that were used last, one entry for each, as many as it
  has room for, and in the order of their last use.\<close>

theorem lru_keeps_last_used:
  assumes "0 < cap" "lru_run uses (lru_new cap, []) = (l, used)"
  shows "lru_order l = last_of cap (remdups used) \<and> dom (lru_map l) = set (lru_order l) \<and> card (dom (lru_map l)) \<le> cap"
proof -
  have "lru_ok cap (lru_new cap) []" by (simp add: lru_ok_def lru_new_def last_of_def)
  then have "lru_ok cap l used" by (rule lru_run_ok [OF assms(1) _ assms(2)])
  moreover have "length (last_of cap (remdups used)) \<le> cap" by (simp add: last_of_def)
  ultimately show ?thesis using card_length [of "lru_order l"] by (simp add: lru_ok_def)
qed

theorem lru_keeps_last_used_witness:
  "\<exists>l used. lru_run [Use_insert (1 :: nat) ''a'', Use_insert 2 ''b'', Use_get 1, Use_insert 3 ''c''] (lru_new 2, []) = (l, used)
    \<and> lru_order l = [1, 3] \<and> dom (lru_map l) = {1, 3}"
proof -
  obtain l used where run: "lru_run [Use_insert (1 :: nat) ''a'', Use_insert 2 ''b'', Use_get 1, Use_insert 3 ''c''] (lru_new 2, []) = (l, used)"
    by fastforce
  then have "used = [1, 2, 1, 3]"
    by (simp add: lru_new_def lru_insert_def lru_get_def lru_evict_def Let_def)
  with lru_keeps_last_used [OF _ run] run show ?thesis by (auto simp: last_of_def)
qed

end
