(* ===== verification/Content_Tree.thy ===== *)
theory Content_Tree
  imports Rust_Std
begin

text \<open>
  A directory tree as content-build uses it: the scans, and the operations of \<open>std::fs\<close> that write
  to it.  The entries of a directory are kept in the order of their names, in which every scan
  of the program visits them.  A path is the list of its components; the root of a tree that does
  not exist yet is the empty directory (the scans treat both alike, and \<open>create_dir_all\<close> makes one of
  the other before anything is written).
\<close>

datatype tree = Reg bytes | Dir "(string \<times> tree) list" | Symlink

fun tree_at :: "tree \<Rightarrow> string list \<Rightarrow> tree option" where
  "tree_at t [] = Some t"
| "tree_at (Dir es) (n # p) = (case map_of es n of None \<Rightarrow> None | Some t \<Rightarrow> tree_at t p)"
| "tree_at _ (n # p) = None"

definition reg_at :: "tree \<Rightarrow> string list \<Rightarrow> bytes option" where
  "reg_at t p = (case tree_at t p of Some (Reg b) \<Rightarrow> Some b | _ \<Rightarrow> None)"

definition dir_at :: "tree \<Rightarrow> string list \<Rightarrow> bool" where
  "dir_at t p = (case tree_at t p of Some (Dir _) \<Rightarrow> True | _ \<Rightarrow> False)"

section \<open>Operations\<close>

text \<open>\<open>create_dir_all\<close>: \<open>None\<close> where a component is not a directory.\<close>

fun make_dirs :: "string list \<Rightarrow> tree \<Rightarrow> tree option" where
  "make_dirs [] (Dir es) = Some (Dir es)"
| "make_dirs (n # p) (Dir es) =
     (case map_of es n of
        None \<Rightarrow> map_option (\<lambda>t. Dir (bt_insert n t es)) (make_dirs p (Dir []))
      | Some t \<Rightarrow> map_option (\<lambda>t. Dir (bt_insert n t es)) (make_dirs p t))"
| "make_dirs p _ = None"

text \<open>A file written or renamed to a path: what was there is replaced, unless it is a directory, and
  its parent has to exist.\<close>

fun put_file :: "string list \<Rightarrow> bytes \<Rightarrow> tree \<Rightarrow> tree option" where
  "put_file [n] b (Dir es) =
     (case map_of es n of Some (Dir _) \<Rightarrow> None | _ \<Rightarrow> Some (Dir (bt_insert n (Reg b) es)))"
| "put_file (n # p) b (Dir es) =
     (case map_of es n of
        None \<Rightarrow> None
      | Some t \<Rightarrow> map_option (\<lambda>t. Dir (bt_insert n t es)) (put_file p b t))"
| "put_file p b _ = None"

text \<open>\<open>remove_file\<close>, \<open>remove_dir\<close> and \<open>remove_dir_all\<close> of an entry that is there.\<close>

fun drop_node :: "string list \<Rightarrow> tree \<Rightarrow> tree" where
  "drop_node [n] (Dir es) = Dir (filter (\<lambda>e. fst e \<noteq> n) es)"
| "drop_node (n # p) (Dir es) =
     (case map_of es n of None \<Rightarrow> Dir es | Some t \<Rightarrow> Dir (bt_insert n (drop_node p t) es))"
| "drop_node p t = t"

text \<open>\<open>remove_empty_parents\<close>: upwards as long as \<open>remove_dir\<close> succeeds, which it does on an empty
  directory; the root is where it stops.\<close>

function remove_empty_parents :: "string list \<Rightarrow> tree \<Rightarrow> tree" where
  "remove_empty_parents p t =
     (if p = [] then t
      else if tree_at t p = Some (Dir []) then remove_empty_parents (butlast p) (drop_node p t)
      else t)"
  by pat_completeness auto
termination
  by (relation "measure (\<lambda>(p, t). length p)") auto

declare remove_empty_parents.simps [simp del]

section \<open>Scans\<close>

text \<open>\<open>walk_regular_files\<close> and \<open>walk_output_nodes\<close>: the paths relative to the root, in the second
  with the directories, which end in a slash.  A symbolic link is an error.\<close>

fun walk_files_in :: "string \<Rightarrow> (string \<times> tree) list \<Rightarrow> string + string list"
  and walk_file :: "string \<Rightarrow> tree \<Rightarrow> string + string list"
where
  "walk_files_in pre [] = Inr []"
| "walk_files_in pre ((n, t) # es) =
     and_then (walk_file (pre @ n) t) (\<lambda>a. and_then (walk_files_in pre es) (\<lambda>b. Inr (a @ b)))"
| "walk_file rel (Reg b) = Inr [rel]"
| "walk_file rel (Dir es) = walk_files_in (rel @ ''/'') es"
| "walk_file rel Symlink = Inl rel"

definition walk_regular_files :: "tree \<Rightarrow> string + string list" where
  "walk_regular_files t = (case t of Dir es \<Rightarrow> walk_files_in [] es | _ \<Rightarrow> Inl [])"

fun walk_nodes_in :: "string \<Rightarrow> (string \<times> tree) list \<Rightarrow> string + string list"
  and walk_node :: "string \<Rightarrow> tree \<Rightarrow> string + string list"
where
  "walk_nodes_in pre [] = Inr []"
| "walk_nodes_in pre ((n, t) # es) =
     and_then (walk_node (pre @ n) t) (\<lambda>a. and_then (walk_nodes_in pre es) (\<lambda>b. Inr (a @ b)))"
| "walk_node rel (Reg b) = Inr [rel]"
| "walk_node rel (Dir es) = and_then (walk_nodes_in (rel @ ''/'') es) (\<lambda>ns. Inr ((rel @ ''/'') # ns))"
| "walk_node rel Symlink = Inl rel"

definition walk_output_nodes :: "tree \<Rightarrow> string + string list" where
  "walk_output_nodes t = (case t of Dir es \<Rightarrow> walk_nodes_in [] es | _ \<Rightarrow> Inl [])"

text \<open>The names in a tree.\<close>

fun entry_names :: "(string \<times> tree) list \<Rightarrow> string list" and tree_names :: "tree \<Rightarrow> string list" where
  "entry_names [] = []"
| "entry_names ((n, t) # es) = n # tree_names t @ entry_names es"
| "tree_names (Reg b) = []"
| "tree_names (Dir es) = entry_names es"
| "tree_names Symlink = []"

section \<open>Well-formed trees\<close>

definition node_name :: "string \<Rightarrow> bool" where
  "node_name n \<longleftrightarrow> n \<noteq> [] \<and> CHR ''/'' \<notin> set n"

fun entries_ok :: "(string \<times> tree) list \<Rightarrow> bool" and tree_ok :: "tree \<Rightarrow> bool" where
  "entries_ok [] \<longleftrightarrow> True"
| "entries_ok ((n, t) # es) \<longleftrightarrow> node_name n \<and> (\<forall>m \<in> fst ` set es. n < m) \<and> tree_ok t \<and> entries_ok es"
| "tree_ok (Reg b) \<longleftrightarrow> True"
| "tree_ok (Dir es) \<longleftrightarrow> entries_ok es"
| "tree_ok Symlink \<longleftrightarrow> True"

lemma entries_ok_iff:
  "entries_ok es \<longleftrightarrow> bt_ok es \<and> (\<forall>n t. (n, t) \<in> set es \<longrightarrow> node_name n \<and> tree_ok t)"
  by (induction es) auto

lemma entries_ok_insert:
  assumes "entries_ok es" "node_name n" "tree_ok t"
  shows "entries_ok (bt_insert n t es)"
proof -
  have "bt_ok es" "\<forall>m u. (m, u) \<in> set es \<longrightarrow> node_name m \<and> tree_ok u"
    using assms(1) by (auto simp: entries_ok_iff)
  moreover have "(m, u) = (n, t) \<or> (m, u) \<in> set es" if "(m, u) \<in> set (bt_insert n t es)" for m u
    using that set_bt_insert_subset [of n t es] by blast
  ultimately show ?thesis
    using assms(2,3) unfolding entries_ok_iff by (metis bt_insert_ok prod.inject)
qed

lemma entries_ok_lookup: "entries_ok es \<Longrightarrow> map_of es n = Some t \<Longrightarrow> node_name n \<and> tree_ok t"
  by (auto simp: entries_ok_iff dest: map_of_SomeD)

lemma entries_ok_tree: "map_of es n = Some t \<Longrightarrow> entries_ok es \<Longrightarrow> tree_ok t"
  using entries_ok_lookup by blast

lemma tree_at_append: "tree_at t (p @ q) = Option.bind (tree_at t p) (\<lambda>u. tree_at u q)"
  by (induction t p rule: tree_at.induct) (auto split: option.splits)

lemma tree_at_names:
  "tree_ok t \<Longrightarrow> tree_at t p = Some u \<Longrightarrow> (\<forall>n \<in> set p. node_name n) \<and> tree_ok u"
proof (induction t p rule: tree_at.induct)
  case (2 es n p)
  then obtain v where v: "map_of es n = Some v" "tree_at v p = Some u" by (auto split: option.splits)
  moreover have "node_name n \<and> tree_ok v" using 2 v(1) entries_ok_lookup by simp
  ultimately show ?case using "2.IH" by auto
qed auto

lemma make_dirs_ok:
  "make_dirs p t = Some t' \<Longrightarrow> tree_ok t \<Longrightarrow> \<forall>n \<in> set p. node_name n \<Longrightarrow> tree_ok t'"
  by (induction p t arbitrary: t' rule: make_dirs.induct)
    (auto split: option.splits intro!: entries_ok_insert, (metis entries_ok_tree)+)

lemma put_file_ok:
  "put_file p b t = Some t' \<Longrightarrow> tree_ok t \<Longrightarrow> \<forall>n \<in> set p. node_name n \<Longrightarrow> tree_ok t'"
  by (induction p b t arbitrary: t' rule: put_file.induct)
    (auto split: option.splits tree.splits intro!: entries_ok_insert, (metis entries_ok_tree)+)

lemma drop_node_ok: "tree_ok t \<Longrightarrow> tree_ok (drop_node p t)"
proof (induction p t rule: drop_node.induct)
  case (1 n es)
  then show ?case by (auto simp: entries_ok_iff bt_ok_filter)
next
  case (2 n m p es)
  then show ?case
    by (auto split: option.splits intro!: entries_ok_insert dest: entries_ok_lookup)
qed auto

lemma remove_empty_parents_ok: "tree_ok t \<Longrightarrow> tree_ok (remove_empty_parents p t)"
proof (induction p t rule: remove_empty_parents.induct)
  case (1 p t)
  then show ?case by (subst remove_empty_parents.simps) (auto intro: drop_node_ok)
qed

end
