(* ===== verification/Content_Outputs.thy ===== *)
theory Content_Outputs
  imports Content_Tree Content_Model Rust_Text
begin

text \<open>
  What content-build publishes for the web (\<^verbatim>\<open>content-build/src/main.rs\<close>): who owns which output,
  the manifest of the outputs of the last build, the check for conflicts before anything is
  touched, and the replacement of the old outputs by the staged ones.
\<close>

datatype web_conflict =
    Already_claimed string string string string | Claimed_twice string string string
  | Reserved_route string string string | Reserved_prefix string string

datatype build_error =
    Bad_output string | Manifest_line nat | Manifest_repeat nat | Link_in_tree string
  | Web_conflicts "web_conflict list" | Io_error | Backup_exists | Staging_differs

section \<open>The manifest of the outputs\<close>

definition validate_output_rel :: "string \<Rightarrow> build_error + unit" where
  "validate_output_rel rel =
     (if rel = [] \<or> prefix ''/'' rel \<or> suffix ''/'' rel \<or> CHR 92 \<in> set rel then Inl (Bad_output rel)
      else if list_ex (\<lambda>part. part \<in> {[], ''.'', ''..''}) (split_on (CHR ''/'') rel) then Inl (Bad_output rel)
      else Inr ())"

fun manifest_outputs ::
  "nat \<Rightarrow> (string \<times> string) list \<Rightarrow> string list \<Rightarrow> build_error + (string \<times> string) list"
where
  "manifest_outputs index outputs [] = Inr outputs"
| "manifest_outputs index outputs (line # rest) =
     (case split_once (CHR 0x09) line of
        None \<Rightarrow> Inl (Manifest_line (index + 1))
      | Some (rel, owner) \<Rightarrow>
          and_then (validate_output_rel rel) (\<lambda>_.
            if owner = [] \<or> map_of outputs rel \<noteq> None then Inl (Manifest_repeat (index + 1))
            else manifest_outputs (index + 1) (bt_insert rel owner outputs) rest))"

text \<open>The argument is the file, if there is one.\<close>

definition read_web_manifest :: "string option \<Rightarrow> build_error + ((string \<times> string) list \<times> bool)" where
  "read_web_manifest file_text =
     (case file_text of
        None \<Rightarrow> Inr ([], False)
      | Some s \<Rightarrow> and_then (manifest_outputs 0 [] (lines_of (CHR 0x0A) (CHR 0x0D) s)) (\<lambda>outputs. Inr (outputs, True)))"

definition web_manifest :: "(string \<times> string) list \<Rightarrow> string" where
  "web_manifest desired = concat (map (\<lambda>(rel, owner). rel @ [CHR 0x09] @ owner @ [CHR 0x0A]) desired)"

section \<open>Claims\<close>

definition clash :: "string \<Rightarrow> string \<Rightarrow> bool" where
  "clash claimed rel \<longleftrightarrow> claimed = rel \<or> prefix (rel @ ''/'') claimed \<or> prefix (claimed @ ''/'') rel"

definition claim_output ::
  "string \<Rightarrow> string \<Rightarrow> (string \<times> string) list \<times> web_conflict list \<Rightarrow> (string \<times> string) list \<times> web_conflict list"
where
  "claim_output rel owner = (\<lambda>(claims, errors).
     (bt_or_insert rel owner claims,
      errors @ map (\<lambda>(claimed, claimed_owner). Already_claimed rel claimed_owner claimed owner)
                 (filter (\<lambda>(claimed, _). clash claimed rel) claims)))"

definition reserved_route_owner :: "string \<Rightarrow> string option" where
  "reserved_route_owner key =
     (if key = ''blog'' then Some ''system article list /blog/''
      else if key = ''ws'' then Some ''WebSocket system route /ws''
      else if key = ''api'' \<or> prefix ''api/'' key then Some ''HTTP API prefix /api/''
      else if key = ''assets'' \<or> prefix ''assets/'' key then Some ''Vite static asset prefix /assets/''
      else if key = ''fonts'' \<or> prefix ''fonts/'' key then Some ''font asset prefix /fonts/''
      else None)"

record claim_state =
  cl_claims :: "(string \<times> string) list"
  cl_desired :: "(string \<times> string) list"
  cl_errors :: "web_conflict list"

definition claim_desired :: "string \<Rightarrow> string \<Rightarrow> claim_state \<Rightarrow> claim_state" where
  "claim_desired rel owner s =
     (case claim_output rel owner (cl_claims s, cl_errors s) of
        (claims, errors) \<Rightarrow>
          \<lparr>cl_claims = claims, cl_desired = bt_insert rel owner (cl_desired s),
           cl_errors = errors @ (case map_of (cl_desired s) rel of
                                   Some first \<Rightarrow> [Claimed_twice rel first owner] | None \<Rightarrow> [])\<rparr>)"

definition GLOBAL_LIST_DIRECTORY :: string where "GLOBAL_LIST_DIRECTORY = ''blog''"
definition GLOBAL_LIST_OUTPUT :: string where "GLOBAL_LIST_OUTPUT = ''blog/index.html''"

definition static_owner :: "string \<Rightarrow> string" where
  "static_owner rel = ''Vite/public static file '' @ rel"

text \<open>The nodes of the tree that are no outputs of the last build; without a manifest the directory
  of the articles is one of its outputs.\<close>

definition static_nodes :: "(string \<times> string) list \<Rightarrow> bool \<Rightarrow> string list \<Rightarrow> string list" where
  "static_nodes old_outputs has_manifest existing =
     filter (\<lambda>rel. \<not> (map_of old_outputs rel \<noteq> None \<or> (\<not> has_manifest \<and> prefix ''blog/'' rel))) existing"

definition claim_existing :: "string \<Rightarrow> claim_state \<Rightarrow> claim_state" where
  "claim_existing rel s =
     (case claim_output rel (static_owner rel) (cl_claims s, cl_errors s) of
        (claims, errors) \<Rightarrow> s\<lparr>cl_claims := claims, cl_errors := errors\<rparr>)"

definition system_outputs :: "bool \<Rightarrow> (string \<times> string) list" where
  "system_outputs has_site_url =
     [(GLOBAL_LIST_OUTPUT, ''system article list /blog/''),
      (''robots.txt'', ''system feed artifact robots.txt'')]
     @ (if has_site_url then [(''sitemap.xml'', ''system feed artifact sitemap.xml''),
                              (''atom.xml'', ''system feed artifact atom.xml'')] else [])"

definition article_output :: "article_path \<Rightarrow> string" where
  "article_output a = ap_key a @ ''/index.html''"

definition claim_article :: "article_path \<Rightarrow> claim_state \<Rightarrow> claim_state" where
  "claim_article a s =
     claim_desired (article_output a) (''article '' @ ap_source_rel a)
       (case reserved_route_owner (ap_key a) of
          Some system \<Rightarrow> s\<lparr>cl_errors := cl_errors s @ [Reserved_route (ap_route a) system (ap_source_rel a)]\<rparr>
        | None \<Rightarrow> s)"

definition claim_image :: "string \<times> string \<Rightarrow> claim_state \<Rightarrow> claim_state" where
  "claim_image = (\<lambda>(rel, source) s.
     claim_desired rel (''article image '' @ source)
       (if hd (split_on (CHR ''/'') rel) \<in> {''assets'', ''fonts'', ''api''}
        then s\<lparr>cl_errors := cl_errors s @ [Reserved_prefix rel source]\<rparr> else s))"

definition build_web_claims ::
  "tree \<Rightarrow> (string \<times> string) list \<Rightarrow> bool \<Rightarrow> article_path list \<Rightarrow> (string \<times> string) list \<Rightarrow> bool
   \<Rightarrow> build_error + (string \<times> string) list"
where
  "build_web_claims dist old_outputs has_manifest arts asset_owners has_site_url =
     (case walk_output_nodes dist of
        Inl p \<Rightarrow> Inl (Link_in_tree p)
      | Inr existing \<Rightarrow>
          let s = fold claim_existing (static_nodes old_outputs has_manifest existing)
                    \<lparr>cl_claims = [], cl_desired = [], cl_errors = []\<rparr>;
              s = fold (\<lambda>(rel, owner). claim_desired rel owner) (system_outputs has_site_url) s;
              s = fold claim_article arts s;
              s = fold claim_image asset_owners s
          in if cl_errors s \<noteq> [] then Inl (Web_conflicts (cl_errors s)) else Inr (cl_desired s))"

section \<open>Staging\<close>

abbreviation comps :: "string \<Rightarrow> string list" where
  "comps rel \<equiv> split_on (CHR ''/'') rel"

text \<open>\<open>create_dir_all\<close> of the parent, then the file.\<close>

definition write_in :: "string \<Rightarrow> bytes \<Rightarrow> tree \<Rightarrow> tree option" where
  "write_in rel b t = Option.bind (make_dirs (butlast (comps rel)) t) (put_file (comps rel) b)"

fun stage_files :: "(string \<times> bytes) list \<Rightarrow> tree \<Rightarrow> tree option" where
  "stage_files [] t = Some t"
| "stage_files ((rel, b) # fs) t = Option.bind (write_in rel b t) (stage_files fs)"

text \<open>The files found in the staging directory have to be the claimed ones.\<close>

definition check_staging :: "tree \<Rightarrow> (string \<times> string) list \<Rightarrow> build_error + string list" where
  "check_staging stage desired =
     (case walk_regular_files stage of
        Inl p \<Rightarrow> Inl (Link_in_tree p)
      | Inr staged \<Rightarrow> if set staged \<noteq> fst ` set desired then Inl Staging_differs else Inr staged)"

section \<open>Publication\<close>

text \<open>The steps of \<open>commit_web_outputs\<close>, each of which a failing call or a crash may be the last to
  precede.\<close>

datatype publish_step = Clear_legacy | Unlink string | Dirs_for string | Copy_in string | Rename_in string

definition temp_of :: "nat \<Rightarrow> string \<Rightarrow> string list" where
  "temp_of pid rel =
     butlast (comps rel) @ [''.'' @ last (comps rel) @ ''.content-build-'' @ show_nat pid]"

definition publish_steps :: "(string \<times> string) list \<Rightarrow> bool \<Rightarrow> string list \<Rightarrow> publish_step list" where
  "publish_steps old_outputs has_manifest staged =
     (if has_manifest then [] else [Clear_legacy]) @ map (Unlink \<circ> fst) old_outputs
     @ concat (map (\<lambda>rel. [Dirs_for rel, Copy_in rel, Rename_in rel]) staged)"

fun run_publish_step :: "nat \<Rightarrow> tree \<Rightarrow> publish_step \<Rightarrow> tree \<Rightarrow> tree option" where
  "run_publish_step pid stage Clear_legacy t =
     (case tree_at t [GLOBAL_LIST_DIRECTORY] of
        None \<Rightarrow> Some t
      | Some (Dir _) \<Rightarrow> Some (drop_node [GLOBAL_LIST_DIRECTORY] t)
      | Some _ \<Rightarrow> None)"
| "run_publish_step pid stage (Unlink rel) t =
     (if validate_output_rel rel \<noteq> Inr () then None
      else Some (if reg_at t (comps rel) = None then t
                 else remove_empty_parents (butlast (comps rel)) (drop_node (comps rel) t)))"
| "run_publish_step pid stage (Dirs_for rel) t = make_dirs (butlast (comps rel)) t"
| "run_publish_step pid stage (Copy_in rel) t =
     Option.bind (reg_at stage (comps rel)) (\<lambda>b. put_file (temp_of pid rel) b t)"
| "run_publish_step pid stage (Rename_in rel) t =
     Option.bind (reg_at t (temp_of pid rel)) (\<lambda>b. put_file (comps rel) b (drop_node (temp_of pid rel) t))"

fun run_publish_steps :: "nat \<Rightarrow> tree \<Rightarrow> publish_step list \<Rightarrow> tree \<Rightarrow> tree option" where
  "run_publish_steps pid stage [] t = Some t"
| "run_publish_steps pid stage (s # ss) t = Option.bind (run_publish_step pid stage s t) (run_publish_steps pid stage ss)"

definition commit_web_outputs ::
  "nat \<Rightarrow> tree \<Rightarrow> (string \<times> string) list \<Rightarrow> bool \<Rightarrow> string list \<Rightarrow> tree \<Rightarrow> tree option"
where
  "commit_web_outputs pid stage old_outputs has_manifest staged =
     run_publish_steps pid stage (publish_steps old_outputs has_manifest staged)"

text \<open>\<open>replace_tree\<close> on the destination and its backup, with the outcomes of its calls: the rename to
  the backup, the rename of the staged tree, the rename back, the removal of the backup.\<close>

definition replace_tree ::
  "bool \<times> bool \<times> bool \<times> bool \<Rightarrow> tree \<Rightarrow> tree option \<times> tree option \<Rightarrow> (build_error + unit) \<times> tree option \<times> tree option"
where
  "replace_tree io staged st =
     (case (io, st) of
        ((away, into, undo, clear), (dest, backup)) \<Rightarrow>
          if backup \<noteq> None then (Inl Backup_exists, st)
          else if dest \<noteq> None \<and> \<not> away then (Inl Io_error, st)
          else if \<not> into then (Inl Io_error, if dest \<noteq> None \<and> \<not> undo then (None, dest) else st)
          else if dest \<noteq> None \<and> \<not> clear then (Inl Io_error, (Some staged, dest))
          else (Inr (), (Some staged, None)))"

text \<open>A replaced tree is never lost: after any failure it is the destination or the backup, or the
  new tree is the destination.\<close>

lemma replace_tree_keeps:
  assumes "replace_tree io staged (Some t, None) = (r, dest, backup)"
  shows "dest = Some t \<or> backup = Some t \<or> (r = Inr () \<and> dest = Some staged)"
  using assms by (auto simp: replace_tree_def split: if_splits prod.splits)

end
