(* ===== verification/Content_Tree_Facts.thy ===== *)
theory Content_Tree_Facts
  imports Content_Tree Content_Model
begin

text \<open>
  What the operations on trees do, seen through the kind of node at each path: a file put, the
  directories above it made, a node taken away are updates of that function; and a scan lists it.
\<close>

section \<open>The kind of node at a path\<close>

datatype kind = K_reg bytes | K_dir | K_link

fun kind_of :: "tree \<Rightarrow> kind" where
  "kind_of (Reg b) = K_reg b"
| "kind_of (Dir _) = K_dir"
| "kind_of Symlink = K_link"

definition kind_at :: "tree \<Rightarrow> string list \<Rightarrow> kind option" where
  "kind_at t p = map_option kind_of (tree_at t p)"

lemma kind_at_simps [simp]:
  "kind_at t [] = Some (kind_of t)"
  "kind_at (Dir es) (n # p) = (case map_of es n of None \<Rightarrow> None | Some t \<Rightarrow> kind_at t p)"
  "kind_at (Reg b) p = (if p = [] then Some (K_reg b) else None)"
  "kind_at Symlink p = (if p = [] then Some K_link else None)"
  by (cases p, auto simp: kind_at_def split: option.splits)+

lemma kind_of_dir: "kind_of t = K_dir \<longleftrightarrow> (\<exists>es. t = Dir es)"
  by (cases t) auto

lemma reg_at_kind: "reg_at t p = Some b \<longleftrightarrow> kind_at t p = Some (K_reg b)"
  by (auto simp: reg_at_def kind_at_def split: option.splits tree.splits elim: kind_of.elims)

lemma kind_at_append_None: "kind_at t p = None \<Longrightarrow> kind_at t (p @ q) = None"
  by (induction t p rule: tree_at.induct) (auto split: option.splits)

lemma kind_at_below: "kind_at t (p @ n # q) \<noteq> None \<Longrightarrow> kind_at t p = Some K_dir"
proof (induction t p rule: tree_at.induct)
  case (1 t)
  then show ?case by (cases t) auto
qed (auto split: option.splits)

lemma kind_at_names: "tree_ok t \<Longrightarrow> kind_at t p = Some k \<Longrightarrow> \<forall>n \<in> set p. node_name n"
  by (auto simp: kind_at_def dest: tree_at_names)

section \<open>The operations as updates\<close>

lemma kind_at_empty: "kind_at (Dir []) q = (if q = [] then Some K_dir else None)"
  by (cases q) auto

lemma make_dirs_kind:
  "make_dirs p t = Some t' \<Longrightarrow> kind_at t' q = (if prefix q p then Some K_dir else kind_at t q)"
proof (induction p t arbitrary: t' q rule: make_dirs.induct)
  case (2 n p es)
  show ?case
  proof (cases q)
    case (Cons m q')
    with 2 show ?thesis
      by (auto split: option.splits simp: kind_at_empty)
  qed (use 2 in \<open>auto split: option.splits\<close>)
qed (auto simp: kind_at_empty)

lemma make_dirs_total:
  assumes "kind_of t = K_dir" "\<And>q. prefix q p \<Longrightarrow> kind_at t q \<in> {None, Some K_dir}"
  shows "\<exists>t'. make_dirs p t = Some t'"
  using assms
proof (induction p t rule: make_dirs.induct)
  case (2 n p es)
  show ?case
  proof (cases "map_of es n")
    case None
    moreover have "\<exists>t'. make_dirs p (Dir []) = Some t'"
      using None by (intro "2.IH"(1)) (auto simp: kind_at_empty)
    ultimately show ?thesis by auto
  next
    case (Some t)
    have kinds: "kind_at t q \<in> {None, Some K_dir}" if "prefix q p" for q
      using "2.prems"(2) [of "n # q"] that Some by simp
    then have "kind_of t = K_dir" by (metis Nil_prefix kind_at_simps(1) insertE option.distinct(1) option.inject singletonD)
    with kinds have "\<exists>t'. make_dirs p t = Some t'" by (intro "2.IH"(2) [OF Some]) auto
    with Some show ?thesis by auto
  qed
qed (auto simp: kind_of_dir)

lemma put_file_kind:
  "put_file p b t = Some t' \<Longrightarrow> kind_at t' q = (if q = p then Some (K_reg b) else kind_at t q)"
proof (induction p b t arbitrary: t' q rule: put_file.induct)
  case (1 n b es)
  then show ?case
  proof (cases q)
    case (Cons m q')
    with 1 show ?thesis
      by (cases q') (auto split: option.splits tree.splits)
  qed (auto split: option.splits tree.splits)
next
  case (2 n m p b es)
  then show ?case
    by (cases q) (auto split: option.splits)
qed auto

lemma put_file_total:
  assumes "p \<noteq> []" "kind_at t (butlast p) = Some K_dir" "kind_at t p \<noteq> Some K_dir"
  shows "\<exists>t'. put_file p b t = Some t'"
  using assms
proof (induction p b t rule: put_file.induct)
  case (1 n b es)
  then show ?case by (auto split: option.splits tree.splits)
next
  case (2 n m p b es)
  then show ?case by (auto split: option.splits if_splits)
qed (auto simp: kind_of_dir split: if_splits)

lemma leaf_kind:
  "p \<noteq> [] \<Longrightarrow> prefix p q \<Longrightarrow> kind_at (Reg b) q = None"
  "p \<noteq> [] \<Longrightarrow> prefix p q \<Longrightarrow> kind_at Symlink q = None"
  by (cases p; cases q; auto)+

lemma drop_node_kind:
  "p \<noteq> [] \<Longrightarrow> kind_at (drop_node p t) q = (if prefix p q then None else kind_at t q)"
proof (induction p t arbitrary: q rule: drop_node.induct)
  case (1 n es)
  then show ?case by (cases q) (auto simp: map_of_filter_key)
next
  case (2 n m p es)
  then show ?case by (cases q) (auto split: option.splits)
qed (auto simp: leaf_kind)

text \<open>Pruning takes directories away only.\<close>

lemma remove_empty_parents_kind:
  "kind_at (remove_empty_parents p t) q = kind_at t q
    \<or> (kind_at t q = Some K_dir \<and> q \<noteq> [] \<and> kind_at (remove_empty_parents p t) q = None)"
proof (induction p t rule: remove_empty_parents.induct)
  case (1 p t)
  show ?case
  proof (cases "p \<noteq> [] \<and> tree_at t p = Some (Dir [])")
    case True
    then have step: "remove_empty_parents p t = remove_empty_parents (butlast p) (drop_node p t)"
      by (subst remove_empty_parents.simps) simp
    have "kind_at t (p @ r) = (if r = [] then Some K_dir else None)" for r
      using True kind_at_empty [of r] by (simp add: kind_at_def tree_at_append)
    then have "kind_at (drop_node p t) q = kind_at t q \<or> (q = p \<and> kind_at t q = Some K_dir \<and> kind_at (drop_node p t) q = None)"
      using True by (auto simp: drop_node_kind prefix_def split: if_splits)
    then show ?thesis
      using "1.IH" True unfolding step by auto
  next
    case False
    then show ?thesis by (subst (1 2) remove_empty_parents.simps) auto
  qed
qed


section \<open>Scans\<close>

text \<open>\<open>below p\<close>: the components of a path, each after a slash.\<close>

definition below :: "string list \<Rightarrow> string" where
  "below p = concat (map (\<lambda>n. CHR ''/'' # n) p)"

lemma below_simps [simp]: "below [] = []" "below (n # p) = CHR ''/'' # n @ below p"
  by (simp_all add: below_def)

lemma path_of_below: "path_of (n # p) = n @ below p"
  by (induction p arbitrary: n) simp_all

text \<open>What a scan shows of a node: a regular file by its path, a directory with a slash after it.\<close>

definition listed_as :: "tree \<Rightarrow> string list \<Rightarrow> string \<Rightarrow> bool" where
  "listed_as t p tail \<longleftrightarrow> (\<exists>b. kind_at t p = Some (K_reg b)) \<and> tail = [] \<or> kind_at t p = Some K_dir \<and> tail = ''/''"

definition no_links :: "tree \<Rightarrow> bool" where
  "no_links t \<longleftrightarrow> (\<forall>p. kind_at t p \<noteq> Some K_link)"

lemma shown_Nil: "listed_as t [] tail \<longleftrightarrow> (case t of Reg _ \<Rightarrow> tail = [] | Dir _ \<Rightarrow> tail = ''/'' | Symlink \<Rightarrow> False)"
  by (cases t) (auto simp: listed_as_def)

lemma kind_at_entry:
  "kind_at (Dir ((n, t) # es)) (m # p) = (if m = n then kind_at t p else kind_at (Dir es) (m # p))"
  by simp

lemma shown_entry:
  "listed_as (Dir ((n, t) # es)) (m # p) tail \<longleftrightarrow> (if m = n then listed_as t p tail else listed_as (Dir es) (m # p) tail)"
  by (auto simp: listed_as_def)

lemma no_links_entry:
  assumes "map_of es n = None"
  shows "no_links (Dir ((n, t) # es)) \<longleftrightarrow> no_links t \<and> no_links (Dir es)"
proof
  assume l: "no_links (Dir ((n, t) # es))"
  have "kind_at t p \<noteq> Some K_link" for p
    using l [unfolded no_links_def, rule_format, of "n # p"] by simp
  moreover have "kind_at (Dir es) p \<noteq> Some K_link" for p
    using l [unfolded no_links_def, rule_format, of p] assms by (cases p) (auto split: if_splits option.splits)
  ultimately show "no_links t \<and> no_links (Dir es)" by (simp add: no_links_def)
next
  assume "no_links t \<and> no_links (Dir es)"
  then have "kind_at (Dir ((n, t) # es)) p \<noteq> Some K_link" for p
    by (cases p) (simp_all add: no_links_def kind_at_entry del: kind_at_simps(2))
  then show "no_links (Dir ((n, t) # es))" by (simp add: no_links_def)
qed

lemma no_links_leaf [simp]: "no_links (Reg b)" "\<not> no_links Symlink" "no_links (Dir [])"
  by (auto simp: no_links_def kind_at_empty)

lemma walk_nodes_shown:
  "walk_nodes_in pre es = Inr ns \<Longrightarrow> entries_ok es \<Longrightarrow>
     (\<forall>s. s \<in> set ns \<longleftrightarrow> (\<exists>n p tail. listed_as (Dir es) (n # p) tail \<and> s = pre @ n @ below p @ tail)) \<and> no_links (Dir es)"
  "walk_node rel t = Inr ns \<Longrightarrow> tree_ok t \<Longrightarrow>
     (\<forall>s. s \<in> set ns \<longleftrightarrow> (\<exists>p tail. listed_as t p tail \<and> s = rel @ below p @ tail)) \<and> no_links t"
proof (induction pre es and rel t arbitrary: ns and ns rule: walk_nodes_in_walk_node.induct)
  case (1 pre)
  then show ?case by (simp add: listed_as_def)
next
  case (2 pre n t es)
  from "2.prems" obtain a b where ab: "walk_node (pre @ n) t = Inr a" "walk_nodes_in pre es = Inr b" "ns = a @ b"
    by (auto simp: result_simps)
  note t = "2.IH"(1) [OF ab(1)] and es = "2.IH"(2) [OF ab(1,2)]
  have fresh: "map_of es n = None" "\<not> listed_as (Dir es) (n # p) tail" for p tail
  proof -
    have "n \<notin> fst ` set es" using "2.prems"(2) by auto
    then show "map_of es n = None" by (simp add: map_of_eq_None_iff)
    then show "\<not> listed_as (Dir es) (n # p) tail" by (simp add: listed_as_def)
  qed
  show ?case
    unfolding no_links_entry [OF fresh(1)] shown_entry ab(3)
    using t es "2.prems"(2) fresh(2) by (auto; metis append_assoc)
next
  case (3 rel b)
  have "listed_as (Reg b) p tail \<longleftrightarrow> p = [] \<and> tail = []" for p tail by (auto simp: listed_as_def)
  with 3 show ?case by auto
next
  case (4 rel es)
  from "4.prems" obtain b where b: "walk_nodes_in (rel @ ''/'') es = Inr b" "ns = (rel @ ''/'') # b"
    by (auto simp: result_simps)
  with "4.IH" [OF b(1)] "4.prems"(2)
  have es: "\<forall>s. s \<in> set b \<longleftrightarrow> (\<exists>n p tail. listed_as (Dir es) (n # p) tail \<and> s = (rel @ ''/'') @ n @ below p @ tail)"
    "no_links (Dir es)" by simp_all
  have "(\<exists>p tail. listed_as (Dir es) p tail \<and> s = rel @ below p @ tail) \<longleftrightarrow>
      s = rel @ ''/'' \<or> (\<exists>n p tail. listed_as (Dir es) (n # p) tail \<and> s = (rel @ ''/'') @ n @ below p @ tail)" for s
  proof
    assume "\<exists>p tail. listed_as (Dir es) p tail \<and> s = rel @ below p @ tail"
    then obtain p tail where "listed_as (Dir es) p tail" "s = rel @ below p @ tail" by blast
    then show "s = rel @ ''/'' \<or> (\<exists>n p tail. listed_as (Dir es) (n # p) tail \<and> s = (rel @ ''/'') @ n @ below p @ tail)"
      by (cases p) (auto simp: shown_Nil)
  next
    assume "s = rel @ ''/'' \<or> (\<exists>n p tail. listed_as (Dir es) (n # p) tail \<and> s = (rel @ ''/'') @ n @ below p @ tail)"
    then show "\<exists>p tail. listed_as (Dir es) p tail \<and> s = rel @ below p @ tail"
    proof
      assume "s = rel @ ''/''"
      then show ?thesis by (intro exI [of _ "[]"] exI [of _ "''/''"]) (simp add: shown_Nil)
    next
      assume "\<exists>n p tail. listed_as (Dir es) (n # p) tail \<and> s = (rel @ ''/'') @ n @ below p @ tail"
      then obtain n p tail where "listed_as (Dir es) (n # p) tail" "s = (rel @ ''/'') @ n @ below p @ tail" by blast
      then show ?thesis by (intro exI [of _ "n # p"] exI [of _ tail]) simp
    qed
  qed
  with es b show ?case by simp
qed simp

section \<open>Paths as text\<close>

abbreviation names_ok :: "string list \<Rightarrow> bool" where
  "names_ok p \<equiv> \<forall>n \<in> set p. node_name n"

definition slashed :: "string list \<Rightarrow> string" where
  "slashed p = concat (map (\<lambda>n. n @ ''/'') p)"

lemma slashed_simps [simp]: "slashed [] = []" "slashed (n # p) = n @ CHR ''/'' # slashed p"
  by (simp_all add: slashed_def)

lemma path_of_slashed: "p \<noteq> [] \<Longrightarrow> path_of p @ ''/'' = slashed p"
  by (induction p rule: induct_list012) auto

lemma no_sep_append: "c \<notin> set a \<Longrightarrow> c \<notin> set b \<Longrightarrow> a @ c # x = b @ c # y \<longleftrightarrow> a = b \<and> x = y"
  by (metis split_once_Some option.inject prod.inject)

lemma prefix_no_sep:
  assumes "c \<notin> set a" "c \<notin> set b"
  shows "prefix (a @ c # x) (b @ c # y) \<longleftrightarrow> a = b \<and> prefix x y"
  by (auto simp: prefix_def no_sep_append [OF assms(2,1)])

lemma prefix_slashed: "names_ok p \<Longrightarrow> names_ok q \<Longrightarrow> prefix (slashed p) (slashed q) \<longleftrightarrow> prefix p q"
proof (induction p arbitrary: q)
  case (Cons n p)
  then show ?case by (cases q) (auto simp: prefix_no_sep node_name_def)
qed simp

lemma slashed_inj: "names_ok p \<Longrightarrow> names_ok q \<Longrightarrow> slashed p = slashed q \<longleftrightarrow> p = q"
  using prefix_slashed [of p q] prefix_slashed [of q p] by (metis prefix_order.antisym prefix_order.refl)

lemma path_of_inj: "names_ok p \<Longrightarrow> names_ok q \<Longrightarrow> p \<noteq> [] \<Longrightarrow> q \<noteq> [] \<Longrightarrow> path_of p = path_of q \<longleftrightarrow> p = q"
  using slashed_inj [of p q] by (metis path_of_slashed)

lemma prefix_path_of:
  assumes "names_ok p" "names_ok q" "p \<noteq> []" "q \<noteq> []"
  shows "prefix (path_of p @ ''/'') (path_of q) \<longleftrightarrow> strict_prefix p q"
proof -
  have "path_of q = butlast (slashed q)" using path_of_slashed [OF assms(4)] by (metis butlast_snoc)
  moreover have "slashed q \<noteq> []" using assms(4) by (cases q) auto
  then have "prefix A (butlast (slashed q)) \<longleftrightarrow> prefix A (slashed q) \<and> A \<noteq> slashed q" for A
    by (metis append_butlast_last_id prefix_snoc prefix_order.refl butlast_append
        not_prefix_cases prefix_length_le length_append_singleton not_less_eq_eq order_refl)
  ultimately show ?thesis
    using prefix_slashed [OF assms(1,2)] slashed_inj [OF assms(1,2)] path_of_slashed [OF assms(3)]
    by (simp add: strict_prefix_def)
qed

lemma prefix_path_of_slash:
  assumes "names_ok p" "names_ok q" "p \<noteq> []" "q \<noteq> []"
  shows "prefix (path_of p @ ''/'') (path_of q @ ''/'') \<longleftrightarrow> prefix p q"
  unfolding path_of_slashed [OF assms(3)] path_of_slashed [OF assms(4)] using assms(1,2) by (rule prefix_slashed)

lemma path_of_no_double: "names_ok p \<Longrightarrow> names_ok q \<Longrightarrow> \<not> prefix (slashed p @ ''/'') (path_of q)"
proof (induction p arbitrary: q)
  case Nil
  then show ?case
  proof (cases q)
    case (Cons m q')
    with Nil show ?thesis by (cases m) (auto simp: path_of_below node_name_def)
  qed simp
next
  case (Cons n p)
  show ?case
  proof
    assume pre: "prefix (slashed (n # p) @ ''/'') (path_of q)"
    then obtain m q' where q: "q = m # q'" by (cases q) (auto simp: prefix_def)
    show False
    proof (cases q')
      case Nil
      with pre q have "CHR ''/'' \<in> set m" by (auto simp: prefix_def)
      with Cons.prems q show False by (simp add: node_name_def)
    next
      case (Cons l r)
      with pre q have "prefix (n @ CHR ''/'' # (slashed p @ ''/'')) (m @ CHR ''/'' # path_of q')" by simp
      with Cons.prems q have "prefix (slashed p @ ''/'') (path_of q')"
        by (subst (asm) prefix_no_sep) (auto simp: node_name_def)
      with Cons.IH [of q'] Cons.prems q show False by simp
    qed
  qed
qed

lemma path_of_no_slash_end: "names_ok q \<Longrightarrow> q \<noteq> [] \<Longrightarrow> path_of q \<noteq> s @ ''/''"
proof
  assume q: "names_ok q" "q \<noteq> []" "path_of q = s @ ''/''"
  then have "split_on (CHR ''/'') (s @ ''/'') = q" using split_join [of q "CHR ''/''"] by (auto simp: node_name_def)
  then have "[] \<in> set q" by (auto simp: split_on_append_sep)
  with q(1) show False by (auto simp: node_name_def)
qed

lemma comps_path_of: "names_ok q \<Longrightarrow> q \<noteq> [] \<Longrightarrow> split_on (CHR ''/'') (path_of q) = q"
  by (rule split_join) (auto simp: node_name_def)

lemma first_name: "CHR ''/'' \<notin> set n \<Longrightarrow> listed_as v r u \<Longrightarrow> takeWhile (\<lambda>c. c \<noteq> CHR ''/'') (n @ below r @ u) = n"
proof (induction n)
  case Nil
  then show ?case by (cases r) (auto simp: listed_as_def)
qed auto

lemma walk_nodes_distinct:
  "walk_nodes_in pre es = Inr ns \<Longrightarrow> entries_ok es \<Longrightarrow> distinct ns"
  "walk_node rel t = Inr ns \<Longrightarrow> tree_ok t \<Longrightarrow> distinct ns"
proof (induction pre es and rel t arbitrary: ns and ns rule: walk_nodes_in_walk_node.induct)
  case (2 pre n t es)
  from "2.prems" obtain a b where ab: "walk_node (pre @ n) t = Inr a" "walk_nodes_in pre es = Inr b" "ns = a @ b"
    by (auto simp: result_simps)
  have "s \<notin> set b" if "s \<in> set a" for s
  proof
    assume "s \<in> set b"
    then obtain m p tail where m: "listed_as (Dir es) (m # p) tail" "s = pre @ m @ below p @ tail"
      using walk_nodes_shown(1) [OF ab(2)] "2.prems"(2) by auto
    from that obtain q tail' where q: "listed_as t q tail'" "s = (pre @ n) @ below q @ tail'"
      using walk_nodes_shown(2) [OF ab(1)] "2.prems"(2) by auto
    have "m \<in> fst ` set es" using m(1) by (auto simp: listed_as_def split: option.splits dest: map_of_SomeD intro: rev_image_eqI)
    moreover have "node_name m" using m(1) "2.prems"(2) kind_at_names [of "Dir es" "m # p"] by (auto simp: listed_as_def)
    moreover have "n @ below q @ tail' = m @ below p @ tail" using m(2) q(2) by simp
    then have "takeWhile (\<lambda>c. c \<noteq> CHR ''/'') (n @ below q @ tail') = takeWhile (\<lambda>c. c \<noteq> CHR ''/'') (m @ below p @ tail)"
      by simp
    ultimately have "n = m"
      using "2.prems"(2) first_name [OF _ q(1), of n] first_name [of m "Dir es" "m # p" tail] m(1)
        first_name [of m _ p tail] by (auto simp: node_name_def listed_as_def split: option.splits)
    with \<open>m \<in> fst ` set es\<close> "2.prems"(2) show False by auto
  qed
  with "2.IH"(1) [OF ab(1)] "2.IH"(2) [OF ab(1,2)] "2.prems"(2) ab(3) show ?case by auto
next
  case (4 rel es)
  then obtain b where b: "walk_nodes_in (rel @ ''/'') es = Inr b" "ns = (rel @ ''/'') # b"
    by (auto simp: result_simps)
  have "rel @ ''/'' \<notin> set b"
  proof
    assume "rel @ ''/'' \<in> set b"
    then obtain n p tail where "listed_as (Dir es) (n # p) tail" "rel @ ''/'' = (rel @ ''/'') @ n @ below p @ tail"
      using walk_nodes_shown(1) [OF b(1)] "4.prems"(2) by auto
    then have "n = []" by simp
    with \<open>listed_as (Dir es) (n # p) tail\<close> "4.prems"(2) kind_at_names [of "Dir es" "n # p"] show False
      by (auto simp: listed_as_def node_name_def)
  qed
  with "4.IH" [OF b(1)] "4.prems"(2) b(2) show ?case by simp
qed auto

lemma walk_nodes_total:
  "no_links (Dir es) \<Longrightarrow> entries_ok es \<Longrightarrow> \<exists>ns. walk_nodes_in pre es = Inr ns"
  "no_links t \<Longrightarrow> tree_ok t \<Longrightarrow> \<exists>ns. walk_node rel t = Inr ns"
proof (induction pre es and rel t rule: walk_nodes_in_walk_node.induct)
  case (2 pre n t es)
  have "map_of es n = None" using "2.prems"(2) by (auto simp: map_of_eq_None_iff)
  from no_links_entry [OF this, of t] "2.prems"(1) have "no_links t" "no_links (Dir es)" by simp_all
  with "2" show ?case by (metis and_then.simps(2) entries_ok.simps(2) walk_nodes_in.simps(2))
next
  case (4 rel es)
  then show ?case by (metis and_then.simps(2) tree_ok.simps(2) walk_node.simps(2))
qed auto

lemma walk_output_nodes_listed:
  assumes "walk_output_nodes t = Inr ns" "tree_ok t"
  shows "s \<in> set ns \<longleftrightarrow> (\<exists>p tail. p \<noteq> [] \<and> listed_as t p tail \<and> s = path_of p @ tail)" "no_links t" "distinct ns"
    "kind_of t = K_dir"
proof -
  from assms obtain es where es: "t = Dir es" "walk_nodes_in [] es = Inr ns" "entries_ok es"
    by (cases t) (auto simp: walk_output_nodes_def)
  note listed_as = walk_nodes_shown(1) [OF es(2,3)]
  have "s \<in> set ns \<longleftrightarrow> (\<exists>n p tail. listed_as t (n # p) tail \<and> s = path_of (n # p) @ tail)"
    using listed_as es(1) by (simp add: path_of_below del: join_with.simps)
  then show "s \<in> set ns \<longleftrightarrow> (\<exists>p tail. p \<noteq> [] \<and> listed_as t p tail \<and> s = path_of p @ tail)"
    by (metis list.exhaust list.distinct(1))
  show "no_links t" "distinct ns" "kind_of t = K_dir"
    using listed_as walk_nodes_distinct(1) [OF es(2,3)] es(1) by simp_all
qed

lemma walk_files_nodes:
  "walk_nodes_in pre es = Inr ns \<Longrightarrow> entries_ok es \<Longrightarrow>
     walk_files_in pre es = Inr (filter (\<lambda>s. \<not> suffix ''/'' s) ns)"
  "walk_node rel t = Inr ns \<Longrightarrow> tree_ok t \<Longrightarrow> \<not> suffix ''/'' rel \<Longrightarrow>
     walk_file rel t = Inr (filter (\<lambda>s. \<not> suffix ''/'' s) ns)"
proof (induction pre es and rel t arbitrary: ns and ns rule: walk_nodes_in_walk_node.induct)
  case (2 pre n t es)
  from "2.prems" obtain a b where ab: "walk_node (pre @ n) t = Inr a" "walk_nodes_in pre es = Inr b" "ns = a @ b"
    by (auto simp: result_simps)
  have "n \<noteq> []" "CHR ''/'' \<notin> set n" using "2.prems"(2) by (auto simp: node_name_def)
  then have "\<not> suffix ''/'' (pre @ n)" by (cases n rule: rev_cases) (auto simp: suffix_def)
  with "2.IH"(1) [OF ab(1)] "2.IH"(2) [OF ab(1,2)] "2.prems"(2) ab(3) show ?case by simp
next
  case (4 rel es)
  then show ?case by (auto simp: result_simps suffix_def)
qed auto

text \<open>The files found are the regular ones.\<close>

lemma walk_regular_files_all:
  assumes "tree_ok t" "no_links t" "kind_of t = K_dir"
  shows "\<exists>fs. walk_regular_files t = Inr fs \<and> set fs = {path_of p |p b. p \<noteq> [] \<and> kind_at t p = Some (K_reg b)}"
proof -
  obtain es where t: "t = Dir es" using assms(3) by (auto simp: kind_of_dir)
  then obtain ns where ns: "walk_nodes_in [] es = Inr ns" using walk_nodes_total(1) assms(1,2) by fastforce
  have "walk_output_nodes t = Inr ns" using t ns by (simp add: walk_output_nodes_def)
  note listed_as = walk_output_nodes_listed(1) [OF this assms(1)]
  have "s \<in> set ns \<and> \<not> suffix ''/'' s \<longleftrightarrow> (\<exists>p b. s = path_of p \<and> p \<noteq> [] \<and> kind_at t p = Some (K_reg b))" for s
  proof
    assume "s \<in> set ns \<and> \<not> suffix ''/'' s"
    with listed_as [of s] show "\<exists>p b. s = path_of p \<and> p \<noteq> [] \<and> kind_at t p = Some (K_reg b)"
      by (auto simp: listed_as_def)
  next
    assume "\<exists>p b. s = path_of p \<and> p \<noteq> [] \<and> kind_at t p = Some (K_reg b)"
    then obtain p b where p: "s = path_of p" "p \<noteq> []" "kind_at t p = Some (K_reg b)" by blast
    then have "listed_as t p []" by (simp add: listed_as_def)
    with p listed_as [of s] have "s \<in> set ns" by fastforce
    moreover have "\<not> suffix ''/'' s"
      using path_of_no_slash_end [OF kind_at_names [OF assms(1) p(3)] p(2)] p(1) by (auto simp: suffix_def)
    ultimately show "s \<in> set ns \<and> \<not> suffix ''/'' s" ..
  qed
  then have "set (filter (\<lambda>s. \<not> suffix ''/'' s) ns) = {path_of p |p b. p \<noteq> [] \<and> kind_at t p = Some (K_reg b)}"
    by auto
  moreover have "walk_regular_files t = Inr (filter (\<lambda>s. \<not> suffix ''/'' s) ns)"
    using walk_files_nodes(1) [OF ns] assms(1) t by (simp add: walk_regular_files_def)
  ultimately show ?thesis by blast
qed

text \<open>The nodes of one tree do not clash.\<close>

lemma listed_disjoint:
  assumes "tree_ok t" "listed_as t p tail" "listed_as t q tail'" "p \<noteq> []" "q \<noteq> []" "path_of p @ tail \<noteq> path_of q @ tail'"
  shows "\<not> prefix (path_of q @ tail' @ ''/'') (path_of p @ tail)"
proof -
  have names: "names_ok p" "names_ok q" using assms(1-3) kind_at_names by (auto simp: listed_as_def)
  have below: "\<not> strict_prefix q p" if "tail' = []"
  proof
    assume "strict_prefix q p"
    then obtain n r where "p = q @ n # r" by (rule strict_prefixE')
    then show False using kind_at_below [of t q n r] assms(2,3) that by (auto simp: listed_as_def)
  qed
  have double: "\<not> prefix (slashed q @ ''/'') (path_of p @ tail)"
  proof (cases "tail = []")
    case True
    then show ?thesis using path_of_no_double names by simp
  next
    case False
    with assms(2) have tail: "tail = ''/''" by (auto simp: listed_as_def)
    have "prefix (slashed q @ ''/'') (path_of p @ ''/'') \<longleftrightarrow> slashed q = path_of p \<or> prefix (slashed q @ ''/'') (path_of p)"
      by simp
    moreover have "slashed q \<noteq> path_of p"
      using path_of_no_slash_end [OF names(1) assms(4)] path_of_slashed [OF assms(5)] by metis
    ultimately show ?thesis using path_of_no_double [OF names(2,1)] tail by simp
  qed
  show ?thesis
  proof (cases "tail' = []")
    case True
    show ?thesis
    proof (cases "tail = []")
      case True
      then show ?thesis using \<open>tail' = []\<close> prefix_path_of names assms(4,5) below by simp
    next
      case False
      with assms(2) have "tail = ''/''" by (auto simp: listed_as_def)
      moreover have "q \<noteq> p" using assms(2,3) False True by (auto simp: listed_as_def)
      ultimately show ?thesis
        using True prefix_path_of_slash [OF names(2,1) assms(5,4)] below by (auto simp: strict_prefix_def)
    qed
  next
    case False
    with assms(3) have "tail' = ''/''" by (auto simp: listed_as_def)
    with double path_of_slashed [OF assms(5)] show ?thesis by (metis append.assoc)
  qed
qed

lemma tree_names_kind:
  "kind_at (Dir es) (p @ [n]) \<noteq> None \<Longrightarrow> n \<in> set (entry_names es)"
  "kind_at t (p @ [n]) \<noteq> None \<Longrightarrow> n \<in> set (tree_names t)"
proof (induction es and t arbitrary: p and p rule: entry_names_tree_names.induct)
  case (2 m t es)
  show ?case
  proof (cases p)
    case Nil
    then have "kind_at (Dir ((m, t) # es)) [n] \<noteq> None" using "2.prems" by simp
    then show ?thesis using "2.IH"(2) [of "[]"] by (auto split: if_splits)
  next
    case (Cons l r)
    then show ?thesis using "2.prems" "2.IH"(1) [of r] "2.IH"(2) [of p] by (auto split: if_splits)
  qed
qed (auto simp: kind_at_empty)

end
