(* ===== verification/Content_Outputs_Facts.thy ===== *)
theory Content_Outputs_Facts
  imports Content_Outputs Content_Tree_Facts
begin

text \<open>
  What the check for conflicts decides, and what the steps of the publication do to a tree whose
  conflicts have been checked.
\<close>

section \<open>Claims\<close>

definition apart :: "string \<Rightarrow> string \<Rightarrow> bool" where
  "apart a b \<longleftrightarrow> \<not> clash a b"

lemma apart_sym: "apart a b \<longleftrightarrow> apart b a"
  by (auto simp: apart_def clash_def)

lemma clash_self [simp]: "clash a a"
  by (simp add: clash_def)

definition claimed :: "claim_state \<Rightarrow> string set" where
  "claimed s = fst ` set (cl_claims s)"

definition claim_ok :: "claim_state \<Rightarrow> bool" where
  "claim_ok s \<longleftrightarrow> dom (map_of (cl_desired s)) \<subseteq> claimed s"

lemma claim_output_errors:
  "snd (claim_output rel owner (claims, errors)) = [] \<longleftrightarrow> errors = [] \<and> (\<forall>c \<in> fst ` set claims. apart c rel)"
  by (auto simp: claim_output_def apart_def filter_empty_conv)

lemma claim_output_claims: "fst ` set (fst (claim_output rel owner (claims, errors))) = insert rel (fst ` set claims)"
  by (simp add: claim_output_def)

lemma claim_desired_step:
  assumes "claim_ok s"
  shows "claimed (claim_desired rel owner s) = insert rel (claimed s)"
    "cl_desired (claim_desired rel owner s) = bt_insert rel owner (cl_desired s)"
    "claim_ok (claim_desired rel owner s)"
    "cl_errors (claim_desired rel owner s) = [] \<longleftrightarrow> cl_errors s = [] \<and> (\<forall>c \<in> claimed s. apart c rel)"
proof -
  let ?o = "claim_output rel owner (cl_claims s, cl_errors s)"
  have oo: "fst ` set (fst ?o) = insert rel (claimed s)" "snd ?o = [] \<longleftrightarrow> cl_errors s = [] \<and> (\<forall>c \<in> claimed s. apart c rel)"
    using claim_output_claims claim_output_errors by (auto simp: claimed_def)
  have d: "claim_desired rel owner s = \<lparr>cl_claims = fst ?o, cl_desired = bt_insert rel owner (cl_desired s),
      cl_errors = snd ?o @ (case map_of (cl_desired s) rel of Some first \<Rightarrow> [Claimed_twice rel first owner] | None \<Rightarrow> [])\<rparr>"
    by (simp add: claim_desired_def split_def)
  show "claimed (claim_desired rel owner s) = insert rel (claimed s)"
    "cl_desired (claim_desired rel owner s) = bt_insert rel owner (cl_desired s)"
    using oo(1) by (simp_all add: d claimed_def)
  then show "claim_ok (claim_desired rel owner s)"
    using assms by (auto simp: claim_ok_def)
  have "map_of (cl_desired s) rel = None" if "\<forall>c \<in> claimed s. apart c rel"
  proof (rule ccontr)
    assume "map_of (cl_desired s) rel \<noteq> None"
    then have "rel \<in> claimed s" using assms by (auto simp: claim_ok_def)
    with that show False by (auto simp: apart_def)
  qed
  then show "cl_errors (claim_desired rel owner s) = [] \<longleftrightarrow> cl_errors s = [] \<and> (\<forall>c \<in> claimed s. apart c rel)"
    using oo(2) by (auto simp: d)
qed

text \<open>A fold of claims, each with errors of its own.\<close>

lemma fold_claims_all:
  assumes "\<And>x s. f x s = claim_desired (g x) (h x) (s\<lparr>cl_errors := cl_errors s @ e x\<rparr>)"
  shows "claim_ok s \<Longrightarrow> claimed (fold f xs s) = set (map g xs) \<union> claimed s
    \<and> cl_desired (fold f xs s) = fold (\<lambda>(r, own). bt_insert r own) (map (\<lambda>x. (g x, h x)) xs) (cl_desired s)
    \<and> claim_ok (fold f xs s)
    \<and> (cl_errors (fold f xs s) = [] \<longleftrightarrow> cl_errors s = [] \<and> (\<forall>x \<in> set xs. e x = [])
       \<and> (\<forall>c \<in> claimed s. \<forall>x \<in> set xs. apart c (g x)) \<and> sorted_wrt apart (map g xs))"
proof (induction xs arbitrary: s)
  case (Cons x xs)
  let ?s = "s\<lparr>cl_errors := cl_errors s @ e x\<rparr>"
  have ok: "claim_ok ?s" "claimed ?s = claimed s" using Cons.prems by (simp_all add: claim_ok_def claimed_def)
  note step = claim_desired_step [OF ok(1), of "g x" "h x", folded assms(1)]
  from Cons.IH [OF step(3)] step ok(2) show ?case by auto
qed simp

lemmas fold_claims =
  fold_claims_all [THEN conjunct1] fold_claims_all [THEN conjunct2, THEN conjunct1]
  fold_claims_all [THEN conjunct2, THEN conjunct2, THEN conjunct1]
  fold_claims_all [THEN conjunct2, THEN conjunct2, THEN conjunct2]

lemma fold_existing:
  "claimed (fold claim_existing xs s) = set xs \<union> claimed s"
  "cl_desired (fold claim_existing xs s) = cl_desired s"
  "cl_errors (fold claim_existing xs s) = [] \<longleftrightarrow> cl_errors s = []
     \<and> (\<forall>c \<in> claimed s. \<forall>x \<in> set xs. apart c x) \<and> sorted_wrt apart xs"
proof (induction xs arbitrary: s)
  case (Cons x xs)
  have step: "claimed (claim_existing x s) = insert x (claimed s)" "cl_desired (claim_existing x s) = cl_desired s"
    "cl_errors (claim_existing x s) = [] \<longleftrightarrow> cl_errors s = [] \<and> (\<forall>c \<in> claimed s. apart c x)" for s
    using claim_output_claims claim_output_errors
    by (simp_all add: claim_existing_def claimed_def split_def)
  {
    case 1
    show ?case by (simp add: Cons.IH(1) step(1))
  next
    case 2
    show ?case using Cons.IH(2) step(2) by simp
  next
    case 3
    show ?case by (simp add: Cons.IH(3) step(1,3)) blast
  }
qed simp_all

definition web_outputs :: "article_path list \<Rightarrow> (string \<times> string) list \<Rightarrow> bool \<Rightarrow> (string \<times> string) list" where
  "web_outputs arts asset_owners has_site_url =
     system_outputs has_site_url @ map (\<lambda>a. (article_output a, ''article '' @ ap_source_rel a)) arts
     @ map (\<lambda>(rel, source). (rel, ''article image '' @ source)) asset_owners"

definition routes_free :: "article_path list \<Rightarrow> (string \<times> string) list \<Rightarrow> bool" where
  "routes_free arts asset_owners \<longleftrightarrow>
     (\<forall>a \<in> set arts. reserved_route_owner (ap_key a) = None)
     \<and> (\<forall>(rel, source) \<in> set asset_owners. hd (comps rel) \<notin> {''assets'', ''fonts'', ''api''})"

definition owned :: "(string \<times> string) list \<Rightarrow> (string \<times> string) list" where
  "owned outs = fold (\<lambda>(r, own). bt_insert r own) outs []"

lemma fold_insert_bt:
  "bt_ok es \<Longrightarrow> bt_ok (fold (\<lambda>(r, own). bt_insert r own) outs es)"
  "fst ` set (fold (\<lambda>(r, own). bt_insert r own) outs es) = fst ` set outs \<union> fst ` set es"
  "set (fold (\<lambda>(r, own). bt_insert r own) outs es) \<subseteq> set outs \<union> set es"
proof (induction outs arbitrary: es)
  case (Cons x outs)
  {
    case 1
    then show ?case using Cons.IH(1) by (simp add: split_def)
  next
    case 2
    show ?case using Cons.IH(2) by (auto simp: split_def)
  next
    case 3
    show ?case using Cons.IH(3) [of "bt_insert (fst x) (snd x) es"] set_bt_insert_subset [of "fst x" "snd x" es]
      by (auto simp: split_def)
  }
qed auto

lemma owned_facts: "bt_ok (owned outs)" "fst ` set (owned outs) = fst ` set outs" "set (owned outs) \<subseteq> set outs"
  using fold_insert_bt [where es = "[]" and outs = outs] by (simp_all add: owned_def)

theorem build_web_claims_Inr:
  "build_web_claims dist old hm arts owners site = Inr desired \<longleftrightarrow>
     (\<exists>ns. walk_output_nodes dist = Inr ns \<and> routes_free arts owners
       \<and> sorted_wrt apart (static_nodes old hm ns @ map fst (web_outputs arts owners site))
       \<and> desired = owned (web_outputs arts owners site))"
proof (cases "walk_output_nodes dist")
  case (Inr ns)
  let ?s0 = "\<lparr>cl_claims = [], cl_desired = [], cl_errors = []\<rparr>"
  define s1 where "s1 = fold claim_existing (static_nodes old hm ns) ?s0"
  define s2 where "s2 = fold (\<lambda>(rel, owner). claim_desired rel owner) (system_outputs site) s1"
  define s3 where "s3 = fold claim_article arts s2"
  define s4 where "s4 = fold claim_image owners s3"
  have s1: "claimed s1 = set (static_nodes old hm ns)" "cl_desired s1 = []"
    "cl_errors s1 = [] \<longleftrightarrow> sorted_wrt apart (static_nodes old hm ns)" "claim_ok s1"
    unfolding s1_def claim_ok_def by (simp_all add: fold_existing, simp_all add: claimed_def)
  have s2: "claimed s2 = set (map fst (system_outputs site)) \<union> claimed s1"
    "cl_desired s2 = fold (\<lambda>(r, own). bt_insert r own) (system_outputs site) (cl_desired s1)" "claim_ok s2"
    "cl_errors s2 = [] \<longleftrightarrow> cl_errors s1 = []
       \<and> (\<forall>c \<in> claimed s1. \<forall>x \<in> set (system_outputs site). apart c (fst x)) \<and> sorted_wrt apart (map fst (system_outputs site))"
    using fold_claims [of "\<lambda>(rel, owner). claim_desired rel owner" fst snd "\<lambda>_. []", OF _ s1(4), of "system_outputs site"]
    unfolding s2_def by (simp_all add: split_def)
  have s3: "claimed s3 = set (map article_output arts) \<union> claimed s2"
    "cl_desired s3 = fold (\<lambda>(r, own). bt_insert r own) (map (\<lambda>a. (article_output a, ''article '' @ ap_source_rel a)) arts) (cl_desired s2)"
    "claim_ok s3"
    "cl_errors s3 = [] \<longleftrightarrow> cl_errors s2 = [] \<and> (\<forall>a \<in> set arts. reserved_route_owner (ap_key a) = None)
       \<and> (\<forall>c \<in> claimed s2. \<forall>x \<in> set arts. apart c (article_output x)) \<and> sorted_wrt apart (map article_output arts)"
    using fold_claims [of claim_article article_output "\<lambda>a. ''article '' @ ap_source_rel a"
        "\<lambda>a. case reserved_route_owner (ap_key a) of Some sys \<Rightarrow> [Reserved_route (ap_route a) sys (ap_source_rel a)] | None \<Rightarrow> []",
        OF _ s2(3), of arts]
    unfolding s3_def by (simp_all add: claim_article_def split: option.split)
  have s4: "cl_desired s4 = fold (\<lambda>(r, own). bt_insert r own) (map (\<lambda>(rel, source). (rel, ''article image '' @ source)) owners) (cl_desired s3)"
    "cl_errors s4 = [] \<longleftrightarrow> cl_errors s3 = [] \<and> (\<forall>x \<in> set owners. hd (comps (fst x)) \<notin> {''assets'', ''fonts'', ''api''})
       \<and> (\<forall>c \<in> claimed s3. \<forall>x \<in> set owners. apart c (fst x)) \<and> sorted_wrt apart (map fst owners)"
    using fold_claims [of claim_image fst "\<lambda>x. ''article image '' @ snd x"
        "\<lambda>x. if hd (comps (fst x)) \<in> {''assets'', ''fonts'', ''api''} then [Reserved_prefix (fst x) (snd x)] else []",
        OF _ s3(3), of owners]
    unfolding s4_def by (simp_all add: claim_image_def split_def split: if_split)
  have errors: "cl_errors s4 = [] \<longleftrightarrow> routes_free arts owners
      \<and> sorted_wrt apart (static_nodes old hm ns @ map fst (web_outputs arts owners site))"
    unfolding s4(2) s3(1,4) s2(1,4) s1(1,3) routes_free_def web_outputs_def
    by (simp add: sorted_wrt_append split_def comp_def ball_Un) blast
  have "cl_desired s4 = owned (web_outputs arts owners site)"
    unfolding s4(1) s3(2) s2(2) s1(2) owned_def web_outputs_def by simp
  with errors Inr show ?thesis
    unfolding build_web_claims_def by (auto simp: Let_def s1_def s2_def s3_def s4_def)
qed (simp add: build_web_claims_def)

end
