(* ===== verification/Content_Publish.thy ===== *)
theory Content_Publish
  imports Content_Outputs_Facts
begin

text \<open>
  The publication: the old outputs go, the staged files come, and nothing else changes.
\<close>

section \<open>One file\<close>

definition dir_or_none :: "kind option \<Rightarrow> bool" where
  "dir_or_none k \<longleftrightarrow> k = None \<or> k = Some K_dir"

lemma prefix_butlast: "p \<noteq> [] \<Longrightarrow> prefix q (butlast p) \<longleftrightarrow> strict_prefix q p"
  by (metis append_butlast_last_id not_Cons_self2 prefix_order.dual_order.antisym prefix_order.less_le
      prefix_order.order_trans prefixI prefix_snoc same_prefix_nil)

definition with_file :: "string list \<Rightarrow> bytes \<Rightarrow> (string list \<Rightarrow> kind option) \<Rightarrow> string list \<Rightarrow> kind option" where
  "with_file p b k q = (if q = p then Some (K_reg b) else if strict_prefix q p then Some K_dir else k q)"

lemma write_in_kind:
  assumes "kind_of t = K_dir" "\<forall>q. strict_prefix q (comps rel) \<longrightarrow> dir_or_none (kind_at t q)"
    "kind_at t (comps rel) \<noteq> Some K_dir"
  shows "\<exists>t'. write_in rel b t = Some t' \<and> kind_at t' = with_file (comps rel) b (kind_at t)"
proof -
  let ?p = "comps rel"
  have "kind_at t q \<in> {None, Some K_dir}" if "prefix q (butlast ?p)" for q
    using that assms(2) by (auto simp: prefix_butlast dir_or_none_def)
  from make_dirs_total [OF assms(1) this] obtain u where u: "make_dirs (butlast ?p) t = Some u" by blast
  have ku: "kind_at u q = (if strict_prefix q ?p then Some K_dir else kind_at t q)" for q
    using make_dirs_kind [OF u] by (simp add: prefix_butlast)
  have "kind_at u (butlast ?p) = Some K_dir" "kind_at u ?p \<noteq> Some K_dir"
    using assms(3) prefix_butlast [of ?p "butlast ?p"] by (auto simp: ku)
  from put_file_total [OF _ this] obtain t' where t': "put_file ?p b u = Some t'" by auto
  have "kind_at t' = with_file ?p b (kind_at t)"
    using put_file_kind [OF t'] by (auto simp: with_file_def ku fun_eq_iff)
  with u t' show ?thesis by (auto simp: write_in_def)
qed

lemma length_temp_of: "length (temp_of pid rel) = length (comps rel)"
  by (simp add: temp_of_def Suc_pred)

lemma temp_of_last: "last (temp_of pid rel) = ''.'' @ last (comps rel) @ ''.content-build-'' @ show_nat pid"
  by (simp add: temp_of_def)

lemma publish_file:
  assumes "kind_of t = K_dir" "\<forall>q. strict_prefix q (comps rel) \<longrightarrow> dir_or_none (kind_at t q)"
    "kind_at t (comps rel) \<noteq> Some K_dir" "kind_at t (temp_of pid rel) = None" "reg_at stage (comps rel) = Some b"
  shows "\<exists>t'. run_publish_steps pid stage [Dirs_for rel, Copy_in rel, Rename_in rel] t = Some t'
    \<and> kind_at t' = with_file (comps rel) b (kind_at t)"
proof -
  let ?p = "comps rel" and ?m = "temp_of pid rel"
  have m: "butlast ?m = butlast ?p" "?m \<noteq> []" by (simp_all add: temp_of_def)
  have differ: "?m \<noteq> ?p"
  proof
    assume "?m = ?p"
    then have "length (last ?m) = length (last ?p)" by simp
    then show False by (simp add: temp_of_last)
  qed
  have not_below: "\<not> prefix ?m q" if "prefix q ?p" for q
    using that differ length_temp_of [of pid rel] by (auto simp: prefix_def)
  have "kind_at t q \<in> {None, Some K_dir}" if "prefix q (butlast ?p)" for q
    using that assms(2) by (auto simp: prefix_butlast dir_or_none_def)
  from make_dirs_total [OF assms(1) this] obtain u where u: "make_dirs (butlast ?p) t = Some u" by blast
  have ku: "kind_at u q = (if strict_prefix q ?p then Some K_dir else kind_at t q)" for q
    using make_dirs_kind [OF u] by (simp add: prefix_butlast)
  have parent: "kind_at u (butlast ?p) = Some K_dir" using prefix_butlast [of ?p "butlast ?p"] by (simp add: ku)
  have "\<not> strict_prefix ?m ?p" using not_below by (auto simp: strict_prefix_def)
  then have um: "kind_at u ?m = None" using assms(4) by (simp add: ku)
  from put_file_total [of ?m u b] obtain v where v: "put_file ?m b u = Some v" using m parent um by auto
  have kv: "kind_at v q = (if q = ?m then Some (K_reg b) else kind_at u q)" for q
    using put_file_kind [OF v] .
  let ?w = "drop_node ?m v"
  have kw: "kind_at ?w q = (if prefix ?m q then None else kind_at u q)" for q
    using drop_node_kind [OF m(2)] kv by simp
  have "kind_at ?w (butlast ?p) = Some K_dir" "kind_at ?w ?p \<noteq> Some K_dir"
    using not_below [of "butlast ?p"] not_below [of ?p] parent assms(3)
    by (auto simp: kw ku prefix_order.less_le prefixeq_butlast)
  from put_file_total [OF _ this] obtain t' where t': "put_file ?p b ?w = Some t'" by auto
  have below_m: "kind_at u q = None" if "prefix ?m q" for q
    using that um kind_at_append_None by (auto simp: prefix_def)
  have "kind_at t' = with_file ?p b (kind_at t)"
  proof
    fix q
    have "\<not> (prefix ?m q \<and> strict_prefix q ?p)" using not_below [of q] by (auto simp: strict_prefix_def)
    then show "kind_at t' q = with_file ?p b (kind_at t) q"
      using put_file_kind [OF t', of q] below_m [of q] by (auto simp: with_file_def kw ku)
  qed
  moreover have "reg_at v ?m = Some b" by (simp add: reg_at_kind kv)
  ultimately show ?thesis using u v t' assms(5) by auto
qed

section \<open>Many files\<close>

definition overlay ::
  "string list set \<Rightarrow> (string list \<Rightarrow> bytes) \<Rightarrow> (string list \<Rightarrow> kind option) \<Rightarrow> string list \<Rightarrow> kind option"
where
  "overlay P c k q =
     (if q \<in> P then Some (K_reg (c q)) else if \<exists>p \<in> P. strict_prefix q p then Some K_dir else k q)"

definition flat :: "string list set \<Rightarrow> bool" where
  "flat P \<longleftrightarrow> (\<forall>p \<in> P. \<forall>q \<in> P. \<not> strict_prefix p q)"

definition room_for :: "string list set \<Rightarrow> (string list \<Rightarrow> kind option) \<Rightarrow> bool" where
  "room_for P k \<longleftrightarrow> (\<forall>p \<in> P. k p \<noteq> Some K_dir \<and> (\<forall>q. strict_prefix q p \<longrightarrow> dir_or_none (k q)))"

lemma overlay_empty [simp]: "overlay {} c k = k"
  by (simp add: overlay_def fun_eq_iff)

lemma overlay_insert:
  assumes "flat (insert p P)"
  shows "with_file p (c p) (overlay P c k) = overlay (insert p P) c k"
  using assms by (auto simp: with_file_def overlay_def fun_eq_iff flat_def)

lemma overlay_room:
  assumes "flat P" "Q \<subseteq> P" "room_for P k" "p \<in> P"
  shows "overlay Q c k p \<noteq> Some K_dir" "strict_prefix q p \<Longrightarrow> dir_or_none (overlay Q c k q)"
  using assms by (auto simp: overlay_def flat_def room_for_def dir_or_none_def)

fun try_steps :: "('a \<Rightarrow> tree \<Rightarrow> tree option) \<Rightarrow> 'a list \<Rightarrow> tree \<Rightarrow> tree option" where
  "try_steps f [] t = Some t"
| "try_steps f (x # xs) t = Option.bind (f x t) (try_steps f xs)"

lemma try_steps_overlay:
  assumes step: "\<And>x t. x \<in> set xs \<Longrightarrow> kind_of t = K_dir \<Longrightarrow> keeps t \<Longrightarrow>
      \<forall>q. strict_prefix q (path x) \<longrightarrow> dir_or_none (kind_at t q) \<Longrightarrow> kind_at t (path x) \<noteq> Some K_dir \<Longrightarrow>
      \<exists>t'. f x t = Some t' \<and> kind_at t' = with_file (path x) (c (path x)) (kind_at t) \<and> keeps t'"
    and P: "flat P" "room_for P k" "path ` set xs \<subseteq> P" "Q \<subseteq> P" "[] \<notin> P"
    and t: "kind_at t = overlay Q c k" "k [] = Some K_dir" "keeps t"
  shows "\<exists>t'. try_steps f xs t = Some t' \<and> kind_at t' = overlay (Q \<union> path ` set xs) c k \<and> keeps t'"
  using step P(3,4) t(1,3)
proof (induction xs arbitrary: t Q)
  case (Cons x xs)
  have root: "kind_of t = K_dir"
  proof -
    have "kind_at t [] = Some K_dir"
      using Cons.prems(3,4) P(5) t(2) by (auto simp: overlay_def)
    then show ?thesis by simp
  qed
  have x: "path x \<in> P" using Cons.prems(2) by simp
  note room = overlay_room [OF P(1) Cons.prems(3) P(2) x, where c = c, folded Cons.prems(4)]
  obtain u where u: "f x t = Some u" "kind_at u = with_file (path x) (c (path x)) (kind_at t)" "keeps u"
    using Cons.prems(1) [of x t] root Cons.prems(5) room by auto
  have "flat (insert (path x) Q)" using P(1) x Cons.prems(3) by (auto simp: flat_def)
  then have "kind_at u = overlay (insert (path x) Q) c k"
    using u(2) overlay_insert Cons.prems(4) by metis
  then obtain t' where "try_steps f xs u = Some t'"
      "kind_at t' = overlay (insert (path x) Q \<union> path ` set xs) c k" "keeps t'"
    using Cons.IH [of "insert (path x) Q" u] Cons.prems x u(3) by auto
  with u show ?case by auto
qed auto

section \<open>The old outputs\<close>

text \<open>Directories may go, and the nodes of a set; the root and all other nodes stay.\<close>

definition trimmed :: "string list set \<Rightarrow> (string list \<Rightarrow> kind option) \<Rightarrow> (string list \<Rightarrow> kind option) \<Rightarrow> bool" where
  "trimmed G k k' \<longleftrightarrow> (\<forall>q. k' q = k q \<or> k' q = None \<and> (q \<in> G \<or> q \<noteq> [] \<and> k q = Some K_dir))"

lemma trimmed_refl: "trimmed G k k"
  by (simp add: trimmed_def)

lemma trimmedD: "trimmed G k k' \<Longrightarrow> k' q = Some x \<Longrightarrow> k q = Some x"
  by (auto simp: trimmed_def elim!: allE [of _ q])

lemma trimmed_trans: "trimmed G k k' \<Longrightarrow> trimmed H k' k'' \<Longrightarrow> trimmed (G \<union> H) k k''"
  unfolding trimmed_def by (metis UnI1 UnI2 option.distinct(1))

lemma validated_comps:
  assumes "validate_output_rel rel = Inr ()"
  shows "names_ok (comps rel)" "comps rel \<noteq> []" "path_of (comps rel) = rel"
  using assms split_on_no_sep [of _ "CHR ''/''" rel]
  by (auto simp: validate_output_rel_def node_name_def list_ex_iff split: if_splits)

lemma unlink_kind:
  assumes "validate_output_rel rel = Inr ()"
  shows "\<exists>t'. run_publish_step pid stage (Unlink rel) t = Some t' \<and> trimmed {comps rel} (kind_at t) (kind_at t')
    \<and> reg_at t' (comps rel) = None \<and> (tree_ok t \<longrightarrow> tree_ok t')"
proof (cases "reg_at t (comps rel)")
  case None
  then show ?thesis using assms by (simp add: trimmed_refl)
next
  case (Some b)
  let ?p = "comps rel"
  let ?u = "drop_node ?p t" let ?t' = "remove_empty_parents (butlast ?p) ?u"
  have k: "kind_at ?u q = (if prefix ?p q then None else kind_at t q)" for q
    by (rule drop_node_kind) simp
  have "kind_at t (?p @ q) = None" if "q \<noteq> []" for q
    using kind_at_below [of t ?p "hd q" "tl q"] that Some by (cases "kind_at t (?p @ q)") (auto simp: reg_at_kind)
  then have u: "kind_at ?u q = (if q = ?p then None else kind_at t q)" for q
    by (auto simp: k prefix_def) (metis append.right_neutral)
  have "kind_at ?t' q = kind_at t q \<or> kind_at ?t' q = None \<and> (q \<in> {?p} \<or> q \<noteq> [] \<and> kind_at t q = Some K_dir)" for q
    using remove_empty_parents_kind [of "butlast ?p" ?u q] by (auto simp: u split: if_splits)
  moreover have "kind_at ?t' ?p = None"
    using remove_empty_parents_kind [of "butlast ?p" ?u ?p] by (auto simp: u)
  ultimately show ?thesis
    using Some assms by (auto simp: trimmed_def reg_at_kind [symmetric] remove_empty_parents_ok drop_node_ok
        simp flip: not_None_eq)
      (metis reg_at_kind option.distinct(1) not_None_eq)
qed

lemma unlinks_kind:
  assumes "\<forall>rel \<in> set rels. validate_output_rel rel = Inr ()"
  shows "\<exists>t'. run_publish_steps pid stage (map Unlink rels) t = Some t'
    \<and> trimmed (comps ` set rels) (kind_at t) (kind_at t')
    \<and> (\<forall>rel \<in> set rels. reg_at t' (comps rel) = None) \<and> (tree_ok t \<longrightarrow> tree_ok t')"
  using assms
proof (induction rels arbitrary: t)
  case (Cons rel rels)
  obtain u where u: "run_publish_step pid stage (Unlink rel) t = Some u" "trimmed {comps rel} (kind_at t) (kind_at u)"
      "reg_at u (comps rel) = None" "tree_ok t \<longrightarrow> tree_ok u"
    using unlink_kind Cons.prems by fastforce
  obtain t' where t': "run_publish_steps pid stage (map Unlink rels) u = Some t'"
      "trimmed (comps ` set rels) (kind_at u) (kind_at t')" "\<forall>rel \<in> set rels. reg_at t' (comps rel) = None"
      "tree_ok u \<longrightarrow> tree_ok t'"
    using Cons.IH [of u] Cons.prems by auto
  have "reg_at t' (comps rel) = None"
    using t'(2) u(3) by (metis not_None_eq option.distinct(1) reg_at_kind trimmed_def)
  moreover have "trimmed (comps ` set (rel # rels)) (kind_at t) (kind_at t')"
    using trimmed_trans [OF u(2) t'(2)] by simp
  ultimately show ?case using u(1,4) t'(1,3,4) by (simp del: run_publish_step.simps)
qed (simp add: trimmed_refl)

end
