(* ===== verification/Content_Publication.thy ===== *)
theory Content_Publication
  imports Content_Publish Content_Manifest
begin

text \<open>
  Publication as a whole: the outputs that passed the check for conflicts can be staged and
  published, what is on disk afterwards, and what the next build makes of it.
\<close>

definition file_of :: "tree \<Rightarrow> string \<Rightarrow> bytes option" where
  "file_of t rel = reg_at t (comps rel)"

section \<open>Outputs that do not clash\<close>

lemma sorted_wrt_apart:
  assumes "sorted_wrt apart xs" "x \<in> set xs" "y \<in> set xs" "x \<noteq> y"
  shows "apart x y"
  using assms by (induction xs) (auto dest: apart_sym [THEN iffD1])

lemma distinct_apart:
  "distinct xs \<Longrightarrow> (\<And>x y. x \<in> set xs \<Longrightarrow> y \<in> set xs \<Longrightarrow> x \<noteq> y \<Longrightarrow> apart x y) \<Longrightarrow> sorted_wrt apart xs"
  by (induction xs) auto

definition paths_of :: "string set \<Rightarrow> string list set" where
  "paths_of R = comps ` R"

lemma comps_not_Nil [simp]: "[] \<noteq> comps a" "[] \<notin> paths_of R"
  by (auto simp: paths_of_def split_on_not_Nil [symmetric])

lemma paths_of_iff: "names_ok q \<Longrightarrow> q \<noteq> [] \<Longrightarrow> q \<in> paths_of R \<longleftrightarrow> path_of q \<in> R"
  unfolding paths_of_def using comps_path_of [of q] by (auto simp: rev_image_eqI)

lemma apart_strict:
  assumes "apart a b" "names_ok (comps a)" "names_ok (comps b)"
  shows "\<not> strict_prefix (comps a) (comps b)" "\<not> strict_prefix (comps b) (comps a)"
  using assms prefix_path_of [of "comps a" "comps b"] prefix_path_of [of "comps b" "comps a"]
  by (auto simp: apart_def clash_def)

lemma apart_flat:
  assumes "\<And>a b. a \<in> R \<Longrightarrow> b \<in> R \<Longrightarrow> a \<noteq> b \<Longrightarrow> apart a b" "\<And>a. a \<in> R \<Longrightarrow> names_ok (comps a)"
  shows "flat (paths_of R)"
proof -
  have "\<not> strict_prefix (comps a) (comps b)" if "a \<in> R" "b \<in> R" for a b
    using that assms(2) apart_strict(1) [OF assms(1) [OF that]] by (cases "a = b") auto
  then show ?thesis by (auto simp: flat_def paths_of_def)
qed

text \<open>The directory of the old articles, which goes as a whole when there is no manifest.\<close>

definition legacy :: "bool \<Rightarrow> string list set" where
  "legacy has_manifest = (if has_manifest then {} else {q. prefix [GLOBAL_LIST_DIRECTORY] q})"

lemma legacy_iff:
  assumes "names_ok q" "q \<noteq> []"
  shows "q \<in> legacy hm \<longleftrightarrow> \<not> hm \<and> (q = [''blog''] \<or> prefix ''blog/'' (path_of q))"
proof -
  have "node_name ''blog''" by (simp add: node_name_def)
  with assms prefix_path_of [of "[''blog'']" q] show ?thesis
    by (auto simp: legacy_def GLOBAL_LIST_DIRECTORY_def strict_prefix_def)
qed

lemma legacy_dir:
  assumes "names_ok q" "q \<noteq> []"
  shows "prefix ''blog/'' (path_of q @ ''/'') \<longleftrightarrow> q \<in> legacy False"
proof -
  have "node_name ''blog''" by (simp add: node_name_def)
  with assms prefix_path_of_slash [of "[''blog'']" q] show ?thesis
    by (simp add: legacy_def GLOBAL_LIST_DIRECTORY_def)
qed

section \<open>A site before and after\<close>

text \<open>What both theorems below assume of a build: the tree, the manifest that was read, and the
  claims.\<close>

definition checked_build ::
  "tree \<Rightarrow> (string \<times> string) list \<Rightarrow> bool \<Rightarrow> article_path list \<Rightarrow> (string \<times> string) list \<Rightarrow> bool
   \<Rightarrow> (string \<times> string) list \<Rightarrow> string list \<Rightarrow> bool"
where
  "checked_build dist old hm arts owners site desired ns \<longleftrightarrow>
     tree_ok dist \<and> walk_output_nodes dist = Inr ns \<and> routes_free arts owners
     \<and> sorted_wrt apart (static_nodes old hm ns @ map fst (web_outputs arts owners site))
     \<and> desired = owned (web_outputs arts owners site)
     \<and> (\<forall>rel \<in> fst ` set old. validate_output_rel rel = Inr ()) \<and> (\<not> hm \<longrightarrow> old = [])
     \<and> (\<forall>rel \<in> fst ` set desired. names_ok (comps rel))"

lemma checked_build_facts:
  assumes "checked_build dist old hm arts owners site desired ns"
  shows "tree_ok dist" "kind_of dist = K_dir" "no_links dist" "fst ` set desired = fst ` set (web_outputs arts owners site)"
    "\<And>a. a \<in> fst ` set desired \<Longrightarrow> names_ok (comps a)"
    "flat (paths_of (fst ` set desired))" "GLOBAL_LIST_OUTPUT \<in> fst ` set desired"
    "\<And>s r. s \<in> set (static_nodes old hm ns) \<Longrightarrow> r \<in> fst ` set desired \<Longrightarrow> apart s r"
proof -
  note b = assms [unfolded checked_build_def]
  show "tree_ok dist" using b by (elim conjE)
  have "\<forall>a \<in> fst ` set desired. names_ok (comps a)" using b by (elim conjE)
  then show "\<And>a. a \<in> fst ` set desired \<Longrightarrow> names_ok (comps a)" by blast
  show "kind_of dist = K_dir" "no_links dist" 
    using b walk_output_nodes_listed(2,4) [of dist ns] by simp_all
  show keys: "fst ` set desired = fst ` set (web_outputs arts owners site)" using b owned_facts(2) by simp
  have "apart a c" if "a \<in> fst ` set desired" "c \<in> fst ` set desired" "a \<noteq> c" for a c
    using that b sorted_wrt_apart [of "map fst (web_outputs arts owners site)"] unfolding keys
    by (auto simp: sorted_wrt_append)
  then show "flat (paths_of (fst ` set desired))" using b by (intro apart_flat) auto
  show "GLOBAL_LIST_OUTPUT \<in> fst ` set desired" unfolding keys by (simp add: web_outputs_def system_outputs_def)
  show "\<And>s r. s \<in> set (static_nodes old hm ns) \<Longrightarrow> r \<in> fst ` set desired \<Longrightarrow> apart s r"
    using b unfolding keys by (auto simp: sorted_wrt_append)
qed

lemma old_no_slash: "\<forall>rel \<in> fst ` set old. validate_output_rel rel = Inr () \<Longrightarrow> map_of old (s @ ''/'') = None"
proof -
  assume "\<forall>rel \<in> fst ` set old. validate_output_rel rel = Inr ()"
  moreover have "validate_output_rel (s @ ''/'') \<noteq> Inr ()" by (simp add: validate_output_rel_def suffix_def)
  ultimately show ?thesis by (metis map_of_eq_None_iff)
qed

text \<open>A node that is neither an output of the last build nor in the old directory is claimed.\<close>

lemma static_claimed:
  assumes b: "checked_build dist old hm arts owners site desired ns"
    and p: "listed_as dist p tail" "p \<noteq> []" "p \<notin> legacy hm" "tail = [] \<Longrightarrow> p \<notin> paths_of (fst ` set old)"
  shows "path_of p @ tail \<in> set (static_nodes old hm ns)"
proof -
  note w = b [unfolded checked_build_def]
  have names: "names_ok p" using p(1) w kind_at_names [of dist p] by (auto simp: listed_as_def)
  have "path_of p @ tail \<in> set ns" using walk_output_nodes_listed(1) [of dist ns] w p(1,2) by blast
  moreover have "map_of old (path_of p @ tail) = None"
  proof (cases "tail = []")
    case True
    with p(4) paths_of_iff [OF names p(2)] show ?thesis by (simp add: map_of_eq_None_iff)
  next
    case False
    with p(1) have "tail = ''/''" by (auto simp: listed_as_def)
    with w old_no_slash [of old] show ?thesis by simp
  qed
  moreover have "\<not> (\<not> hm \<and> prefix ''blog/'' (path_of p @ tail))"
  proof (cases "tail = []")
    case True
    with p(3) legacy_iff [OF names p(2)] show ?thesis by auto
  next
    case False
    with p(1) have "tail = ''/''" by (auto simp: listed_as_def)
    with p(3) legacy_dir [OF names p(2)] show ?thesis by (cases hm) auto
  qed
  ultimately show ?thesis by (simp add: static_nodes_def)
qed

lemma blog_not_file:
  assumes "checked_build dist old False arts owners site desired ns"
  shows "dir_or_none (kind_at dist [''blog''])"
proof (rule ccontr)
  assume not: "\<not> dir_or_none (kind_at dist [''blog''])"
  note w = assms [unfolded checked_build_def]
  then obtain b where "kind_at dist [''blog''] = Some (K_reg b)"
    using not checked_build_facts(3) [OF assms] unfolding dir_or_none_def no_links_def
    by (metis kind.exhaust not_None_eq)
  then have "''blog'' \<in> set ns"
    using walk_output_nodes_listed(1) [of dist ns "''blog''"] w by (auto simp: listed_as_def intro!: exI [of _ "[''blog'']"])
  then have "''blog'' \<in> set (static_nodes old False ns)" using w by (simp add: static_nodes_def)
  with checked_build_facts(7,8) [OF assms] have "apart ''blog'' GLOBAL_LIST_OUTPUT" by blast
  then show False by (simp add: apart_def clash_def GLOBAL_LIST_OUTPUT_def)
qed

section \<open>The steps of the publication\<close>

lemma run_publish_append:
  "run_publish_steps pid stage (xs @ ys) t = Option.bind (run_publish_steps pid stage xs t) (run_publish_steps pid stage ys)"
  by (induction xs arbitrary: t) (auto split: Option.bind_split simp del: run_publish_step.simps)

lemma run_publish_files:
  "run_publish_steps pid stage (concat (map (\<lambda>rel. [Dirs_for rel, Copy_in rel, Rename_in rel]) rels)) t
     = try_steps (\<lambda>rel. run_publish_steps pid stage [Dirs_for rel, Copy_in rel, Rename_in rel]) rels t"
proof (induction rels arbitrary: t)
  case (Cons rel rels)
  have "run_publish_steps pid stage (concat (map (\<lambda>rel. [Dirs_for rel, Copy_in rel, Rename_in rel]) rels))
      = try_steps (\<lambda>rel. run_publish_steps pid stage [Dirs_for rel, Copy_in rel, Rename_in rel]) rels"
    by (rule ext) (rule Cons.IH)
  then show ?case by (simp only: list.map concat.simps run_publish_append try_steps.simps)
qed simp

definition gone :: "(string \<times> string) list \<Rightarrow> bool \<Rightarrow> string list set" where
  "gone old hm = legacy hm \<union> paths_of (fst ` set old)"

lemma cleared:
  assumes "checked_build dist old hm arts owners site desired ns"
  shows "\<exists>t. run_publish_steps pid stage ((if hm then [] else [Clear_legacy]) @ map (Unlink \<circ> fst) old) dist = Some t
    \<and> trimmed (gone old hm) (kind_at dist) (kind_at t) \<and> (\<forall>q \<in> gone old hm. reg_at t q = None)
    \<and> (\<forall>q \<in> legacy hm. kind_at t q = None) \<and> tree_ok t"
proof -
  note w = assms [unfolded checked_build_def]
  have old: "\<forall>rel \<in> fst ` set old. validate_output_rel rel = Inr ()" using w by (elim conjE)
  have tree: "tree_ok dist" using w by (elim conjE)
  show ?thesis
  proof (cases hm)
    case True
    have "\<forall>rel \<in> set (map fst old). validate_output_rel rel = Inr ()" using old by simp
    from unlinks_kind [OF this, of pid stage dist] tree True show ?thesis
      by (auto simp: gone_def legacy_def paths_of_def image_image)
  next
    case False
    with w have nil: "old = []" by simp
    have b: "dir_or_none (kind_at dist [''blog''])" using blog_not_file assms False by simp
    have reg: "reg_at t q = None" if "kind_at t q = None" for t q
      using that by (metis not_None_eq option.distinct(1) reg_at_kind)
    show ?thesis
    proof (cases "kind_at dist [''blog'']")
      case None
      then have "tree_at dist [''blog''] = None" by (simp add: kind_at_def)
      moreover have "kind_at dist q = None" if "q \<in> legacy False" for q
        using that kind_at_append_None [OF None] by (auto simp: legacy_def GLOBAL_LIST_DIRECTORY_def prefix_def)
      ultimately show ?thesis
        using False nil tree by (auto simp: gone_def paths_of_def GLOBAL_LIST_DIRECTORY_def trimmed_refl reg)
    next
      case (Some k)
      with b have "kind_at dist [''blog''] = Some K_dir" by (simp add: dir_or_none_def)
      then obtain es where es: "tree_at dist [''blog''] = Some (Dir es)"
        by (auto simp: kind_at_def kind_of_dir)
      have k: "kind_at (drop_node [''blog''] dist) q = (if prefix [''blog''] q then None else kind_at dist q)" for q
        by (rule drop_node_kind) simp
      have "trimmed (legacy False) (kind_at dist) (kind_at (drop_node [''blog''] dist))"
        by (simp add: trimmed_def k legacy_def GLOBAL_LIST_DIRECTORY_def)
      moreover have "\<forall>q \<in> legacy False. kind_at (drop_node [''blog''] dist) q = None"
        by (simp add: k legacy_def GLOBAL_LIST_DIRECTORY_def)
      ultimately show ?thesis
        using False nil tree es by (auto simp: gone_def paths_of_def GLOBAL_LIST_DIRECTORY_def reg drop_node_ok)
    qed
  qed
qed

lemma room_after_clearing:
  assumes b: "checked_build dist old hm arts owners site desired ns"
    and t: "trimmed (gone old hm) (kind_at dist) (kind_at t)" "\<forall>q \<in> gone old hm. reg_at t q = None"
      "\<forall>q \<in> legacy hm. kind_at t q = None"
  shows "room_for (paths_of (fst ` set desired)) (kind_at t)"
  unfolding room_for_def
proof (intro ballI conjI allI impI)
  fix p assume p: "p \<in> paths_of (fst ` set desired)"
  then obtain r where r: "r \<in> fst ` set desired" "p = comps r" by (auto simp: paths_of_def)
  note facts = checked_build_facts [OF b]
  have names: "names_ok p" "p \<noteq> []" "path_of p = r" using r facts(5) by auto
  show "kind_at t p \<noteq> Some K_dir"
  proof
    assume k: "kind_at t p = Some K_dir"
    then have "kind_at dist p = Some K_dir" using trimmedD [OF t(1)] by blast
    moreover have "p \<notin> legacy hm" using k t(3) by auto
    ultimately have "path_of p @ ''/'' \<in> set (static_nodes old hm ns)"
      using static_claimed [OF b _ names(2), of "''/''"] by (auto simp: listed_as_def)
    with names(3) have "r @ ''/'' \<in> set (static_nodes old hm ns)" by simp
    from facts(8) [OF this r(1)] have "apart (r @ ''/'') r" .
    then show False by (simp add: apart_def clash_def)
  qed
  fix q assume q: "strict_prefix q p"
  show "dir_or_none (kind_at t q)"
  proof (rule ccontr)
    assume not: "\<not> dir_or_none (kind_at t q)"
    then have same: "kind_at t q = kind_at dist q"
      using trimmedD [OF t(1), of q] by (cases "kind_at t q") (auto simp: dir_or_none_def)
    with not facts(3) obtain c where c: "kind_at dist q = Some (K_reg c)"
      unfolding dir_or_none_def no_links_def by (metis kind.exhaust not_None_eq)
    have "q \<noteq> []" using c facts(2) by auto
    moreover have "q \<notin> gone old hm" using t(2) same c by (metis option.distinct(1) reg_at_kind)
    ultimately have "path_of q @ [] \<in> set (static_nodes old hm ns)"
      using c by (intro static_claimed [OF b]) (auto simp: listed_as_def gone_def)
    then have "path_of q \<in> set (static_nodes old hm ns)" by simp
    from facts(8) [OF this r(1)] have "apart (path_of q) r" .
    moreover have "prefix (path_of q @ ''/'') (path_of p)"
      using prefix_path_of [of q p] q names kind_at_names [OF facts(1) c] \<open>q \<noteq> []\<close> by simp
    ultimately show False using names(3) by (simp add: apart_def clash_def)
  qed
qed

section \<open>Staging\<close>

lemma show_nat_no_slash: "CHR ''/'' \<notin> set (show_nat n)"
proof
  assume "CHR ''/'' \<in> set (show_nat n)"
  then obtain d where d: "d \<in> set (digits 10 n)" "CHR ''/'' = digit_char d" by (auto simp: show_nat_def)
  then have "d < 10" by (intro digits_less) auto
  then have "(of_char (digit_char d) :: nat) = 48 + d" by simp
  moreover have "(of_char (CHR ''/'') :: nat) = 47" by simp
  ultimately show False unfolding d(2) [symmetric] by simp
qed

definition temp_file_name :: "nat \<Rightarrow> string \<Rightarrow> bool" where
  "temp_file_name pid n \<longleftrightarrow> prefix ''.'' n \<and> suffix (''.content-build-'' @ show_nat pid) n"

lemma temp_of_name: "temp_file_name pid (last (temp_of pid rel))"
proof -
  have "''.'' @ last (comps rel) @ ''.content-build-'' @ show_nat pid
      = (''.'' @ last (comps rel)) @ (''.content-build-'' @ show_nat pid)" by simp
  then have "suffix (''.content-build-'' @ show_nat pid) (''.'' @ last (comps rel) @ ''.content-build-'' @ show_nat pid)"
    unfolding suffix_def by blast
  then show ?thesis by (simp add: temp_file_name_def temp_of_last)
qed

lemma temp_of_names: "names_ok (comps rel) \<Longrightarrow> names_ok (temp_of pid rel)"
  using show_nat_no_slash in_set_butlastD [of _ "comps rel"]
  by (auto simp: temp_of_def node_name_def last_in_set)

lemma write_in_ok: "write_in rel b t = Some t' \<Longrightarrow> tree_ok t \<Longrightarrow> names_ok (comps rel) \<Longrightarrow> tree_ok t'"
proof -
  assume "write_in rel b t = Some t'" and t: "tree_ok t" and names: "names_ok (comps rel)"
  then obtain u where "make_dirs (butlast (comps rel)) t = Some u" "put_file (comps rel) b u = Some t'"
    by (auto simp: write_in_def bind_eq_Some_conv)
  moreover have "tree_ok u" using make_dirs_ok [OF calculation(1) t] names by (auto dest: in_set_butlastD)
  ultimately show "tree_ok t'" using put_file_ok names by metis
qed

lemma stage_files_steps: "stage_files fs t = try_steps (\<lambda>(rel, b). write_in rel b) fs t"
  by (induction fs arbitrary: t) (auto split: Option.bind_split)

abbreviation contents :: "(string \<times> bytes) list \<Rightarrow> string list \<Rightarrow> bytes" where
  "contents files \<equiv> \<lambda>p. the (map_of files (path_of p))"

lemma staged_files:
  assumes "flat (paths_of (fst ` set files))" "\<forall>rel \<in> fst ` set files. names_ok (comps rel)" "distinct (map fst files)"
  shows "\<exists>stage staged. stage_files files (Dir []) = Some stage \<and> walk_regular_files stage = Inr staged
    \<and> set staged = fst ` set files \<and> (\<forall>rel \<in> fst ` set files. reg_at stage (comps rel) = map_of files rel)"
proof -
  let ?P = "paths_of (fst ` set files)" and ?k = "kind_at (Dir [])"
  have room: "room_for ?P ?k"
    unfolding room_for_def by (auto simp: kind_at_empty paths_of_def dir_or_none_def)
  have step: "\<exists>t'. (case x of (rel, b) \<Rightarrow> write_in rel b) t = Some t'
      \<and> kind_at t' = with_file (comps (fst x)) (contents files (comps (fst x))) (kind_at t) \<and> tree_ok t'"
    if "x \<in> set files" "kind_of t = K_dir" "tree_ok t" "\<forall>q. strict_prefix q (comps (fst x)) \<longrightarrow> dir_or_none (kind_at t q)"
      "kind_at t (comps (fst x)) \<noteq> Some K_dir" for x t
  proof -
    have "map_of files (fst x) = Some (snd x)" using that(1) assms(3) by simp
    then show ?thesis
      using write_in_kind [OF that(2,4,5), of "snd x"] write_in_ok [of "fst x" "snd x" t] that(1,3) assms(2)
      by (fastforce simp: split_def)
  qed
  have "\<exists>t'. try_steps (\<lambda>(rel, b). write_in rel b) files (Dir []) = Some t'
      \<and> kind_at t' = overlay ({} \<union> (\<lambda>x. comps (fst x)) ` set files) (contents files) ?k \<and> tree_ok t'"
    by (rule try_steps_overlay [where P = ?P and path = "\<lambda>x. comps (fst x)" and c = "contents files" and keeps = tree_ok])
      (use step assms(1) room in \<open>auto simp: paths_of_def\<close>)
  then obtain stage where stage: "stage_files files (Dir []) = Some stage"
      "kind_at stage = overlay ?P (contents files) ?k" "tree_ok stage"
    unfolding stage_files_steps paths_of_def by (auto simp: image_image)
  have root: "kind_of stage = K_dir"
    using fun_cong [OF stage(2), of "[]"] by (auto simp: overlay_def paths_of_def split: if_splits)
  have "no_links stage"
    unfolding no_links_def stage(2) by (auto simp: overlay_def kind_at_empty)
  from walk_regular_files_all [OF stage(3) this root] obtain staged where staged: "walk_regular_files stage = Inr staged"
      "set staged = {path_of p |p b. p \<noteq> [] \<and> kind_at stage p = Some (K_reg b)}" by blast
  have "{path_of p |p b. p \<noteq> [] \<and> kind_at stage p = Some (K_reg b)} = fst ` set files"
  proof -
    have "kind_at stage p = Some (K_reg b) \<longleftrightarrow> p \<in> ?P \<and> b = contents files p" if "p \<noteq> []" for p b
      using that by (auto simp: stage(2) overlay_def kind_at_empty)
    then have "(\<exists>p b. s = path_of p \<and> p \<noteq> [] \<and> kind_at stage p = Some (K_reg b)) \<longleftrightarrow> (\<exists>p \<in> ?P. s = path_of p)" for s
      using comps_not_Nil(2) [of "fst ` set files"] by (metis (no_types))
    then have "{path_of p |p b. p \<noteq> [] \<and> kind_at stage p = Some (K_reg b)} = path_of ` ?P"
      by (simp add: set_eq_iff image_iff)
    also have "\<dots> = fst ` set files" by (simp add: paths_of_def image_image)
    finally show ?thesis .
  qed
  moreover have "reg_at stage (comps rel) = map_of files rel" if rel: "rel \<in> fst ` set files" for rel
  proof -
    obtain b where "map_of files rel = Some b" using rel by (cases "map_of files rel") (simp_all add: map_of_eq_None_iff)
    moreover have "comps rel \<in> ?P" using rel by (simp add: paths_of_def)
    ultimately show ?thesis by (simp add: reg_at_kind stage(2) overlay_def)
  qed
  ultimately show ?thesis using stage(1) staged by auto
qed

section \<open>The published tree\<close>

lemma run_publish_file_ok:
  assumes "run_publish_steps pid stage [Dirs_for rel, Copy_in rel, Rename_in rel] t = Some t'" "tree_ok t" "names_ok (comps rel)"
  shows "tree_ok t'"
proof -
  from assms(1) obtain u v b c where "make_dirs (butlast (comps rel)) t = Some u" "put_file (temp_of pid rel) b u = Some v"
      "put_file (comps rel) c (drop_node (temp_of pid rel) v) = Some t'"
    by (auto simp: bind_eq_Some_conv)
  moreover have "tree_ok u" using make_dirs_ok [OF calculation(1) assms(2)] assms(3) by (auto dest: in_set_butlastD)
  ultimately show ?thesis
    using put_file_ok drop_node_ok temp_of_names [OF assms(3)] assms(3) by metis
qed

lemma published_tree:
  assumes b: "checked_build dist old hm arts owners site desired ns"
    and temp: "\<forall>n \<in> set (tree_names dist). \<not> temp_file_name pid n"
      "\<forall>rel \<in> fst ` set desired. \<forall>n \<in> set (comps rel). \<not> temp_file_name pid n"
    and staged: "set staged = fst ` set desired" "distinct (map fst files)" "set (map fst files) = fst ` set desired"
      "\<forall>rel \<in> fst ` set files. reg_at stage (comps rel) = map_of files rel"
  shows "\<exists>t dist'. trimmed (gone old hm) (kind_at dist) (kind_at t) \<and> (\<forall>q \<in> gone old hm. reg_at t q = None)
    \<and> (\<forall>q \<in> legacy hm. kind_at t q = None) \<and> room_for (paths_of (fst ` set desired)) (kind_at t)
    \<and> commit_web_outputs pid stage old hm staged dist = Some dist' \<and> tree_ok dist'
    \<and> kind_at dist' = overlay (paths_of (fst ` set desired)) (contents files) (kind_at t)"
proof -
  let ?D = "fst ` set desired" let ?P = "paths_of ?D"
  note facts = checked_build_facts [OF b]
  obtain t where t: "run_publish_steps pid stage ((if hm then [] else [Clear_legacy]) @ map (Unlink \<circ> fst) old) dist = Some t"
      "trimmed (gone old hm) (kind_at dist) (kind_at t)" "\<forall>q \<in> gone old hm. reg_at t q = None"
      "\<forall>q \<in> legacy hm. kind_at t q = None" "tree_ok t"
    using cleared [OF b] by blast
  note room = room_after_clearing [OF b t(2-4)]
  define keeps where "keeps u \<longleftrightarrow> tree_ok u \<and> (\<forall>rel \<in> ?D. kind_at u (temp_of pid rel) = None)" for u
  have temp_path: "\<not> prefix (temp_of pid rel) (comps r)" if "r \<in> ?D" for rel r
  proof
    assume "prefix (temp_of pid rel) (comps r)"
    then have "last (temp_of pid rel) \<in> set (comps r)"
      using last_in_set [of "temp_of pid rel"] set_mono_prefix by (fastforce simp: temp_of_def)
    with temp(2) that temp_of_name show False by blast
  qed
  have "kind_at t (temp_of pid rel) = None" for rel
  proof (rule ccontr)
    assume "kind_at t (temp_of pid rel) \<noteq> None"
    then have "kind_at dist (butlast (temp_of pid rel) @ [last (temp_of pid rel)]) \<noteq> None"
      using trimmedD [OF t(2)] by (auto simp: temp_of_def)
    from tree_names_kind(2) [OF this] temp(1) temp_of_name show False by blast
  qed
  then have "keeps t" using t(5) by (simp add: keeps_def)
  have step: "\<exists>u'. run_publish_steps pid stage [Dirs_for rel, Copy_in rel, Rename_in rel] u = Some u'
      \<and> kind_at u' = with_file (comps rel) (contents files (comps rel)) (kind_at u) \<and> keeps u'"
    if "rel \<in> set staged" "kind_of u = K_dir" "keeps u" "\<forall>q. strict_prefix q (comps rel) \<longrightarrow> dir_or_none (kind_at u q)"
      "kind_at u (comps rel) \<noteq> Some K_dir" for rel u
  proof -
    have rel: "rel \<in> ?D" "rel \<in> fst ` set files" using that(1) staged(1,3) by auto
    then obtain c where c: "map_of files rel = Some c"
      by (cases "map_of files rel") (simp_all add: map_of_eq_None_iff)
    have "\<forall>r \<in> ?D. kind_at u (temp_of pid r) = None" using that(3) by (simp add: keeps_def)
    from bspec [OF this rel(1)] have none: "kind_at u (temp_of pid rel) = None" .
    have "reg_at stage (comps rel) = Some c" using bspec [OF staged(4) rel(2)] c by simp
    from publish_file [OF that(2,4,5) none this] obtain u' where
      u': "run_publish_steps pid stage [Dirs_for rel, Copy_in rel, Rename_in rel] u = Some u'"
        "kind_at u' = with_file (comps rel) c (kind_at u)" by blast
    have "tree_ok u'" using run_publish_file_ok [OF u'(1)] that(3) facts(5) rel(1) by (simp add: keeps_def)
    moreover have "kind_at u' (temp_of pid r) = None" if "r \<in> ?D" for r
      using that temp_path [OF rel(1), of r] \<open>keeps u\<close> by (auto simp: u'(2) with_file_def keeps_def strict_prefix_def)
    ultimately show ?thesis using u' c by (simp add: keeps_def)
  qed
  have root: "kind_at t [] = Some K_dir"
  proof -
    have "comps GLOBAL_LIST_OUTPUT \<in> ?P" using facts(7) unfolding paths_of_def by (rule imageI)
    moreover have "strict_prefix [] (comps GLOBAL_LIST_OUTPUT)" by (simp add: strict_prefix_def)
    ultimately have "dir_or_none (kind_at t [])" using room unfolding room_for_def by blast
    then show ?thesis by (auto simp: dir_or_none_def)
  qed
  have "\<exists>u. try_steps (\<lambda>rel. run_publish_steps pid stage [Dirs_for rel, Copy_in rel, Rename_in rel]) staged t = Some u
      \<and> kind_at u = overlay ({} \<union> comps ` set staged) (contents files) (kind_at t) \<and> keeps u"
    by (rule try_steps_overlay [where P = ?P and path = comps and c = "contents files" and keeps = keeps])
      (use step facts(6) room root \<open>keeps t\<close> staged(1) in \<open>auto simp: paths_of_def\<close>)
  then obtain u where u: "try_steps (\<lambda>rel. run_publish_steps pid stage [Dirs_for rel, Copy_in rel, Rename_in rel]) staged t = Some u"
      "kind_at u = overlay ?P (contents files) (kind_at t)" "tree_ok u"
    using staged(1) by (auto simp: paths_of_def keeps_def)
  have "commit_web_outputs pid stage old hm staged dist = Some u"
    using t(1) u(1) unfolding commit_web_outputs_def publish_steps_def
    by (simp only: append_assoc [symmetric] run_publish_append [of pid stage _ "concat _"] run_publish_files bind.bind_lunit)
  with t(2-4) room u(2,3) show ?thesis by blast
qed

end
