(* ===== verification/Content_Publication_Properties.thy ===== *)
theory Content_Publication_Properties
  imports Content_Publication
begin

text \<open>
  The properties of a publication: nothing is lost and nothing else is touched, the same build can
  be run again, and a build that was interrupted cannot.
\<close>

section \<open>What the scans let through\<close>

definition inputs_ok :: "article_path list \<Rightarrow> (string \<times> string) list \<Rightarrow> bool" where
  "inputs_ok arts asset_owners \<longleftrightarrow>
     list_all (\<lambda>a. article_parse (ap_source_rel a) = Inr a) arts
     \<and> list_all (\<lambda>(rel, source). validate_resource_rel rel = Inr () \<and> validate_resource_rel source = Inr ()) asset_owners"

definition plain_path :: "string \<Rightarrow> bool" where
  "plain_path rel \<longleftrightarrow> rel \<noteq> [] \<and> (\<forall>n \<in> set (comps rel). node_name n \<and> \<not> prefix ''.'' n)
     \<and> (\<forall>c \<in> set rel. c = CHR ''/'' \<or> resource_char c)"

lemma resource_plain:
  assumes "validate_resource_rel rel = Inr ()"
  shows "plain_path rel"
proof -
  have segs: "\<forall>n \<in> set (comps rel). n \<noteq> [] \<and> \<not> prefix ''.'' n \<and> list_all resource_char n" "rel \<noteq> []"
    using assms by (auto simp: validate_resource_rel_def validate_relative_def validate_segment_def
        validate_resource_segment_def result_simps split: if_splits)
  have "c = CHR ''/'' \<or> resource_char c" if "c \<in> set rel" for c
    using that set_join_with [of "CHR ''/''" "comps rel"] segs(1) by (auto simp: list_all_iff)
  with segs show ?thesis
    using split_on_no_sep [of _ "CHR ''/''" rel] by (auto simp: plain_path_def node_name_def)
qed

lemma segments_plain:
  assumes "article_segments ss"
  shows "plain_path (path_of (ss @ [''index.html'']))" "plain_path (path_of ss)"
proof -
  have seg: "node_name s \<and> \<not> prefix ''.'' s \<and> (\<forall>c \<in> set s. resource_char c)" if "s \<in> set ss" for s
  proof -
    have "article_segment s" using assms that by (simp add: article_segments_def)
    note chars = article_segment_chars [OF this]
    have "\<forall>c \<in> set s. resource_char c" using \<open>article_segment s\<close> by (auto simp: article_segment_def article_char_def resource_char_def)
    with chars show ?thesis by (auto simp: node_name_def prefix_def)
  qed
  have index: "node_name ''index.html''" "\<not> prefix ''.'' ''index.html''" "\<forall>c \<in> set ''index.html''. resource_char c"
    by (simp_all add: node_name_def resource_char_def is_ascii_lowercase_def)
  have plain: "plain_path (path_of ts)"
    if "ts \<noteq> []" "\<forall>s \<in> set ts. node_name s \<and> \<not> prefix ''.'' s \<and> (\<forall>c \<in> set s. resource_char c)" for ts
  proof -
    have "comps (path_of ts) = ts" using comps_path_of [of ts] that by blast
    moreover have "path_of ts \<noteq> []" using that by (cases ts) (auto simp: path_of_below node_name_def)
    moreover have "c = CHR ''/'' \<or> resource_char c" if "c \<in> set (path_of ts)" for c
      using that set_join_with [of "CHR ''/''" ts] \<open>\<forall>s \<in> set ts. _\<close> by auto
    ultimately show ?thesis using that by (simp add: plain_path_def)
  qed
  show "plain_path (path_of (ss @ [''index.html'']))" by (rule plain) (use seg index in auto)
  show "plain_path (path_of ss)" using assms seg by (intro plain) (auto simp: article_segments_def)
qed

lemma article_output_at: "ss \<noteq> [] \<Longrightarrow> article_output (article_at ss) = path_of (ss @ [''index.html''])"
  by (simp add: article_output_def article_at_def, induction ss rule: induct_list012) auto

lemma inputs_outputs:
  assumes "inputs_ok arts owners" "(rel, own) \<in> set (web_outputs arts owners site)"
  shows "plain_path rel" "own \<noteq> []" "\<forall>c \<in> set own. c \<noteq> CHR 0x0A \<and> c \<noteq> CHR 0x0D"
proof -
  have res: "c \<noteq> CHR 0x0A \<and> c \<noteq> CHR 0x0D" if "c = CHR ''/'' \<or> resource_char c" for c
    using that by (auto simp: resource_char_def ascii_defs)
  have global: "plain_path GLOBAL_LIST_OUTPUT" "plain_path ''robots.txt''" "plain_path ''sitemap.xml''" "plain_path ''atom.xml''"
    by (simp_all add: plain_path_def GLOBAL_LIST_OUTPUT_def node_name_def resource_char_def is_ascii_lowercase_def)
  consider (system) "(rel, own) \<in> set (system_outputs site)"
    | (article) a where "a \<in> set arts" "rel = article_output a" "own = ''article '' @ ap_source_rel a"
    | (image) source where "(rel, source) \<in> set owners" "own = ''article image '' @ source"
    using assms(2) by (auto simp: web_outputs_def)
  then have "plain_path rel \<and> own \<noteq> [] \<and> (\<forall>c \<in> set own. c \<noteq> CHR 0x0A \<and> c \<noteq> CHR 0x0D)"
  proof cases
    case system
    with global show ?thesis by (auto simp: system_outputs_def split: if_splits)
  next
    case article
    with assms(1) obtain ss where ss: "article_segments ss" "ap_source_rel a = path_of ss @ ''.md''" "a = article_at ss"
      by (auto simp: inputs_ok_def list_all_iff article_parse_Inr)
    then have "ss \<noteq> []" by (simp add: article_segments_def)
    moreover have "c \<noteq> CHR 0x0A \<and> c \<noteq> CHR 0x0D" if "c \<in> set (path_of ss)" for c
      using segments_plain(2) [OF ss(1)] that res by (auto simp: plain_path_def)
    ultimately show ?thesis
      using article ss segments_plain(1) [OF ss(1)] by (auto simp: article_output_at)
  next
    case image
    with assms(1) have "validate_resource_rel rel = Inr ()" "validate_resource_rel source = Inr ()"
      by (auto simp: inputs_ok_def list_all_iff)
    then have "plain_path rel" "plain_path source" by (simp_all add: resource_plain)
    then show ?thesis using image(2) res by (auto simp: plain_path_def)
  qed
  then show "plain_path rel" "own \<noteq> []" "\<forall>c \<in> set own. c \<noteq> CHR 0x0A \<and> c \<noteq> CHR 0x0D" by blast+
qed


section \<open>The manifest\<close>

lemma manifest_outputs_validated:
  assumes "manifest_outputs i es ls = Inr old" "\<forall>rel \<in> fst ` set es. validate_output_rel rel = Inr ()"
  shows "\<forall>rel \<in> fst ` set old. validate_output_rel rel = Inr ()"
  using assms
proof (induction i es ls rule: manifest_outputs.induct)
  case (2 i es l ls)
  then obtain rel own where l: "split_once (CHR 0x09) l = Some (rel, own)" "validate_output_rel rel = Inr ()"
      "\<not> (own = [] \<or> map_of es rel \<noteq> None)" "manifest_outputs (i + 1) (bt_insert rel own es) ls = Inr old"
    by (auto simp: result_simps split: option.splits if_splits)
  from "2.IH" [OF l(1) refl _ l(3,4)] l(2) "2.prems"(2) show ?case by simp
qed simp

lemma read_web_manifest_Inr:
  assumes "read_web_manifest m = Inr (old, hm)"
  shows "\<forall>rel \<in> fst ` set old. validate_output_rel rel = Inr ()" "\<not> hm \<longrightarrow> old = []"
  using assms manifest_outputs_validated [where es = "[]"]
  by (auto simp: read_web_manifest_def result_simps split: option.splits)



section \<open>The properties\<close>

lemma build_checked:
  assumes "inputs_ok arts owners" "tree_ok dist" "read_web_manifest m = Inr (old, hm)"
    "build_web_claims dist old hm arts owners site = Inr desired"
  shows "\<exists>ns. checked_build dist old hm arts owners site desired ns"
    "\<And>rel. rel \<in> fst ` set desired \<Longrightarrow> plain_path rel"
proof -
  obtain ns where ns: "walk_output_nodes dist = Inr ns" "routes_free arts owners"
      "sorted_wrt apart (static_nodes old hm ns @ map fst (web_outputs arts owners site))"
      "desired = owned (web_outputs arts owners site)"
    using assms(4) by (auto simp: build_web_claims_Inr)
  show plain: "plain_path rel" if "rel \<in> fst ` set desired" for rel
  proof -
    have "rel \<in> fst ` set (web_outputs arts owners site)" using that ns(4) owned_facts(2) by simp
    then show ?thesis using inputs_outputs(1) [OF assms(1)] by force
  qed
  have "\<forall>rel \<in> fst ` set desired. names_ok (comps rel)" using plain by (simp add: plain_path_def)
  then show "\<exists>ns. checked_build dist old hm arts owners site desired ns"
    using ns assms(2) read_web_manifest_Inr [OF assms(3)] unfolding checked_build_def by blast
qed

lemma plain_no_temp: "plain_path rel \<Longrightarrow> n \<in> set (comps rel) \<Longrightarrow> \<not> temp_file_name pid n"
  by (simp add: plain_path_def temp_file_name_def)

lemma file_of_kind: "file_of t rel = Some b \<longleftrightarrow> kind_at t (comps rel) = Some (K_reg b)"
  by (simp add: file_of_def reg_at_kind)

lemma file_of_case: "file_of t rel = (case kind_at t (comps rel) of Some (K_reg b) \<Rightarrow> Some b | _ \<Rightarrow> None)"
proof (cases "tree_at t (comps rel)")
  case (Some u)
  then show ?thesis by (cases u) (simp_all add: file_of_def reg_at_def kind_at_def)
qed (simp add: file_of_def reg_at_def kind_at_def)

lemma file_of_none: "dir_or_none (kind_at t (comps rel)) \<Longrightarrow> file_of t rel = None"
  by (auto simp: file_of_case dir_or_none_def)

lemma file_of_same: "kind_at t (comps rel) = kind_at u (comps rel) \<Longrightarrow> file_of t rel = file_of u rel"
  by (simp add: file_of_case)

lemma published_files:
  assumes b: "checked_build dist old hm arts owners site desired ns"
    and t: "trimmed (gone old hm) (kind_at dist) (kind_at t)" "\<forall>q \<in> gone old hm. reg_at t q = None"
      "room_for (paths_of (fst ` set desired)) (kind_at t)"
    and d: "tree_ok dist'" "kind_at dist' = overlay (paths_of (fst ` set desired)) (contents files) (kind_at t)"
    and files: "set (map fst files) = fst ` set desired"
  shows "file_of dist' rel = (case map_of files rel of Some b \<Rightarrow> Some b
    | None \<Rightarrow> if rel \<in> fst ` set old \<or> (\<not> hm \<and> prefix ''blog/'' rel) then None else file_of dist rel)"
proof (cases "names_ok (comps rel)")
  case False
  have "file_of u rel = None" if "tree_ok u" for u
    using False kind_at_names [OF that, of "comps rel"] file_of_kind [of u rel] by (cases "file_of u rel") auto
  moreover have "map_of files rel = None"
    using False checked_build_facts(5) [OF b, of rel] files by (auto simp: map_of_eq_None_iff)
  ultimately show ?thesis using d(1) checked_build_facts(1) [OF b] by simp
next
  case names: True
  show ?thesis
  proof (cases "rel \<in> fst ` set desired")
    case True
    then obtain c where c: "map_of files rel = Some c"
      using files by (cases "map_of files rel") (simp_all add: map_of_eq_None_iff)
    have "comps rel \<in> paths_of (fst ` set desired)" unfolding paths_of_def using True by (rule imageI)
    then have "kind_at dist' (comps rel) = Some (K_reg c)" by (simp add: d(2) overlay_def c)
    then show ?thesis by (simp add: file_of_kind c)
  next
    case False
    let ?q = "comps rel" let ?P = "paths_of (fst ` set desired)"
    have q: "?q \<notin> ?P" using False paths_of_iff [OF names] by simp
    have none: "map_of files rel = None" using False files by (simp add: map_of_eq_None_iff)
    have not_blog: "\<not> prefix ''blog/'' rel" if "?q = [''blog'']"
    proof -
      have "rel = ''blog''" using that join_split [of "CHR ''/''" rel] by simp
      then show ?thesis by simp
    qed
    have cond: "rel \<in> fst ` set old \<or> (\<not> hm \<and> prefix ''blog/'' rel) \<longleftrightarrow> ?q \<in> gone old hm \<and> (hm \<or> ?q \<noteq> [''blog''])"
      using paths_of_iff [OF names, of "fst ` set old"] legacy_iff [OF names] b not_blog
      by (auto simp: gone_def legacy_def checked_build_def)
    have same: "file_of dist' rel = file_of t rel"
    proof (cases "\<exists>p \<in> ?P. strict_prefix ?q p")
      case True
      then have "dir_or_none (kind_at t ?q)" using t(3) unfolding room_for_def by blast
      moreover have "kind_at dist' ?q = Some K_dir" using True q unfolding d(2) overlay_def by simp
      ultimately show ?thesis by (simp add: file_of_none dir_or_none_def)
    next
      case False
      then have "kind_at dist' ?q = kind_at t ?q" using q unfolding d(2) overlay_def by simp
      then show ?thesis by (rule file_of_same)
    qed
    have kept: "file_of t rel = (if ?q \<in> gone old hm then None else file_of dist rel)"
    proof (cases "?q \<in> gone old hm")
      case True
      then show ?thesis using t(2) by (simp add: file_of_def)
    next
      case False
      then have "kind_at t ?q = kind_at dist ?q \<or> kind_at t ?q = None \<and> kind_at dist ?q = Some K_dir"
        using t(1) unfolding trimmed_def by blast
      then have "file_of t rel = file_of dist rel"
        using file_of_same [of t rel dist] file_of_none [of t rel] file_of_none [of dist rel] by (auto simp: dir_or_none_def)
      with False show ?thesis by simp
    qed
    have blog: "file_of dist rel = None" if "\<not> hm" "?q = [''blog'']"
    proof -
      have "dir_or_none (kind_at dist ?q)" using blog_not_file that b by simp
      then show ?thesis by (rule file_of_none)
    qed
    show ?thesis using none same kept blog unfolding cond by auto
  qed
qed

lemma publication_runs:
  assumes "inputs_ok arts owners" "tree_ok dist" "read_web_manifest m = Inr (old, hm)"
    "build_web_claims dist old hm arts owners site = Inr desired"
    "distinct (map fst files)" "set (map fst files) = fst ` set desired"
    "\<forall>n \<in> set (tree_names dist). \<not> temp_file_name pid n"
  shows "\<exists>ns stage staged t dist'. checked_build dist old hm arts owners site desired ns
    \<and> stage_files files (Dir []) = Some stage \<and> check_staging stage desired = Inr staged
    \<and> trimmed (gone old hm) (kind_at dist) (kind_at t) \<and> (\<forall>q \<in> gone old hm. reg_at t q = None)
    \<and> (\<forall>q \<in> legacy hm. kind_at t q = None) \<and> room_for (paths_of (fst ` set desired)) (kind_at t)
    \<and> commit_web_outputs pid stage old hm staged dist = Some dist' \<and> tree_ok dist'
    \<and> kind_at dist' = overlay (paths_of (fst ` set desired)) (contents files) (kind_at t)"
proof -
  from build_checked(1) [OF assms(1-4)] obtain ns where b: "checked_build dist old hm arts owners site desired ns" by blast
  note plain = build_checked(2) [OF assms(1-4)] and facts = checked_build_facts [OF b]
  have files: "fst ` set files = fst ` set desired" using assms(6) by simp
  have flat: "flat (paths_of (fst ` set files))" using facts(6) files by simp
  have "\<forall>rel \<in> fst ` set files. names_ok (comps rel)" using facts(5) files by simp
  from staged_files [OF flat this assms(5)] obtain stage staged where stage: "stage_files files (Dir []) = Some stage"
      "walk_regular_files stage = Inr staged" "set staged = fst ` set files"
      "\<forall>rel \<in> fst ` set files. reg_at stage (comps rel) = map_of files rel" by blast
  have temp: "\<forall>rel \<in> fst ` set desired. \<forall>n \<in> set (comps rel). \<not> temp_file_name pid n"
    using plain plain_no_temp by blast
  have staged: "set staged = fst ` set desired" using stage(3) files by simp
  have "check_staging stage desired = Inr staged" using stage(2) staged by (simp add: check_staging_def)
  with published_tree [OF b assms(7) temp staged assms(5,6) stage(4)] b stage(1) show ?thesis by blast
qed

section \<open>A small site\<close>

definition small_dist :: tree where
  "small_dist = Dir [(''assets'', Dir [(''main.js'', Reg [1])])]"

definition small_arts :: "article_path list" where
  "small_arts = [article_at [''hello'']]"

definition small_files :: "(string \<times> bytes) list" where
  "small_files = [(''robots.txt'', [2]), (''hello/index.html'', [3]), (''blog/index.html'', [4])]"

definition small_desired :: "(string \<times> string) list" where
  "small_desired = [(''blog/index.html'', ''system article list /blog/''), (''hello/index.html'', ''article hello.md''),
     (''robots.txt'', ''system feed artifact robots.txt'')]"

lemma small_site:
  "inputs_ok small_arts []" "tree_ok small_dist" "read_web_manifest None = Inr ([], False)"
  "build_web_claims small_dist [] False small_arts [] False = Inr small_desired"
  "distinct (map fst small_files)" "set (map fst small_files) = fst ` set small_desired"
  "\<forall>n \<in> set (tree_names small_dist). \<not> temp_file_name 7 n"
  by code_simp+

text \<open>C32: when the check for conflicts has passed, the outputs can be staged, the staged files are the
  claimed ones, and the publication succeeds: every output has its content, the outputs of the last
  build that are no outputs any more are gone, and every other file of the web tree is as it was.\<close>

theorem publication_exact:
  assumes "inputs_ok arts owners" "tree_ok dist" "read_web_manifest m = Inr (old, hm)"
    "build_web_claims dist old hm arts owners site = Inr desired"
    "distinct (map fst files)" "set (map fst files) = fst ` set desired"
    "\<forall>n \<in> set (tree_names dist). \<not> temp_file_name pid n"
  shows "\<exists>stage staged dist'. stage_files files (Dir []) = Some stage \<and> check_staging stage desired = Inr staged
    \<and> commit_web_outputs pid stage old hm staged dist = Some dist'
    \<and> (\<forall>rel. file_of dist' rel = (case map_of files rel of Some b \<Rightarrow> Some b
         | None \<Rightarrow> if rel \<in> fst ` set old \<or> (\<not> hm \<and> prefix ''blog/'' rel) then None else file_of dist rel))"
  using publication_runs [OF assms] published_files [OF _ _ _ _ _ _ assms(6)] by blast

theorem publication_exact_witness:
  "\<exists>stage staged dist'. stage_files small_files (Dir []) = Some stage
    \<and> commit_web_outputs 7 stage [] False staged small_dist = Some dist'
    \<and> file_of dist' ''assets/main.js'' = Some [1] \<and> file_of dist' ''hello/index.html'' = Some [3]"
proof -
  have "map_of small_files ''hello/index.html'' = Some [3]" "map_of small_files ''assets/main.js'' = None"
    "file_of small_dist ''assets/main.js'' = Some [1]"
    by code_simp+
  then show ?thesis using publication_exact [OF small_site] by fastforce
qed

section \<open>The next build\<close>







fun step_names :: "publish_step \<Rightarrow> string list" where
  "step_names Clear_legacy = []"
| "step_names (Unlink rel) = []"
| "step_names (Dirs_for rel) = comps rel"
| "step_names (Copy_in rel) = comps rel"
| "step_names (Rename_in rel) = comps rel"

lemma run_publish_step_ok:
  "run_publish_step pid stage s t = Some t' \<Longrightarrow> tree_ok t \<Longrightarrow> names_ok (step_names s) \<Longrightarrow> tree_ok t'"
proof (cases s)
  case (Dirs_for rel)
  assume "run_publish_step pid stage s t = Some t'" "tree_ok t" "names_ok (step_names s)"
  with Dirs_for show ?thesis using make_dirs_ok [of "butlast (comps rel)" t t'] by (auto dest: in_set_butlastD)
next
  case (Copy_in rel)
  assume "run_publish_step pid stage s t = Some t'" "tree_ok t" "names_ok (step_names s)"
  with Copy_in show ?thesis
    using put_file_ok [of "temp_of pid rel" _ t t'] temp_of_names [of rel pid] by (auto simp: bind_eq_Some_conv)
next
  case (Rename_in rel)
  assume "run_publish_step pid stage s t = Some t'" "tree_ok t" "names_ok (step_names s)"
  with Rename_in show ?thesis
    using put_file_ok [of "comps rel" _ "drop_node (temp_of pid rel) t" t'] drop_node_ok by (auto simp: bind_eq_Some_conv)
qed (auto simp: drop_node_ok remove_empty_parents_ok split: option.splits tree.splits if_splits)

lemma run_publish_steps_ok:
  "run_publish_steps pid stage ss t = Some t' \<Longrightarrow> tree_ok t \<Longrightarrow> \<forall>s \<in> set ss. names_ok (step_names s) \<Longrightarrow> tree_ok t'"
proof (induction ss arbitrary: t)
  case (Cons s ss)
  then obtain u where "run_publish_step pid stage s t = Some u" "run_publish_steps pid stage ss u = Some t'"
    by (auto simp: bind_eq_Some_conv simp del: run_publish_step.simps)
  with Cons run_publish_step_ok show ?case by (metis list.set_intros)
qed simp

text \<open>A build that is interrupted cannot be repeated: once a new output has been renamed into the
  web tree and the manifest has not been written, which is the last thing a build does, the next
  build takes that output for a static file and reports a conflict.\<close>

theorem interrupted_build_conflicts:
  assumes "inputs_ok arts owners" "tree_ok dist" "read_web_manifest m = Inr (old, hm)"
    "run_publish_steps pid stage (publish_steps old hm (staged @ [rel])) dist = Some dist'"
    "set (staged @ [rel]) \<subseteq> set (map fst (web_outputs arts owners site))"
    "rel \<notin> fst ` set old" "hm \<or> \<not> prefix ''blog/'' rel"
  shows "\<exists>e. build_web_claims dist' old hm arts owners site = Inl e"
proof (rule ccontr)
  assume "\<not> (\<exists>e. build_web_claims dist' old hm arts owners site = Inl e)"
  then obtain desired where "build_web_claims dist' old hm arts owners site = Inr desired"
    by (cases "build_web_claims dist' old hm arts owners site") auto
  then obtain ns where ns: "walk_output_nodes dist' = Inr ns"
      "sorted_wrt apart (static_nodes old hm ns @ map fst (web_outputs arts owners site))"
    by (auto simp: build_web_claims_Inr)
  have split: "publish_steps old hm (staged @ [rel])
      = (publish_steps old hm staged @ [Dirs_for rel, Copy_in rel]) @ [Rename_in rel]"
    by (simp add: publish_steps_def)
  obtain u where "run_publish_step pid stage (Rename_in rel) u = Some dist'"
    using assms(4) unfolding split run_publish_append [of pid stage _ "[Rename_in rel]"]
    by (auto simp: bind_eq_Some_conv simp del: run_publish_step.simps)
  then obtain c v where "put_file (comps rel) c v = Some dist'" by (auto simp: bind_eq_Some_conv)
  from put_file_kind [OF this, of "comps rel"] have reg: "kind_at dist' (comps rel) = Some (K_reg c)" by simp
  have "rel \<in> set (static_nodes old hm ns)"
  proof -
    have names: "names_ok (comps r)" if r: "r \<in> set (staged @ [rel])" for r
    proof -
      obtain own where "(r, own) \<in> set (web_outputs arts owners site)" using r assms(5) by fastforce
      from inputs_outputs(1) [OF assms(1) this] show ?thesis by (simp add: plain_path_def)
    qed
    have "names_ok (step_names st)" if "st \<in> set (publish_steps old hm (staged @ [rel]))" for st
    proof -
      have "step_names st = [] \<or> (\<exists>r \<in> set (staged @ [rel]). step_names st = comps r)"
        using that by (auto simp: publish_steps_def split: if_splits)
      with names show ?thesis by fastforce
    qed
    then have "tree_ok dist'" using run_publish_steps_ok [OF assms(4,2)] by blast
    then have "rel \<in> set ns"
      using walk_output_nodes_listed(1) [OF ns(1)] reg
      by (auto simp: listed_as_def intro!: exI [of _ "comps rel"])
    then show ?thesis using assms(6,7) by (auto simp: static_nodes_def map_of_eq_None_iff)
  qed
  moreover have "rel \<in> set (map fst (web_outputs arts owners site))" using assms(5) by simp
  ultimately have "apart rel rel" using ns(2) by (simp add: sorted_wrt_append del: set_map)
  then show False by (simp add: apart_def)
qed

theorem interrupted_build_conflicts_witness:
  "\<exists>stage dist' e. run_publish_steps 7 stage (publish_steps [] False [''robots.txt'']) small_dist = Some dist'
    \<and> build_web_claims dist' [] False small_arts [] False = Inl e"
proof -
  let ?stage = "Dir [(''robots.txt'', Reg [2])]"
  have run: "run_publish_steps 7 ?stage (publish_steps [] False ([] @ [''robots.txt''])) small_dist
      = Some (Dir [(''assets'', Dir [(''main.js'', Reg [1])]), (''robots.txt'', Reg [2])])"
    by code_simp
  have outputs: "set ([] @ [''robots.txt'']) \<subseteq> set (map fst (web_outputs small_arts [] False))"
    "''robots.txt'' \<notin> fst ` set ([] :: (string \<times> string) list)" "False \<or> \<not> prefix ''blog/'' ''robots.txt''"
    by code_simp+
  from interrupted_build_conflicts [OF small_site(1-3) run outputs] run show ?thesis
    unfolding append_Nil by blast
qed

end
