(* ===== verification/Content_Images.thy ===== *)
theory Content_Images
  imports Content_Model Ansi_Block
begin

text \<open>
  The images of the articles: \<^verbatim>\<open>content-build/src/img.rs\<close> and the loop over the references of an
  article in \<^verbatim>\<open>main.rs\<close>.  Decoding, scaling and encoding is the crate \<^verbatim>\<open>image\<close>, a record of
  functions that is an argument; strings are the bytes of their UTF-8 form.
\<close>

section \<open>Where an image lies\<close>

datatype image_error =
    Percent_sign | Escapes_root | No_file_named | Image_missing | Header_unreadable
  | Decode_failed | Encode_failed | Output_conflict

definition is_ascii_uppercase :: "char \<Rightarrow> bool" where
  "is_ascii_uppercase c \<longleftrightarrow> CHR ''A'' \<le> c \<and> c \<le> CHR ''Z''"

definition alphabetic :: "char \<Rightarrow> bool" where
  "alphabetic c \<longleftrightarrow> is_ascii_lowercase c \<or> is_ascii_uppercase c"

definition split_suffix :: "string \<Rightarrow> string \<times> string" where
  "split_suffix dest =
     (takeWhile (\<lambda>c. c \<notin> {CHR ''?'', CHR ''#''}) dest, dropWhile (\<lambda>c. c \<notin> {CHR ''?'', CHR ''#''}) dest)"

definition has_scheme :: "string \<Rightarrow> bool" where
  "has_scheme dest =
     (case split_once (CHR '':'') dest of
        Some (scheme, _) \<Rightarrow>
          scheme \<noteq> [] \<and> alphabetic (hd scheme)
          \<and> list_all (\<lambda>c. alphabetic c \<or> is_ascii_digit c \<or> c \<in> {CHR ''+'', CHR ''.'', CHR ''-''}) scheme
      | None \<Rightarrow> False)"

text \<open>The stack of \<open>normalize_local_path\<close>, its top first; \<open>None\<close>: above the root.\<close>

fun normalize_segments :: "string list \<Rightarrow> string list \<Rightarrow> string list option" where
  "normalize_segments [] stack = Some stack"
| "normalize_segments (s # segs) stack =
     (if s = [] \<or> s = ''.'' then normalize_segments segs stack
      else if s = ''..''
        then (case stack of [] \<Rightarrow> None | _ # stack \<Rightarrow> normalize_segments segs stack)
      else normalize_segments segs (s # stack))"

definition normalize_local_path :: "string \<Rightarrow> string \<Rightarrow> image_error + (string \<times> string) option" where
  "normalize_local_path source_rel dest =
     (if has_scheme dest \<or> prefix ''/'' dest then Inr None
      else case split_suffix dest of
        (path_part, suff) \<Rightarrow>
          if CHR ''%'' \<in> set path_part then Inl Percent_sign
          else let base = (case rsplit_once (CHR ''/'') source_rel of Some (b, _) \<Rightarrow> b | None \<Rightarrow> []);
                   joined = (if base = [] then path_part else base @ ''/'' @ path_part)
               in case normalize_segments (split_on (CHR ''/'') joined) [] of
                    None \<Rightarrow> Inl Escapes_root
                  | Some stack \<Rightarrow>
                      if stack = [] then Inl No_file_named
                      else Inr (Some (join_with (CHR ''/'') (rev stack), suff)))"

datatype resolved_image = Local_image string | External_image string

definition resolve_image_url :: "string \<Rightarrow> string \<Rightarrow> image_error + resolved_image" where
  "resolve_image_url source_rel dest =
     and_then (normalize_local_path source_rel dest) (\<lambda>r. Inr (case r of
       Some (rel, suff) \<Rightarrow> Local_image (''/'' @ rel @ suff)
     | None \<Rightarrow> External_image dest))"

section \<open>Inline or as a link\<close>

definition MAX_WIDTH :: nat where "MAX_WIDTH = 1080"
definition MAX_BITMAP_BYTES :: nat where "MAX_BITMAP_BYTES = 256 * 1024"
definition MAX_GIF_BYTES :: nat where "MAX_GIF_BYTES = 512 * 1024"
definition MAX_ARTICLE_BYTES :: nat where "MAX_ARTICLE_BYTES = 1536 * 1024"

record 'i image_lib =
  il_header :: "bytes \<Rightarrow> bool"
  il_gif :: "bytes \<Rightarrow> 'i option"
  il_load :: "bytes \<Rightarrow> 'i option"
  il_width :: "'i \<Rightarrow> u32"
  il_height :: "'i \<Rightarrow> u32"
  il_resize :: "'i \<Rightarrow> u32 \<Rightarrow> u32 \<Rightarrow> 'i"
  il_jpeg :: "'i \<Rightarrow> bytes option"
  il_webp :: "'i \<Rightarrow> bytes option"
  il_png :: "'i \<Rightarrow> bytes option"

record processed_image =
  pi_bytes :: bytes
  pi_width :: u32
  pi_height :: u32
  pi_dist_rel :: string

datatype image_output = Inline processed_image | Link_only

definition lowercase :: "string \<Rightarrow> string" where
  "lowercase = map (\<lambda>c. if is_ascii_uppercase c then char_of (of_char c + 32 :: nat) else c)"

text \<open>\<open>Path::extension\<close>: nothing for a name without a dot, or with one in front only.\<close>

definition path_extension :: "string \<Rightarrow> string" where
  "path_extension path =
     (case rsplit_once (CHR ''.'') (last (split_on (CHR ''/'') path)) of
        None \<Rightarrow> []
      | Some (stem, ext) \<Rightarrow> if stem = [] then [] else ext)"

definition with_png_ext :: "string \<Rightarrow> string" where
  "with_png_ext rel =
     (case rsplit_once (CHR ''.'') rel of
        None \<Rightarrow> rel @ ''.png''
      | Some (a, b) \<Rightarrow>
          if CHR ''/'' \<notin> set b \<and> a \<noteq> [] then a @ ''.png'' else rel @ ''.png'')"

definition reencode :: "'i image_lib \<Rightarrow> 'i \<Rightarrow> string \<Rightarrow> bytes option" where
  "reencode lib i ext =
     (if ext = ''jpg'' \<or> ext = ''jpeg'' then il_jpeg lib i
      else if ext = ''webp'' then il_webp lib i else il_png lib i)"

definition source_budget :: "string \<Rightarrow> nat" where
  "source_budget ext = (if ext = ''gif'' then MAX_GIF_BYTES else MAX_BITMAP_BYTES)"

definition scale_down :: "'i image_lib \<Rightarrow> string \<Rightarrow> bytes \<Rightarrow> 'i \<Rightarrow> image_error + bytes \<times> u32 \<times> u32" where
  "scale_down lib ext raw i =
     (let w = il_width lib i; h = il_height lib i
      in if MAX_WIDTH < unat w
         then let nh = of_nat (max 1 (unat h * MAX_WIDTH div unat w))
              in case reencode lib (il_resize lib i (of_nat MAX_WIDTH) nh) ext of
                   None \<Rightarrow> Inl Encode_failed
                 | Some encoded \<Rightarrow>
                     if length raw < length encoded then Inr (raw, w, h) else Inr (encoded, of_nat MAX_WIDTH, nh)
         else Inr (raw, w, h))"

definition to_png :: "'i image_lib \<Rightarrow> string \<Rightarrow> bytes \<Rightarrow> image_error + processed_image" where
  "to_png lib rel b =
     (case il_load lib b of
        None \<Rightarrow> Inl Decode_failed
      | Some i \<Rightarrow>
          (case il_png lib i of
             None \<Rightarrow> Inl Encode_failed
           | Some png \<Rightarrow> Inr \<lparr>pi_bytes = png, pi_width = il_width lib i, pi_height = il_height lib i,
                             pi_dist_rel = with_png_ext rel\<rparr>))"

definition process_bitmap :: "'i image_lib \<Rightarrow> string \<Rightarrow> string \<Rightarrow> bytes \<Rightarrow> image_error + processed_image" where
  "process_bitmap lib ext rel raw =
     (case il_load lib raw of
        None \<Rightarrow> Inl Decode_failed
      | Some i \<Rightarrow>
          and_then (scale_down lib ext raw i) (\<lambda>(b, w, h).
            if ext = ''webp'' then to_png lib rel b
            else Inr \<lparr>pi_bytes = b, pi_width = w, pi_height = h, pi_dist_rel = rel\<rparr>))"

definition process_image :: "'i image_lib \<Rightarrow> string \<Rightarrow> bytes \<Rightarrow> image_error + image_output" where
  "process_image lib rel source =
     (let ext = lowercase (path_extension rel)
      in if source_budget ext < length source
         then (if il_header lib source then Inr Link_only else Inl Header_unreadable)
         else if ext = ''gif''
         then (case il_gif lib source of
                 None \<Rightarrow> Inl Decode_failed
               | Some i \<Rightarrow> Inr (Inline \<lparr>pi_bytes = source, pi_width = il_width lib i, pi_height = il_height lib i,
                                       pi_dist_rel = rel\<rparr>))
         else and_then (process_bitmap lib ext rel source) (\<lambda>p.
                Inr (if MAX_BITMAP_BYTES < length (pi_bytes p) then Link_only else Inline p)))"

section \<open>The images of an article\<close>

datatype presentation = Shown_inline u32 u32 string | Shown_link string

datatype web_asset = Processed bytes | Original string

record site_images =
  si_owners :: "string \<Rightarrow> string option"
  si_web :: "string \<Rightarrow> web_asset option"
  si_rendered :: "string \<Rightarrow> bytes option"
  si_referenced :: "string set"
  si_errors :: "image_error list"

record article_images =
  ar_meta :: "string \<Rightarrow> presentation option"
  ar_paths :: "string \<Rightarrow> (string \<times> string) option"
  ar_first :: "string option"
  ar_bytes :: nat

definition no_site_images :: site_images where
  "no_site_images = \<lparr>si_owners = \<lambda>_. None, si_web = \<lambda>_. None, si_rendered = \<lambda>_. None, si_referenced = {}, si_errors = []\<rparr>"

definition no_article_images :: article_images where
  "no_article_images = \<lparr>ar_meta = \<lambda>_. None, ar_paths = \<lambda>_. None, ar_first = None, ar_bytes = 0\<rparr>"

definition first_or :: "string option \<Rightarrow> string \<Rightarrow> string option" where
  "first_or f url = (case f of None \<Rightarrow> Some url | Some u \<Rightarrow> Some u)"

definition image_failed :: "image_error \<Rightarrow> site_images \<Rightarrow> site_images" where
  "image_failed e st = st\<lparr>si_errors := si_errors st @ [e]\<rparr>"

text \<open>An output path belongs to one source.  The new owner is noted before it is compared.\<close>

definition own_output :: "string \<Rightarrow> string \<Rightarrow> site_images \<Rightarrow> bool \<times> site_images" where
  "own_output out rel st =
     (case si_owners st out of
        Some first \<Rightarrow> (first = rel, st\<lparr>si_owners := (si_owners st)(out \<mapsto> rel)\<rparr>)
      | None \<Rightarrow> (True, st\<lparr>si_owners := (si_owners st)(out \<mapsto> rel)\<rparr>))"

definition publish_inline ::
  "string \<Rightarrow> string \<Rightarrow> string \<Rightarrow> processed_image \<Rightarrow> article_images \<times> site_images \<Rightarrow> article_images \<times> site_images"
where
  "publish_inline dest rel suff p = (\<lambda>(ar, st).
     case own_output (pi_dist_rel p) rel st of
       (False, st) \<Rightarrow> (ar, image_failed Output_conflict st)
     | (True, st) \<Rightarrow>
         let url = ''/'' @ pi_dist_rel p @ suff
         in (ar\<lparr>ar_bytes := ar_bytes ar + length (pi_bytes p),
                ar_meta := (ar_meta ar)(dest \<mapsto> Shown_inline (pi_width p) (pi_height p) url),
                ar_paths := (ar_paths ar)(dest \<mapsto> (rel, pi_dist_rel p)),
                ar_first := first_or (ar_first ar) url\<rparr>,
             st\<lparr>si_referenced := insert rel (si_referenced st),
                si_web := (si_web st)(pi_dist_rel p \<mapsto> Processed (pi_bytes p)),
                si_rendered := (si_rendered st)(pi_dist_rel p \<mapsto> pi_bytes p)\<rparr>))"

definition publish_link ::
  "string \<Rightarrow> string \<Rightarrow> string \<Rightarrow> article_images \<times> site_images \<Rightarrow> article_images \<times> site_images"
where
  "publish_link dest rel suff = (\<lambda>(ar, st).
     case own_output rel rel st of
       (False, st) \<Rightarrow> (ar, image_failed Output_conflict st)
     | (True, st) \<Rightarrow>
         let url = ''/'' @ rel @ suff
         in (ar\<lparr>ar_meta := (ar_meta ar)(dest \<mapsto> Shown_link url), ar_first := first_or (ar_first ar) url\<rparr>,
             st\<lparr>si_referenced := insert rel (si_referenced st), si_web := (si_web st)(rel \<mapsto> Original rel)\<rparr>))"

definition within_article :: "nat \<Rightarrow> image_output \<Rightarrow> image_output" where
  "within_article used out =
     (case out of
        Inline p \<Rightarrow> if MAX_ARTICLE_BYTES < used + length (pi_bytes p) then Link_only else out
      | Link_only \<Rightarrow> Link_only)"

text \<open>\<open>content\<close>: the regular files of the content directory.\<close>

definition image_step ::
  "'i image_lib \<Rightarrow> (string \<Rightarrow> bytes option) \<Rightarrow> string \<Rightarrow> string
   \<Rightarrow> article_images \<times> site_images \<Rightarrow> article_images \<times> site_images"
where
  "image_step lib content source_rel dest s =
     (case normalize_local_path source_rel dest of
        Inl e \<Rightarrow> (fst s, image_failed e (snd s))
      | Inr None \<Rightarrow> s
      | Inr (Some (rel, suff)) \<Rightarrow>
          (case content rel of
             None \<Rightarrow> (fst s, image_failed Image_missing (snd s))
           | Some source \<Rightarrow>
               (case process_image lib rel source of
                  Inl e \<Rightarrow> (fst s, image_failed e (snd s))
                | Inr out \<Rightarrow>
                    (case within_article (ar_bytes (fst s)) out of
                       Inline p \<Rightarrow> publish_inline dest rel suff p s
                     | Link_only \<Rightarrow> publish_link dest rel suff s))))"

definition article_images_of ::
  "'i image_lib \<Rightarrow> (string \<Rightarrow> bytes option) \<Rightarrow> string \<Rightarrow> string list \<Rightarrow> site_images \<Rightarrow> article_images \<times> site_images"
where
  "article_images_of lib content source_rel dests st =
     fold (image_step lib content source_rel) dests (no_article_images, st)"

fun site_images_of ::
  "'i image_lib \<Rightarrow> (string \<Rightarrow> bytes option) \<Rightarrow> (string \<times> string list) list \<Rightarrow> site_images \<Rightarrow> article_images list \<times> site_images"
where
  "site_images_of lib content [] st = ([], st)"
| "site_images_of lib content ((source_rel, dests) # articles) st =
     (case article_images_of lib content source_rel dests st of
        (ar, st) \<Rightarrow>
          (case site_images_of lib content articles st of (ars, st) \<Rightarrow> (ar # ars, st)))"

text \<open>What the terminal gets to know of an image.\<close>

definition image_lookup :: "article_images \<Rightarrow> string \<Rightarrow> img_meta option" where
  "image_lookup ar dest =
     (case ar_meta ar dest of
        Some (Shown_inline w h _) \<Rightarrow>
          (let (path, asset) = (case ar_paths ar dest of Some p \<Rightarrow> p | None \<Rightarrow> (dest, dest))
           in Some \<lparr>im_path = path, im_asset = asset, im_w = w, im_h = h\<rparr>)
      | _ \<Rightarrow> None)"

end
