(* ===== verification/Content_Images_Properties.thy ===== *)
theory Content_Images_Properties
  imports Content_Images Article_Composition
begin

text \<open>
  What the loop over the images keeps: an output has one source, what is published is what was
  claimed, the tables of an article agree with those of the site, and the budgets hold.  An article
  with the images of a build without errors is accepted by the reader.
\<close>

section \<open>Paths\<close>





section \<open>One image\<close>




lemma process_image_cases:
  assumes "process_image lib rel source = Inr (Inline p)"
  obtains (gif) i where "il_gif lib source = Some i" "lowercase (path_extension rel) = ''gif''"
      "p = \<lparr>pi_bytes = source, pi_width = il_width lib i, pi_height = il_height lib i, pi_dist_rel = rel\<rparr>"
  | (plain) i b w h where "il_load lib source = Some i" "lowercase (path_extension rel) \<noteq> ''webp''"
      "scale_down lib (lowercase (path_extension rel)) source i = Inr (b, w, h)"
      "p = \<lparr>pi_bytes = b, pi_width = w, pi_height = h, pi_dist_rel = rel\<rparr>"
  | (webp) i b w h where "il_load lib b = Some i" "lowercase (path_extension rel) = ''webp''"
      "pi_width p = il_width lib i" "pi_height p = il_height lib i" "pi_dist_rel p = with_png_ext rel" "il_png lib i = Some (pi_bytes p)"
proof (cases "lowercase (path_extension rel) = ''gif''")
  case True
  with assms show ?thesis
    by (auto simp: process_image_def Let_def split: if_splits option.splits intro: gif)
next
  case False
  with assms have "process_bitmap lib (lowercase (path_extension rel)) rel source = Inr p"
    by (auto simp: process_image_def Let_def result_simps split: if_splits)
  then obtain i b w h where i: "il_load lib source = Some i"
    "scale_down lib (lowercase (path_extension rel)) source i = Inr (b, w, h)"
    "(if lowercase (path_extension rel) = ''webp'' then to_png lib rel b
      else Inr \<lparr>pi_bytes = b, pi_width = w, pi_height = h, pi_dist_rel = rel\<rparr>) = Inr p"
    by (auto simp: process_bitmap_def result_simps split: option.splits)
  show ?thesis
  proof (cases "lowercase (path_extension rel) = ''webp''")
    case True
    with i(3) obtain k where "il_load lib b = Some k" "il_png lib k = Some (pi_bytes p)"
      "pi_width p = il_width lib k" "pi_height p = il_height lib k" "pi_dist_rel p = with_png_ext rel"
      by (auto simp: to_png_def split: option.splits)
    with True show ?thesis by (intro webp)
  next
    case False
    with i show ?thesis by (intro plain) auto
  qed
qed

lemma process_image_output:
  assumes "process_image lib rel source = Inr (Inline p)"
  shows "pi_dist_rel p = (if lowercase (path_extension rel) = ''webp'' then with_png_ext rel else rel)"
  using assms by (cases rule: process_image_cases) simp_all





section \<open>The tables\<close>




























section \<open>The budget of an article\<close>







section \<open>What is published\<close>







section \<open>What the reader gets\<close>




end
