(* ===== verification/Guest_Comments.thy ===== *)
theory Guest_Comments
  imports Jail_Snapshot Comment_Invariant
begin

text \<open>
  \<^verbatim>\<open>crates/tools/jailbin/src/blog/comments.rs\<close>: the guest's side of the comments that jaild freezes
  into a session, from the file to what the terminal is sent.  The JSON library is an argument.
\<close>

section \<open>The snapshot\<close>

definition MAX_SHOWN :: nat where "MAX_SHOWN = 100"

record guest_reply =
  gr_number :: u64
  gr_author :: ustr

record guest_comment =
  gc_number :: u64
  gc_target :: string
  gc_author :: ustr
  gc_date10 :: string
  gc_text :: ustr
  gc_reply_to :: "guest_reply option"

datatype guest_error =
    Unreadable | Empty_line nat | Bad_json nat | Invalid_fields nat | Number_overflow nat
  | Not_contiguous nat u64 u64 | Reply_invalid nat | Reply_unknown nat | Reply_author_differs nat

definition valid_date10 :: "string \<Rightarrow> bool" where
  "valid_date10 s \<longleftrightarrow> length s = 10 \<and> s ! 4 = CHR ''-'' \<and> s ! 7 = CHR ''-''
     \<and> list_all (\<lambda>(i, b). i = 4 \<or> i = 7 \<or> is_ascii_digit b) (enumerate 0 s)"

definition guest_fields_ok :: "guest_comment \<Rightarrow> bool" where
  "guest_fields_ok c \<longleftrightarrow> \<not> (\<not> valid_target (gc_target c) \<or> gc_author c = [] \<or> 32 < ulen (gc_author c)
     \<or> gc_text c = [] \<or> 512 < ulen (gc_text c) \<or> \<not> valid_date10 (gc_date10 c))"

definition check_parent :: "nat \<Rightarrow> (string \<times> u64 \<rightharpoonup> ustr) \<Rightarrow> guest_comment \<Rightarrow> guest_error + unit" where
  "check_parent idx seen c =
     (case gc_reply_to c of
        None \<Rightarrow> Inr ()
      | Some parent \<Rightarrow>
          if gr_number parent = 0 \<or> gr_author parent = [] \<or> 32 < ulen (gr_author parent)
          then Inl (Reply_invalid (idx + 1))
          else case seen (gc_target c, gr_number parent) of
              None \<Rightarrow> Inl (Reply_unknown (idx + 1))
            | Some author \<Rightarrow> if author \<noteq> gr_author parent then Inl (Reply_author_differs (idx + 1)) else Inr ())"

fun load_lines ::
  "(bytes \<Rightarrow> guest_comment option) \<Rightarrow> string \<Rightarrow> nat \<Rightarrow> (string \<rightharpoonup> u64) \<Rightarrow> (string \<times> u64 \<rightharpoonup> ustr)
     \<Rightarrow> guest_comment list \<Rightarrow> bytes list \<Rightarrow> guest_error + guest_comment list"
where
  "load_lines from_json target idx numbers seen out [] = Inr out"
| "load_lines from_json target idx numbers seen out (line # rest) =
     (if line = [] then Inl (Empty_line (idx + 1))
      else case from_json line of
          None \<Rightarrow> Inl (Bad_json (idx + 1))
        | Some c \<Rightarrow>
            if \<not> guest_fields_ok c then Inl (Invalid_fields (idx + 1))
            else case checked_add (counter numbers (gc_target c)) 1 of
                None \<Rightarrow> Inl (Number_overflow (idx + 1))
              | Some number \<Rightarrow>
                  if gc_number c \<noteq> number then Inl (Not_contiguous (idx + 1) number (gc_number c))
                  else and_then (check_parent idx seen c) (\<lambda>_.
                    load_lines from_json target (idx + 1) (numbers(gc_target c \<mapsto> number))
                      (seen((gc_target c, gc_number c) \<mapsto> gc_author c))
                      (if gc_target c = target then out @ [c] else out) rest))"

text \<open>\<open>file\<close>: what is read at the path of the snapshot, if it can be read.\<close>

definition load_snapshot ::
  "(bytes \<Rightarrow> guest_comment option) \<Rightarrow> bytes option \<Rightarrow> string \<Rightarrow> guest_error + guest_comment list"
where
  "load_snapshot from_json read target =
     (case read of
        None \<Rightarrow> Inl Unreadable
      | Some b \<Rightarrow>
          if from_utf8 b = None then Inl Unreadable
          else load_lines from_json target 0 Map.empty Map.empty [] (lines_of 10 13 b))"

section \<open>On the terminal\<close>

definition guest_control :: "nat \<Rightarrow> bool" where
  "guest_control c \<longleftrightarrow> c \<le> 0x1f \<or> 0x7f \<le> c \<and> c \<le> 0x9f"

definition strip_controls :: "ustr \<Rightarrow> ustr" where
  "strip_controls s = filter (\<lambda>c. \<not> guest_control c) s"

definition strip_comment_controls :: "ustr \<Rightarrow> ustr" where
  "strip_comment_controls s = filter (\<lambda>c. c = 10 \<or> \<not> guest_control c) s"

text \<open>\<open>replace('\n', "\n    ")\<close>.\<close>

definition indented :: "ustr \<Rightarrow> ustr" where
  "indented s = concat (map (\<lambda>c. if c = 10 then 10 # u_of ''    '' else [c]) s)"

definition display_text :: "guest_comment \<Rightarrow> ustr" where
  "display_text c =
     (let text = indented (strip_comment_controls (gc_text c))
      in case gc_reply_to c of
           Some parent \<Rightarrow> u_of ''(In reply to '' @ strip_controls (gr_author parent) @ u_of '' from comment #''
             @ u_of (show_nat (unat (gr_number parent))) @ u_of ''):'' @ [10] @ u_of ''    '' @ text
         | None \<Rightarrow> text)"

definition dim_on :: ustr where "dim_on = 0x1b # u_of ''[2m''"
definition bold_on :: ustr where "bold_on = 0x1b # u_of ''[1m''"
definition style_off :: ustr where "style_off = 0x1b # u_of ''[0m''"

definition render_comment :: "guest_comment \<Rightarrow> ustr" where
  "render_comment c =
     dim_on @ u_of ''#'' @ u_of (show_nat (unat (gc_number c))) @ style_off @ u_of ''  '' @ bold_on
     @ strip_controls (gc_author c) @ style_off @ u_of '' '' @ dim_on @ [0xB7] @ u_of '' '' @ u_of (gc_date10 c) @ style_off
     @ [10] @ u_of ''    '' @ display_text c @ [10, 10]"

definition render_comments :: "(guest_error + guest_comment list) \<Rightarrow> ustr \<Rightarrow> ustr" where
  "render_comments loaded empty_hint =
     (case loaded of
        Inl _ \<Rightarrow> [10] @ replicate 2 0x2500 @ u_of '' Comments '' @ replicate 31 0x2500 @ [10]
                 @ u_of ''(Comments temporarily unavailable)'' @ [10]
      | Inr comments \<Rightarrow>
          let total = length comments; start = total - MAX_SHOWN
          in [10] @ replicate 2 0x2500 @ u_of '' Comments ('' @ u_of (show_nat total) @ u_of '') '' @ replicate 27 0x2500 @ [10]
             @ (if 0 < start then [0x2026] @ u_of '' '' @ u_of (show_nat start) @ u_of '' earlier comments omitted'' @ [10, 10] else [])
             @ concat (map render_comment (drop start comments))
             @ (if comments = [] then u_of ''('' @ empty_hint @ u_of '')'' @ [10] else []))"

end
