(* ===== verification/Guest_Comments_Properties.thy ===== *)
theory Guest_Comments_Properties
  imports Guest_Comments Comment_Sample
begin

text \<open>
  From the log of commentd to the terminal of the guest: what jaild freezes the guest can read, it
  is what the web shows, and on the terminal no comment can pass for another.
\<close>

section \<open>The view, target by target\<close>

lemma replies_back_append:
  "replies_back done (a @ b) \<longleftrightarrow> replies_back done a \<and> replies_back (done @ a) b"
  by (induction a arbitrary: "done") auto

lemma visible_ok_snoc:
  "visible_ok (cs @ [c]) \<longleftrightarrow> visible_ok cs \<and> 0 < cm_id c \<and> (\<forall>d \<in> set cs. cm_id d < cm_id c)
     \<and> (\<forall>p. cm_reply_to_id c = Some p \<longrightarrow> (\<exists>d \<in> set cs. cm_id d = p \<and> cm_target d = cm_target c))"
  by (auto simp: visible_ok_def replies_back_append sorted_wrt_append)

lemma visible_ok_distinct: "visible_ok cs \<Longrightarrow> distinct (map cm_id cs)"
  by (simp add: visible_ok_def strict_sorted_iff)

lemma visible_ok_filter: "visible_ok cs \<Longrightarrow> visible_ok (filter (\<lambda>c. cm_target c = t) cs)"
proof (induction cs rule: rev_induct)
  case (snoc c cs)
  then show ?case by (auto simp: visible_ok_snoc)
qed simp

lemma index_of_split:
  assumes "distinct (map cm_id (a @ d # b))"
  shows "index_of (cm_id d) (a @ d # b) = Some (length a)"
proof -
  have "cm_id d \<notin> cm_id ` set a" using assms by simp
  then have "\<forall>j < length a. cm_id (a ! j) \<noteq> cm_id d" by (metis image_eqI nth_mem)
  then show ?thesis
    unfolding index_of_def find_Some_iff by (intro exI [of _ "length a"]) (auto simp: nth_append)
qed

lemma shown_as_split:
  assumes "distinct (map cm_id (a @ d # b))"
  shows "shown_as (a @ d # b) (cm_id d)
    = Some \<lparr>vr_number = of_nat (Suc (local_count (cm_target d) a)), vr_author = cm_author d\<rparr>"
  by (simp add: shown_as_def index_of_split [OF assms] ref_at_def)

lemma shown_as_filter:
  assumes "distinct (map cm_id cs)" "d \<in> set cs" "cm_target d = t"
  shows "shown_as (filter (\<lambda>c. cm_target c = t) cs) (cm_id d) = shown_as cs (cm_id d)"
proof -
  obtain a b where cs: "cs = a @ d # b" using assms(2) by (meson split_list)
  let ?f = "filter (\<lambda>c. cm_target c = t)"
  have "distinct (map cm_id (?f cs))" using assms(1) by (simp add: distinct_map_filter)
  then have "distinct (map cm_id (?f a @ d # ?f b))" by (simp add: cs assms(3))
  then show ?thesis
    using assms(1,3) shown_as_split [of a d b] shown_as_split [of "?f a" d "?f b"]
    by (simp add: cs local_count_def)
qed

lemma shown_filter:
  "visible_ok cs \<Longrightarrow> filter (\<lambda>v. vc_target v = t) (shown cs) = shown (filter (\<lambda>c. cm_target c = t) cs)"
proof (induction cs rule: rev_induct)
  case (snoc c cs)
  let ?f = "filter (\<lambda>c. cm_target c = t)"
  from snoc.prems have ok: "visible_ok cs"
    "\<And>p. cm_reply_to_id c = Some p \<Longrightarrow> \<exists>d \<in> set cs. cm_id d = p \<and> cm_target d = cm_target c"
    by (auto simp: visible_ok_snoc)
  have "shown_at (cs @ [c]) (length cs) = shown_at (?f cs @ [c]) (length (?f cs))" if t: "cm_target c = t"
  proof (cases "cm_reply_to_id c")
    case (Some p)
    from ok(2) [OF this] obtain d where "d \<in> set cs" "cm_id d = p" "cm_target d = t" using t by blast
    with shown_as_filter [OF visible_ok_distinct [OF ok(1)]] Some t show ?thesis
      by (auto simp: shown_at_def Let_def local_count_def)
  qed (use t in \<open>simp add: shown_at_def Let_def local_count_def\<close>)
  moreover have "vc_target (shown_at (cs @ [c]) (length cs)) = cm_target c" by (simp add: shown_at_def Let_def)
  ultimately show ?case using snoc.IH [OF ok(1)] by (simp add: shown_snoc)
qed (simp add: shown_def)

section \<open>What the reader accepts\<close>

definition guest_count :: "string \<Rightarrow> guest_comment list \<Rightarrow> nat" where
  "guest_count t cs = length (filter (\<lambda>c. gc_target c = t) cs)"

definition next_guest :: "guest_comment list \<Rightarrow> guest_comment \<Rightarrow> bool" where
  "next_guest done c \<longleftrightarrow> guest_fields_ok c \<and> gc_number c = of_nat (Suc (guest_count (gc_target c) done))
     \<and> (\<forall>r. gc_reply_to c = Some r \<longrightarrow> gr_number r \<noteq> 0 \<and> gr_author r \<noteq> [] \<and> ulen (gr_author r) \<le> 32
          \<and> (\<exists>d \<in> set done. gc_target d = gc_target c \<and> gc_number d = gr_number r \<and> gc_author d = gr_author r))"

fun guest_log :: "guest_comment list \<Rightarrow> guest_comment list \<Rightarrow> bool" where
  "guest_log done [] = True"
| "guest_log done (c # rest) \<longleftrightarrow> next_guest done c \<and> guest_log (done @ [c]) rest"

lemma guest_log_append: "guest_log done (a @ b) \<longleftrightarrow> guest_log done a \<and> guest_log (done @ a) b"
  by (induction a arbitrary: "done") auto

text \<open>The state of the loop after the comments \<open>done\<close>.\<close>

definition guest_state ::
  "guest_comment list \<Rightarrow> (string \<rightharpoonup> u64) \<Rightarrow> (string \<times> u64 \<rightharpoonup> ustr) \<Rightarrow> bool"
where
  "guest_state done numbers seen \<longleftrightarrow> (\<forall>t. counter numbers t = of_nat (guest_count t done))
     \<and> (\<forall>d \<in> set done. seen (gc_target d, gc_number d) = Some (gc_author d)
          \<and> unat (gc_number d) \<le> guest_count (gc_target d) done)"

lemma guest_state_step:
  assumes "guest_state done numbers seen" "next_guest done c" "length done + 1 < 2 ^ 64"
  shows "checked_add (counter numbers (gc_target c)) 1 = Some (gc_number c)"
    "check_parent idx seen c = Inr ()"
    "guest_state (done @ [c]) (numbers(gc_target c \<mapsto> gc_number c)) (seen((gc_target c, gc_number c) \<mapsto> gc_author c))"
proof -
  have le: "guest_count (gc_target c) done \<le> length done" by (simp add: guest_count_def)
  then have small: "Suc (guest_count (gc_target c) done) < 2 ^ 64" using assms(3) by simp
  have n: "gc_number c = of_nat (Suc (guest_count (gc_target c) done))"
    using assms(2) by (simp add: next_guest_def)
  then have un: "unat (gc_number c) = Suc (guest_count (gc_target c) done)"
    using small by (simp only: unat_of_nat take_bit_eq_mod) simp
  have "checked_add (of_nat (guest_count (gc_target c) done) :: u64) 1 = Some (gc_number c)"
    unfolding n by (rule checked_add_of_nat) (use small in simp)
  with assms(1) show "checked_add (counter numbers (gc_target c)) 1 = Some (gc_number c)"
    by (simp add: guest_state_def)
  show "check_parent idx seen c = Inr ()"
    using assms(1,2) by (fastforce simp: guest_state_def next_guest_def check_parent_def split: option.split)
  have "gc_number d \<noteq> gc_number c" if "d \<in> set done" "gc_target d = gc_target c" for d
    using assms(1) that un by (auto simp: guest_state_def)
  then show "guest_state (done @ [c]) (numbers(gc_target c \<mapsto> gc_number c)) (seen((gc_target c, gc_number c) \<mapsto> gc_author c))"
    using assms(1) n un unfolding guest_state_def
    by (auto simp: counter_def guest_count_def le_Suc_eq)
qed

lemma load_lines_log:
  assumes "guest_log done (map dec vs)" "length done + length vs < 2 ^ 64" "guest_state done numbers seen"
    "\<forall>v \<in> set vs. enc v \<noteq> [] \<and> from_json (enc v) = Some (dec v)"
  shows "load_lines from_json target idx numbers seen out (map enc vs)
    = Inr (out @ filter (\<lambda>c. gc_target c = target) (map dec vs))"
  using assms
proof (induction vs arbitrary: "done" numbers seen out idx)
  case (Cons v vs)
  let ?c = "dec v"
  from Cons.prems have c: "next_guest done ?c" "length done + 1 < 2 ^ 64" "guest_fields_ok ?c"
    by (auto simp: next_guest_def)
  note step = guest_state_step [OF Cons.prems(3) c(1,2)]
  have "load_lines from_json target (idx + 1) (numbers(gc_target ?c \<mapsto> gc_number ?c))
      (seen((gc_target ?c, gc_number ?c) \<mapsto> gc_author ?c)) (if gc_target ?c = target then out @ [?c] else out) (map enc vs)
    = Inr ((if gc_target ?c = target then out @ [?c] else out) @ filter (\<lambda>c. gc_target c = target) (map dec vs))"
    by (rule Cons.IH [OF _ _ step(3)]) (use Cons.prems in auto)
  then show ?case using Cons.prems(4) c(3) by (simp add: step(1,2))
qed simp

section \<open>From commentd to the guest\<close>

definition guest_reply_of :: "visible_reply \<Rightarrow> guest_reply" where
  "guest_reply_of r = \<lparr>gr_number = vr_number r, gr_author = vr_author r\<rparr>"

definition guest_of :: "snapshot_line \<Rightarrow> guest_comment" where
  "guest_of l = \<lparr>gc_number = sl_number l, gc_target = sl_target l, gc_author = sl_author l,
     gc_date10 = sl_date10 l, gc_text = sl_text l, gc_reply_to = map_option guest_reply_of (sl_reply_to l)\<rparr>"

definition line_of_view :: "visible_comment \<Rightarrow> snapshot_line" where
  "line_of_view c = \<lparr>sl_number = vc_number c, sl_target = vc_target c, sl_author = vc_author c,
     sl_date10 = take 10 (vc_created_at c), sl_text = vc_text c, sl_reply_to = vc_reply_to c\<rparr>"

definition guest_view :: "visible_comment \<Rightarrow> guest_comment" where
  "guest_view c = guest_of (line_of_view c)"

text \<open>The two structures have the same fields, so that the JSON that serde writes of one is read as
  the other; it is one line of UTF-8 that ends with its brace.\<close>

definition snapshot_json_ok :: "(snapshot_line \<Rightarrow> bytes) \<Rightarrow> (bytes \<Rightarrow> guest_comment option) \<Rightarrow> bool" where
  "snapshot_json_ok to_json from_json \<longleftrightarrow> (\<forall>l. (\<forall>u \<in> set (sl_author l) \<union> set (sl_text l). is_scalar u) \<longrightarrow>
     from_json (to_json l) = Some (guest_of l) \<and> to_json l \<noteq> [] \<and> 10 \<notin> set (to_json l)
     \<and> last (to_json l) \<noteq> 13 \<and> from_utf8 (to_json l) \<noteq> None)"

text \<open>A time stamp that chrono accepts as RFC 3339 begins with its date.\<close>

definition dates_ok :: "externals \<Rightarrow> bool" where
  "dates_ok x \<longleftrightarrow> (\<forall>s. x_parse_rfc3339 x s \<noteq> None \<longrightarrow> valid_date10 (take 10 s))"

lemma valid_date10_length: "valid_date10 (take 10 s) \<Longrightarrow> 10 \<le> length s"
  by (simp add: valid_date10_def min_def split: if_splits)

definition view_ok :: "comment \<Rightarrow> bool" where
  "view_ok c \<longleftrightarrow> valid_target (cm_target c) \<and> cm_author c \<noteq> [] \<and> ulen (cm_author c) \<le> 32 \<and> cm_text c \<noteq> []
     \<and> ulen (cm_text c) \<le> 512 \<and> valid_date10 (take 10 (cm_created_at c))
     \<and> (\<forall>u \<in> set (cm_author c) \<union> set (cm_text c). is_scalar u)"

lemma view_ok_stored:
  assumes "validate_stored x c = Inr ()" "stored_scalars c" "dates_ok x"
  shows "view_ok (view c)"
  using assms by (auto simp: validate_stored_def view_ok_def stored_scalars_def dates_ok_def MAX_COMMENT_BYTES_def
      split: if_splits)

lemma guest_count_shown: "guest_count t (map guest_view (shown cs)) = local_count t cs"
proof -
  have "map vc_target (shown cs) = map cm_target cs"
    by (auto simp: shown_def shown_at_def Let_def intro: nth_equalityI)
  then have "filter (\<lambda>x. x = t) (map vc_target (shown cs)) = filter (\<lambda>x. x = t) (map cm_target cs)" by simp
  from arg_cong [OF this, of length] show ?thesis
    by (simp add: filter_map comp_def guest_count_def local_count_def guest_view_def guest_of_def line_of_view_def)
qed

lemma shown_as_member:
  assumes "d \<in> set cs" "distinct (map cm_id cs)"
  shows "\<exists>v \<in> set (shown cs). vc_target v = cm_target d
    \<and> shown_as cs (cm_id d) = Some \<lparr>vr_number = vc_number v, vr_author = vc_author v\<rparr>
    \<and> vc_author v = cm_author d \<and> (\<exists>n < length cs. vc_number v = of_nat (Suc n))"
proof -
  obtain a b where cs: "cs = a @ d # b" using assms(1) by (meson split_list)
  have "shown_at cs (length a) \<in> set (shown cs)" unfolding shown_def set_map by (rule imageI) (simp add: cs)
  moreover have "local_count (cm_target d) a < length cs"
    using local_count_le [of "cm_target d" a] by (simp add: cs)
  moreover have "shown_at cs (length a) = \<lparr>vc_number = of_nat (Suc (local_count (cm_target d) a)),
      vc_target = cm_target d, vc_author = cm_author d, vc_text = cm_text d, vc_created_at = cm_created_at d,
      vc_reply_to = Option.bind (cm_reply_to_id d) (shown_as a)\<rparr>"
    by (simp add: shown_at_def Let_def cs)
  ultimately show ?thesis
    using shown_as_split [of a d b] assms(2) by (auto simp: cs intro!: bexI [of _ "shown_at cs (length a)"])
qed

lemma guest_log_shown:
  assumes "visible_ok cs" "length cs < 2 ^ 64" "\<forall>c \<in> set cs. view_ok c"
  shows "guest_log [] (map guest_view (shown cs))"
  using assms
proof (induction cs rule: rev_induct)
  case (snoc c cs)
  then have ok: "visible_ok cs" "\<And>p. cm_reply_to_id c = Some p \<Longrightarrow> \<exists>d \<in> set cs. cm_id d = p \<and> cm_target d = cm_target c"
    by (auto simp: visible_ok_snoc)
  let ?v = "shown_at (cs @ [c]) (length cs)"
  have v: "?v = \<lparr>vc_number = of_nat (Suc (local_count (cm_target c) cs)), vc_target = cm_target c,
      vc_author = cm_author c, vc_text = cm_text c, vc_created_at = cm_created_at c,
      vc_reply_to = Option.bind (cm_reply_to_id c) (shown_as cs)\<rparr>"
    by (simp add: shown_at_def Let_def)
  have reply: "vr_number r \<noteq> 0 \<and> vr_author r \<noteq> [] \<and> ulen (vr_author r) \<le> 32
      \<and> (\<exists>w \<in> set (shown cs). vc_target w = cm_target c \<and> vc_number w = vr_number r \<and> vc_author w = vr_author r)"
    if r: "vc_reply_to ?v = Some r" for r
  proof -
    from r obtain p where p: "cm_reply_to_id c = Some p" "shown_as cs p = Some r"
      by (auto simp: v bind_eq_Some_conv)
    from ok(2) [OF p(1)] obtain d where d: "d \<in> set cs" "cm_id d = p" "cm_target d = cm_target c" by blast
    from shown_as_member [OF d(1) visible_ok_distinct [OF ok(1)]] p(2) d obtain w n where
      w: "w \<in> set (shown cs)" "vc_target w = cm_target c" "r = \<lparr>vr_number = vc_number w, vr_author = vc_author w\<rparr>"
        "vc_author w = cm_author d" "n < length cs" "vc_number w = of_nat (Suc n)" by auto
    have "Suc n < 2 ^ 64" using w(5) snoc.prems(2) by simp
    then have "unat (of_nat (Suc n) :: u64) = Suc n" by (simp only: unat_of_nat take_bit_eq_mod) simp
    then have "vc_number w \<noteq> 0" using w(6) by (metis nat.simps(3) unat_0)
    moreover have "view_ok d" using snoc.prems(3) d(1) by simp
    ultimately show ?thesis using w by (auto simp: view_ok_def)
  qed
  have "view_ok c" using snoc.prems(3) by simp
  then have "guest_fields_ok (guest_view ?v)"
    by (auto simp: guest_fields_ok_def view_ok_def guest_view_def guest_of_def line_of_view_def v)
  moreover have "gc_number (guest_view ?v) = of_nat (Suc (guest_count (gc_target (guest_view ?v)) (map guest_view (shown cs))))"
    unfolding guest_count_shown by (simp add: guest_view_def guest_of_def line_of_view_def v)
  ultimately have "next_guest (map guest_view (shown cs)) (guest_view ?v)"
    using reply unfolding next_guest_def
    by (auto simp: guest_view_def guest_of_def line_of_view_def guest_reply_of_def) (auto simp: v)
  with snoc ok(1) show ?case by (simp add: shown_snoc guest_log_append)
qed (simp add: shown_def)

lemma approved_replies_all:
  "parents_back done rest \<Longrightarrow> replies_back (map view (filter (\<lambda>c. sc_status c = Approved) done))
     (map view (filter (\<lambda>c. sc_status c = Approved) rest))"
proof (induction rest arbitrary: "done")
  case (Cons c rest)
  then have "replies_back (map view (filter (\<lambda>c. sc_status c = Approved) (done @ [c])))
      (map view (filter (\<lambda>c. sc_status c = Approved) rest))"
    by (intro Cons.IH) simp
  then show ?case using Cons.prems by auto
qed simp

lemma approved_visible_all:
  assumes "sorted_wrt (<) (0 # map sc_id cs)" "parents_back [] cs"
  shows "visible_ok (map view (filter (\<lambda>c. sc_status c = Approved) cs))"
proof -
  let ?a = "filter (\<lambda>c. sc_status c = Approved) cs"
  have "sorted_wrt (<) (map sc_id ?a)" "\<forall>c \<in> set ?a. 0 < sc_id c"
    using assms(1) by (auto simp: sorted_wrt_map intro: sorted_wrt_filter)
  then have "sorted_wrt (<) (0 # map cm_id (map view ?a))" by (simp add: comp_def)
  moreover have "replies_back [] (map view ?a)" using approved_replies_all [OF assms(2)] by simp
  ultimately show ?thesis by (simp add: visible_ok_def)
qed

lemma snapshot_bytes_lines:
  assumes "visible_ok cs" "length cs < 2 ^ 64" "\<forall>c \<in> set cs. view_ok c"
  shows "snapshot_bytes to_json cs = Inr (concat (map (\<lambda>v. to_json (line_of_view v) @ [10]) (shown cs)))"
proof -
  have "comment_line to_json v = Inr (to_json (line_of_view v) @ [10])" if "v \<in> set (shown cs)" for v
  proof -
    from that obtain i where i: "i < length cs" "v = shown_at cs i" by (auto simp: shown_def)
    then have "valid_date10 (take 10 (vc_created_at v))"
      using assms(3) by (simp add: shown_at_def Let_def view_ok_def)
    from valid_date10_length [OF this] show ?thesis by (simp add: comment_line_def line_of_view_def)
  qed
  then have "try_map (comment_line to_json) (shown cs) = Inr (map (\<lambda>v. to_json (line_of_view v) @ [10]) (shown cs))"
    by (rule try_map_all_Inr)
  then show ?thesis
    using visible_ok_shown [OF assms(1,2)] by (simp add: snapshot_bytes_def lift_view_def)
qed

text \<open>C36: what jaild freezes into a session from a log of commentd can be read in the jail, and the
  guest is shown for each target exactly the approved comments that the web shows for it, in the
  same order and under the same numbers.\<close>

theorem frozen_comments_reach_the_guest:
  assumes "log_ok x cs" "length cs < 2 ^ 64" "dates_ok x" "snapshot_json_ok to_json from_json"
  shows "\<exists>b. snapshot_bytes to_json (map view (filter (\<lambda>c. sc_status c = Approved) cs)) = Inr b
    \<and> (\<forall>t. load_snapshot from_json (Some b) t = Inr (map guest_view (shown (map view (approved t cs)))))"
proof -
  let ?all = "map view (filter (\<lambda>c. sc_status c = Approved) cs)"
  let ?enc = "\<lambda>v. to_json (line_of_view v)"
  have ok: "visible_ok ?all" using assms(1) approved_visible_all by (simp add: log_ok_def)
  have len: "length ?all < 2 ^ 64" using assms(2) by (simp add: le_less_trans [OF length_filter_le])
  have views: "\<forall>c \<in> set ?all. view_ok c" using assms(1,3) view_ok_stored by (auto simp: log_ok_def)
  have json: "from_json (?enc v) = Some (guest_view v) \<and> ?enc v \<noteq> [] \<and> 10 \<notin> set (?enc v)
      \<and> last (?enc v) \<noteq> 13 \<and> from_utf8 (?enc v) \<noteq> None" if v: "v \<in> set (shown ?all)" for v
  proof -
    from v obtain i where i: "i < length ?all" "v = shown_at ?all i" by (auto simp: shown_def)
    then have "view_ok (?all ! i)" using views nth_mem by blast
    then have "\<forall>u \<in> set (sl_author (line_of_view v)) \<union> set (sl_text (line_of_view v)). is_scalar u"
      using i(2) by (simp add: shown_at_def Let_def line_of_view_def view_ok_def)
    with assms(4) show ?thesis unfolding snapshot_json_ok_def guest_view_def by blast
  qed
  let ?b = "concat (map (\<lambda>l. l @ [10]) (map ?enc (shown ?all)))"
  have "snapshot_bytes to_json ?all = Inr ?b"
    using snapshot_bytes_lines [OF ok len views] by (simp add: comp_def)
  moreover have "load_snapshot from_json (Some ?b) t = Inr (map guest_view (shown (map view (approved t cs))))" for t
  proof -
    have "\<forall>l \<in> set (map ?enc (shown ?all)). l \<noteq> [] \<and> 10 \<notin> set l \<and> last l \<noteq> 13 \<and> from_utf8 l \<noteq> None"
      using json by auto
    from terminated_lines [OF this] have lines: "from_utf8 ?b \<noteq> None" "lines_of 10 13 ?b = map ?enc (shown ?all)"
      by blast+
    have "load_lines from_json t 0 Map.empty Map.empty [] (map ?enc (shown ?all))
        = Inr ([] @ filter (\<lambda>c. gc_target c = t) (map guest_view (shown ?all)))"
      by (rule load_lines_log [OF guest_log_shown [OF ok len views]])
        (use len json in \<open>auto simp: guest_state_def counter_def guest_count_def\<close>)
    moreover have "filter (\<lambda>c. gc_target c = t) (map guest_view (shown ?all))
        = map guest_view (filter (\<lambda>v. vc_target v = t) (shown ?all))"
      by (simp add: filter_map comp_def guest_view_def guest_of_def line_of_view_def)
    moreover have "filter (\<lambda>c. cm_target c = t) ?all = map view (approved t cs)"
      by (simp add: filter_map comp_def approved_def conj_commute)
    ultimately show ?thesis
      using lines shown_filter [OF ok, of t] by (simp add: load_snapshot_def del: lines_of.simps)
  qed
  ultimately show ?thesis by blast
qed

definition snap_fields :: "snapshot_line \<Rightarrow> nat list list" where
  "snap_fields l = [[unat (sl_number l)], map of_char (sl_target l), sl_author l, map of_char (sl_date10 l), sl_text l]
     @ (case sl_reply_to l of None \<Rightarrow> [] | Some r \<Rightarrow> [[unat (vr_number r)], vr_author r])"

fun guest_of_fields :: "nat list list \<Rightarrow> guest_comment option" where
  "guest_of_fields [[n], t, a, d, x] =
     Some \<lparr>gc_number = of_nat n, gc_target = map char_of t, gc_author = a, gc_date10 = map char_of d, gc_text = x, gc_reply_to = None\<rparr>"
| "guest_of_fields [[n], t, a, d, x, [m], r] =
     Some \<lparr>gc_number = of_nat n, gc_target = map char_of t, gc_author = a, gc_date10 = map char_of d, gc_text = x,
           gc_reply_to = Some \<lparr>gr_number = of_nat m, gr_author = r\<rparr>\<rparr>"
| "guest_of_fields _ = None"

lemma sample_snapshot_json:
  "snapshot_json_ok (\<lambda>l. fields_line (snap_fields l)) (\<lambda>b. guest_of_fields (get_lists (map unat b)))"
proof -
  have fields: "guest_of_fields (snap_fields l) = Some (guest_of l)" for l
    by (cases l) (auto simp: snap_fields_def guest_of_def guest_reply_of_def comp_def split: option.splits)
  have "snap_fields l \<noteq> []" "fields_line (snap_fields l) \<noteq> []" for l
    by (auto simp: snap_fields_def fields_line_def put_lists_def split: option.split)
  then show ?thesis
    using fields_line_text [of "snap_fields l" for l] by (auto simp: snapshot_json_ok_def unat_fields_line get_put_lists fields)
qed

definition dated_libs :: externals where
  "dated_libs = sample_libs\<lparr>x_parse_rfc3339 := \<lambda>s. if valid_date10 (take 10 s) then Some 0 else None\<rparr>"

definition dated_log :: "stored_comment list" where
  "dated_log =
     [\<lparr>sc_id = 1, sc_target = ''/notes/'', sc_author = u_of ''ann'', sc_text = u_of ''hello'', sc_reply_to_id = None,
       sc_ip_hash = replicate 64 CHR ''0'', sc_created_at = ''2026-01-31T00:00:00Z'', sc_status = Approved\<rparr>,
      \<lparr>sc_id = 4, sc_target = ''/notes/'', sc_author = u_of ''bob'', sc_text = u_of ''hi'', sc_reply_to_id = Some 1,
       sc_ip_hash = replicate 64 CHR ''0'', sc_created_at = ''2026-02-01T00:00:00Z'', sc_status = Approved\<rparr>]"

theorem frozen_comments_reach_the_guest_witness:
  "\<exists>b. snapshot_bytes (\<lambda>l. fields_line (snap_fields l)) (map view (filter (\<lambda>c. sc_status c = Approved) dated_log)) = Inr b
    \<and> load_snapshot (\<lambda>b. guest_of_fields (get_lists (map unat b))) (Some b) ''/notes/''
      = Inr (map guest_view (shown (map view (approved ''/notes/'' dated_log))))"
proof -
  have "list_all (\<lambda>c. validate_stored dated_libs c = Inr ()) dated_log" by code_simp
  then have "\<forall>c \<in> set dated_log. validate_stored dated_libs c = Inr ()" unfolding list_all_iff .
  moreover have "\<forall>c \<in> set dated_log. stored_scalars c"
    by (simp add: dated_log_def stored_scalars_def u_of_def is_scalar_def)
  moreover have "sorted_wrt (<) (0 # map sc_id dated_log)" "parents_back [] dated_log" by (simp_all add: dated_log_def)
  ultimately have "log_ok dated_libs dated_log" unfolding log_ok_def by blast
  moreover have "length dated_log < 2 ^ 64" "dates_ok dated_libs"
    by (simp_all add: dated_log_def dates_ok_def dated_libs_def)
  ultimately show ?thesis
    using frozen_comments_reach_the_guest [of dated_libs dated_log] sample_snapshot_json by blast
qed

end
