(* ===== verification/Guest_Blog.thy ===== *)
theory Guest_Blog
  imports Guest_Comments Reader_View
begin

text \<open>
  The command \<open>blog\<close> of the guest: \<^verbatim>\<open>crates/tools/jailbin/src/blog/mod.rs\<close>, the sequences of
  \<^verbatim>\<open>webctl.rs\<close>, and the start of the reader in \<^verbatim>\<open>reader.rs\<close>.  What the command sees (files, the
  terminal, how the programs it starts end) is the record \<open>guest_env\<close>; what it does is the list of
  its actions, with its exit code.
\<close>

section \<open>Sequences for the browser and the terminal\<close>

definition MAX_TITLE_BYTES :: nat where "MAX_TITLE_BYTES = 512"

definition osc_url :: "string \<Rightarrow> ustr" where
  "osc_url path = 0x1b # u_of '']7777;url='' @ u_of path @ [7]"

definition osc_title :: "ustr \<Rightarrow> ustr option" where
  "osc_title title =
     (if title = [] \<or> MAX_TITLE_BYTES < ulen title \<or> list_ex is_control title then None
      else Some (0x1b # u_of '']2;'' @ title @ [7]))"

datatype blog_action =
    Send ustr | Run_reader string | Run_pager string | Cat_file string | Message

text \<open>\<open>webctl\<close>; \<open>ok\<close>: whether the terminal takes its output.\<close>

definition webctl :: "bool \<Rightarrow> string list \<Rightarrow> blog_action list \<times> nat" where
  "webctl ok args =
     (case args of
        command # rest \<Rightarrow>
          if command \<noteq> ''url'' then ([Message], 2)
          else (case rest of
              [] \<Rightarrow> ([Message], 2)
            | p # _ \<Rightarrow> if prefix ''/'' p then ([Send (osc_url p)], if ok then 0 else 2) else ([Message], 2))
      | [] \<Rightarrow> ([Message], 2))"

section \<open>Files\<close>

record guest_env =
  ge_home :: "string option"
  ge_is_file :: "string \<Rightarrow> bool"
  ge_canonical :: "string \<Rightarrow> string option"
  ge_read :: "string \<Rightarrow> bytes option"
  ge_terminal :: bool
  ge_reader :: "string \<Rightarrow> string \<Rightarrow> nat option"
  ge_pager :: "string \<Rightarrow> nat"
  ge_cat :: "string \<Rightarrow> bool"

text \<open>\<open>Path::join\<close>: an absolute path replaces.\<close>

definition path_join :: "string \<Rightarrow> string \<Rightarrow> string" where
  "path_join a b = (if prefix ''/'' b \<or> a = [] then b else if suffix ''/'' a then a @ b else a @ ''/'' @ b)"

definition resolve_file :: "guest_env \<Rightarrow> string \<Rightarrow> string \<Rightarrow> string option" where
  "resolve_file env arg home =
     find (ge_is_file env) [arg, path_join home arg, path_join home (arg @ ''.md'')]"

text \<open>\<open>Path::strip_prefix\<close> compares components.\<close>

definition path_parts :: "string \<Rightarrow> string list" where
  "path_parts p = filter (\<lambda>s. s \<noteq> []) (split_on (CHR ''/'') p)"

definition path_strip_prefix :: "string \<Rightarrow> string \<Rightarrow> string option" where
  "path_strip_prefix p base =
     map_option (join_with (CHR ''/'')) (strip_prefix (path_parts base) (path_parts p))"

definition home_relative_file :: "guest_env \<Rightarrow> string \<Rightarrow> string \<Rightarrow> string option" where
  "home_relative_file env file_path home =
     Option.bind (ge_canonical env file_path) (\<lambda>f.
     Option.bind (ge_canonical env home) (\<lambda>h. path_strip_prefix f h))"

definition load_machine_index ::
  "(bytes \<Rightarrow> article_index option) \<Rightarrow> bytes option \<Rightarrow> (string \<rightharpoonup> article_index_entry) option"
where
  "load_machine_index from_json text =
     (case Option.bind text from_json of
        None \<Rightarrow> None
      | Some index \<Rightarrow>
          (case index_validate index of
             Inl e \<Rightarrow> None
           | Inr _ \<Rightarrow>
               let entries = map (\<lambda>e. (ae_source_rel e, e)) (ai_articles index)
               in if distinct (map fst entries) then Some (map_of entries) else None))"

section \<open>The directories with comments\<close>

datatype attachment_error =
    Missing_tab nat | Extra_fields nat | Bad_fifo nat | Bad_directory nat path_error | Inconsistent nat | Repeated nat

fun attachment_lines ::
  "nat \<Rightarrow> (string \<rightharpoonup> comment_attachment) \<Rightarrow> string list \<Rightarrow> attachment_error + (string \<rightharpoonup> comment_attachment)"
where
  "attachment_lines index attachments [] = Inr attachments"
| "attachment_lines index attachments (line # rest) =
     (case split_once (CHR 0x09) line of
        None \<Rightarrow> Inl (Missing_tab (index + 1))
      | Some (fifo, target) \<Rightarrow>
          if CHR 0x09 \<in> set target then Inl (Extra_fields (index + 1))
          else case (if fifo = ''comment'' then Some [] else strip_suffix ''/comment'' fifo) of
              None \<Rightarrow> Inl (Bad_fifo (index + 1))
            | Some directory \<Rightarrow>
                (case attachment_from_directory_rel directory of
                   Inl e \<Rightarrow> Inl (Bad_directory (index + 1) e)
                 | Inr a \<Rightarrow>
                     if ca_fifo_rel a \<noteq> fifo \<or> ca_target a \<noteq> target then Inl (Inconsistent (index + 1))
                     else if attachments (ca_directory_rel a) \<noteq> None then Inl (Repeated (index + 1))
                     else attachment_lines (index + 1) (attachments(ca_directory_rel a \<mapsto> a)) rest))"

definition parse_attachments :: "string \<Rightarrow> attachment_error + (string \<rightharpoonup> comment_attachment)" where
  "parse_attachments text = attachment_lines 0 Map.empty (lines_of (CHR 0x0A) (CHR 0x0D) text)"

definition TARGETS_FILE :: string where "TARGETS_FILE = ''/usr/local/share/termblog/comment-targets.tsv''"
definition COMMENTS_SNAPSHOT :: string where "COMMENTS_SNAPSHOT = ''/var/run/termblog/comments.jsonl''"

definition no_comments_hint :: "comment_attachment \<Rightarrow> ustr" where
  "no_comments_hint a =
     u_of ''No '' @ u_of (if ca_target a = ''/'' then ''messages'' else ''comments'') @ u_of '' yet '' @ [0x2014]
     @ u_of '' write the first one with: echo 'alice: Great post' > ~/'' @ u_of (ca_fifo_rel a)"

text \<open>The text is one of UTF-8 where \<open>utf8\<close> says so.\<close>

definition render_article_comments ::
  "(bytes \<Rightarrow> string option) \<Rightarrow> (bytes \<Rightarrow> guest_comment option) \<Rightarrow> guest_env \<Rightarrow> article_index_entry \<Rightarrow> blog_action list"
where
  "render_article_comments utf8 from_json env article =
     (case article_parse (ae_source_rel article) of
        Inl _ \<Rightarrow> []
      | Inr path \<Rightarrow>
          (case Option.bind (ge_read env TARGETS_FILE) utf8 of
             None \<Rightarrow> []
           | Some text \<Rightarrow>
               (case parse_attachments text of
                  Inl _ \<Rightarrow> []
                | Inr attachments \<Rightarrow>
                    (case attachments (ap_directory_rel path) of
                       None \<Rightarrow> []
                     | Some a \<Rightarrow>
                         [Send (render_comments (load_snapshot from_json (ge_read env COMMENTS_SNAPSHOT) (ca_target a)) (no_comments_hint a))]))))"

section \<open>The command\<close>

definition show_file :: "guest_env \<Rightarrow> string \<Rightarrow> blog_action list \<times> nat" where
  "show_file env path =
     (if ge_terminal env then ([Run_pager path], ge_pager env path)
      else ([Cat_file path], if ge_cat env path then 0 else 1))"

definition emit_title :: "ustr \<Rightarrow> blog_action list" where
  "emit_title title = (case osc_title title of None \<Rightarrow> [] | Some s \<Rightarrow> [Send s])"

definition list_articles :: "guest_env \<Rightarrow> string \<Rightarrow> blog_action list \<times> nat" where
  "list_articles env rendered_dir =
     (let index = path_join rendered_dir ''.index''
      in if ge_is_file env index then ([Cat_file index], if ge_cat env index then 0 else 1) else ([Message], 0))"

definition show_article ::
  "(bytes \<Rightarrow> string option) \<Rightarrow> (bytes \<Rightarrow> guest_comment option) \<Rightarrow> guest_env \<Rightarrow> string \<Rightarrow> string \<Rightarrow> article_index_entry
     \<Rightarrow> blog_action list \<times> nat"
where
  "show_article utf8 from_json env home file_path article =
     (let rendered = path_join (path_join home ''.rendered'') (ae_key article);
          start = emit_title (ae_title article) @ [Send (osc_url (ae_route article))];
          finish = render_article_comments utf8 from_json env article @ [Send (osc_url ''/'')]
      in case (if ge_is_file env rendered then ge_reader env home rendered else None) of
           Some code \<Rightarrow> (start @ [Run_reader rendered] @ finish, code)
         | None \<Rightarrow>
             (case show_file env (if ge_is_file env rendered then rendered else file_path) of
                (acts, code) \<Rightarrow>
                  (start @ (if ge_is_file env rendered then [] else [Message]) @ acts @ finish, code)))"

text \<open>\<open>blog::run\<close>, after the option that dumps a frame for tests.\<close>

definition blog ::
  "(bytes \<Rightarrow> string option) \<Rightarrow> (bytes \<Rightarrow> article_index option) \<Rightarrow> (bytes \<Rightarrow> guest_comment option) \<Rightarrow> guest_env
     \<Rightarrow> string list \<Rightarrow> blog_action list \<times> nat"
where
  "blog utf8 index_json from_json env args =
     (case ge_home env of
        None \<Rightarrow> ([Message], 1)
      | Some home \<Rightarrow>
          let rendered_dir = path_join home ''.rendered''
          in if args = [] \<or> args = [[]] then list_articles env rendered_dir
             else if hd args \<noteq> ''--'' \<and> prefix ''-'' (hd args) then ([Message], 2)
             else case (if hd args = ''--'' then tl args else args) of
                 [arg] \<Rightarrow>
                   (case resolve_file env arg home of
                      None \<Rightarrow> ([Message], 1)
                    | Some file_path \<Rightarrow>
                        (case load_machine_index index_json (ge_read env (path_join rendered_dir ''.index.json'')) of
                           None \<Rightarrow> (case show_file env file_path of (acts, code) \<Rightarrow> (Message # acts, code))
                         | Some entries \<Rightarrow>
                             (case Option.bind (home_relative_file env file_path home) entries of
                                None \<Rightarrow> show_file env file_path
                              | Some article \<Rightarrow> show_article utf8 from_json env home file_path article)))
               | _ \<Rightarrow> ([Message], 2))"

section \<open>The start of the reader\<close>

record reader_env =
  re_img :: "string option"
  re_stdin :: bool
  re_stdout :: bool
  re_size :: "(u16 \<times> u16) option"
  re_text :: "string \<Rightarrow> ustr option"
  re_manifest :: "string \<Rightarrow> (u32 \<times> img_anchor list) option"
  re_assets :: asset_files

text \<open>\<open>try_run\<close> until the terminal is entered: the outer \<open>None\<close> is a panic, the inner one means
  that the pager shows the article.\<close>

definition try_reader :: "reader_env \<Rightarrow> string \<Rightarrow> prepared option option" where
  "try_reader env rendered =
     (if re_img env \<noteq> Some ''iterm2'' \<or> \<not> re_stdin env \<or> \<not> re_stdout env then Some None
      else case re_size env of
          None \<Rightarrow> Some None
        | Some (cols, _) \<Rightarrow>
            if unat cols < MIN_COLS then Some None
            else case re_text env rendered of
                None \<Rightarrow> Some None
              | Some text \<Rightarrow>
                  if text = [] then Some None
                  else case re_manifest env (rendered @ ''.images.json'') of
                      None \<Rightarrow> Some None
                    | Some (version, images) \<Rightarrow>
                        if version \<noteq> 1 \<or> images = [] then Some None
                        else case preflight (re_assets env) text images of
                            None \<Rightarrow> None
                          | Some (Inl _) \<Rightarrow> Some None
                          | Some (Inr prep) \<Rightarrow> Some (Some prep))"

end
