(* ===== verification/Guest_Properties.thy ===== *)
theory Guest_Properties
  imports Guest_Comments_Properties Guest_Blog
begin

text \<open>
  What the guest's terminal is sent: the comments cannot forge one another, the browser's URL follows
  the article and comes back, and the guest reads the manifest of the scopes as jaild does.
\<close>

section \<open>What the terminal is sent\<close>

definition spaces :: ustr where "spaces = u_of ''    ''"

definition header_line :: "guest_comment \<Rightarrow> ustr" where
  "header_line c =
     dim_on @ u_of ''#'' @ u_of (show_nat (unat (gc_number c))) @ style_off @ u_of ''  '' @ bold_on
     @ strip_controls (gc_author c) @ style_off @ u_of '' '' @ dim_on @ [0xB7] @ u_of '' '' @ u_of (gc_date10 c) @ style_off"

definition reply_lines :: "guest_comment \<Rightarrow> ustr list" where
  "reply_lines c =
     (case gc_reply_to c of
        None \<Rightarrow> []
      | Some p \<Rightarrow> [u_of ''(In reply to '' @ strip_controls (gr_author p) @ u_of '' from comment #''
                   @ u_of (show_nat (unat (gr_number p))) @ u_of ''):''])"

definition body_lines :: "guest_comment \<Rightarrow> ustr list" where
  "body_lines c = map ((@) spaces) (reply_lines c @ split_on 10 (strip_comment_controls (gc_text c)))"

definition printable :: "ustr \<Rightarrow> bool" where
  "printable s \<longleftrightarrow> (\<forall>u \<in> set s. \<not> guest_control u)"

lemma printable_simps [simp]:
  "printable []" "printable (a @ b) \<longleftrightarrow> printable a \<and> printable b"
  "printable (u # a) \<longleftrightarrow> \<not> guest_control u \<and> printable a"
  by (auto simp: printable_def)

lemma printable_no_break: "printable s \<Longrightarrow> 10 \<notin> set s" "printable s \<Longrightarrow> 0x1b \<notin> set s"
  by (auto simp: printable_def guest_control_def)

lemma printable_ascii:
  "\<forall>c \<in> set s. CHR '' '' \<le> c \<and> c \<le> CHR ''~'' \<Longrightarrow> printable (u_of s)"
  by (force simp: printable_def u_of_def guest_control_def less_eq_char_def)

lemma is_ascii_digit_between: "is_ascii_digit c \<Longrightarrow> CHR '' '' \<le> c \<and> c \<le> CHR ''~''"
  by (auto simp: is_ascii_digit_def less_eq_char_def)

lemma printable_show_nat: "printable (u_of (show_nat n))"
proof -
  have "48 \<le> d + 48 \<and> d + 48 \<le> 57" "of_char (digit_char d) = d + 48" if "d \<in> set (digits 10 n)" for d
    using digits_less [of 10 d n] that by simp_all
  then show ?thesis by (fastforce simp: printable_def u_of_def show_nat_def guest_control_def)
qed

lemma printable_strip: "printable (strip_controls s)"
  by (simp add: printable_def strip_controls_def)

lemma printable_spaces: "printable spaces"
  by (simp add: spaces_def u_of_def guest_control_def)

lemma printable_date:
  assumes "valid_date10 d"
  shows "printable (u_of d)"
proof -
  have "CHR '' '' \<le> d ! i \<and> d ! i \<le> CHR ''~''" if "i < length d" for i
  proof (cases "i = 4 \<or> i = 7")
    case True
    with assms show ?thesis by (auto simp: valid_date10_def less_eq_char_def)
  next
    case False
    with assms that have "is_ascii_digit (d ! i)"
      by (auto simp: valid_date10_def list_all_length nth_enumerate_eq)
    then show ?thesis by (rule is_ascii_digit_between)
  qed
  then have "\<forall>c \<in> set d. CHR '' '' \<le> c \<and> c \<le> CHR ''~''" by (auto simp: in_set_conv_nth)
  then show ?thesis by (rule printable_ascii)
qed

lemma set_split_on: "l \<in> set (split_on c s) \<Longrightarrow> set l \<subseteq> set s - {c}"
proof (induction s arbitrary: l)
  case (Cons x s)
  obtain w ws where "split_on c s = w # ws" by (meson neq_Nil_conv split_on_not_Nil)
  with Cons show ?case by (cases "x = c") force+
qed simp

lemma printable_text_line: "l \<in> set (split_on 10 (strip_comment_controls s)) \<Longrightarrow> printable l"
  using set_split_on [of l 10] by (fastforce simp: printable_def strip_comment_controls_def)

lemma split_prefix: "10 \<notin> set a \<Longrightarrow> split_on 10 (a @ s) = (a @ hd (split_on 10 s)) # tl (split_on 10 s)" for a :: ustr
  by (induction a) (auto simp: neq_Nil_conv split: list.split)

lemma split_indented:
  "split_on 10 (spaces @ indented s) = map ((@) spaces) (split_on 10 s)"
proof (induction s)
  case Nil
  then show ?case using printable_no_break(1) [OF printable_spaces] by (simp add: indented_def split_on_single)
next
  case (Cons u s)
  note sp = printable_no_break(1) [OF printable_spaces]
  show ?case
  proof (cases "u = 10")
    case True
    then have "spaces @ indented (u # s) = spaces @ 10 # (spaces @ indented s)" by (simp add: indented_def spaces_def)
    with True Cons sp show ?thesis by (simp add: split_on_append)
  next
    case False
    then have "split_on 10 (spaces @ indented (u # s)) = (spaces @ [u] @ hd (split_on 10 (indented s))) # tl (split_on 10 (indented s))"
      using split_prefix [of "spaces @ [u]" "indented s"] sp by (simp add: indented_def)
    moreover have "split_on 10 (spaces @ indented s) = (spaces @ hd (split_on 10 (indented s))) # tl (split_on 10 (indented s))"
      by (rule split_prefix [OF sp])
    moreover obtain w ws where "split_on 10 s = w # ws" by (meson neq_Nil_conv split_on_not_Nil)
    ultimately show ?thesis using Cons False by simp
  qed
qed

lemma split_body:
  "split_on 10 (spaces @ display_text c) = body_lines c"
proof (cases "gc_reply_to c")
  case None
  then show ?thesis by (simp add: display_text_def body_lines_def reply_lines_def split_indented)
next
  case (Some p)
  let ?r = "hd (reply_lines c)"
  have "printable (spaces @ ?r)"
    using Some printable_spaces printable_strip [of "gr_author p"] printable_show_nat [of "unat (gr_number p)"]
    by (simp add: reply_lines_def u_of_def guest_control_def)
  moreover have "spaces @ display_text c = (spaces @ ?r) @ 10 # (spaces @ indented (strip_comment_controls (gc_text c)))"
    using Some by (simp add: display_text_def reply_lines_def spaces_def)
  moreover have "split_on 10 ((spaces @ ?r) @ 10 # (spaces @ indented (strip_comment_controls (gc_text c))))
      = (spaces @ ?r) # split_on 10 (spaces @ indented (strip_comment_controls (gc_text c)))"
    by (rule split_on_append, rule printable_no_break(1)) fact
  ultimately have "split_on 10 (spaces @ display_text c)
      = (spaces @ ?r) # split_on 10 (spaces @ indented (strip_comment_controls (gc_text c)))"
    by (simp only:)
  then show ?thesis unfolding split_indented using Some by (simp add: body_lines_def reply_lines_def)
qed

lemma header_line_no_break: "valid_date10 (gc_date10 c) \<Longrightarrow> 10 \<notin> set (header_line c)"
  using printable_no_break(1) [OF printable_strip, of "gc_author c"] printable_no_break(1) [OF printable_show_nat]
    printable_no_break(1) [OF printable_date]
  by (auto simp: header_line_def dim_on_def bold_on_def style_off_def u_of_def)

lemma split_render_comment:
  assumes "valid_date10 (gc_date10 c)"
  shows "split_on 10 (render_comment c @ rest) = header_line c # body_lines c @ [] # split_on 10 rest"
proof -
  have "render_comment c @ rest = header_line c @ 10 # ((spaces @ display_text c) @ 10 # 10 # rest)"
    by (simp add: render_comment_def header_line_def spaces_def)
  moreover have "split_on 10 (header_line c @ 10 # ((spaces @ display_text c) @ 10 # 10 # rest))
      = header_line c # split_on 10 ((spaces @ display_text c) @ 10 # 10 # rest)"
    by (rule split_on_append [OF header_line_no_break [OF assms]])
  moreover have "split_on 10 ((spaces @ display_text c) @ 10 # 10 # rest) = body_lines c @ [] # split_on 10 rest"
    unfolding split_on_append_sep split_body by simp
  ultimately show ?thesis by (simp only:)
qed

lemma split_render_comments:
  assumes "\<forall>c \<in> set cs. valid_date10 (gc_date10 c)"
  shows "split_on 10 (concat (map render_comment cs) @ rest)
    = concat (map (\<lambda>c. header_line c # body_lines c @ [[]]) cs) @ split_on 10 rest"
  using assms by (induction cs) (simp_all add: split_render_comment)

lemma header_line_controls:
  assumes "valid_date10 (gc_date10 c)"
  shows "filter guest_control (header_line c) = replicate 6 0x1b"
proof -
  have none: "filter guest_control s = []" if "printable s" for s
    using that by (simp add: printable_def filter_empty_conv)
  show ?thesis
    using none [OF printable_strip, of "gc_author c"] none [OF printable_show_nat] none [OF printable_date [OF assms]]
    by (simp add: header_line_def dim_on_def bold_on_def style_off_def u_of_def guest_control_def numeral_eq_Suc)
qed

lemma body_lines_printable: "l \<in> set (body_lines c) \<Longrightarrow> printable l \<and> prefix spaces l"
  using printable_spaces printable_text_line printable_strip printable_show_nat
  by (auto simp: body_lines_def reply_lines_def split: option.splits) (auto simp: u_of_def guest_control_def)

lemma load_lines_fields:
  "load_lines from_json t idx numbers seen out ls = Inr cs \<Longrightarrow> \<forall>c \<in> set out. guest_fields_ok c
     \<Longrightarrow> \<forall>c \<in> set cs. guest_fields_ok c"
proof (induction ls arbitrary: idx numbers seen out)
  case (Cons l ls)
  from Cons.prems(1) obtain c numbers' seen' where c: "guest_fields_ok c"
    "load_lines from_json t (idx + 1) numbers' seen' (if gc_target c = t then out @ [c] else out) ls = Inr cs"
    by (auto simp: result_simps split: if_splits option.splits)
  have "\<forall>d \<in> set (if gc_target c = t then out @ [c] else out). guest_fields_ok d"
    using c(1) Cons.prems(2) by simp
  with Cons.IH c(2) show ?case by blast
qed simp

lemma load_snapshot_fields:
  "load_snapshot from_json snap t = Inr cs \<Longrightarrow> c \<in> set cs \<Longrightarrow> guest_fields_ok c"
  using load_lines_fields [of from_json t 0 Map.empty Map.empty "[]" _ cs]
  by (auto simp: load_snapshot_def simp del: lines_of.simps split: option.splits if_splits)

lemma split_printable:
  assumes "printable a"
  shows "split_on 10 (a @ 10 # s) = a # split_on 10 s" "split_on 10 a = [a]"
  using printable_no_break(1) [OF assms] by (simp_all add: split_on_append split_on_single)

text \<open>C37: whatever the comments in the file contain, on the terminal none can pass for another or send
  it a sequence: of the lines that are written only those have a control character that are the head
  of one of the last hundred comments, with the six sequences of the program itself, and every line of
  a comment's text is printable and begins with four spaces.\<close>

theorem comments_cannot_forge:
  assumes "load_snapshot from_json snap t = Inr cs" "printable empty_hint"
  shows "(\<exists>first last. split_on 10 (render_comments (Inr cs) empty_hint)
        = first @ concat (map (\<lambda>c. header_line c # body_lines c @ [[]]) (drop (length cs - MAX_SHOWN) cs)) @ last
      \<and> (\<forall>l \<in> set (first @ last). printable l))
    \<and> (\<forall>c \<in> set cs. filter guest_control (header_line c) = replicate 6 0x1b
      \<and> (\<forall>l \<in> set (body_lines c). printable l \<and> prefix spaces l))"
proof -
  define late where "late = drop (length cs - MAX_SHOWN) cs"
  define title where "title = replicate 2 0x2500 @ u_of '' Comments ('' @ u_of (show_nat (length cs)) @ u_of '') '' @ replicate 27 0x2500"
  define more where "more = [0x2026] @ u_of '' '' @ u_of (show_nat (length cs - MAX_SHOWN)) @ u_of '' earlier comments omitted''"
  define hint where "hint = u_of ''('' @ empty_hint @ u_of '')''"
  define head where "head = (if 0 < length cs - MAX_SHOWN then [more, []] else [])"
  have dates: "valid_date10 (gc_date10 c)" if "c \<in> set cs" for c
    using load_snapshot_fields [OF assms(1) that] by (simp add: guest_fields_ok_def)
  have texts: "printable title" "printable more" "printable hint"
    using assms(2) printable_show_nat [of "length cs"] printable_show_nat [of "length cs - MAX_SHOWN"]
    by (auto simp: title_def more_def hint_def u_of_def guest_control_def numeral_eq_Suc)
  have split: "split_on 10 (concat (map render_comment late) @ rest)
      = concat (map (\<lambda>c. header_line c # body_lines c @ [[]]) late) @ split_on 10 rest" for rest
    by (rule split_render_comments) (use dates in \<open>auto simp: late_def dest: in_set_dropD\<close>)
  have head: "split_on 10 (concat (map (\<lambda>l. l @ [10]) head) @ rest) = head @ split_on 10 rest" for rest
    using split_printable(1) [OF texts(2), of "10 # rest"] by (simp add: head_def)
  have tail: "split_on 10 (if cs = [] then hint @ [10] else []) = (if cs = [] then [hint] else []) @ [[]]"
    using split_printable(1) [OF texts(3), of "[]"] by simp
  have "render_comments (Inr cs) empty_hint
      = [] @ 10 # (title @ 10 # (concat (map (\<lambda>l. l @ [10]) head)
          @ (concat (map render_comment late) @ (if cs = [] then hint @ [10] else []))))"
    by (simp add: render_comments_def Let_def title_def more_def hint_def head_def late_def)
  then have "split_on 10 (render_comments (Inr cs) empty_hint)
      = ([[], title] @ head) @ concat (map (\<lambda>c. header_line c # body_lines c @ [[]]) late)
        @ (if cs = [] then [hint] else []) @ [[]]"
    by (simp add: split_printable(1) [OF texts(1)] head split tail)
  moreover have "\<forall>l \<in> set (([[], title] @ head) @ (if cs = [] then [hint] else []) @ [[]]). printable l"
    using texts by (auto simp: head_def)
  moreover have "\<forall>c \<in> set cs. filter guest_control (header_line c) = replicate 6 0x1b
      \<and> (\<forall>l \<in> set (body_lines c). printable l \<and> prefix spaces l)"
    using header_line_controls dates body_lines_printable by blast
  ultimately show ?thesis unfolding late_def by blast
qed

definition evil_comment :: guest_comment where
  "evil_comment = \<lparr>gc_number = 1, gc_target = ''/'', gc_author = 0x1b # u_of ''[31mroot'', gc_date10 = ''2026-01-31'',
     gc_text = [10, 0x1b, 35, 50], gc_reply_to = None\<rparr>"

theorem comments_cannot_forge_witness:
  "load_snapshot (\<lambda>_. Some evil_comment) (Some [65, 10]) ''/'' = Inr [evil_comment]
    \<and> (\<exists>first last. split_on 10 (render_comments (Inr [evil_comment]) [])
        = first @ (header_line evil_comment # body_lines evil_comment @ [[]]) @ last \<and> (\<forall>l \<in> set (first @ last). printable l))"
proof -
  have load: "load_snapshot (\<lambda>_. Some evil_comment) (Some [65, 10]) ''/'' = Inr [evil_comment]"
  proof -
    have "guest_fields_ok evil_comment" by code_simp
    moreover have "from_utf8 [65, 10] \<noteq> None" by (rule from_utf8_ascii) simp
    ultimately show ?thesis
      by (simp add: load_snapshot_def chomp_cr_def counter_def checked_add_def check_parent_def strip_suffix_def)
        (simp add: evil_comment_def)
  qed
  from comments_cannot_forge [OF load, of "[]"] show ?thesis by (simp add: load MAX_SHOWN_def)
qed

section \<open>The URL\<close>

definition url_actions :: "blog_action list \<Rightarrow> string list" where
  "url_actions acts = concat (map (\<lambda>a. case a of Send s \<Rightarrow>
     (case strip_prefix (0x1b # u_of '']7777;url='') s of Some p \<Rightarrow> [map char_of (butlast p)] | None \<Rightarrow> []) | _ \<Rightarrow> []) acts)"

lemma strip_prefix_Cons:
  "strip_prefix (a # p) (b # s) = (if a = b then strip_prefix p s else None)" "strip_prefix [] s = Some s"
  by (simp_all add: strip_prefix_def)

lemma url_actions_simps [simp]:
  "url_actions [] = []" "url_actions (a @ b) = url_actions a @ url_actions b"
  "url_actions (Send (osc_url p) # acts) = p # url_actions acts"
  "url_actions (Run_reader r # acts) = url_actions acts" "url_actions (Run_pager r # acts) = url_actions acts"
  "url_actions (Cat_file r # acts) = url_actions acts" "url_actions (Message # acts) = url_actions acts"
  by (simp_all add: url_actions_def osc_url_def u_of_def comp_def strip_prefix_Cons)

lemma url_actions_title: "url_actions (emit_title t) = []"
  by (simp add: emit_title_def url_actions_def osc_title_def u_of_def strip_prefix_Cons)

lemma render_comments_start: "\<exists>s. render_comments r h = 10 # s"
  by (cases r) (simp_all add: render_comments_def Let_def)

lemma url_actions_comments: "url_actions (render_article_comments utf8 fj env a) = []"
proof -
  have "url_actions [Send (render_comments r h)] = []" for r h
    using render_comments_start [of r h] by (auto simp: url_actions_def strip_prefix_Cons)
  then show ?thesis by (auto simp: render_article_comments_def split: option.splits sum.splits)
qed

lemma url_actions_file: "show_file env p = (acts, code) \<Longrightarrow> url_actions acts = []"
  by (auto simp: show_file_def split: if_splits)

lemma show_article_urls:
  "show_article utf8 fj env home f a = (acts, code) \<Longrightarrow>
     url_actions acts = [ae_route a, ''/''] \<and> last acts = Send (osc_url ''/'')"
  by (auto simp: show_article_def Let_def url_actions_title url_actions_comments url_actions_file
      split: option.splits prod.splits if_splits)

text \<open>C38: the page follows the article that is read: a run of \<open>blog\<close> either sends no URL, or it shows an
  article of the index, the one whose source is the file that was named; then the URL of the article
  is sent before its text, and \<open>/\<close> as the very last thing, however the reader or the pager ends.\<close>

theorem blog_restores_url:
  assumes "blog utf8 index_json from_json env args = (acts, code)"
  shows "url_actions acts = [] \<or>
    (\<exists>home arg path entries article. ge_home env = Some home \<and> arg \<in> set args \<and> resolve_file env arg home = Some path
       \<and> load_machine_index index_json (ge_read env (path_join (path_join home ''.rendered'') ''.index.json'')) = Some entries
       \<and> Option.bind (home_relative_file env path home) entries = Some article
       \<and> url_actions acts = [ae_route article, ''/''] \<and> last acts = Send (osc_url ''/''))"
proof (cases "url_actions acts = []")
  case False
  obtain home where home: "ge_home env = Some home" using assms False by (cases "ge_home env") (auto simp: blog_def)
  have args: "args \<noteq> []" "args \<noteq> [[]]" "\<not> (hd args \<noteq> ''--'' \<and> prefix ''-'' (hd args))"
    using assms False by (auto simp: blog_def home Let_def list_articles_def split: if_splits)
  let ?ops = "if hd args = ''--'' then tl args else args"
  obtain arg where arg: "?ops = [arg]"
    using assms False args by (cases ?ops rule: remdups_adj.cases) (auto simp: blog_def home Let_def)
  then have "arg \<in> set args" using args(1) by (cases args) (auto split: if_splits)
  moreover obtain path where path: "resolve_file env arg home = Some path"
    using assms False args arg by (cases "resolve_file env arg home") (auto simp: blog_def home Let_def)
  moreover obtain entries where entries:
    "load_machine_index index_json (ge_read env (path_join (path_join home ''.rendered'') ''.index.json'')) = Some entries"
    using assms False args arg path url_actions_file
    by (cases "load_machine_index index_json (ge_read env (path_join (path_join home ''.rendered'') ''.index.json''))")
      (auto simp: blog_def home Let_def split: prod.splits)
  moreover obtain article where article: "Option.bind (home_relative_file env path home) entries = Some article"
    using assms False args arg path entries url_actions_file
    by (cases "Option.bind (home_relative_file env path home) entries") (auto simp: blog_def home Let_def)
  moreover have "show_article utf8 from_json env home path article = (acts, code)"
    using assms args arg path entries article by (simp add: blog_def home Let_def)
  from show_article_urls [OF this] have "url_actions acts = [ae_route article, ''/'']" "last acts = Send (osc_url ''/'')" by simp_all
  ultimately show ?thesis using home by blast
qed simp

definition sample_guest :: guest_env where
  "sample_guest = \<lparr>ge_home = Some ''/home/guest'',
     ge_is_file = (\<lambda>p. p \<in> {''/home/guest/notes/a.md'', ''/home/guest/.rendered/notes/a''}),
     ge_canonical = Some, ge_read = (\<lambda>p. if p = ''/home/guest/.rendered/.index.json'' then Some [] else None),
     ge_terminal = True, ge_reader = (\<lambda>_ _. None), ge_pager = (\<lambda>_. 130), ge_cat = (\<lambda>_. True)\<rparr>"

definition guest_index :: article_index where
  "guest_index = \<lparr>ai_version = 1, ai_articles =
     [\<lparr>ae_date10 = ''2026-01-31'', ae_source_rel = ''notes/a.md'', ae_key = ''notes/a'', ae_route = ''/notes/a/'', ae_title = [65]\<rparr>]\<rparr>"

theorem blog_restores_url_witness:
  "\<exists>acts route. blog (\<lambda>_. None) (\<lambda>_. Some guest_index) (\<lambda>_. None) sample_guest [''notes/a''] = (acts, 130)
    \<and> url_actions acts = [route, ''/''] \<and> last acts = Send (osc_url ''/'')"
proof -
  let ?acts = "emit_title [65] @ [Send (osc_url ''/notes/a/''), Run_pager ''/home/guest/.rendered/notes/a'', Send (osc_url ''/'')]"
  have run: "blog (\<lambda>_. None) (\<lambda>_. Some guest_index) (\<lambda>_. None) sample_guest [''notes/a''] = (?acts, 130)" by code_simp
  have "url_actions ?acts \<noteq> []" by simp
  with blog_restores_url [OF run] run show ?thesis by blast
qed

section \<open>The manifest of the scopes\<close>

lemma attachment_from_directory_iff:
  "attachment_from_directory_rel d = Inr a \<longleftrightarrow> scope_directory d \<and> a = comment_attachment_of (scope_at d)"
  by (auto simp: attachment_Inr scope_directory_def comment_attachment_of_def scope_at_def dest: path_of_not_Nil)

lemma attachment_of_simps [simp]:
  "ca_directory_rel (comment_attachment_of (scope_at d)) = d"
  "ca_fifo_rel (comment_attachment_of s) = cs_comment_rel s" "ca_target (comment_attachment_of s) = cs_target s"
  by (simp_all add: comment_attachment_of_def)

lemma fifo_directory:
  "(if cs_comment_rel (scope_at d) = ''comment'' then Some [] else strip_suffix ''/comment'' (cs_comment_rel (scope_at d))) = Some d"
  by (cases "d = []") (auto simp: scope_at_def dest: arg_cong [where f = length])

lemma attachment_lines_Cons:
  "attachment_lines index m (l # ls) = Inr m' \<longleftrightarrow>
     (\<exists>d. scope_directory d \<and> l = manifest_line d \<and> m d = None
        \<and> attachment_lines (index + 1) (m(d \<mapsto> comment_attachment_of (scope_at d))) ls = Inr m')"
  (is "?L \<longleftrightarrow> ?R")
proof
  assume l: ?L
  then obtain fifo target where ft: "split_once (CHR 0x09) l = Some (fifo, target)"
    by (cases "split_once (CHR 0x09) l") auto
  with l obtain directory where dir: "(if fifo = ''comment'' then Some [] else strip_suffix ''/comment'' fifo) = Some directory"
    by (cases "if fifo = ''comment'' then Some [] else strip_suffix ''/comment'' fifo") (auto split: if_splits)
  with l ft obtain a where a: "attachment_from_directory_rel directory = Inr a" "ca_fifo_rel a = fifo" "ca_target a = target"
    "m (ca_directory_rel a) = None" "attachment_lines (index + 1) (m(ca_directory_rel a \<mapsto> a)) ls = Inr m'"
    by (cases "attachment_from_directory_rel directory") (auto split: if_splits)
  then show ?R
    using ft by (intro exI [of _ directory]) (auto simp: attachment_from_directory_iff split_once_Some manifest_line_def)
next
  assume ?R
  then obtain d where d: "scope_directory d" "l = manifest_line d" "m d = None"
    "attachment_lines (index + 1) (m(d \<mapsto> comment_attachment_of (scope_at d))) ls = Inr m'" by blast
  moreover have "attachment_from_directory_rel d = Inr (comment_attachment_of (scope_at d))"
    using d(1) by (simp add: attachment_from_directory_iff)
  ultimately show ?L
    using split_manifest_line [OF d(1)] scope_at_no_tab(2) [OF d(1)] fifo_directory [of d] by simp
qed

lemma attachment_lines_Inr:
  "attachment_lines index m ls = Inr m' \<longleftrightarrow>
     (\<exists>ds. (\<forall>d \<in> set ds. scope_directory d \<and> m d = None) \<and> distinct ds \<and> ls = map manifest_line ds
        \<and> m' = (\<lambda>d. if d \<in> set ds then Some (comment_attachment_of (scope_at d)) else m d))"
proof (induction ls arbitrary: index m)
  case (Cons l ls)
  show ?case (is "?L \<longleftrightarrow> ?R")
  proof
    assume ?L
    then obtain d ds where "scope_directory d" "l = manifest_line d" "m d = None"
      "\<forall>e \<in> set ds. scope_directory e \<and> (m(d \<mapsto> comment_attachment_of (scope_at d))) e = None" "distinct ds"
      "ls = map manifest_line ds"
      "m' = (\<lambda>e. if e \<in> set ds then Some (comment_attachment_of (scope_at e)) else (m(d \<mapsto> comment_attachment_of (scope_at d))) e)"
      unfolding attachment_lines_Cons Cons.IH by blast
    then show ?R by (intro exI [of _ "d # ds"]) (auto split: if_splits)
  next
    assume ?R
    then obtain d ds where "scope_directory d" "l = manifest_line d" "m d = None" "d \<notin> set ds" "distinct ds"
      "\<forall>e \<in> set ds. scope_directory e \<and> m e = None" "ls = map manifest_line ds"
      "m' = (\<lambda>e. if e \<in> set (d # ds) then Some (comment_attachment_of (scope_at e)) else m e)"
      by (auto simp: Cons_eq_map_conv)
    then show ?L
      unfolding attachment_lines_Cons Cons.IH
      by (intro exI [of _ d] conjI exI [of _ ds]) auto
  qed
qed auto

text \<open>The guest reads the manifest of the scopes as jaild does: both accept the same texts, and then
  the guest has an attachment for exactly the directories of jaild's scopes, with their FIFO and target.\<close>

theorem guest_reads_scopes_as_jaild:
  "isl (parse_attachments text) = isl (parse_scope_manifest text)
    \<and> (\<forall>scopes m. parse_scope_manifest text = Inr scopes \<and> parse_attachments text = Inr m \<longrightarrow>
         (\<forall>d a. m d = Some a \<longleftrightarrow> (\<exists>s \<in> set scopes. cs_directory_rel s = d \<and> a = comment_attachment_of s)))"
proof (intro conjI allI impI)
  let ?lines = "lines_of (CHR 0x0A) (CHR 0x0D) text"
  let ?P = "\<lambda>ds. (\<forall>d \<in> set ds. scope_directory d) \<and> distinct ds \<and> ?lines = map manifest_line ds"
  have guest: "parse_attachments text = Inr m \<longleftrightarrow>
      (\<exists>ds. ?P ds \<and> m = (\<lambda>d. if d \<in> set ds then Some (comment_attachment_of (scope_at d)) else None))" for m
    unfolding parse_attachments_def attachment_lines_Inr by simp
  have jaild: "parse_scope_manifest text = Inr scs \<longleftrightarrow> (\<exists>ds. ?P ds \<and> scs = sort_key cs_comment_rel (map scope_at ds))" for scs
    unfolding parse_scope_manifest_Inr by blast
  have iff: "(\<exists>m. parse_attachments text = Inr m) \<longleftrightarrow> (\<exists>scs. parse_scope_manifest text = Inr scs)"
    unfolding guest jaild by blast
  then show "isl (parse_attachments text) = isl (parse_scope_manifest text)"
    by (cases "parse_attachments text"; cases "parse_scope_manifest text") auto
  fix scopes m d a
  assume "parse_scope_manifest text = Inr scopes \<and> parse_attachments text = Inr m"
  then obtain ds es where "?P ds" "m = (\<lambda>d. if d \<in> set ds then Some (comment_attachment_of (scope_at d)) else None)"
    "?P es" "scopes = sort_key cs_comment_rel (map scope_at es)"
    unfolding guest jaild by blast
  moreover from this have "ds = es"
    using map_inj_on [of manifest_line ds es] manifest_line_inj by (auto simp: inj_on_def)
  ultimately show "m d = Some a \<longleftrightarrow> (\<exists>s \<in> set scopes. cs_directory_rel s = d \<and> a = comment_attachment_of s)" by auto
qed

end
