(* ===== verification/Guest_Player.thy ===== *)
theory Guest_Player
  imports Rust_Text Content_Model Contracts
begin

text \<open>
  \<^verbatim>\<open>crates/tools/jailbin/src/play.rs\<close>: the player of terminal recordings.  The numbers of a
  recording are of the type \<open>'f\<close>, with the operations on \<^verbatim>\<open>f64\<close> that the program uses as an argument;
  the parser of JSON is an argument.
\<close>

section \<open>The recording\<close>

record 'f f64_ops =
  fo_zero :: 'f
  fo_max :: "'f \<Rightarrow> 'f \<Rightarrow> 'f"
  fo_add :: "'f \<Rightarrow> 'f \<Rightarrow> 'f"
  fo_sub :: "'f \<Rightarrow> 'f \<Rightarrow> 'f"
  fo_div :: "'f \<Rightarrow> 'f \<Rightarrow> 'f"
  fo_less :: "'f \<Rightarrow> 'f \<Rightarrow> bool"
  fo_finite :: "'f \<Rightarrow> bool"

text \<open>A JSON number is seen as an unsigned integer, if it is one, and as a float.\<close>

datatype 'f json = J_null | J_bool bool | J_number "u64 option" 'f | J_string ustr
  | J_array "'f json list" | J_object "(string \<times> 'f json) list"

record 'f out_event =
  oe_t :: 'f
  oe_data :: ustr

record 'f cast =
  ca_version :: u64
  ca_cols :: u16
  ca_rows :: u16
  ca_title :: "ustr option"
  ca_idle_time_limit :: "'f option"
  ca_events :: "'f out_event list"

datatype cast_error =
    Empty_file | Header_json nat | Version_missing | Version_unsupported u64 | Event_json nat
  | Stdout_missing | Pair_invalid nat | Term_missing | Field_invalid string

fun json_get :: "string \<Rightarrow> 'f json \<Rightarrow> 'f json option" where
  "json_get key (J_object es) = map_of es key"
| "json_get key _ = None"

fun json_u64 :: "'f json \<Rightarrow> u64 option" where
  "json_u64 (J_number n _) = n"
| "json_u64 _ = None"

fun json_f64 :: "'f json \<Rightarrow> 'f option" where
  "json_f64 (J_number _ f) = Some f"
| "json_f64 _ = None"

fun json_str :: "'f json \<Rightarrow> ustr option" where
  "json_str (J_string s) = Some s"
| "json_str _ = None"

fun json_array :: "'f json \<Rightarrow> 'f json list option" where
  "json_array (J_array vs) = Some vs"
| "json_array _ = None"

definition get_u16 :: "'f json \<Rightarrow> string \<Rightarrow> cast_error + u16" where
  "get_u16 v key =
     (case Option.bind (json_get key v) json_u64 of
        None \<Rightarrow> Inl (Field_invalid key)
      | Some n \<Rightarrow> if n < 2 ^ 16 then Inr (ucast n) else Inl (Field_invalid key))"

fun delay_pair :: "'f json \<Rightarrow> ('f \<times> ustr) option" where
  "delay_pair (J_array [J_number _ d, J_string s]) = Some (d, s)"
| "delay_pair _ = None"

fun event_triple :: "'f json \<Rightarrow> ('f \<times> ustr \<times> ustr) option" where
  "event_triple (J_array [J_number _ t, J_string code, J_string s]) = Some (t, code, s)"
| "event_triple _ = None"

fun v1_events :: "'f f64_ops \<Rightarrow> nat \<Rightarrow> 'f \<Rightarrow> 'f json list \<Rightarrow> cast_error + 'f out_event list" where
  "v1_events ops i acc [] = Inr []"
| "v1_events ops i acc (item # items) =
     (case delay_pair item of
        None \<Rightarrow> Inl (Pair_invalid i)
      | Some (d, s) \<Rightarrow>
          let acc = fo_add ops acc (fo_max ops d (fo_zero ops))
          in and_then (v1_events ops (i + 1) acc items) (\<lambda>es. Inr (\<lparr>oe_t = acc, oe_data = s\<rparr> # es)))"

definition parse_v1 :: "'f f64_ops \<Rightarrow> 'f json \<Rightarrow> cast_error + 'f cast" where
  "parse_v1 ops doc =
     and_then (get_u16 doc ''width'') (\<lambda>cols.
     and_then (get_u16 doc ''height'') (\<lambda>rows.
       case Option.bind (json_get ''stdout'' doc) json_array of
         None \<Rightarrow> Inl Stdout_missing
       | Some stdout \<Rightarrow>
           and_then (v1_events ops 0 (fo_zero ops) stdout) (\<lambda>events.
             Inr \<lparr>ca_version = 1, ca_cols = cols, ca_rows = rows, ca_title = Option.bind (json_get ''title'' doc) json_str,
                  ca_idle_time_limit = None, ca_events = events\<rparr>)))"

definition parse_v23 :: "u64 \<Rightarrow> 'f json \<Rightarrow> cast_error + 'f cast" where
  "parse_v23 version header =
     and_then
       (if version = 2
        then and_then (get_u16 header ''width'') (\<lambda>c. and_then (get_u16 header ''height'') (\<lambda>r. Inr (c, r)))
        else case json_get ''term'' header of
            None \<Rightarrow> Inl Term_missing
          | Some t \<Rightarrow> and_then (get_u16 t ''cols'') (\<lambda>c. and_then (get_u16 t ''rows'') (\<lambda>r. Inr (c, r))))
       (\<lambda>(cols, rows).
          Inr \<lparr>ca_version = version, ca_cols = cols, ca_rows = rows,
               ca_title = Option.bind (json_get ''title'' header) json_str,
               ca_idle_time_limit = Option.bind (json_get ''idle_time_limit'' header) json_f64, ca_events = []\<rparr>)"

text \<open>The lines after the header, with their numbers.\<close>

fun event_lines ::
  "'f f64_ops \<Rightarrow> (ustr \<Rightarrow> 'f json option) \<Rightarrow> u64 \<Rightarrow> 'f \<Rightarrow> (nat \<times> ustr) list \<Rightarrow> cast_error + 'f out_event list"
where
  "event_lines ops json version prev_t [] = Inr []"
| "event_lines ops json version prev_t ((ln, line) # rest) =
     (if prefix [35] (trim line) then event_lines ops json version prev_t rest
      else case Option.bind (json (trim line)) event_triple of
          None \<Rightarrow> Inl (Event_json (ln + 1))
        | Some (d, code, s) \<Rightarrow>
            let t = (if version = 3 then fo_add ops prev_t (fo_max ops d (fo_zero ops)) else fo_max ops d prev_t)
            in and_then (event_lines ops json version t rest) (\<lambda>es.
                 Inr (if code = u_of ''o'' then \<lparr>oe_t = t, oe_data = s\<rparr> # es else es)))"

definition parse_lines :: "'f f64_ops \<Rightarrow> (ustr \<Rightarrow> 'f json option) \<Rightarrow> ustr \<Rightarrow> cast_error + 'f cast" where
  "parse_lines ops json text =
     (case filter (\<lambda>(_, l). trim l \<noteq> []) (enumerate 0 (lines_of 10 13 text)) of
        [] \<Rightarrow> Inl Empty_file
      | (ln, first) # rest \<Rightarrow>
          (case json first of
             None \<Rightarrow> Inl (Header_json (ln + 1))
           | Some header \<Rightarrow>
               (case Option.bind (json_get ''version'' header) json_u64 of
                  None \<Rightarrow> Inl Version_missing
                | Some version \<Rightarrow>
                    if version \<noteq> 2 \<and> version \<noteq> 3 then Inl (Version_unsupported version)
                    else and_then (parse_v23 version header) (\<lambda>cast.
                         and_then (event_lines ops json version (fo_zero ops) rest) (\<lambda>events.
                           Inr (cast\<lparr>ca_events := events\<rparr>))))))"

definition parse_cast :: "'f f64_ops \<Rightarrow> (ustr \<Rightarrow> 'f json option) \<Rightarrow> ustr \<Rightarrow> cast_error + 'f cast" where
  "parse_cast ops json text =
     (case json text of
        Some doc \<Rightarrow>
          if Option.bind (json_get ''version'' doc) json_u64 = Some 1 then parse_v1 ops doc
          else parse_lines ops json text
      | None \<Rightarrow> parse_lines ops json text)"

section \<open>The times\<close>

fun idle_loop :: "'f f64_ops \<Rightarrow> 'f \<Rightarrow> 'f \<Rightarrow> 'f \<Rightarrow> 'f out_event list \<Rightarrow> 'f out_event list" where
  "idle_loop ops limit prev offset [] = []"
| "idle_loop ops limit prev offset (ev # evs) =
     (let delay = fo_sub ops (oe_t ev) prev;
          offset = (if fo_less ops limit delay then fo_add ops offset (fo_sub ops delay limit) else offset)
      in ev\<lparr>oe_t := fo_sub ops (oe_t ev) offset\<rparr> # idle_loop ops limit (oe_t ev) offset evs)"

definition apply_idle_limit :: "'f f64_ops \<Rightarrow> 'f out_event list \<Rightarrow> 'f \<Rightarrow> 'f out_event list" where
  "apply_idle_limit ops events limit =
     (if \<not> fo_finite ops limit \<or> \<not> fo_less ops (fo_zero ops) limit then events
      else idle_loop ops limit (fo_zero ops) (fo_zero ops) events)"

definition apply_speed :: "'f f64_ops \<Rightarrow> 'f out_event list \<Rightarrow> 'f \<Rightarrow> 'f out_event list" where
  "apply_speed ops events speed = map (\<lambda>ev. ev\<lparr>oe_t := fo_div ops (oe_t ev) speed\<rparr>) events"

section \<open>Playing\<close>

text \<open>What a wait for a key brings: nothing in time, the end of the input, the first byte of what was
  typed.  Once the input has ended \<open>wait_key\<close> returns at once.\<close>

datatype key_event = No_key | Input_ends | Typed u8

definition wait_key :: "bool \<Rightarrow> key_event \<Rightarrow> u8 option \<times> bool" where
  "wait_key stdin_open ev =
     (if \<not> stdin_open then (None, False)
      else case ev of
          No_key \<Rightarrow> (None, True)
        | Input_ends \<Rightarrow> (None, False)
        | Typed b \<Rightarrow> (if b = 0x1b then None else Some b, True))"

text \<open>Instants and durations are nanoseconds; an event is its time after the start and its bytes.\<close>

record player =
  py_i :: nat
  py_paused :: "nat option"
  py_epoch :: nat
  py_open :: bool
  py_out :: bytes

datatype played = Plays player | Played bytes

definition QUIT_KEYS :: "u8 set" where "QUIT_KEYS = {0x71, 0x03}"

text \<open>One round of the loops: the time it reads, the key it waits for, the time it reads after that,
  and whether the terminal takes what is written.\<close>

record player_input =
  pin_now :: nat
  pin_key :: key_event
  pin_later :: nat
  pin_accepts :: bool

definition emit_event :: "(nat \<times> bytes) list \<Rightarrow> bool \<Rightarrow> player \<Rightarrow> played" where
  "emit_event events accepts p =
     (if accepts then Plays (p\<lparr>py_i := py_i p + 1, py_out := py_out p @ snd (events ! py_i p)\<rparr>)
      else Played (py_out p))"

definition paused_step :: "(nat \<times> bytes) list \<Rightarrow> player_input \<Rightarrow> nat \<Rightarrow> player \<Rightarrow> played" where
  "paused_step events inp pause_start p =
     (case wait_key (py_open p) (pin_key inp) of
        (key, still_open) \<Rightarrow>
          let p = p\<lparr>py_open := still_open\<rparr>
          in if key = Some 0x20
             then Plays (p\<lparr>py_epoch := py_epoch p + (pin_later inp - pause_start), py_paused := None\<rparr>)
             else if key = Some 0x2e then emit_event events (pin_accepts inp) p
             else if key \<in> Some ` QUIT_KEYS then Played (py_out p @ (if pin_accepts inp then [13, 10] else []))
             else Plays p)"

definition playing_step :: "(nat \<times> bytes) list \<Rightarrow> player_input \<Rightarrow> player \<Rightarrow> played" where
  "playing_step events inp p =
     (if py_epoch p + fst (events ! py_i p) \<le> pin_now inp then emit_event events (pin_accepts inp) p
      else case wait_key (py_open p) (pin_key inp) of
          (key, still_open) \<Rightarrow>
            let p = p\<lparr>py_open := still_open\<rparr>
            in if key = Some 0x20 then Plays (p\<lparr>py_paused := Some (pin_later inp)\<rparr>)
               else if key \<in> Some ` QUIT_KEYS then Played (py_out p @ (if pin_accepts inp then [13, 10] else []))
               else if key = None \<and> \<not> still_open then emit_event events (pin_accepts inp) p
               else Plays p)"

definition player_step :: "(nat \<times> bytes) list \<Rightarrow> player_input \<Rightarrow> player \<Rightarrow> played" where
  "player_step events inp p =
     (if length events \<le> py_i p then Played (py_out p)
      else case py_paused p of
          Some pause_start \<Rightarrow> paused_step events inp pause_start p
        | None \<Rightarrow> playing_step events inp p)"

fun play_interactive :: "(nat \<times> bytes) list \<Rightarrow> player_input list \<Rightarrow> player \<Rightarrow> played" where
  "play_interactive events [] p = Plays p"
| "play_interactive events (inp # inps) p =
     (case player_step events inp p of Played out \<Rightarrow> Played out | Plays p \<Rightarrow> play_interactive events inps p)"

definition player_start :: "nat \<Rightarrow> bool \<Rightarrow> player" where
  "player_start now terminal = \<lparr>py_i = 0, py_paused = None, py_epoch = now, py_open = terminal, py_out = []\<rparr>"

end
