(* ===== verification/Guest_Player_Properties.thy ===== *)
theory Guest_Player_Properties
  imports Guest_Player
begin

text \<open>
  What the player writes is the recording, in order and not before its time, whatever is typed; and
  what becomes of it when the input ends.
\<close>

section \<open>From the file to the events\<close>








section \<open>Playing\<close>

definition written_until :: "(nat \<times> bytes) list \<Rightarrow> nat \<Rightarrow> bytes" where
  "written_until events n = concat (map snd (take n events))"

definition player_ok :: "(nat \<times> bytes) list \<Rightarrow> player \<Rightarrow> bool" where
  "player_ok events p \<longleftrightarrow> py_i p \<le> length events \<and> py_out p = written_until events (py_i p)"

definition quits :: "player_input \<Rightarrow> bool" where
  "quits inp \<longleftrightarrow> pin_key inp \<in> Typed ` QUIT_KEYS"

definition round_ok :: "(nat \<times> bytes) list \<Rightarrow> player_input \<Rightarrow> player \<Rightarrow> played \<Rightarrow> bool" where
  "round_ok events inp p r = (case r of
      Plays p' \<Rightarrow> player_ok events p'
    | Played out \<Rightarrow> (out = written_until events (py_i p) \<and> (py_i p = length events \<or> \<not> pin_accepts inp))
        \<or> (quits inp \<and> out = written_until events (py_i p) @ (if pin_accepts inp then [13, 10] else [])))"

lemma emit_event_ok:
  "player_ok events p \<Longrightarrow> py_i p < length events \<Longrightarrow> round_ok events inp p (emit_event events (pin_accepts inp) p)"
  by (auto simp: emit_event_def player_ok_def written_until_def take_Suc_conv_app_nth round_ok_def)


lemma round_ok_simps [simp]:
  "round_ok events inp (p\<lparr>py_open := b\<rparr>) r = round_ok events inp p r"
  "round_ok events inp p (Plays p') = player_ok events p'"
  "player_ok events (p\<lparr>py_open := b\<rparr>) = player_ok events p"
  "player_ok events (p\<lparr>py_epoch := e\<rparr>) = player_ok events p"
  "player_ok events (p\<lparr>py_paused := q\<rparr>) = player_ok events p"
  by (simp_all add: round_ok_def player_ok_def split: played.split)










definition sample_round :: player_input where
  "sample_round = \<lparr>pin_now = 9, pin_key = No_key, pin_later = 9, pin_accepts = True\<rparr>"


section \<open>When the input ends\<close>

lemma play_out:
  "player_ok events p \<Longrightarrow> \<not> py_open p \<Longrightarrow> py_paused p = None \<Longrightarrow> \<forall>inp \<in> set inps. pin_accepts inp
    \<Longrightarrow> length events - py_i p < length inps \<Longrightarrow> play_interactive events inps p = Played (written_until events (length events))"
proof (induction inps arbitrary: p)
  case (Cons inp inps)
  show ?case
  proof (cases "py_i p < length events")
    case True
    let ?p = "p\<lparr>py_i := py_i p + 1, py_out := py_out p @ snd (events ! py_i p)\<rparr>"
    have p: "p\<lparr>py_open := False\<rparr> = p" using Cons.prems(2) by simp
    have "player_step events inp p = Plays ?p"
      using True Cons.prems p by (simp add: player_step_def playing_step_def wait_key_def emit_event_def Let_def)
    moreover have "player_ok events ?p"
      using emit_event_ok [OF Cons.prems(1) True, of inp] Cons.prems(4) by (simp add: emit_event_def)
    ultimately show ?thesis using Cons.IH [of ?p] Cons.prems True by simp
  next
    case False
    with Cons.prems(1) show ?thesis by (simp add: player_step_def player_ok_def)
  qed
qed simp

lemma spin:
  assumes "py_i p < length events" "\<not> py_open p" "py_paused p = Some start"
  shows "play_interactive events inps p = Plays p"
proof -
  have "p\<lparr>py_open := False\<rparr> = p" using assms(2) by simp
  then have "player_step events inp p = Plays p" for inp
    using assms by (auto simp: player_step_def paused_step_def wait_key_def Let_def)
  then show ?thesis by (induction inps) simp_all
qed

text \<open>C40: when its input ends while it plays, the player plays the rest without waiting and ends; but
  when its input ends while it is paused, it never ends: no round of its loop changes anything any
  more, and as its wait for a key returns at once it goes round without a pause.\<close>

theorem input_end_while_paused_spins:
  assumes "player_ok events p" "py_open p" "py_paused p = None" "py_i p < length events"
    "pin_now i1 < py_epoch p + fst (events ! py_i p)" "pin_key i1 = Typed 0x20" "pin_key i2 = Input_ends"
  shows "(\<exists>stuck. \<forall>inps. play_interactive events (i1 # i2 # inps) p = Plays stuck)
    \<and> (\<forall>inps. (\<forall>inp \<in> set inps. pin_accepts inp) \<and> length events < length inps \<longrightarrow>
          play_interactive events inps (p\<lparr>py_open := False\<rparr>) = Played (written_until events (length events)))"
proof (intro conjI allI impI exI)
  let ?paused = "p\<lparr>py_paused := Some (pin_later i1)\<rparr>"
  let ?stuck = "?paused\<lparr>py_open := False\<rparr>"
  have "player_step events i1 p = Plays ?paused"
    using assms by (simp add: player_step_def playing_step_def wait_key_def Let_def)
  moreover have "player_step events i2 ?paused = Plays ?stuck"
    using assms by (simp add: player_step_def paused_step_def wait_key_def Let_def image_iff)
  moreover have "play_interactive events inps ?stuck = Plays ?stuck" for inps
    by (rule spin) (use assms in simp_all)
  ultimately show "play_interactive events (i1 # i2 # inps) p = Plays ?stuck" for inps by simp
  fix inps :: "player_input list"
  assume "(\<forall>inp \<in> set inps. pin_accepts inp) \<and> length events < length inps"
  then show "play_interactive events inps (p\<lparr>py_open := False\<rparr>) = Played (written_until events (length events))"
    by (intro play_out) (use assms(1,3) in auto)
qed

theorem input_end_while_paused_spins_witness:
  "\<exists>stuck. \<forall>inps. play_interactive [(5, [104, 105])]
     (sample_round\<lparr>pin_now := 1, pin_key := Typed 0x20\<rparr> # sample_round\<lparr>pin_key := Input_ends\<rparr> # inps) (player_start 0 True) = Plays stuck"
  using input_end_while_paused_spins [of "[(5, [104, 105])]" "player_start 0 True"
      "sample_round\<lparr>pin_now := 1, pin_key := Typed 0x20\<rparr>" "sample_round\<lparr>pin_key := Input_ends\<rparr>"]
  by (simp add: player_ok_def player_start_def written_until_def)

end
