(* ===== verification/Spec2Isabelle.thy ===== *)
theory Spec2Isabelle
  imports Content_Properties Wire_Properties Comment_Properties Comment_Views Stats_Properties
    Web_Properties Web_Composition Jail_Properties Jail_Snapshot_Properties Jail_Lifecycle_Properties
    Jail_Cleanup Jail_Reads Session_Client Ssh_Server
    Article_Composition Reader_Properties
    Content_Publication_Properties Content_Images_Properties
    Guest_Properties Guest_Player_Properties
begin

text \<open>
  termblog is a blog that is read in a terminal: a visitor of the web page, or of the SSH port, gets
  a shell in a FreeBSD jail of his own, in which the articles lie as prepared text.  This library
  models its Rust programs, from the compiler of the articles to the reader in the jail, and proves
  what they promise.  Every definition is a translation of the functions under
  \<^verbatim>\<open>src/crates\<close> that its theory names.

  \<^bold>\<open>The parts and how they meet.\<close>  content-build turns the directory of articles into lines for the
  terminal, pages for the web and two manifests.  \<^emph>\<open>web\<close> and \<^emph>\<open>ssh\<close> are the gateways: they open a
  session at jaild over a SEQPACKET socket and pump bytes between the visitor and the session.
  jaild makes a jail for each session, freezes comments and statistics into it, relays its
  terminal, takes the comments that the guest writes to FIFOs to commentd, and the articles that he
  opens to statd.  commentd keeps the log of comments, on a private socket for jaild and commentctl
  and on a public one for web; statd counts readers in SQLite.  In the jail, \<^emph>\<open>jailbin\<close> shows
  an article with its images.  All programs read one configuration.

  \<^bold>\<open>Foundations.\<close>
  \<^item> \<open>Rust_Prelude\<close>, \<open>Rust_Text\<close>, \<open>Rust_Net\<close>, \<open>Rust_Std\<close>: machine integers as words with Rust's
    checked and saturating operations, fallible results as sums with \<open>and_then\<close>, the functions of
    \<open>str\<close> and \<open>IpAddr\<close> that the programs call, ordered maps, file metadata.  Texts of the users are lists of
    scalar values (\<open>ustr\<close>), texts of the programs are HOL strings, wire data are lists of bytes.
  \<^item> \<open>Contracts\<close>: the interfaces as locales.  \<open>invariant_machine\<close> and \<open>monotone_machine\<close> (a
    machine, its invariant and an order in which its states grow), \<open>transactional\<close> (a commit is all
    or nothing), \<open>event_store\<close> (tables that represent a history), \<open>paged_listing\<close> (pages of one
    revision).  They are interpreted by commentd, statd, web and jaild; \<open>framing\<close> in \<open>Proto\<close> and
    \<open>memo\<close> in \<open>Reader_Cache_Facts\<close> state the laws of a codec and of a cache.

  \<^bold>\<open>Paths and frames.\<close>
  \<^item> \<open>Content_Model\<close>, \<open>Content_Manifest\<close>, \<open>Content_Properties\<close>
    (\<^verbatim>\<open>content-model/src/lib.rs\<close>): article paths, comment scopes, targets and routes, the scope
    manifest and the article index; what the parsers accept and that derived names are unique.
  \<^item> \<open>Proto\<close>, \<open>Link\<close>, \<open>Wire_Properties\<close>, \<open>Session_Client\<close> (\<^verbatim>\<open>proto/src/lib.rs\<close>,
    \<^verbatim>\<open>core/src/link.rs\<close>, \<^verbatim>\<open>core/src/client.rs\<close>): the frame (a kind, a length of four bytes and a
    payload of at most \<open>MAX_FRAME\<close> bytes), sending and receiving over a list of kernel answers,
    the handshake, and the pump with the future that \<open>select!\<close> drops.  An exhausted list of answers
    is a call that still waits (\<open>Pending\<close>).

  \<^bold>\<open>commentd\<close> (\<^verbatim>\<open>commentd/src\<close>).
  \<^item> \<open>Comment_Protocol\<close> (\<^verbatim>\<open>protocol.rs\<close>), \<open>Comment_Log\<close> and \<open>Comment_Store\<close> (\<^verbatim>\<open>store.rs\<close>),
    \<open>Comment_Server\<close> (\<^verbatim>\<open>server.rs\<close>, \<^verbatim>\<open>client.rs\<close>, \<^verbatim>\<open>main.rs\<close>).  The daemon is a record of the
    store in memory, the disk and the number of the next temporary file; \<open>commit_io\<close> says which
    system calls of a commit fail.  JSON, SHA-256 and chrono are the record \<open>externals\<close>; what is
    asked of them is \<open>libs_ok\<close>, and \<open>Comment_Sample\<close> gives an instance.
  \<^item> \<open>Comment_Invariant\<close>, \<open>Comment_Service\<close>, \<open>Comment_Answers\<close>, \<open>Comment_Paging\<close>: the log that is
    written is one that is read back; the process as a machine of requests, crashes and restarts;
    the pages as a provider of \<open>paged_listing\<close>.
  \<^item> \<open>Comment_Properties\<close>, \<open>Comment_Views\<close>: durability, atomicity, limits, moderation, the public
    view and its numbers, consistent listings, and what a failed store still answers.

  \<^bold>\<open>statd\<close> (\<^verbatim>\<open>statd/src\<close>).  \<open>Stats_Store\<close> has the tables as maps and the statements that are run on
  them, \<open>Stats_Server\<close> initialisation, opening, dispatch and client; \<open>Stats_Facts\<close> and
  \<open>Stats_Properties\<close> show that the tables count exactly the accepted batches and that a snapshot
  reports these counts.  The counters are 64 bit wide and checked; a batch that would overflow one
  is an error that changes nothing.

  \<^bold>\<open>web\<close> (\<^verbatim>\<open>web/src\<close>).  \<open>Web_Sessions\<close> has the table of sessions, their forwarding tasks, queues and
  grace timers as a machine whose steps lie between two awaits; \<open>Web_Server\<close> one WebSocket
  and the endpoints, \<open>Web_Stats\<close> the counting of static pages.  \<open>Web_Invariant\<close> and
  \<open>Web_Properties\<close>: who is responsible for a session, exact output, replay after a reconnect, and
  the timer that overtakes a visitor who has come back.  \<open>Web_Composition\<close>: what the gateway
  sends to statd and relays from commentd is accepted there.  The queue of a connection holds
  \<open>OUTPUT_CHUNKS\<close> pieces, the scrollback \<open>SCROLLBACK_BYTES\<close> bytes, as in the code.

  \<^bold>\<open>jaild\<close> (\<^verbatim>\<open>jaild/src\<close>).
  \<^item> \<open>Jail_Lifecycle\<close> with its facts and properties, \<open>Jail_Cleanup\<close> (\<^verbatim>\<open>jail.rs\<close>): the commands as
    a log of actions, each answered by an arbitrary environment that sees the log; limits before
    the shell, no limit lifted from a living jail, nothing left behind.  The wait for a jail to go
    away is 40 looks, as in the code, and is total.
  \<^item> \<open>Jail_Snapshot\<close> with its facts and properties (\<^verbatim>\<open>jail.rs\<close>): the comments and statistics frozen
    into a session, the checks on files and answers; \<open>Jail_Reads\<close> (\<^verbatim>\<open>watcher.rs\<close>): the reads that
    are counted.
  \<^item> \<open>Jail_Session\<close> with its facts, \<open>Jail_Relay\<close> with its invariant, \<open>Jail_Properties\<close> (\<^verbatim>\<open>session.rs\<close>,
    \<^verbatim>\<open>main.rs\<close>): the quota, the FIFOs and their kernel events, the two tasks of a session with
    their bounded queues, exact relay, and the state in which both tasks wait for each other.

  \<^bold>\<open>ssh and config.\<close>  \<open>Ssh_Server\<close> (\<^verbatim>\<open>ssh/src/lib.rs\<close>) has the handler of a connection,
  \<open>Config\<close> (\<^verbatim>\<open>config/src/lib.rs\<close>) the tables, defaults and checks.

  \<^bold>\<open>content-build\<close> (\<^verbatim>\<open>content-build/src\<close>).  \<open>Ansi_Line\<close> and \<open>Ansi_Block\<close> (\<^verbatim>\<open>ansi.rs\<close>) write the tree
  of blocks as lines of at most \<open>WIDTH\<close> = 76 columns and note where the images go; \<open>Ansi_Facts\<close>,
  \<open>Ansi_Wrap\<close>, \<open>Ansi_Block_Facts\<close>, \<open>Ansi_Anchors\<close>: line breaking keeps characters, styles and
  links, the boxes of the images lie one after the other inside the lines.

  \<open>Content_Images\<close>, \<open>Content_Images_Properties\<close> (\<^verbatim>\<open>img.rs\<close> and the loop over the references in
  \<^verbatim>\<open>main.rs\<close>): where an image lies, whether it goes into the terminal or is a link, its budgets, and
  that the images of a build without errors are taken by the reader.

  \<open>Content_Tree\<close>, \<open>Content_Outputs\<close>, \<open>Content_Publish\<close>, \<open>Content_Publication\<close> with their facts
  (\<^verbatim>\<open>main.rs\<close>): the web directory as a tree of nodes, the claims on outputs and the manifest of the
  last build, staging, and the publication as a list of file operations that may stop at any of them.
  \<open>Content_Publication_Properties\<close>: a build whose claims passed is published to the end and changes
  nothing else, the next build reads its manifest back, and one that was interrupted leaves a
  conflict.

  \<^bold>\<open>jailbin\<close> (\<^verbatim>\<open>jailbin/src/blog\<close>).  \<open>Reader_Spans\<close>, \<open>Reader_View\<close>, \<open>Reader_Cache\<close>, \<open>Reader_Exit\<close>,
  \<open>Reader_Tui\<close> (\<^verbatim>\<open>reader.rs\<close>, \<^verbatim>\<open>iip.rs\<close>): the checks on a prepared article, the spans of a line, the
  rows of the model, the caches (the sizes of the LRUs are the constants of the code), the
  frames and the loop over the events.  \<open>Reader_View_Facts\<close>, \<open>Reader_Cache_Facts\<close>,
  \<open>Reader_Tui_Facts\<close>, \<open>Reader_Frames\<close>: caches change nothing but the work, a full frame shows exactly
  the visible rows of the images.  \<open>Reader_Properties\<close>: the reader is never stuck, a scroll by
  one row draws what a full frame would, a resize keeps the place.  \<open>Article_Composition\<close>: what
  content-build writes the reader opens.

  \<open>Guest_Comments\<close> (\<^verbatim>\<open>comments.rs\<close>), \<open>Guest_Blog\<close> (\<^verbatim>\<open>mod.rs\<close>, \<^verbatim>\<open>webctl.rs\<close>, the start of the reader)
  and \<open>Guest_Player\<close> (\<^verbatim>\<open>jailbin/src/play.rs\<close>) are the commands of the guest: the frozen comments from
  the file to the screen, \<open>blog\<close> as a list of actions in an environment that says what it finds and
  how the programs it starts end, and the player of recordings as rounds over the keys and times it
  is given.  \<open>Guest_Comments_Properties\<close>: the guest sees of the log of commentd what the web
  shows.  \<open>Guest_Properties\<close>: comments cannot forge lines or sequences, the address of the page comes
  back, the manifest of the scopes is read as jaild reads it.  \<open>Guest_Player_Properties\<close>: what is
  played, and the pause that never ends.

  \<^bold>\<open>Bounds and fuel.\<close>  Recursions are structural or have a measure, so that there is no fuel except where
  the code itself counts (the 40 looks for a jail, the four further rounds of a listing that keeps
  changing).  A loop over a socket, a queue or a terminal recurses over the list of the answers
  or events it is given, and the liveness properties quantify over these lists.

  \<^bold>\<open>Not modelled.\<close>  System calls, threads and the runtime: a blocking call is an argument or
  a step.  Libraries: JSON, TOML, SQLite, SHA-256 and HMAC, chrono, pulldown-cmark, the crates
  image, russh, axum and rustls are arguments with the facts that are used of them as hypotheses.
  Floating-point numbers are a type with its operations as an argument.
  The entry points (arguments, root checks, signals), the set-up of the listeners, \<^verbatim>\<open>pty.rs\<close> and the
  child before exec are glue over system calls.  The pages for the web (\<^verbatim>\<open>html.rs\<close>, \<^verbatim>\<open>feed.rs\<close>)
  and the dates and titles (\<^verbatim>\<open>meta.rs\<close>) are templates over the events of the Markdown parser and
  the answers of git; the scan of the content directory only sorts names into lists.  The browser's
  part is TypeScript.
\<close>

end
